(* ===== verification/Xv6_Prelude.thy ===== *)
theory Xv6_Prelude
  imports "HOL-Library.Word"
begin

text \<open>
  Shared vocabulary of the development: the machine integers of the C code, the
  state-and-error monad in which every kernel routine is written, byte-addressed memory with
  little-endian 32-bit access, and the generic facts about these that the component theories
  use. The collections \<open>kmonad\<close> (rewriting of monadic code) and \<open>flag_bits\<close> (which bit a
  flag constant stands for) are filled here and in the later theories.
\<close>

unbundle bit_operations_syntax

type_synonym u8 = "8 word"
type_synonym u16 = "16 word"
type_synonym u32 = "32 word"

type_synonym memory = "u32 \<Rightarrow> u8"

named_theorems kmonad
named_theorems flag_bits

section \<open>Kernel computations: state passing with errors as values\<close>

text \<open>
  A computation takes the state and either fails with an error (a panic, a fault, undefined
  behaviour) or returns a value and the new state.
\<close>

type_synonym ('s, 'e, 'a) kcomp = "'s \<Rightarrow> 'e + ('a \<times> 's)"

definition kret :: "'a \<Rightarrow> ('s, 'e, 'a) kcomp" where
  "kret x = (\<lambda>s. Inr (x, s))"

definition kfail :: "'e \<Rightarrow> ('s, 'e, 'a) kcomp" where
  "kfail e = (\<lambda>s. Inl e)"

definition kbind :: "('s, 'e, 'a) kcomp \<Rightarrow> ('a \<Rightarrow> ('s, 'e, 'b) kcomp) \<Rightarrow> ('s, 'e, 'b) kcomp" where
  "kbind m f = (\<lambda>s. case m s of Inl e \<Rightarrow> Inl e | Inr (x, s') \<Rightarrow> f x s')"

definition kget :: "('s \<Rightarrow> 'a) \<Rightarrow> ('s, 'e, 'a) kcomp" where
  "kget f = (\<lambda>s. Inr (f s, s))"

definition kmod :: "('s \<Rightarrow> 's) \<Rightarrow> ('s, 'e, unit) kcomp" where
  "kmod f = (\<lambda>s. Inr ((), f s))"

definition kseq :: "('s, 'e, 'a) kcomp \<Rightarrow> ('s, 'e, 'b) kcomp \<Rightarrow> ('s, 'e, 'b) kcomp" where
  "kseq m n = kbind m (\<lambda>_. n)"

lemma kret_run [simp, kmonad]: "kret x s = Inr (x, s)"
  by (simp add: kret_def)

lemma kfail_run [simp, kmonad]: "kfail e s = Inl e"
  by (simp add: kfail_def)

lemma kget_run [simp, kmonad]: "kget f s = Inr (f s, s)"
  by (simp add: kget_def)

lemma kmod_run [simp, kmonad]: "kmod f s = Inr ((), f s)"
  by (simp add: kmod_def)

lemma kbind_run [kmonad]: "kbind m f s = (case m s of Inl e \<Rightarrow> Inl e | Inr (x, s') \<Rightarrow> f x s')"
  by (simp add: kbind_def)

lemma kseq_run [kmonad]: "kseq m n s = (case m s of Inl e \<Rightarrow> Inl e | Inr (x, s') \<Rightarrow> n s')"
  by (simp add: kseq_def kbind_def)

lemma kbind_eq_Inr: "kbind m f s = Inr r \<longleftrightarrow> (\<exists>x t. m s = Inr (x, t) \<and> f x t = Inr r)"
  by (auto simp: kbind_def split: sum.splits)

lemma kseq_eq_Inr: "kseq m n s = Inr r \<longleftrightarrow> (\<exists>x t. m s = Inr (x, t) \<and> n t = Inr r)"
  by (auto simp: kseq_def kbind_eq_Inr)

lemma kbind_InrE:
  assumes "kbind m f s = Inr r"
  obtains x t where "m s = Inr (x, t)" "f x t = Inr r"
  using assms by (auto simp: kbind_eq_Inr)

lemma kseq_InrE:
  assumes "kseq m n s = Inr r"
  obtains x t where "m s = Inr (x, t)" "n t = Inr r"
  using assms by (auto simp: kseq_eq_Inr)

lemma kbind_assoc: "kbind (kbind m f) g = kbind m (\<lambda>x. kbind (f x) g)"
  by (rule ext) (auto simp: kbind_def split: sum.splits)

text \<open>Running a computation \<open>n\<close> times and collecting its results.\<close>

primrec krepeat :: "nat \<Rightarrow> ('s, 'e, 'a) kcomp \<Rightarrow> ('s, 'e, 'a list) kcomp" where
  "krepeat 0 m = kret []"
| "krepeat (Suc n) m = kbind m (\<lambda>x. kbind (krepeat n m) (\<lambda>xs. kret (x # xs)))"

section \<open>Bytes, words and memory\<close>

lemma word_and_exp_neq_0 [flag_bits]:
  fixes x :: "'a::len word"
  assumes "n < LENGTH('a)"
  shows "x AND 2 ^ n \<noteq> 0 \<longleftrightarrow> bit x n"
proof
  assume "x AND 2 ^ n \<noteq> 0"
  then obtain k where "bit (x AND 2 ^ n) k"
    using bit_eqI [of "x AND 2 ^ n" 0] by auto
  then show "bit x n" by (auto simp: bit_simps)
next
  assume "bit x n"
  then have "bit (x AND 2 ^ n) n" using assms by (simp add: bit_simps)
  then show "x AND 2 ^ n \<noteq> 0" by auto
qed

lemma unat_lt_u32: "unat (a :: u32) < 4294967296"
  using unsigned_less [of a] by simp

definition load32 :: "memory \<Rightarrow> u32 \<Rightarrow> u32" where
  "load32 m a = ucast (m a) OR push_bit 8 (ucast (m (a + 1))) OR
     push_bit 16 (ucast (m (a + 2))) OR push_bit 24 (ucast (m (a + 3)))"

definition store32 :: "memory \<Rightarrow> u32 \<Rightarrow> u32 \<Rightarrow> memory" where
  "store32 m a v = m(a := ucast v, a + 1 := ucast (drop_bit 8 v),
     a + 2 := ucast (drop_bit 16 v), a + 3 := ucast (drop_bit 24 v))"

lemma bit_load32:
  "bit (load32 m a) n =
     (if n < 8 then bit (m a) n else if n < 16 then bit (m (a + 1)) (n - 8)
      else if n < 24 then bit (m (a + 2)) (n - 16) else bit (m (a + 3)) (n - 24))"
  by (auto simp: load32_def bit_simps dest: bit_imp_le_length)

lemma load32_cong:
  assumes "m a = m' a" "m (a + 1) = m' (a + 1)" "m (a + 2) = m' (a + 2)" "m (a + 3) = m' (a + 3)"
  shows "load32 m a = load32 m' a"
  using assms by (simp add: load32_def)

lemma load32_store32_same [simp]: "load32 (store32 m a v) a = v"
  by (rule bit_eqI) (auto simp: bit_load32 store32_def bit_simps)

lemma store32_apply:
  "store32 m a v x = (if x = a then ucast v else if x = a + 1 then ucast (drop_bit 8 v)
     else if x = a + 2 then ucast (drop_bit 16 v) else if x = a + 3 then ucast (drop_bit 24 v)
     else m x)"
  by (simp add: store32_def)

lemma store32_other:
  "x \<noteq> a \<Longrightarrow> x \<noteq> a + 1 \<Longrightarrow> x \<noteq> a + 2 \<Longrightarrow> x \<noteq> a + 3 \<Longrightarrow> store32 m a v x = m x"
  by (simp add: store32_apply)

lemma store32_store32_same [simp]: "store32 (store32 m a v) a w = store32 m a w"
  by (rule ext) (simp add: store32_apply)

lemma store32_load32_same [simp]: "store32 m a (load32 m a) = m"
proof (rule ext)
  fix x
  have "ucast (load32 m a) = m a" "ucast (drop_bit 8 (load32 m a)) = m (a + 1)"
    "ucast (drop_bit 16 (load32 m a)) = m (a + 2)" "ucast (drop_bit 24 (load32 m a)) = m (a + 3)"
    by (rule bit_eqI, auto simp: bit_load32 bit_simps)+
  then show "store32 m a (load32 m a) x = m x" by (simp add: store32_apply)
qed

text \<open>A 32-bit word at a multiple of four stays inside the aligned group of four bytes.\<close>

definition aligned4 :: "u32 \<Rightarrow> bool" where
  "aligned4 a \<longleftrightarrow> unat a mod 4 = 0"

lemma unat_aligned4_add:
  assumes "aligned4 a" "k < 4"
  shows "unat (a + of_nat k) = unat a + k"
proof -
  have "unat a + k < 4294967296"
    using assms unat_lt_u32 [of a] unfolding aligned4_def by presburger
  then show ?thesis
    using assms by (simp add: unat_word_ariths unat_of_nat)
qed

lemma aligned4_disjoint:
  assumes "aligned4 a" "aligned4 b" "a \<noteq> b" "i < 4" "j < 4"
  shows "a + of_nat i \<noteq> b + of_nat j"
proof
  assume "a + of_nat i = b + of_nat j"
  then have "unat a + i = unat b + j"
    using assms unat_aligned4_add by metis
  then have "unat a = unat b"
    using assms unfolding aligned4_def by presburger
  then show False using assms(3) by (simp add: word_unat_eq_iff)
qed

lemma aligned4_offsets_ne:
  assumes "aligned4 a" "aligned4 b" "a \<noteq> b"
  shows "a + 1 \<noteq> b" "a + 2 \<noteq> b" "a + 3 \<noteq> b" "a \<noteq> b + 1" "a \<noteq> b + 2" "a \<noteq> b + 3"
    "a + 1 \<noteq> b + 2" "a + 1 \<noteq> b + 3" "a + 2 \<noteq> b + 1" "a + 2 \<noteq> b + 3" "a + 3 \<noteq> b + 1" "a + 3 \<noteq> b + 2"
  using aligned4_disjoint [OF assms, of 1 0]
    aligned4_disjoint [OF assms, of 2 0]
    aligned4_disjoint [OF assms, of 3 0]
    aligned4_disjoint [OF assms, of 0 1]
    aligned4_disjoint [OF assms, of 0 2]
    aligned4_disjoint [OF assms, of 0 3]
    aligned4_disjoint [OF assms, of 1 2]
    aligned4_disjoint [OF assms, of 1 3]
    aligned4_disjoint [OF assms, of 2 1]
    aligned4_disjoint [OF assms, of 2 3]
    aligned4_disjoint [OF assms, of 3 1]
    aligned4_disjoint [OF assms, of 3 2]
  by simp_all

lemma load32_store32_other:
  assumes "aligned4 a" "aligned4 b" "a \<noteq> b"
  shows "load32 (store32 m b v) a = load32 m a"
  using assms(3) aligned4_offsets_ne [OF assms]
  by (intro load32_cong) (auto simp: store32_apply)

lemma store32_commute:
  assumes "aligned4 a" "aligned4 b" "a \<noteq> b"
  shows "store32 (store32 m a v) b w = store32 (store32 m b w) a v"
proof (rule ext)
  fix x
  note ne = aligned4_offsets_ne [OF assms] assms(3)
  show "store32 (store32 m a v) b w x = store32 (store32 m b w) a v x"
    using ne ne [symmetric] by (simp add: store32_apply)
qed

end
