(* ===== verification/Mmu.thy ===== *)
theory Mmu
  imports Xv6_Prelude
begin

text \<open>
  The address-space constants and macros of \<open>mmu.h\<close>, \<open>memlayout.h\<close> and \<open>param.h\<close>: page-table
  indices, page rounding, the entry flags (the encryption flag \<open>PTE_E\<close> and the reference flag
  \<open>PTE_A\<close> among them), and the offset between physical and kernel virtual addresses. The
  lemmas translate them to bits, for flags, and to arithmetic on \<^typ>\<open>nat\<close>, for addresses.
\<close>

section \<open>Constants\<close>

definition PGSIZE :: u32 where "PGSIZE = 4096"
definition PTXSHIFT :: nat where "PTXSHIFT = 12"
definition PDXSHIFT :: nat where "PDXSHIFT = 22"
definition NPDENTRIES :: nat where "NPDENTRIES = 1024"

definition PTE_P :: u32 where "PTE_P = 0x001"
definition PTE_W :: u32 where "PTE_W = 0x002"
definition PTE_U :: u32 where "PTE_U = 0x004"
definition PTE_A :: u32 where "PTE_A = 0x020"
definition PTE_E :: u32 where "PTE_E = 0x400"

text \<open>The dirty flag, which the processor sets on a write; the sources have no name for it.\<close>

definition PTE_D :: u32 where "PTE_D = 0x040"

definition FL_IF :: u32 where "FL_IF = 0x200"

definition EXTMEM :: u32 where "EXTMEM = 0x100000"
definition PHYSTOP :: u32 where "PHYSTOP = 0xE000000"
definition DEVSPACE :: u32 where "DEVSPACE = 0xFE000000"
definition KERNBASE :: u32 where "KERNBASE = 0x80000000"
definition KERNLINK :: u32 where "KERNLINK = KERNBASE + EXTMEM"

definition NPROC :: nat where "NPROC = 64"
definition KSTACKSIZE :: u32 where "KSTACKSIZE = 4096"
definition CLOCKSIZE :: nat where "CLOCKSIZE = 8"
definition NOFILE :: nat where "NOFILE = 16"

section \<open>Macros\<close>

definition PDX :: "u32 \<Rightarrow> u32" where
  "PDX va = drop_bit PDXSHIFT va AND 0x3FF"

definition PTX :: "u32 \<Rightarrow> u32" where
  "PTX va = drop_bit PTXSHIFT va AND 0x3FF"

definition PPN :: "u32 \<Rightarrow> u32" where
  "PPN pa = drop_bit PTXSHIFT pa"

definition PGADDR :: "u32 \<Rightarrow> u32 \<Rightarrow> u32 \<Rightarrow> u32" where
  "PGADDR d t k = push_bit PDXSHIFT d OR push_bit PTXSHIFT t OR k"

definition PGROUNDUP :: "u32 \<Rightarrow> u32" where
  "PGROUNDUP sz = (sz + PGSIZE - 1) AND NOT (PGSIZE - 1)"

definition PGROUNDDOWN :: "u32 \<Rightarrow> u32" where
  "PGROUNDDOWN a = a AND NOT (PGSIZE - 1)"

definition PTE_ADDR :: "u32 \<Rightarrow> u32" where
  "PTE_ADDR pte = pte AND NOT 0xFFF"

definition PTE_FLAGS :: "u32 \<Rightarrow> u32" where
  "PTE_FLAGS pte = pte AND 0xFFF"

definition V2P :: "u32 \<Rightarrow> u32" where
  "V2P a = a - KERNBASE"

definition P2V :: "u32 \<Rightarrow> u32" where
  "P2V a = a + KERNBASE"

section \<open>Flags as bits\<close>

lemma PTE_flag_exp:
  "PTE_P = 2 ^ 0" "PTE_W = 2 ^ 1" "PTE_U = 2 ^ 2" "PTE_A = 2 ^ 5" "PTE_D = 2 ^ 6" "PTE_E = 2 ^ 10"
  "FL_IF = 2 ^ 9"
  by (simp_all add: PTE_P_def PTE_W_def PTE_U_def PTE_A_def PTE_D_def PTE_E_def FL_IF_def)

lemma bit_PTE [flag_bits, simp]:
  "bit PTE_P n \<longleftrightarrow> n = 0" "bit PTE_W n \<longleftrightarrow> n = 1" "bit PTE_U n \<longleftrightarrow> n = 2"
  "bit PTE_A n \<longleftrightarrow> n = 5" "bit PTE_D n \<longleftrightarrow> n = 6" "bit PTE_E n \<longleftrightarrow> n = 10"
  "bit FL_IF n \<longleftrightarrow> n = 9"
  unfolding PTE_flag_exp bit_exp_iff by auto

lemma and_PTE_iff [flag_bits]:
  "x AND PTE_P \<noteq> 0 \<longleftrightarrow> bit x 0" "x AND PTE_W \<noteq> 0 \<longleftrightarrow> bit x 1" "x AND PTE_U \<noteq> 0 \<longleftrightarrow> bit x 2"
  "x AND PTE_A \<noteq> 0 \<longleftrightarrow> bit x 5" "x AND PTE_D \<noteq> 0 \<longleftrightarrow> bit x 6" "x AND PTE_E \<noteq> 0 \<longleftrightarrow> bit x 10"
  "x AND FL_IF \<noteq> 0 \<longleftrightarrow> bit x 9"
  unfolding PTE_flag_exp by (rule word_and_exp_neq_0, simp)+

lemma and_PTE_0_iff [flag_bits]:
  "x AND PTE_P = 0 \<longleftrightarrow> \<not> bit x 0" "x AND PTE_W = 0 \<longleftrightarrow> \<not> bit x 1" "x AND PTE_U = 0 \<longleftrightarrow> \<not> bit x 2"
  "x AND PTE_A = 0 \<longleftrightarrow> \<not> bit x 5" "x AND PTE_D = 0 \<longleftrightarrow> \<not> bit x 6" "x AND PTE_E = 0 \<longleftrightarrow> \<not> bit x 10"
  "x AND FL_IF = 0 \<longleftrightarrow> \<not> bit x 9"
  using and_PTE_iff [of x] by blast+

lemma and_P_or_E_iff [flag_bits]: "x AND (PTE_P OR PTE_E) = 0 \<longleftrightarrow> \<not> bit x 0 \<and> \<not> bit x 10"
proof -
  have "x AND (PTE_P OR PTE_E) = (x AND PTE_P) OR (x AND PTE_E)"
    by (rule bit_eqI) (auto simp: bit_simps)
  then show ?thesis by (simp add: or_eq_0_iff and_PTE_0_iff)
qed

lemma mask12: "(0xFFF :: u32) = mask 12" "PGSIZE - 1 = mask 12"
  by (simp_all add: mask_eq_exp_minus_1 PGSIZE_def)

lemma bit_PTE_ADDR [simp]: "bit (PTE_ADDR x) n \<longleftrightarrow> 12 \<le> n \<and> bit x n"
  unfolding PTE_ADDR_def mask12 by (auto simp: bit_simps dest: bit_imp_le_length)

lemma bit_PTE_FLAGS [simp]: "bit (PTE_FLAGS x) n \<longleftrightarrow> n < 12 \<and> bit x n"
  unfolding PTE_FLAGS_def mask12 by (auto simp: bit_simps dest: bit_imp_le_length)

lemma bit_PGROUNDDOWN [simp]: "bit (PGROUNDDOWN x) n \<longleftrightarrow> 12 \<le> n \<and> bit x n"
  unfolding PGROUNDDOWN_def mask12 by (auto simp: bit_simps dest: bit_imp_le_length)

lemma PTE_ADDR_eq_PGROUNDDOWN: "PTE_ADDR = PGROUNDDOWN"
  by (rule ext) (simp add: PTE_ADDR_def PGROUNDDOWN_def PGSIZE_def)

text \<open>The flag updates the code makes keep the frame address of an entry.\<close>

lemma PTE_ADDR_flags [simp]:
  "PTE_ADDR (x OR PTE_P) = PTE_ADDR x" "PTE_ADDR (x OR PTE_W) = PTE_ADDR x"
  "PTE_ADDR (x OR PTE_U) = PTE_ADDR x" "PTE_ADDR (x OR PTE_A) = PTE_ADDR x"
  "PTE_ADDR (x OR PTE_D) = PTE_ADDR x" "PTE_ADDR (x OR PTE_E) = PTE_ADDR x"
  "PTE_ADDR (x AND NOT PTE_P) = PTE_ADDR x" "PTE_ADDR (x AND NOT PTE_A) = PTE_ADDR x"
  "PTE_ADDR (x AND NOT PTE_E) = PTE_ADDR x" "PTE_ADDR (x AND NOT PTE_U) = PTE_ADDR x"
  by (rule bit_eqI, auto simp: bit_simps)+

section \<open>Pages and addresses\<close>

definition page_aligned :: "u32 \<Rightarrow> bool" where
  "page_aligned a \<longleftrightarrow> unat a mod 4096 = 0"

lemma nat_page_split:
  obtains q r where "(n::nat) = 4096 * q + r" "r < 4096"
  by (metis div_mod_decomp mult.commute mod_less_divisor zero_less_numeral)

lemma mod_page_0: "(a::nat) mod 4096 = 0 \<longleftrightarrow> (\<exists>q. a = 4096 * q)"
  by (auto simp: dvd_def mod_eq_0_iff_dvd)

lemma unat_PPN: "unat (PPN a) = unat a div 4096"
  unfolding PPN_def PTXSHIFT_def unat_drop_bit_eq by (simp add: drop_bit_eq_div)

lemma PPN_eq_iff: "PPN a = PPN b \<longleftrightarrow> unat a div 4096 = unat b div 4096"
  by (simp add: word_unat_eq_iff unat_PPN)

lemma unat_PGROUNDDOWN: "unat (PGROUNDDOWN a) = unat a div 4096 * 4096"
proof -
  have "PGROUNDDOWN a = push_bit 12 (drop_bit 12 a)"
    by (rule bit_eqI) (auto simp: bit_simps)
  then have "unat (PGROUNDDOWN a) = take_bit 32 (push_bit 12 (drop_bit 12 (unat a)))"
    by (simp only: unsigned_push_bit_eq unat_drop_bit_eq) simp
  also have "\<dots> = take_bit 32 (unat a div 4096 * 4096)"
    by (simp add: push_bit_eq_mult drop_bit_eq_div)
  also have "\<dots> = unat a div 4096 * 4096"
    using unat_lt_u32 [of a] div_times_less_eq_dividend [of "unat a" 4096]
    by (simp add: take_bit_nat_eq_self le_less_trans)
  finally show ?thesis .
qed

lemma page_aligned_PGROUNDDOWN [simp]: "page_aligned (PGROUNDDOWN a)"
  by (simp add: page_aligned_def unat_PGROUNDDOWN)

lemma page_aligned_PTE_ADDR [simp]: "page_aligned (PTE_ADDR a)"
  by (simp add: PTE_ADDR_eq_PGROUNDDOWN)

lemma PGROUNDDOWN_aligned [simp]: "page_aligned a \<Longrightarrow> PGROUNDDOWN a = a"
  unfolding word_unat_eq_iff unat_PGROUNDDOWN page_aligned_def mod_page_0 by auto

lemma PTE_ADDR_aligned [simp]: "page_aligned a \<Longrightarrow> PTE_ADDR a = a"
  by (simp add: PTE_ADDR_eq_PGROUNDDOWN)

lemma PPN_PGROUNDDOWN [simp]: "PPN (PGROUNDDOWN a) = PPN a"
  by (simp add: PPN_eq_iff unat_PGROUNDDOWN)

lemma page_aligned_aligned4: "page_aligned a \<Longrightarrow> aligned4 a"
  unfolding page_aligned_def aligned4_def mod_page_0 by auto

lemma unat_page_add:
  assumes "page_aligned p" "k < 4096"
  shows "unat (p + of_nat k) = unat p + k"
proof -
  have "unat p + k < 4294967296"
    using assms unat_lt_u32 [of p] unfolding page_aligned_def mod_page_0 by auto
  then show ?thesis using assms by (simp add: unat_word_ariths unat_of_nat)
qed

lemma PPN_page_add:
  assumes "page_aligned p" "k < 4096"
  shows "PPN (p + of_nat k) = PPN p"
  using assms unat_page_add [OF assms] unfolding PPN_eq_iff page_aligned_def mod_page_0 by auto

lemma page_eq_iff: "page_aligned p \<Longrightarrow> page_aligned q \<Longrightarrow> p = q \<longleftrightarrow> PPN p = PPN q"
  unfolding page_aligned_def word_unat_eq_iff unat_PPN mod_page_0 by auto

lemma in_page_iff:
  assumes "page_aligned p"
  shows "PPN a = PPN p \<longleftrightarrow> unat (a - p) < 4096"
proof -
  obtain q where q: "unat p = 4096 * q"
    using assms unfolding page_aligned_def mod_page_0 by auto
  obtain k r where r: "unat a = 4096 * k + r" "r < 4096" by (rule nat_page_split)
  have bounds: "4096 * k + r < 4294967296" "4096 * q < 4294967296"
    using unat_lt_u32 [of a] unat_lt_u32 [of p] q r by simp_all
  have "unat (a - p) = (if 4096 * q \<le> 4096 * k + r then 4096 * k + r - 4096 * q
      else 4096 * k + r + 4294967296 - 4096 * q)"
    using unat_sub_if' [of a p] q r by (simp add: word_le_nat_alt)
  moreover have "PPN a = PPN p \<longleftrightarrow> k = q"
    using q r by (simp add: PPN_eq_iff)
  ultimately show ?thesis using bounds r(2) by (auto split: if_splits)
qed

lemma in_pageE:
  assumes "page_aligned p" "PPN a = PPN p"
  obtains k where "k < 4096" "a = p + of_nat k"
proof
  show "unat (a - p) < 4096" using assms in_page_iff by blast
  show "a = p + of_nat (unat (a - p))" by simp
qed

text \<open>Adding \<open>KERNBASE\<close> keeps page boundaries and distinguishes frames.\<close>

lemma V2P_P2V [simp]: "V2P (P2V a) = a" and P2V_V2P [simp]: "P2V (V2P a) = a"
  by (simp_all add: V2P_def P2V_def)

lemma P2V_eq_iff [simp]: "P2V a = P2V b \<longleftrightarrow> a = b"
  by (simp add: P2V_def)

lemma V2P_eq_iff [simp]: "V2P a = V2P b \<longleftrightarrow> a = b"
  by (simp add: V2P_def)

lemma unat_P2V: "unat (P2V a) = (unat a + 2147483648) mod 4294967296"
  by (simp add: P2V_def KERNBASE_def unat_word_ariths)

lemma unat_P2V_if:
  "unat (P2V a) = (if unat a < 2147483648 then unat a + 2147483648 else unat a - 2147483648)"
  using unat_lt_u32 [of a] by (simp add: unat_P2V mod_nat_eqI)

lemma page_aligned_P2V [simp]: "page_aligned (P2V a) \<longleftrightarrow> page_aligned a"
proof -
  have "unat (P2V a) mod 4096 = (unat a + 2147483648) mod 4294967296 mod 4096"
    by (simp add: unat_P2V)
  also have "\<dots> = (unat a + 2147483648) mod 4096" by (simp add: mod_mod_cancel)
  also have "\<dots> = (unat a + 524288 * 4096) mod 4096" by simp
  also have "\<dots> = unat a mod 4096" by (rule mod_mult_self1)
  finally show ?thesis by (simp add: page_aligned_def)
qed

lemma page_aligned_V2P [simp]: "page_aligned (V2P a) \<longleftrightarrow> page_aligned a"
  using page_aligned_P2V [of "V2P a"] by simp

section \<open>Page-table indices\<close>

lemma mask10: "(0x3FF :: u32) = mask 10"
  by (simp add: mask_eq_exp_minus_1)

lemma unat_and_3FF: "unat (x AND (0x3FF :: u32)) = unat x mod 1024"
  unfolding mask10 take_bit_eq_mask [symmetric] by (simp add: take_bit_eq_mod unat_mod_distrib)

lemma unat_PTX: "unat (PTX va) = unat va div 4096 mod 1024"
  unfolding PTX_def unat_and_3FF PTXSHIFT_def unat_drop_bit_eq by (simp add: drop_bit_eq_div)

lemma unat_PDX: "unat (PDX va) = unat va div 4194304"
  unfolding PDX_def unat_and_3FF PDXSHIFT_def unat_drop_bit_eq
  using unat_lt_u32 [of va] by (simp add: drop_bit_eq_div less_mult_imp_div_less)

lemma PTX_bound: "unat (PTX va) < 1024" and PDX_bound: "unat (PDX va) < 1024"
  using unat_lt_u32 [of va] by (simp_all add: unat_PTX unat_PDX less_mult_imp_div_less)

lemma same_slot_iff: "PDX a = PDX b \<and> PTX a = PTX b \<longleftrightarrow> PPN a = PPN b"
proof -
  have split: "unat x div 4194304 = unat x div 4096 div 1024" for x :: u32
    by (simp add: div_mult2_eq [symmetric])
  show ?thesis
    unfolding word_unat_eq_iff unat_PDX unat_PTX unat_PPN split by (metis div_mod_decomp)
qed

text \<open>The entry at index \<open>i\<close> of a page of entries lies in that page, at a multiple of four.\<close>

lemma entry_offset:
  assumes "unat i < 1024"
  shows "4 * i = of_nat (4 * unat i)" "4 * unat i < 4096"
  using assms by simp_all

lemma PPN_entry [simp]: "page_aligned p \<Longrightarrow> unat i < 1024 \<Longrightarrow> PPN (p + 4 * i) = PPN p"
  using entry_offset [of i] PPN_page_add by metis

lemma unat_entry: "page_aligned p \<Longrightarrow> unat i < 1024 \<Longrightarrow> unat (p + 4 * i) = unat p + 4 * unat i"
  using entry_offset [of i] unat_page_add by metis

lemma aligned4_entry [simp]: "page_aligned p \<Longrightarrow> unat i < 1024 \<Longrightarrow> aligned4 (p + 4 * i)"
  using unat_entry [of p i] unfolding aligned4_def page_aligned_def mod_page_0 by auto

lemma PPN_aligned4_add:
  assumes "aligned4 a" "k < 4"
  shows "PPN (a + of_nat k) = PPN a"
proof -
  obtain q where q: "unat a = 4 * q"
    using assms(1) unfolding aligned4_def by (auto simp: mod_eq_0_iff_dvd dvd_def)
  have "(4 * q + k) div 4096 = (4 * q + k) div 4 div 1024" "4 * q div 4096 = 4 * q div 4 div 1024"
    by (simp_all only: div_mult2_eq [symmetric]) simp_all
  then show ?thesis
    using q assms(2) unat_aligned4_add [OF assms] by (simp add: PPN_eq_iff)
qed

lemma PPN_aligned4_123:
  assumes "aligned4 a"
  shows "PPN (a + 1) = PPN a" "PPN (a + 2) = PPN a" "PPN (a + 3) = PPN a"
  using PPN_aligned4_add [OF assms, of 1] PPN_aligned4_add [OF assms, of 2]
    PPN_aligned4_add [OF assms, of 3] by simp_all

section \<open>Memory page by page\<close>

text \<open>Two memories that agree on a page give the same word at every aligned address of it.\<close>

definition page_eq :: "memory \<Rightarrow> memory \<Rightarrow> u32 \<Rightarrow> bool" where
  "page_eq m m' p \<longleftrightarrow> (\<forall>a. PPN a = PPN p \<longrightarrow> m a = m' a)"

lemma load32_page_eq:
  assumes "page_eq m m' p" "aligned4 a" "PPN a = PPN p"
  shows "load32 m a = load32 m' a"
  using assms PPN_aligned4_123 [OF assms(2)] by (intro load32_cong) (auto simp: page_eq_def)

lemma page_eq_refl [simp]: "page_eq m m p"
  by (simp add: page_eq_def)

lemma page_eq_trans: "page_eq m m' p \<Longrightarrow> page_eq m' m'' p \<Longrightarrow> page_eq m m'' p"
  by (simp add: page_eq_def)

lemma store32_other_page:
  assumes "aligned4 a" "PPN x \<noteq> PPN a"
  shows "store32 m a v x = m x"
  using assms PPN_aligned4_123 [OF assms(1)] by (auto simp: store32_apply)

lemma page_eq_store32: "aligned4 a \<Longrightarrow> PPN p \<noteq> PPN a \<Longrightarrow> page_eq (store32 m a v) m p"
  by (simp add: page_eq_def store32_other_page)

end
