(* ===== verification/Fs_Types.thy ===== *)
theory Fs_Types
  imports Mmu
begin

text \<open>
  The structures of the file system, pipes and the console (\<open>buf.h\<close>, \<open>sleeplock.h\<close>, \<open>file.h\<close>,
  \<open>fs.h\<close> and the structures local to \<open>log.c\<close>, \<open>pipe.c\<close> and \<open>console.c\<close>), the
  names of the kernel's locks and sleep channels, and device input and output. A pointer to a table
  entry is its index. A spin lock inside a structure is kept in the kernel's lock table under its
  name.
\<close>

section \<open>Locks and channels\<close>

datatype sleepref = BufSleep nat | InodeSleep nat

datatype lockref =
    KmemLock
  | PtableLock
  | TicksLock
  | BcacheLock
  | IcacheLock
  | FtableLock
  | LogLock
  | IdeLock
  | ConsLock
  | PipeLock u32
  | SleepLk sleepref

text \<open>Sleep channels: the code uses the address of a kernel object as the channel.\<close>

datatype chan =
    NoChan
  | ProcChan nat
  | TicksChan
  | LogChan
  | BufChan nat
  | SleepChan sleepref
  | PipeReadChan u32
  | PipeWriteChan u32
  | InputChan

record spinlock =
  sl_locked :: u32
  sl_name :: string
  sl_cpu :: "nat option"

record sleeplock =
  slk_locked :: u32
  slk_name :: string
  slk_pid :: int

section \<open>Blocks and inodes\<close>

definition NINODE :: nat where "NINODE = 50"
definition NFILE :: nat where "NFILE = 100"
definition NDEV :: nat where "NDEV = 10"
definition ROOTDEV :: u32 where "ROOTDEV = 1"
definition MAXARG :: nat where "MAXARG = 32"
definition MAXOPBLOCKS :: nat where "MAXOPBLOCKS = 10"
definition LOGSIZE :: nat where "LOGSIZE = MAXOPBLOCKS * 3"
definition NBUF :: nat where "NBUF = MAXOPBLOCKS * 3"
definition FSSIZE :: u32 where "FSSIZE = 1000"

definition ROOTINO :: u32 where "ROOTINO = 1"
definition BSIZE :: nat where "BSIZE = 512"
definition NDIRECT :: nat where "NDIRECT = 12"
definition NINDIRECT :: nat where "NINDIRECT = BSIZE div 4"
definition MAXFILE :: nat where "MAXFILE = NDIRECT + NINDIRECT"
definition DIRSIZ :: nat where "DIRSIZ = 14"
definition BPB :: nat where "BPB = BSIZE * 8"

definition T_DIR :: u16 where "T_DIR = 1"
definition T_FILE :: u16 where "T_FILE = 2"
definition T_DEV :: u16 where "T_DEV = 3"

definition B_VALID :: u32 where "B_VALID = 0x2"
definition B_DIRTY :: u32 where "B_DIRTY = 0x4"

lemmas fs_consts = NINODE_def NFILE_def NDEV_def ROOTDEV_def MAXOPBLOCKS_def LOGSIZE_def NBUF_def FSSIZE_def
  ROOTINO_def BSIZE_def NDIRECT_def NINDIRECT_def MAXFILE_def DIRSIZ_def BPB_def T_DIR_def T_FILE_def T_DEV_def

text \<open>
  \<open>bcache\<close> is an array of buffers and a list head of the same type. Here the head is the last
  element of the table, at index \<open>NBUF\<close>.
\<close>

record buf =
  b_flags :: u32
  b_dev :: u32
  b_blockno :: u32
  b_lock :: sleeplock
  b_refcnt :: u32
  b_prev :: nat
  b_next :: nat
  b_qnext :: "nat option"
  b_data :: "u8 list"

record superblock =
  sb_size :: u32
  sb_nblocks :: u32
  sb_ninodes :: u32
  sb_nlog :: u32
  sb_logstart :: u32
  sb_inodestart :: u32
  sb_bmapstart :: u32

text \<open>\<open>struct log\<close> with its header \<open>lh\<close>.\<close>

record log =
  lg_start :: u32
  lg_size :: int
  lg_outstanding :: int
  lg_committing :: int
  lg_dev :: u32
  lg_n :: int
  lg_block :: "u32 list"

record dinode =
  di_type :: u16
  di_major :: u16
  di_minor :: u16
  di_nlink :: u16
  di_size :: u32
  di_addrs :: "u32 list"

record inode =
  ip_dev :: u32
  ip_inum :: u32
  ip_ref :: int
  ip_lock :: sleeplock
  ip_valid :: int
  ip_type :: u16
  ip_major :: u16
  ip_minor :: u16
  ip_nlink :: u16
  ip_size :: u32
  ip_addrs :: "u32 list"

record dirent =
  de_inum :: u16
  de_name :: "u8 list"

section \<open>Open files, devices and pipes\<close>

datatype filetype = FD_NONE | FD_PIPE | FD_INODE

record file_t =
  f_type :: filetype
  f_ref :: int
  f_readable :: bool
  f_writable :: bool
  f_pipe :: u32
  f_ip :: "nat option"
  f_off :: u32

text \<open>The functions that are entered in the device switch.\<close>

datatype devfun = ConsoleRead | ConsoleWrite

record devsw =
  dv_read :: "devfun option"
  dv_write :: "devfun option"

definition CONSOLE :: nat where "CONSOLE = 1"

definition PIPESIZE :: nat where "PIPESIZE = 512"

record pipe =
  pi_data :: "u8 list"
  pi_nread :: u32
  pi_nwrite :: u32
  pi_readopen :: int
  pi_writeopen :: int

definition INPUT_BUF :: nat where "INPUT_BUF = 128"

record inputbuf =
  in_buf :: "u8 list"
  in_r :: u32
  in_w :: u32
  in_e :: u32

section \<open>Device input and output\<close>

text \<open>
  The devices behind ports and memory-mapped registers are not part of the program. Every access
  is recorded; what a read returns is a function of the port or register and of all accesses
  before it.
\<close>

datatype ioevent =
    PortIn u16 u8
  | PortOut u16 u8
  | PortIns u16 "u8 list"
  | PortOuts u16 "u8 list"
  | RegIn u32 u32
  | RegOut u32 u32
  | DiskWrite u32 "u8 list"

section \<open>Zeroed structures\<close>

definition spinlock0 :: spinlock where
  "spinlock0 = \<lparr>sl_locked = 0, sl_name = [], sl_cpu = None\<rparr>"

definition sleeplock0 :: sleeplock where
  "sleeplock0 = \<lparr>slk_locked = 0, slk_name = [], slk_pid = 0\<rparr>"

definition buf0 :: buf where
  "buf0 = \<lparr>b_flags = 0, b_dev = 0, b_blockno = 0, b_lock = sleeplock0, b_refcnt = 0, b_prev = 0, b_next = 0,
     b_qnext = None, b_data = replicate BSIZE 0\<rparr>"

definition superblock0 :: superblock where
  "superblock0 = \<lparr>sb_size = 0, sb_nblocks = 0, sb_ninodes = 0, sb_nlog = 0, sb_logstart = 0, sb_inodestart = 0,
     sb_bmapstart = 0\<rparr>"

definition log0 :: log where
  "log0 = \<lparr>lg_start = 0, lg_size = 0, lg_outstanding = 0, lg_committing = 0, lg_dev = 0, lg_n = 0,
     lg_block = replicate LOGSIZE 0\<rparr>"

definition inode0 :: inode where
  "inode0 = \<lparr>ip_dev = 0, ip_inum = 0, ip_ref = 0, ip_lock = sleeplock0, ip_valid = 0, ip_type = 0, ip_major = 0,
     ip_minor = 0, ip_nlink = 0, ip_size = 0, ip_addrs = replicate (NDIRECT + 1) 0\<rparr>"

definition file0 :: file_t where
  "file0 = \<lparr>f_type = FD_NONE, f_ref = 0, f_readable = False, f_writable = False, f_pipe = 0, f_ip = None, f_off = 0\<rparr>"

definition pipe0 :: pipe where
  "pipe0 = \<lparr>pi_data = replicate PIPESIZE 0, pi_nread = 0, pi_nwrite = 0, pi_readopen = 0, pi_writeopen = 0\<rparr>"

definition inputbuf0 :: inputbuf where
  "inputbuf0 = \<lparr>in_buf = replicate INPUT_BUF 0, in_r = 0, in_w = 0, in_e = 0\<rparr>"

definition devsw0 :: devsw where
  "devsw0 = \<lparr>dv_read = None, dv_write = None\<rparr>"

end
