(* ===== verification/Kernel_State.thy ===== *)
theory Kernel_State
  imports Fs_Types
begin

text \<open>
  The kernel's data: the structures of \<open>proc.h\<close>, \<open>spinlock.h\<close>, \<open>mmu.h\<close> and the globals of
  \<open>proc.c\<close>, \<open>kalloc.c\<close>, \<open>vm.c\<close> and \<open>trap.c\<close> in one record, with the processor registers the
  code touches. Page directories, page tables, user pages, kernel stacks and trap frames live
  in \<open>mem\<close>, which is addressed by kernel virtual address (physical address plus \<open>KERNBASE\<close>).
  A pointer into memory is its address and 0 is the null pointer. A pointer to a process or
  a cpu is its index in the table, and \<open>None\<close> is null.
\<close>

section \<open>Structures\<close>

datatype procstate = UNUSED | EMBRYO | SLEEPING | RUNNABLE | RUNNING | ZOMBIE

record cq_node =
  cq_empty :: int
  cq_va :: u32
  cq_pte :: u32

record proc =
  p_sz :: u32
  p_pgdir :: u32
  p_kstack :: u32
  p_state :: procstate
  p_pid :: int
  p_parent :: "nat option"
  p_tf :: u32
  p_context :: u32
  p_chan :: chan
  p_killed :: int
  p_ofile :: "nat option list"
  p_cwd :: "nat option"
  p_name :: "u8 list"
  p_cq :: "cq_node list"
  p_clock_hand :: int

record segdesc =
  lim_15_0 :: u16
  base_15_0 :: u16
  base_23_16 :: u8
  sd_type :: "4 word"
  sd_s :: "1 word"
  sd_dpl :: "2 word"
  sd_p :: "1 word"
  lim_19_16 :: "4 word"
  sd_avl :: "1 word"
  sd_rsv1 :: "1 word"
  sd_db :: "1 word"
  sd_g :: "1 word"
  base_31_24 :: u8

text \<open>Gate descriptors for interrupts and traps.\<close>

record gatedesc =
  off_15_0 :: u16
  gd_cs :: u16
  gd_args :: "5 word"
  gd_rsv1 :: "3 word"
  gd_type :: "4 word"
  gd_s :: "1 word"
  gd_dpl :: "2 word"
  gd_p :: "1 word"
  off_31_16 :: u16

text \<open>The fields of the task state segment that the kernel writes.\<close>

record taskstate =
  ts_esp0 :: u32
  ts_ss0 :: u16
  ts_iomb :: u16

record cpu =
  c_apicid :: u8
  c_ts :: taskstate
  c_ts_addr :: u32
  c_gdt :: "segdesc list"
  c_started :: u32
  c_ncli :: int
  c_intena :: u32
  c_proc :: "nat option"

text \<open>
  \<open>sym_end\<close>, \<open>sym_data\<close>, \<open>sym_trapret\<close>, \<open>sym_forkret\<close> and \<open>sym_vectors\<close> are addresses that the linker
  assigns, and \<open>lapic_id\<close> is what the local interrupt controller of the executing processor
  reports; no routine changes them. \<open>gdtr\<close> records which processor's descriptor table is
  loaded.
\<close>

record kcore =
  mem :: memory
  locks :: "lockref \<Rightarrow> spinlock"
  kmem_use_lock :: int
  kmem_freelist :: u32
  cpus :: "cpu list"
  ncpu :: nat
  lapic_id :: u8
  eflags :: u32
  cr3 :: u32
  cr2 :: u32
  tr :: u16
  gdtr :: "nat option"
  idt :: "gatedesc list"
  idt_loaded :: bool
  lapic :: u32
  ioapicid :: u8
  procs :: "proc list"
  initproc :: "nat option"
  nextpid :: int
  forkret_first :: int
  kpgdir :: u32
  ticks :: u32
  sym_end :: u32
  sym_data :: u32
  sym_trapret :: u32
  sym_forkret :: u32
  sym_vectors :: "nat \<Rightarrow> u32"
  bcache :: "buf list"
  memdisk :: "u32 \<Rightarrow> u8 list"
  disksize :: int
  idequeue :: "nat option"
  havedisk1 :: int
  klog :: log
  sb :: superblock
  icache :: "inode list"
  ftable :: "file_t list"
  devsw_tab :: "devsw list"
  pipes :: "u32 \<Rightarrow> pipe"
  cons_locking :: int
  panicked :: int
  input :: inputbuf
  crt :: "nat \<Rightarrow> u16"
  uart :: int
  kbd_shift :: u32
  dev_reply :: "ioevent list \<Rightarrow> u16 \<Rightarrow> nat \<Rightarrow> u8"
  reg_reply :: "ioevent list \<Rightarrow> u32 \<Rightarrow> u32"
  iolog :: "ioevent list"

text \<open>
  A kernel thread that calls \<open>swtch\<close> goes on when the scheduler switches back to it, in the state
  the rest of the system has reached by then. \<open>resumes\<close> lists the states in which the running
  thread will be resumed; it is arbitrary, and empty when the thread is not resumed.
\<close>

record kstate = kcore +
  resumes :: "kcore list"

text \<open>
  How a kernel computation can end other than by returning: \<open>panic\<close>; a page fault taken by
  the kernel's own access; a null dereference or an access beyond an array (undefined in C);
  spinning on a lock nobody will release; a loop that exceeds its bound; and a switch to the
  scheduler, with the state in which the thread gave up the processor.
\<close>

datatype kerr =
    Panic string
  | PageFault u32
  | NullDeref
  | OutOfBounds
  | Spin
  | OutOfFuel
  | Swtch kstate

type_synonym 'a K = "(kstate, kerr, 'a) kcomp"

section \<open>Segment descriptors\<close>

definition SEG_KCODE :: nat where "SEG_KCODE = 1"
definition SEG_KDATA :: nat where "SEG_KDATA = 2"
definition SEG_UCODE :: nat where "SEG_UCODE = 3"
definition SEG_UDATA :: nat where "SEG_UDATA = 4"
definition SEG_TSS :: nat where "SEG_TSS = 5"
definition DPL_USER :: u32 where "DPL_USER = 3"
definition STA_X :: u32 where "STA_X = 0x8"
definition STA_W :: u32 where "STA_W = 0x2"
definition STA_R :: u32 where "STA_R = 0x2"
definition STS_T32A :: u32 where "STS_T32A = 0x9"

definition SEG :: "u32 \<Rightarrow> u32 \<Rightarrow> u32 \<Rightarrow> u32 \<Rightarrow> segdesc" where
  "SEG type base lim dpl =
     \<lparr>lim_15_0 = ucast (drop_bit 12 lim AND 0xFFFF), base_15_0 = ucast (base AND 0xFFFF),
      base_23_16 = ucast (drop_bit 16 base AND 0xFF), sd_type = ucast type, sd_s = 1,
      sd_dpl = ucast dpl, sd_p = 1, lim_19_16 = ucast (drop_bit 28 lim), sd_avl = 0, sd_rsv1 = 0,
      sd_db = 1, sd_g = 1, base_31_24 = ucast (drop_bit 24 base)\<rparr>"

definition SEG16 :: "u32 \<Rightarrow> u32 \<Rightarrow> u32 \<Rightarrow> u32 \<Rightarrow> segdesc" where
  "SEG16 type base lim dpl =
     \<lparr>lim_15_0 = ucast (lim AND 0xFFFF), base_15_0 = ucast (base AND 0xFFFF),
      base_23_16 = ucast (drop_bit 16 base AND 0xFF), sd_type = ucast type, sd_s = 1,
      sd_dpl = ucast dpl, sd_p = 1, lim_19_16 = ucast (drop_bit 16 lim), sd_avl = 0, sd_rsv1 = 0,
      sd_db = 1, sd_g = 0, base_31_24 = ucast (drop_bit 24 base)\<rparr>"

text \<open>The linear base address a descriptor holds in its three parts.\<close>

definition seg_base :: "segdesc \<Rightarrow> u32" where
  "seg_base d = ucast (base_15_0 d) OR push_bit 16 (ucast (base_23_16 d)) OR
     push_bit 24 (ucast (base_31_24 d))"

lemma mask8: "(0xFF :: u32) = mask 8" and mask16: "(0xFFFF :: u32) = mask 16"
  by (simp_all add: mask_eq_exp_minus_1)

lemma seg_base_SEG: "seg_base (SEG type base lim dpl) = base"
  unfolding seg_base_def SEG_def mask8 mask16
  by (rule bit_eqI, case_tac "n < 24") (auto simp: bit_simps)

lemma seg_base_SEG16: "seg_base (SEG16 type base lim dpl) = base"
  unfolding seg_base_def SEG16_def mask8 mask16
  by (rule bit_eqI, case_tac "n < 24") (auto simp: bit_simps)

section \<open>Access to memory and tables\<close>

text \<open>Kernel dereference of a 32-bit location; the null pointer is refused.\<close>

definition rd32 :: "u32 \<Rightarrow> u32 K" where
  "rd32 a = (\<lambda>s. if a = 0 then Inl NullDeref else Inr (load32 (mem s) a, s))"

definition wr32 :: "u32 \<Rightarrow> u32 \<Rightarrow> unit K" where
  "wr32 a v = (\<lambda>s. if a = 0 then Inl NullDeref else Inr ((), s\<lparr>mem := store32 (mem s) a v\<rparr>))"

definition getp :: "nat \<Rightarrow> proc K" where
  "getp i = (\<lambda>s. if i < length (procs s) then Inr (procs s ! i, s) else Inl OutOfBounds)"

definition modp :: "nat \<Rightarrow> (proc \<Rightarrow> proc) \<Rightarrow> unit K" where
  "modp i f = (\<lambda>s. if i < length (procs s)
     then Inr ((), s\<lparr>procs := (procs s)[i := f (procs s ! i)]\<rparr>) else Inl OutOfBounds)"

definition panic :: "string \<Rightarrow> 'a K" where
  "panic msg = kfail (Panic msg)"

lemma rd32_run [simp, kmonad]: "a \<noteq> 0 \<Longrightarrow> rd32 a s = Inr (load32 (mem s) a, s)"
  by (simp add: rd32_def)

lemma rd32_null [simp, kmonad]: "rd32 0 s = Inl NullDeref"
  by (simp add: rd32_def)

lemma wr32_run [simp, kmonad]: "a \<noteq> 0 \<Longrightarrow> wr32 a v s = Inr ((), s\<lparr>mem := store32 (mem s) a v\<rparr>)"
  by (simp add: wr32_def)

lemma wr32_null [simp, kmonad]: "wr32 0 v s = Inl NullDeref"
  by (simp add: wr32_def)

lemma getp_run [simp, kmonad]: "i < length (procs s) \<Longrightarrow> getp i s = Inr (procs s ! i, s)"
  by (simp add: getp_def)

lemma modp_run [simp, kmonad]:
  "i < length (procs s) \<Longrightarrow> modp i f s = Inr ((), s\<lparr>procs := (procs s)[i := f (procs s ! i)]\<rparr>)"
  by (simp add: modp_def)

lemma panic_run [simp, kmonad]: "panic msg s = Inl (Panic msg)"
  by (simp add: panic_def)

section \<open>A concrete starting state\<close>

text \<open>
  The zeroed tables of the kernel image with one processor, for evaluating the definitions.
  The linker symbols get example values.
\<close>

definition gatedesc0 :: gatedesc where
  "gatedesc0 = \<lparr>off_15_0 = 0, gd_cs = 0, gd_args = 0, gd_rsv1 = 0, gd_type = 0, gd_s = 0, gd_dpl = 0, gd_p = 0,
     off_31_16 = 0\<rparr>"

definition cq_node0 :: cq_node where
  "cq_node0 = \<lparr>cq_empty = 0, cq_va = 0, cq_pte = 0\<rparr>"

definition proc0 :: proc where
  "proc0 = \<lparr>p_sz = 0, p_pgdir = 0, p_kstack = 0, p_state = UNUSED, p_pid = 0, p_parent = None,
     p_tf = 0, p_context = 0, p_chan = NoChan, p_killed = 0, p_ofile = replicate NOFILE None,
     p_cwd = None, p_name = replicate 16 0, p_cq = replicate CLOCKSIZE cq_node0, p_clock_hand = 0\<rparr>"

definition cpu0 :: cpu where
  "cpu0 = \<lparr>c_apicid = 0, c_ts = \<lparr>ts_esp0 = 0, ts_ss0 = 0, ts_iomb = 0\<rparr>, c_ts_addr = 0x80112808,
     c_gdt = replicate 6 (SEG 0 0 0 0), c_started = 0, c_ncli = 0, c_intena = 0, c_proc = None\<rparr>"

definition kstate0 :: kstate where
  "kstate0 = \<lparr>mem = (\<lambda>_. 0), locks = (\<lambda>_. spinlock0), kmem_use_lock = 0, kmem_freelist = 0,
     cpus = [cpu0], ncpu = 1, lapic_id = 0, eflags = 0, cr3 = 0, cr2 = 0, tr = 0, gdtr = None, idt = replicate 256 gatedesc0, idt_loaded = False, lapic = 0, ioapicid = 0,
     procs = replicate NPROC proc0, initproc = None, nextpid = 1, forkret_first = 1,
     kpgdir = 0, ticks = 0, sym_end = 0x801154A8, sym_data = 0x80108000,
     sym_trapret = 0x80105A9C, sym_forkret = 0x80103C20, sym_vectors = (\<lambda>i. 0x80105AA0 + 16 * of_nat i),
     bcache = replicate (NBUF + 1) buf0, memdisk = (\<lambda>_. replicate BSIZE 0), disksize = 0, idequeue = None,
     havedisk1 = 0, klog = log0, sb = superblock0, icache = replicate NINODE inode0,
     ftable = replicate NFILE file0, devsw_tab = replicate NDEV devsw0, pipes = (\<lambda>_. pipe0),
     cons_locking = 0, panicked = 0, input = inputbuf0, crt = (\<lambda>_. 0), uart = 0, kbd_shift = 0,
     dev_reply = (\<lambda>_ _ _. 0), reg_reply = (\<lambda>_ _. 0), iolog = [], resumes = []\<rparr>"

end
