(* ===== verification/Spinlock.thy ===== *)
theory Spinlock
  imports Kernel_State
begin

text \<open>
  Interrupt control and spin locks: \<open>spinlock.c\<close>, with \<open>mycpu\<close>, \<open>cpuid\<close> and \<open>myproc\<close> of
  \<open>proc.c\<close>, which every lock operation goes through. The first part runs on one processor and
  shows that the nested \<open>pushcli\<close>/\<open>popcli\<close> brackets restore the interrupt flag and that a
  critical section between \<open>acquire\<close> and \<open>release\<close> leaves no trace but its body. The second
  part interleaves the atomic steps of the lock code on several processors and shows mutual
  exclusion. The saved call stack \<open>pcs\<close> of a lock is debugging output and is left out.
\<close>

section \<open>The current processor and process\<close>

primrec find_apicid :: "cpu list \<Rightarrow> u8 \<Rightarrow> nat \<Rightarrow> nat option" where
  "find_apicid [] a i = None"
| "find_apicid (c # cs) a i = (if c_apicid c = a then Some i else find_apicid cs a (Suc i))"

definition this_cpu :: "kstate \<Rightarrow> nat option" where
  "this_cpu s = find_apicid (take (ncpu s) (cpus s)) (lapic_id s) 0"

definition mycpu :: "nat K" where
  "mycpu = (\<lambda>s. if eflags s AND FL_IF \<noteq> 0
     then Inl (Panic (''mycpu called with interrupts enabled'' @ [CHR 0x0A]))
     else case this_cpu s of Some i \<Rightarrow> Inr (i, s)
          | None \<Rightarrow> Inl (Panic (''unknown apicid'' @ [CHR 0x0A])))"

definition cpuid :: "nat K" where
  "cpuid = mycpu"

definition modc :: "nat \<Rightarrow> (cpu \<Rightarrow> cpu) \<Rightarrow> unit K" where
  "modc i f = kmod (\<lambda>s. s\<lparr>cpus := (cpus s)[i := f (cpus s ! i)]\<rparr>)"

definition cli :: "unit K" where
  "cli = kmod (\<lambda>s. s\<lparr>eflags := eflags s AND NOT FL_IF\<rparr>)"

definition sti :: "unit K" where
  "sti = kmod (\<lambda>s. s\<lparr>eflags := eflags s OR FL_IF\<rparr>)"

definition pushcli :: "unit K" where
  "pushcli =
     kbind (kget eflags) (\<lambda>fl.
     kseq cli
     (kbind mycpu (\<lambda>c.
     kbind (kget cpus) (\<lambda>cs.
     kseq (if c_ncli (cs ! c) = 0 then modc c (\<lambda>x. x\<lparr>c_intena := fl AND FL_IF\<rparr>) else kret ())
     (modc c (\<lambda>x. x\<lparr>c_ncli := c_ncli x + 1\<rparr>))))))"

definition popcli :: "unit K" where
  "popcli =
     kbind (kget eflags) (\<lambda>fl.
     if fl AND FL_IF \<noteq> 0 then panic ''popcli - interruptible''
     else kbind mycpu (\<lambda>c.
     kseq (modc c (\<lambda>x. x\<lparr>c_ncli := c_ncli x - 1\<rparr>))
     (kbind (kget cpus) (\<lambda>cs.
     if c_ncli (cs ! c) < 0 then panic ''popcli''
     else if c_ncli (cs ! c) = 0 \<and> c_intena (cs ! c) \<noteq> 0 then sti else kret ()))))"

definition myproc :: "nat option K" where
  "myproc =
     kseq pushcli
     (kbind mycpu (\<lambda>c.
     kbind (kget (\<lambda>s. c_proc (cpus s ! c))) (\<lambda>p.
     kseq popcli (kret p))))"

text \<open>Dereferencing the pointer \<open>myproc()\<close> returns.\<close>

definition curproc :: "nat K" where
  "curproc = kbind myproc (\<lambda>p. case p of None \<Rightarrow> kfail NullDeref | Some i \<Rightarrow> kret i)"

section \<open>Locks\<close>

abbreviation lock_of :: "lockref \<Rightarrow> kstate \<Rightarrow> spinlock" where
  "lock_of r s \<equiv> locks s r"

definition put_lock :: "lockref \<Rightarrow> spinlock \<Rightarrow> kstate \<Rightarrow> kstate" where
  "put_lock r l s = s\<lparr>locks := (locks s)(r := l)\<rparr>"

definition modl :: "lockref \<Rightarrow> (spinlock \<Rightarrow> spinlock) \<Rightarrow> unit K" where
  "modl r f = kmod (\<lambda>s. put_lock r (f (lock_of r s)) s)"

definition initlock :: "lockref \<Rightarrow> string \<Rightarrow> unit K" where
  "initlock r nm = modl r (\<lambda>l. l\<lparr>sl_name := nm, sl_locked := 0, sl_cpu := None\<rparr>)"

definition xchg :: "lockref \<Rightarrow> u32 \<Rightarrow> u32 K" where
  "xchg r v = kbind (kget (\<lambda>s. sl_locked (lock_of r s))) (\<lambda>old.
     kseq (modl r (\<lambda>l. l\<lparr>sl_locked := v\<rparr>)) (kret old))"

definition holding :: "lockref \<Rightarrow> bool K" where
  "holding r =
     kseq pushcli
     (kbind (kget (lock_of r)) (\<lambda>l.
     kbind (if sl_locked l \<noteq> 0 then kbind mycpu (\<lambda>c. kret (sl_cpu l = Some c)) else kret False) (\<lambda>h.
     kseq popcli (kret h))))"

definition acquire :: "lockref \<Rightarrow> unit K" where
  "acquire r =
     kseq pushcli
     (kbind (holding r) (\<lambda>h.
     if h then panic ''acquire''
     else kbind (xchg r 1) (\<lambda>old.
     if old \<noteq> 0 then kfail Spin
     else kbind mycpu (\<lambda>c. modl r (\<lambda>l. l\<lparr>sl_cpu := Some c\<rparr>)))))"

definition release :: "lockref \<Rightarrow> unit K" where
  "release r =
     kbind (holding r) (\<lambda>h.
     if \<not> h then panic ''release''
     else kseq (modl r (\<lambda>l. l\<lparr>sl_cpu := None\<rparr>))
     (kseq (modl r (\<lambda>l. l\<lparr>sl_locked := 0\<rparr>))
     popcli))"

section \<open>The interrupt bracket\<close>

text \<open>
  The interrupt state between two brackets: with no bracket open, \<open>intena\<close> holds the current
  interrupt flag (any earlier bracket left it so); with a bracket open, interrupts are off.
\<close>

definition irq_ok :: "kstate \<Rightarrow> bool" where
  "irq_ok s \<longleftrightarrow> (case this_cpu s of None \<Rightarrow> False | Some i \<Rightarrow>
     0 \<le> c_ncli (cpus s ! i) \<and>
     (if c_ncli (cpus s ! i) = 0 then c_intena (cpus s ! i) = eflags s AND FL_IF
      else eflags s AND FL_IF = 0))"

text \<open>The state \<open>pushcli\<close> leaves, as a function.\<close>

definition pushed :: "kstate \<Rightarrow> kstate" where
  "pushed s = (case this_cpu s of None \<Rightarrow> s | Some i \<Rightarrow>
     s\<lparr>eflags := eflags s AND NOT FL_IF,
       cpus := (cpus s)[i := (cpus s ! i)
         \<lparr>c_intena := if c_ncli (cpus s ! i) = 0 then eflags s AND FL_IF else c_intena (cpus s ! i),
          c_ncli := c_ncli (cpus s ! i) + 1\<rparr>]\<rparr>)"

lemma find_apicid_bound: "find_apicid cs a k = Some i \<Longrightarrow> k \<le> i \<and> i < k + length cs"
proof (induction cs arbitrary: k)
  case (Cons c cs)
  show ?case
  proof (cases "c_apicid c = a")
    case False
    with Cons.prems have "Suc k \<le> i \<and> i < Suc k + length cs" by (intro Cons.IH) simp
    then show ?thesis by simp
  qed (use Cons.prems in simp)
qed simp

lemma find_apicid_cong:
  "map c_apicid cs = map c_apicid cs' \<Longrightarrow> find_apicid cs a k = find_apicid cs' a k"
proof (induction cs arbitrary: cs' k)
  case (Cons c cs)
  then obtain c' cs'' where "cs' = c' # cs''" "c_apicid c = c_apicid c'"
      "map c_apicid cs = map c_apicid cs''"
    by (cases cs') auto
  then show ?case using Cons.IH [of cs'' "Suc k"] by simp
qed simp

lemma this_cpu_bound: "this_cpu s = Some i \<Longrightarrow> i < length (cpus s)"
  unfolding this_cpu_def by (drule find_apicid_bound) simp

lemma this_cpu_cong:
  assumes "map c_apicid (cpus t) = map c_apicid (cpus s)" "ncpu t = ncpu s" "lapic_id t = lapic_id s"
  shows "this_cpu t = this_cpu s"
  using assms unfolding this_cpu_def by (metis find_apicid_cong take_map)

lemma map_apicid_update:
  "c_apicid c = c_apicid (cs ! i) \<Longrightarrow> map c_apicid (cs[i := c]) = map c_apicid cs"
  by (cases "i < length cs") (simp_all add: map_update list_update_same_conv list_update_beyond)

lemma eflags_cleared [simp]: "(x AND NOT FL_IF) AND FL_IF = 0"
  by (rule bit_eqI) (auto simp: bit_simps)

lemma eflags_restored:
  "x AND FL_IF \<noteq> 0 \<Longrightarrow> (x AND NOT FL_IF) OR FL_IF = x"
  "x AND FL_IF = 0 \<Longrightarrow> x AND NOT FL_IF = x"
  unfolding and_PTE_0_iff and_PTE_iff by (rule bit_eqI, auto simp: bit_simps)+

lemma modc_run [simp, kmonad]: "modc i f s = Inr ((), s\<lparr>cpus := (cpus s)[i := f (cpus s ! i)]\<rparr>)"
  by (simp add: modc_def)

lemma modl_run [simp, kmonad]: "modl r f s = Inr ((), put_lock r (f (lock_of r s)) s)"
  by (simp add: modl_def)

lemma cli_run [simp, kmonad]: "cli s = Inr ((), s\<lparr>eflags := eflags s AND NOT FL_IF\<rparr>)"
  by (simp add: cli_def)

lemma sti_run [simp, kmonad]: "sti s = Inr ((), s\<lparr>eflags := eflags s OR FL_IF\<rparr>)"
  by (simp add: sti_def)

lemma mycpu_run: "eflags s AND FL_IF = 0 \<Longrightarrow> this_cpu s = Some i \<Longrightarrow> mycpu s = Inr (i, s)"
  by (simp add: mycpu_def)

lemma this_cpu_eflags [simp]: "this_cpu (s\<lparr>eflags := x\<rparr>) = this_cpu s"
  by (simp add: this_cpu_def)

lemma pushcli_run:
  assumes "this_cpu s = Some i"
  shows "pushcli s = Inr ((), pushed s)"
proof -
  note b = this_cpu_bound [OF assms]
  have "mycpu (s\<lparr>eflags := eflags s AND NOT FL_IF\<rparr>) = Inr (i, s\<lparr>eflags := eflags s AND NOT FL_IF\<rparr>)"
    by (rule mycpu_run) (simp_all add: assms)
  then show ?thesis
    using b by (simp add: kmonad pushcli_def pushed_def assms)
qed

lemma this_cpu_pushed [simp]: "this_cpu (pushed s) = this_cpu s"
proof (cases "this_cpu s")
  case None
  then show ?thesis by (simp add: pushed_def)
next
  case (Some i)
  have "this_cpu (pushed s) = this_cpu s"
    by (rule this_cpu_cong) (simp_all add: pushed_def Some map_apicid_update)
  then show ?thesis by (simp add: Some)
qed

lemma irq_ok_cpu: "irq_ok s \<Longrightarrow> \<exists>i. this_cpu s = Some i"
  by (auto simp: irq_ok_def split: option.splits)

lemma eflags_pushed: "irq_ok s \<Longrightarrow> eflags (pushed s) AND FL_IF = 0"
  by (auto simp: pushed_def irq_ok_def split: option.splits)

lemma irq_ok_pushed: "irq_ok s \<Longrightarrow> irq_ok (pushed s)"
proof -
  assume ok: "irq_ok s"
  then obtain i where i: "this_cpu s = Some i" using irq_ok_cpu by blast
  have "cpus (pushed s) ! i = (cpus s ! i)
      \<lparr>c_intena := if c_ncli (cpus s ! i) = 0 then eflags s AND FL_IF else c_intena (cpus s ! i),
       c_ncli := c_ncli (cpus s ! i) + 1\<rparr>"
    using this_cpu_bound [OF i] by (simp add: pushed_def i)
  then show ?thesis
    using ok eflags_pushed [OF ok] i by (simp add: irq_ok_def)
qed

lemma pushed_irq_ok:
  assumes ok: "irq_ok s" and i: "this_cpu s = Some i"
  shows "cpus (pushed s) = (cpus s)[i := (cpus s ! i)\<lparr>c_ncli := c_ncli (cpus s ! i) + 1\<rparr>]"
    and "eflags (pushed s) = eflags s AND NOT FL_IF"
proof -
  have "(if c_ncli (cpus s ! i) = 0 then eflags s AND FL_IF else c_intena (cpus s ! i)) =
      c_intena (cpus s ! i)"
    using ok by (auto simp: irq_ok_def i)
  then show "cpus (pushed s) = (cpus s)[i := (cpus s ! i)\<lparr>c_ncli := c_ncli (cpus s ! i) + 1\<rparr>]"
    "eflags (pushed s) = eflags s AND NOT FL_IF"
    by (simp_all add: pushed_def i)
qed

text \<open>
  Closing a bracket: whatever the body did to the rest of the state, \<open>popcli\<close> restores the
  flag and the nesting depth that \<open>pushcli\<close> found.
\<close>

lemma popcli_after:
  assumes ok: "irq_ok s" and t: "eflags t = eflags (pushed s)" "cpus t = cpus (pushed s)"
    "ncpu t = ncpu s" "lapic_id t = lapic_id s"
  shows "popcli t = Inr ((), t\<lparr>eflags := eflags s, cpus := cpus s\<rparr>)"
proof -
  obtain i where i: "this_cpu s = Some i" using irq_ok_cpu [OF ok] by blast
  note b = this_cpu_bound [OF i]
  have off: "eflags t AND FL_IF = 0" using eflags_pushed [OF ok] t(1) by simp
  have cpu_t: "this_cpu t = Some i"
    using this_cpu_cong [of t s] this_cpu_pushed [of s] t i
    by (simp add: this_cpu_def pushed_def map_apicid_update)
  have ncli: "0 \<le> c_ncli (cpus s ! i)" and
    flag: "if c_ncli (cpus s ! i) = 0 then c_intena (cpus s ! i) = eflags s AND FL_IF
      else eflags s AND FL_IF = 0"
    using ok by (simp_all add: irq_ok_def i)
  have cpus_t: "cpus t = (cpus s)[i := (cpus s ! i)\<lparr>c_ncli := c_ncli (cpus s ! i) + 1\<rparr>]"
    and fl_t: "eflags t = eflags s AND NOT FL_IF"
    using t pushed_irq_ok [OF ok i] by simp_all
  have run: "popcli t = (if c_ncli (cpus s ! i) = 0 \<and> c_intena (cpus s ! i) \<noteq> 0
      then Inr ((), t\<lparr>cpus := cpus s, eflags := eflags t OR FL_IF\<rparr>)
      else Inr ((), t\<lparr>cpus := cpus s\<rparr>))"
    using mycpu_run [OF off cpu_t] off ncli b by (simp add: kmonad popcli_def cpus_t)
  show ?thesis
    unfolding run using flag eflags_restored [of "eflags s"] fl_t
    by (auto split: if_splits)
qed

lemma pushed_restore: "(pushed s)\<lparr>eflags := eflags s, cpus := cpus s\<rparr> = s"
  by (simp add: pushed_def split: option.splits)

lemma pushed_simps [simp]:
  "mem (pushed s) = mem s" "procs (pushed s) = procs s" "ncpu (pushed s) = ncpu s"
  "lapic_id (pushed s) = lapic_id s" "cr3 (pushed s) = cr3 s"
  "kmem_use_lock (pushed s) = kmem_use_lock s" "kmem_freelist (pushed s) = kmem_freelist s"
  "locks (pushed s) = locks s" "length (cpus (pushed s)) = length (cpus s)"
  by (auto simp: pushed_def split: option.splits)

lemma popcli_pushed: "irq_ok s \<Longrightarrow> popcli (pushed s) = Inr ((), s)"
  using popcli_after [of s "pushed s"] by (simp add: pushed_restore)

lemma mycpu_pushed: "irq_ok s \<Longrightarrow> this_cpu s = Some i \<Longrightarrow> mycpu (pushed s) = Inr (i, pushed s)"
  by (rule mycpu_run) (simp_all add: eflags_pushed)

definition cur :: "kstate \<Rightarrow> nat option" where
  "cur s = (case this_cpu s of None \<Rightarrow> None | Some i \<Rightarrow> c_proc (cpus s ! i))"

lemma myproc_run: "irq_ok s \<Longrightarrow> myproc s = Inr (cur s, s)"
proof -
  assume ok: "irq_ok s"
  then obtain i where i: "this_cpu s = Some i" using irq_ok_cpu by blast
  have "c_proc (cpus (pushed s) ! i) = cur s"
    using this_cpu_bound [OF i] by (simp add: pushed_def cur_def i)
  then show ?thesis
    using pushcli_run [OF i] mycpu_pushed [OF ok i] popcli_pushed [OF ok]
    by (simp add: kmonad myproc_def)
qed

lemma curproc_run: "irq_ok s \<Longrightarrow> cur s = Some p \<Longrightarrow> curproc s = Inr (p, s)"
  by (simp add: kmonad curproc_def myproc_run)

section \<open>Critical sections on one processor\<close>

definition lock_free :: "lockref \<Rightarrow> kstate \<Rightarrow> bool" where
  "lock_free r s \<longleftrightarrow> sl_locked (lock_of r s) = 0 \<and> sl_cpu (lock_of r s) = None"

lemma lock_of_put_lock [simp]:
  "locks (put_lock r l s) = (locks s)(r := l)"
  by (simp_all add: put_lock_def)

lemma put_lock_simps [simp]:
  "eflags (put_lock r l s) = eflags s" "cpus (put_lock r l s) = cpus s"
  "ncpu (put_lock r l s) = ncpu s" "lapic_id (put_lock r l s) = lapic_id s"
  "mem (put_lock r l s) = mem s" "procs (put_lock r l s) = procs s"
  "kmem_freelist (put_lock r l s) = kmem_freelist s" "kmem_use_lock (put_lock r l s) = kmem_use_lock s"
  "cr3 (put_lock r l s) = cr3 s"
  by (simp_all add: put_lock_def)

lemma put_lock_put_lock [simp]: "put_lock r l (put_lock r l' s) = put_lock r l s"
  by (simp add: put_lock_def)

lemma this_cpu_put_lock [simp]: "this_cpu (put_lock r l s) = this_cpu s"
  by (rule this_cpu_cong) simp_all

lemma irq_ok_cong:
  "eflags t = eflags s \<Longrightarrow> cpus t = cpus s \<Longrightarrow> ncpu t = ncpu s \<Longrightarrow> lapic_id t = lapic_id s \<Longrightarrow>
   irq_ok t = irq_ok s"
  using this_cpu_cong [of t s] by (simp add: irq_ok_def split: option.splits)

lemma irq_ok_put_lock [simp]: "irq_ok (put_lock r l s) = irq_ok s"
  by (rule irq_ok_cong) simp_all

lemma holding_run:
  assumes "irq_ok s" "this_cpu s = Some i"
  shows "holding r s = Inr (sl_locked (lock_of r s) \<noteq> 0 \<and> sl_cpu (lock_of r s) = Some i, s)"
  using pushcli_run [OF assms(2)] mycpu_pushed [OF assms] popcli_pushed [OF assms(1)]
  by (simp add: kmonad holding_def)

text \<open>The state inside a critical section.\<close>

definition locked :: "lockref \<Rightarrow> nat \<Rightarrow> kstate \<Rightarrow> kstate" where
  "locked r i s = put_lock r ((lock_of r s)\<lparr>sl_locked := 1, sl_cpu := Some i\<rparr>) (pushed s)"

lemma acquire_run:
  assumes "irq_ok s" "this_cpu s = Some i" "sl_locked (lock_of r s) = 0"
  shows "acquire r s = Inr ((), locked r i s)"
proof -
  have h: "holding r (pushed s) = Inr (False, pushed s)"
    using holding_run [OF irq_ok_pushed [OF assms(1)], of i r] assms by simp
  have m: "mycpu (put_lock r l (pushed s)) = Inr (i, put_lock r l (pushed s))" for l
    by (rule mycpu_run) (simp_all add: eflags_pushed assms)
  show ?thesis
    using pushcli_run [OF assms(2)] h assms(3)
    by (simp add: kmonad acquire_def xchg_def locked_def m)
qed

lemma acquire_panics:
  assumes "irq_ok s" "this_cpu s = Some i" "sl_locked (lock_of r s) \<noteq> 0" "sl_cpu (lock_of r s) = Some i"
  shows "acquire r s = Inl (Panic ''acquire'')"
  using pushcli_run [OF assms(2)] holding_run [OF irq_ok_pushed [OF assms(1)], of i r] assms(2-4)
  by (simp add: kmonad acquire_def)

lemma release_run:
  assumes ok: "irq_ok s" and i: "this_cpu s = Some i"
    and t: "eflags t = eflags (pushed s)" "cpus t = cpus (pushed s)" "ncpu t = ncpu s"
      "lapic_id t = lapic_id s"
    and l: "sl_locked (lock_of r t) \<noteq> 0" "sl_cpu (lock_of r t) = Some i"
  shows "release r t = Inr ((), put_lock r ((lock_of r t)\<lparr>sl_cpu := None, sl_locked := 0\<rparr>)
      (t\<lparr>eflags := eflags s, cpus := cpus s\<rparr>))"
proof -
  have ok_t: "irq_ok t" and i_t: "this_cpu t = Some i"
    using irq_ok_cong [of t "pushed s"] irq_ok_pushed [OF ok] this_cpu_cong [of t "pushed s"] t i
    by simp_all
  let ?u = "put_lock r ((lock_of r t)\<lparr>sl_cpu := None, sl_locked := 0\<rparr>) t"
  have "popcli ?u = Inr ((), ?u\<lparr>eflags := eflags s, cpus := cpus s\<rparr>)"
    by (rule popcli_after [OF ok]) (simp_all add: t)
  moreover have "?u\<lparr>eflags := eflags s, cpus := cpus s\<rparr> =
      put_lock r ((lock_of r t)\<lparr>sl_cpu := None, sl_locked := 0\<rparr>) (t\<lparr>eflags := eflags s, cpus := cpus s\<rparr>)"
    by (simp add: put_lock_def)
  ultimately show ?thesis
    using holding_run [OF ok_t i_t, of r] l by (simp add: kmonad release_def)
qed

text \<open>
  A critical section whose body leaves the interrupt state and the lock alone has the effect of
  its body only.
\<close>

lemma critical_section:
  assumes ok: "irq_ok s" and free: "lock_free r s" and i: "this_cpu s = Some i"
    and body: "m (locked r i s) = Inr (x, t)"
    and t: "eflags t = eflags (pushed s)" "cpus t = cpus (pushed s)" "ncpu t = ncpu s"
      "lapic_id t = lapic_id s" "lock_of r t = lock_of r (locked r i s)"
  shows "kseq (acquire r) (kbind m (\<lambda>x. kseq (release r) (kret x))) s =
    Inr (x, put_lock r (lock_of r s) (t\<lparr>eflags := eflags s, cpus := cpus s\<rparr>))"
proof -
  have "(lock_of r s)\<lparr>sl_cpu := None, sl_locked := 0\<rparr> = lock_of r s"
    using free by (cases "lock_of r s") (simp add: lock_free_def)
  then have "release r t = Inr ((), put_lock r (lock_of r s) (t\<lparr>eflags := eflags s, cpus := cpus s\<rparr>))"
    using release_run [OF ok i t(1-4), of r] t(5) by (simp add: locked_def)
  then show ?thesis
    using acquire_run [OF ok i, of r] free body by (simp add: kmonad lock_free_def)
qed

section \<open>Several processors\<close>

text \<open>
  The lock code of each processor cut at its accesses to the shared lock: the \<open>holding\<close> check
  of \<open>acquire\<close>, each \<open>xchg\<close>, the store to \<open>lk->cpu\<close>, and in \<open>release\<close> the \<open>holding\<close> check
  with the store that clears \<open>lk->cpu\<close> and the store that clears \<open>lk->locked\<close>. The
  processors interleave freely. \<open>Dead\<close> is a processor whose check panicked.
\<close>

datatype lockpc = Outside | Spinning | Taken | Critical | Leaving | Dead

record mpsys =
  mp_lock :: spinlock
  mp_pc :: "nat \<Rightarrow> lockpc"

definition holds :: "spinlock \<Rightarrow> nat \<Rightarrow> bool" where
  "holds l i \<longleftrightarrow> sl_locked l \<noteq> 0 \<and> sl_cpu l = Some i"

inductive lock_step :: "mpsys \<Rightarrow> mpsys \<Rightarrow> bool" where
  acq_check: "mp_pc s i = Outside \<Longrightarrow> \<not> holds (mp_lock s) i \<Longrightarrow>
     lock_step s (s\<lparr>mp_pc := (mp_pc s)(i := Spinning)\<rparr>)"
| acq_panic: "mp_pc s i = Outside \<Longrightarrow> holds (mp_lock s) i \<Longrightarrow>
     lock_step s (s\<lparr>mp_pc := (mp_pc s)(i := Dead)\<rparr>)"
| acq_xchg_busy: "mp_pc s i = Spinning \<Longrightarrow> sl_locked (mp_lock s) \<noteq> 0 \<Longrightarrow>
     lock_step s (s\<lparr>mp_lock := (mp_lock s)\<lparr>sl_locked := 1\<rparr>\<rparr>)"
| acq_xchg_free: "mp_pc s i = Spinning \<Longrightarrow> sl_locked (mp_lock s) = 0 \<Longrightarrow>
     lock_step s (s\<lparr>mp_lock := (mp_lock s)\<lparr>sl_locked := 1\<rparr>, mp_pc := (mp_pc s)(i := Taken)\<rparr>)"
| acq_cpu: "mp_pc s i = Taken \<Longrightarrow>
     lock_step s (s\<lparr>mp_lock := (mp_lock s)\<lparr>sl_cpu := Some i\<rparr>, mp_pc := (mp_pc s)(i := Critical)\<rparr>)"
| rel_cpu: "mp_pc s i = Critical \<Longrightarrow> holds (mp_lock s) i \<Longrightarrow>
     lock_step s (s\<lparr>mp_lock := (mp_lock s)\<lparr>sl_cpu := None\<rparr>, mp_pc := (mp_pc s)(i := Leaving)\<rparr>)"
| rel_panic: "mp_pc s i = Critical \<Longrightarrow> \<not> holds (mp_lock s) i \<Longrightarrow>
     lock_step s (s\<lparr>mp_pc := (mp_pc s)(i := Dead)\<rparr>)"
| rel_locked: "mp_pc s i = Leaving \<Longrightarrow>
     lock_step s (s\<lparr>mp_lock := (mp_lock s)\<lparr>sl_locked := 0\<rparr>, mp_pc := (mp_pc s)(i := Outside)\<rparr>)"

definition mp_init :: mpsys where
  "mp_init = \<lparr>mp_lock = spinlock0, mp_pc = (\<lambda>_. Outside)\<rparr>"

abbreviation lock_reachable :: "mpsys \<Rightarrow> bool" where
  "lock_reachable \<equiv> lock_step\<^sup>*\<^sup>* mp_init"

abbreviation owner_pc :: "lockpc \<Rightarrow> bool" where
  "owner_pc pc \<equiv> pc = Taken \<or> pc = Critical \<or> pc = Leaving"

text \<open>
  What the lock and the processors agree on: the word is set exactly while some processor is
  between its winning \<open>xchg\<close> and its clearing store, that processor is unique, \<open>cpu\<close> names it
  while it is in the critical section, and no check has panicked.
\<close>

definition mp_inv_for :: "nat option \<Rightarrow> mpsys \<Rightarrow> bool" where
  "mp_inv_for ow s \<longleftrightarrow>
     (\<forall>i. owner_pc (mp_pc s i) \<longleftrightarrow> ow = Some i) \<and>
     (sl_locked (mp_lock s) \<noteq> 0 \<longleftrightarrow> ow \<noteq> None) \<and>
     (\<forall>i. mp_pc s i = Critical \<longleftrightarrow> sl_cpu (mp_lock s) = Some i) \<and>
     (\<forall>i. mp_pc s i \<noteq> Dead)"

definition mp_inv :: "mpsys \<Rightarrow> bool" where
  "mp_inv s \<longleftrightarrow> (\<exists>ow. mp_inv_for ow s)"

lemma mp_inv_init: "mp_inv mp_init"
  by (auto simp: mp_inv_def mp_inv_for_def mp_init_def spinlock0_def)

lemma mp_inv_acq_check:
  "mp_pc s i = Outside \<Longrightarrow> mp_inv_for ow s \<Longrightarrow>
   mp_inv_for ow (s\<lparr>mp_pc := (mp_pc s)(i := Spinning)\<rparr>)"
  unfolding mp_inv_for_def by (simp add: fun_upd_apply) (metis lockpc.distinct(1,3,5,7))

lemma mp_inv_acq_busy:
  "sl_locked (mp_lock s) \<noteq> 0 \<Longrightarrow> mp_inv_for ow s \<Longrightarrow>
   mp_inv_for ow (s\<lparr>mp_lock := (mp_lock s)\<lparr>sl_locked := 1\<rparr>\<rparr>)"
  unfolding mp_inv_for_def by simp metis

lemma mp_inv_acq_free:
  "mp_pc s i = Spinning \<Longrightarrow> sl_locked (mp_lock s) = 0 \<Longrightarrow> mp_inv_for ow s \<Longrightarrow>
   mp_inv_for (Some i) (s\<lparr>mp_lock := (mp_lock s)\<lparr>sl_locked := 1\<rparr>, mp_pc := (mp_pc s)(i := Taken)\<rparr>)"
  unfolding mp_inv_for_def by (simp add: fun_upd_apply) (metis option.distinct(1))

lemma mp_inv_acq_cpu:
  "mp_pc s i = Taken \<Longrightarrow> mp_inv_for ow s \<Longrightarrow>
   mp_inv_for (Some i) (s\<lparr>mp_lock := (mp_lock s)\<lparr>sl_cpu := Some i\<rparr>, mp_pc := (mp_pc s)(i := Critical)\<rparr>)"
  unfolding mp_inv_for_def by (simp add: fun_upd_apply) (metis option.inject)

lemma mp_inv_rel_cpu:
  "mp_pc s i = Critical \<Longrightarrow> mp_inv_for ow s \<Longrightarrow>
   mp_inv_for ow (s\<lparr>mp_lock := (mp_lock s)\<lparr>sl_cpu := None\<rparr>, mp_pc := (mp_pc s)(i := Leaving)\<rparr>)"
  unfolding mp_inv_for_def by (simp add: fun_upd_apply) (metis option.inject)

lemma mp_inv_rel_locked:
  assumes "mp_pc s i = Leaving" "mp_inv_for ow s"
  shows "mp_inv_for None
    (s\<lparr>mp_lock := (mp_lock s)\<lparr>sl_locked := 0\<rparr>, mp_pc := (mp_pc s)(i := Outside)\<rparr>)"
proof -
  have "\<And>j. j \<noteq> i \<Longrightarrow> \<not> owner_pc (mp_pc s j)"
    using assms unfolding mp_inv_for_def by (metis option.inject)
  moreover have "sl_cpu (mp_lock s) \<noteq> Some i"
    using assms unfolding mp_inv_for_def by (auto dest: spec [of _ i])
  ultimately show ?thesis using assms unfolding mp_inv_for_def by (simp add: fun_upd_apply)
qed

text \<open>The checks of \<open>acquire\<close> and \<open>release\<close> never panic.\<close>

lemma mp_inv_no_panic:
  "mp_inv_for ow s \<Longrightarrow> mp_pc s i = Outside \<Longrightarrow> \<not> holds (mp_lock s) i"
  "mp_inv_for ow s \<Longrightarrow> mp_pc s i = Critical \<Longrightarrow> holds (mp_lock s) i"
  unfolding mp_inv_for_def holds_def by (metis lockpc.distinct(5)) (metis option.distinct(1))

lemma mp_inv_for_step: "lock_step s t \<Longrightarrow> mp_inv_for ow s \<Longrightarrow> \<exists>ow'. mp_inv_for ow' t"
proof (induction rule: lock_step.induct)
  case (acq_check s i)
  show ?case by (rule exI, rule mp_inv_acq_check) fact+
next
  case (acq_panic s i)
  then show ?case using mp_inv_no_panic(1) by blast
next
  case (acq_xchg_busy s i)
  show ?case by (rule exI, rule mp_inv_acq_busy) fact+
next
  case (acq_xchg_free s i)
  show ?case by (rule exI, rule mp_inv_acq_free) fact+
next
  case (acq_cpu s i)
  show ?case by (rule exI, rule mp_inv_acq_cpu) fact+
next
  case (rel_cpu s i)
  show ?case by (rule exI, rule mp_inv_rel_cpu) fact+
next
  case (rel_panic s i)
  then show ?case using mp_inv_no_panic(2) by blast
next
  case (rel_locked s i)
  show ?case by (rule exI, rule mp_inv_rel_locked) fact+
qed

lemma lock_step_inv: "lock_step s t \<Longrightarrow> mp_inv s \<Longrightarrow> mp_inv t"
  unfolding mp_inv_def by (elim exE) (rule mp_inv_for_step)

lemma reachable_mp_inv: "lock_reachable s \<Longrightarrow> mp_inv s"
proof (induction rule: rtranclp_induct)
  case base
  show ?case by (rule mp_inv_init)
next
  case (step s t)
  show ?case by (rule lock_step_inv [OF step.hyps(2) step.IH])
qed

section \<open>Properties\<close>

text \<open>
  C8: spin lock mutual exclusion. In every reachable interleaving at most one processor is
  between its winning exchange and its clearing store, the lock word is set exactly while one
  is, and the \<open>holding\<close> checks of \<open>acquire\<close> and \<open>release\<close> never panic.
\<close>

theorem spinlock_mutual_exclusion:
  assumes "lock_reachable s"
  shows "(\<forall>i j. owner_pc (mp_pc s i) \<and> owner_pc (mp_pc s j) \<longrightarrow> i = j) \<and>
    (sl_locked (mp_lock s) \<noteq> 0 \<longleftrightarrow> (\<exists>i. owner_pc (mp_pc s i))) \<and> (\<forall>i. mp_pc s i \<noteq> Dead)"
proof -
  obtain ow where ow: "mp_inv_for ow s"
    using reachable_mp_inv [OF assms] unfolding mp_inv_def by blast
  then have iff: "\<And>i. owner_pc (mp_pc s i) \<longleftrightarrow> ow = Some i" and lk: "sl_locked (mp_lock s) \<noteq> 0 \<longleftrightarrow> ow \<noteq> None"
    and dead: "\<forall>i. mp_pc s i \<noteq> Dead"
    unfolding mp_inv_for_def by blast+
  have "\<forall>i j. ow = Some i \<and> ow = Some j \<longrightarrow> i = j" by auto
  moreover have "ow \<noteq> None \<longleftrightarrow> (\<exists>i. ow = Some i)" by (rule not_None_eq)
  ultimately show ?thesis unfolding iff lk using dead by blast
qed

definition mp_example :: mpsys where
  "mp_example = mp_init\<lparr>mp_pc := (\<lambda>_. Outside)(3 := Spinning)\<rparr>"

theorem spinlock_mutual_exclusion_witness:
  "mp_pc mp_example 3 = Spinning \<and> sl_locked (mp_lock mp_example) = 0 \<and> (\<forall>i. mp_pc mp_example i \<noteq> Dead)"
proof -
  have "lock_step mp_init (mp_init\<lparr>mp_pc := (mp_pc mp_init)(3 := Spinning)\<rparr>)"
    by (rule acq_check) (simp_all add: mp_init_def holds_def spinlock0_def)
  then have "lock_reachable mp_example"
    by (simp add: mp_example_def mp_init_def r_into_rtranclp)
  note ex = spinlock_mutual_exclusion [OF this]
  have "mp_pc mp_example 3 = Spinning" "sl_locked (mp_lock mp_example) = 0"
    by (simp_all add: mp_example_def mp_init_def spinlock0_def)
  then show ?thesis using ex by blast
qed

end
