(* ===== verification/Kstring.thy ===== *)
theory Kstring
  imports Kernel_State
begin

text \<open>
  The kernel's memory and string routines (\<open>string.c\<close>, with the string instructions \<open>stosb\<close>
  and \<open>stosl\<close> of \<open>x86.h\<close>). The memory routines work on \<^typ>\<open>memory\<close>; a pointer is an address and
  address arithmetic wraps at 32 bits. The string routines that the kernel applies to arrays
  inside its own structures work on byte lists. Each loop is shown equal to a closed form.
\<close>

section \<open>Filling memory\<close>

primrec stosb :: "nat \<Rightarrow> u8 \<Rightarrow> u32 \<Rightarrow> memory \<Rightarrow> memory" where
  "stosb 0 c a m = m"
| "stosb (Suc n) c a m = stosb n c (a + 1) (m(a := c))"

primrec stosl :: "nat \<Rightarrow> u32 \<Rightarrow> u32 \<Rightarrow> memory \<Rightarrow> memory" where
  "stosl 0 d a m = m"
| "stosl (Suc n) d a m = stosl n d (a + 4) (store32 m a d)"

definition memset :: "memory \<Rightarrow> u32 \<Rightarrow> u32 \<Rightarrow> u32 \<Rightarrow> memory" where
  "memset m dst c n =
     (if unat dst mod 4 = 0 \<and> unat n mod 4 = 0
      then let c' = c AND 0xFF in
        stosl (unat n div 4) (push_bit 24 c' OR push_bit 16 c' OR push_bit 8 c' OR c') dst m
      else stosb (unat n) (ucast c) dst m)"

text \<open>The bytes of the range \<open>[dst, dst + n)\<close>, which may wrap, set to \<open>c\<close>.\<close>

definition fill :: "memory \<Rightarrow> u32 \<Rightarrow> u8 \<Rightarrow> nat \<Rightarrow> memory" where
  "fill m dst c n = (\<lambda>a. if unat (a - dst) < n then c else m a)"

lemma unat_minus_1: "(x :: u32) \<noteq> 0 \<Longrightarrow> unat (x - 1) = unat x - 1"
  by (simp add: unat_minus_one)

lemma fill_Suc: "n < 4294967296 \<Longrightarrow> fill m a c (Suc n) = fill (m(a := c)) (a + 1) c n"
proof (rule ext)
  fix x
  assume n: "n < 4294967296"
  have eq: "x - (a + 1) = (x - a) - 1" by simp
  show "fill m a c (Suc n) x = fill (m(a := c)) (a + 1) c n x"
  proof (cases "x = a")
    case True
    then show ?thesis by (simp add: fill_def)
  next
    case False
    then have "x - a \<noteq> 0" by simp
    then have "unat (x - (a + 1)) = unat (x - a) - 1" "0 < unat (x - a)"
      unfolding eq using unat_minus_1 [of "x - a"] by (simp_all add: unat_gt_0)
    then have "unat (x - (a + 1)) < n \<longleftrightarrow> unat (x - a) < Suc n" by linarith
    with False show ?thesis by (simp add: fill_def)
  qed
qed

lemma stosb_fill: "n \<le> 4294967296 \<Longrightarrow> stosb n c a m = fill m a c n"
proof (induction n arbitrary: a m)
  case 0
  then show ?case by (simp add: fill_def)
next
  case (Suc n)
  then show ?case by (simp add: fill_Suc)
qed

definition rep4 :: "u32 \<Rightarrow> u32" where
  "rep4 c = (let c' = c AND 0xFF in push_bit 24 c' OR push_bit 16 c' OR push_bit 8 c' OR c')"

lemma rep4_bytes:
  "ucast (rep4 c) = (ucast c :: u8)" "ucast (drop_bit 8 (rep4 c)) = (ucast c :: u8)"
  "ucast (drop_bit 16 (rep4 c)) = (ucast c :: u8)" "ucast (drop_bit 24 (rep4 c)) = (ucast c :: u8)"
  unfolding rep4_def Let_def mask8 by (rule bit_eqI, auto simp: bit_simps)+

lemma store32_rep4:
  "store32 m a (rep4 c) = m(a := ucast c, a + 1 := ucast c, a + 2 := ucast c, a + 3 := ucast c)"
  by (simp add: store32_def rep4_bytes)

lemma stosl_stosb: "stosl n (rep4 c) a m = stosb (4 * n) (ucast c) a m"
proof (induction n arbitrary: a m)
  case (Suc n)
  have four: "4 * Suc n = Suc (Suc (Suc (Suc (4 * n))))" by simp
  have "stosl (Suc n) (rep4 c) a m = stosb (4 * n) (ucast c) (a + 4) (store32 m a (rep4 c))"
    by (simp add: Suc.IH)
  also have "\<dots> = stosb (4 * Suc n) (ucast c) a m"
    unfolding four store32_rep4 by (simp add: add.assoc)
  finally show ?case .
qed simp

lemma memset_fill: "memset m dst c n = fill m dst (ucast c) (unat n)"
proof -
  have "unat n \<le> 4294967296" using unat_lt_u32 [of n] by simp
  then have b: "stosb (unat n) (ucast c) dst m = fill m dst (ucast c) (unat n)"
    by (rule stosb_fill)
  have "stosl (unat n div 4) (rep4 c) dst m = stosb (4 * (unat n div 4)) (ucast c) dst m"
    by (rule stosl_stosb)
  moreover have "unat n mod 4 = 0 \<Longrightarrow> 4 * (unat n div 4) = unat n" by auto
  ultimately show ?thesis
    using b by (auto simp: memset_def rep4_def Let_def)
qed

section \<open>Copying memory\<close>

primrec copy_up :: "nat \<Rightarrow> u32 \<Rightarrow> u32 \<Rightarrow> memory \<Rightarrow> memory" where
  "copy_up 0 s d m = m"
| "copy_up (Suc n) s d m = copy_up n (s + 1) (d + 1) (m(d := m s))"

primrec copy_down :: "nat \<Rightarrow> u32 \<Rightarrow> u32 \<Rightarrow> memory \<Rightarrow> memory" where
  "copy_down 0 s d m = m"
| "copy_down (Suc n) s d m = copy_down n (s - 1) (d - 1) (m(d - 1 := m (s - 1)))"

definition memmove :: "memory \<Rightarrow> u32 \<Rightarrow> u32 \<Rightarrow> u32 \<Rightarrow> memory" where
  "memmove m dst src n =
     (if src < dst \<and> dst < src + n then copy_down (unat n) (src + n) (dst + n) m
      else copy_up (unat n) src dst m)"

text \<open>The destination range receives what the source range held before the call.\<close>

definition copied :: "memory \<Rightarrow> u32 \<Rightarrow> u32 \<Rightarrow> nat \<Rightarrow> memory" where
  "copied m dst src n = (\<lambda>a. if unat (a - dst) < n then m (src + (a - dst)) else m a)"

lemma copy_up_copied:
  assumes "n \<le> 4294967296" "\<And>i. 0 < i \<Longrightarrow> i < n \<Longrightarrow> s + of_nat i \<noteq> d"
  shows "copy_up n s d m = copied m d s n"
  using assms
proof (induction n arbitrary: s d m)
  case 0
  then show ?case by (simp add: copied_def)
next
  case (Suc n)
  have "(s + 1) + of_nat i \<noteq> d + 1" if "0 < i" "i < n" for i
    using Suc.prems(2) [of i] that by (simp add: algebra_simps)
  then have IH: "copy_up n (s + 1) (d + 1) (m(d := m s)) = copied (m(d := m s)) (d + 1) (s + 1) n"
    using Suc.prems(1) by (intro Suc.IH) auto
  have "copied (m(d := m s)) (d + 1) (s + 1) n a = copied m d s (Suc n) a" for a
  proof (cases "a = d")
    case True
    then show ?thesis using Suc.prems(1) by (simp add: copied_def)
  next
    case False
    have eq: "a - (d + 1) = (a - d) - 1" "(s + 1) + ((a - d) - 1) = s + (a - d)" by simp_all
    from False have u: "unat ((a - d) - 1) = unat (a - d) - 1" "0 < unat (a - d)"
      using unat_minus_1 [of "a - d"] by (simp_all add: unat_gt_0)
    have "s + (a - d) \<noteq> d" if "unat (a - d) < Suc n"
      using Suc.prems(2) [of "unat (a - d)"] u(2) that by simp
    with False u show ?thesis unfolding copied_def eq by auto
  qed
  with IH show ?case by auto
qed

lemma copy_down_copied:
  assumes "n \<le> 4294967296" "\<And>i. 0 < i \<Longrightarrow> i < n \<Longrightarrow> s - of_nat i \<noteq> d"
  shows "copy_down n s d m = copied m (d - of_nat n) (s - of_nat n) n"
  using assms
proof (induction n arbitrary: s d m)
  case 0
  then show ?case by (simp add: copied_def)
next
  case (Suc n)
  have "(s - 1) - of_nat i \<noteq> d - 1" if "0 < i" "i < n" for i
    using Suc.prems(2) [of i] that by (simp add: algebra_simps)
  then have IH: "copy_down n (s - 1) (d - 1) (m(d - 1 := m (s - 1))) =
      copied (m(d - 1 := m (s - 1))) (d - 1 - of_nat n) (s - 1 - of_nat n) n"
    using Suc.prems(1) by (intro Suc.IH) auto
  let ?b = "d - 1 - of_nat n" and ?c = "s - 1 - of_nat n"
  have "copied (m(d - 1 := m (s - 1))) ?b ?c n a = copied m ?b ?c (Suc n) a" for a
  proof (cases "a = d - 1")
    case True
    then have "unat (a - ?b) = n" using Suc.prems(1) by (simp add: unat_of_nat)
    with True show ?thesis by (simp add: copied_def)
  next
    case False
    have ne: "unat (a - ?b) \<noteq> n"
    proof
      assume "unat (a - ?b) = n"
      moreover have "a - ?b = of_nat (unat (a - ?b))" by simp
      ultimately have "a - ?b = of_nat n" by simp
      then have "a = ?b + of_nat n" by (simp add: algebra_simps)
      with False show False by simp
    qed
    have "?c + (a - ?b) \<noteq> d - 1" if "unat (a - ?b) < n"
    proof
      assume eq: "?c + (a - ?b) = d - 1"
      let ?k = "unat (a - ?b)"
      have "s - of_nat (n - ?k) = (?c + of_nat ?k) + 1"
        using that by (simp add: of_nat_diff algebra_simps)
      then have "s - of_nat (n - ?k) = d" using eq by simp
      moreover have "0 < n - ?k" "n - ?k < Suc n" using that by linarith+
      ultimately show False using Suc.prems(2) by blast
    qed
    with ne False show ?thesis unfolding copied_def by auto
  qed
  with IH show ?case by (auto simp: algebra_simps)
qed

lemma memmove_copied:
  assumes "unat src + unat n \<le> 4294967296" "unat dst + unat n \<le> 4294967296"
  shows "memmove m dst src n = copied m dst src (unat n)"
proof -
  have n: "unat n \<le> 4294967296" using unat_lt_u32 [of n] by simp
  have up: "unat (src + of_nat i) = unat src + i" "unat (of_nat i :: u32) = i" if "i < unat n" for i
    using that assms(1) unat_lt_u32 [of n] by (simp_all add: unat_word_ariths unat_of_nat)
  show ?thesis
  proof (cases "src < dst \<and> dst < src + n")
    case True
    then have lt: "unat src < unat dst" by (simp add: word_less_nat_alt)
    then have "unat (src + n) = unat src + unat n"
      using assms by (simp add: unat_word_ariths)
    then have "unat (src + n - of_nat i) = unat src + unat n - i" if "i < unat n" for i
      using that up(2) [OF that] unat_sub [of "of_nat i" "src + n"] by (simp add: word_le_nat_alt)
    moreover have "unat (dst + n) = (unat dst + unat n) mod 4294967296"
      by (simp add: unat_word_ariths)
    ultimately have ne: "src + n - of_nat i \<noteq> dst + n" if "0 < i" "i < unat n" for i
    proof -
      assume eqs: "\<And>i. i < unat n \<Longrightarrow> unat (src + n - of_nat i) = unat src + unat n - i"
        "unat (dst + n) = (unat dst + unat n) mod 4294967296"
      have "0 < unat src + unat n - i" "unat src + unat n - i < unat dst + unat n"
        using that lt by linarith+
      then have "unat src + unat n - i \<noteq> (unat dst + unat n) mod 4294967296"
        using assms(2) by (cases "unat dst + unat n = 4294967296") simp_all
      then show ?thesis using eqs(1) [OF that(2)] eqs(2) by metis
    qed
    have "copy_down (unat n) (src + n) (dst + n) m = copied m dst src (unat n)"
      using copy_down_copied [OF n, of "src + n" "dst + n" m] ne by simp
    with True show ?thesis by (simp add: memmove_def)
  next
    case False
    have "src + of_nat i \<noteq> dst" if "0 < i" "i < unat n" for i
    proof
      assume "src + of_nat i = dst"
      then have d: "unat dst = unat src + i" using up [OF that(2)] by simp
      then have "unat src + unat n < 4294967296" using that assms(2) by simp
      then have "unat (src + n) = unat src + unat n" by (simp add: unat_word_ariths)
      then show False using False d that by (simp add: word_less_nat_alt)
    qed
    then have "copy_up (unat n) src dst m = copied m dst src (unat n)"
      by (intro copy_up_copied n)
    with False show ?thesis by (auto simp: memmove_def)
  qed
qed

end
