(* ===== verification/Kalloc.thy ===== *)
theory Kalloc
  imports Spinlock Kstring
begin

text \<open>
  The physical page allocator (\<open>kalloc.c\<close>). Free pages form a list linked through their first
  word, as in the source; \<open>kmem_inv\<close> relates the linked list in memory to the sequence of
  pages it stands for, and the operations are shown to implement a stack of pages.
\<close>

section \<open>Operations\<close>

definition kmemset :: "u32 \<Rightarrow> u32 \<Rightarrow> u32 \<Rightarrow> unit K" where
  "kmemset dst c n = (\<lambda>s. if dst = 0 then Inl NullDeref
     else Inr ((), s\<lparr>mem := memset (mem s) dst c n\<rparr>))"

definition kfree :: "u32 \<Rightarrow> unit K" where
  "kfree v = (\<lambda>s.
     if v mod PGSIZE \<noteq> 0 \<or> v < sym_end s \<or> V2P v \<ge> PHYSTOP then panic ''kfree'' s
     else
     kseq (kmemset v 1 PGSIZE)
     (kseq (if kmem_use_lock s \<noteq> 0 then acquire KmemLock else kret ())
     (kbind (kget kmem_freelist) (\<lambda>head.
     kseq (wr32 v head)
     (kseq (kmod (\<lambda>s. s\<lparr>kmem_freelist := v\<rparr>))
     (if kmem_use_lock s \<noteq> 0 then release KmemLock else kret ()))))) s)"

definition kalloc :: "u32 K" where
  "kalloc = (\<lambda>s.
     kseq (if kmem_use_lock s \<noteq> 0 then acquire KmemLock else kret ())
     (kbind (kget kmem_freelist) (\<lambda>r.
     kseq (if r \<noteq> 0 then kbind (rd32 r) (\<lambda>nxt. kmod (\<lambda>s. s\<lparr>kmem_freelist := nxt\<rparr>)) else kret ())
     (kseq (if kmem_use_lock s \<noteq> 0 then release KmemLock else kret ())
     (kret r)))) s)"

text \<open>The loop of \<open>freerange\<close>; the bound is the number of pages in the address space.\<close>

fun freerange_loop :: "nat \<Rightarrow> u32 \<Rightarrow> u32 \<Rightarrow> unit K" where
  "freerange_loop 0 p vend = kfail OutOfFuel"
| "freerange_loop (Suc n) p vend =
     (if p + PGSIZE \<le> vend then kseq (kfree p) (freerange_loop n (p + PGSIZE) vend) else kret ())"

definition freerange :: "u32 \<Rightarrow> u32 \<Rightarrow> unit K" where
  "freerange vstart vend = freerange_loop 1048577 (PGROUNDUP vstart) vend"

definition kinit1 :: "u32 \<Rightarrow> u32 \<Rightarrow> unit K" where
  "kinit1 vstart vend =
     kseq (initlock KmemLock ''kmem'')
     (kseq (kmod (\<lambda>s. s\<lparr>kmem_use_lock := 0\<rparr>))
     (freerange vstart vend))"

definition kinit2 :: "u32 \<Rightarrow> u32 \<Rightarrow> unit K" where
  "kinit2 vstart vend = kseq (freerange vstart vend) (kmod (\<lambda>s. s\<lparr>kmem_use_lock := 1\<rparr>))"

section \<open>The free list as a sequence of pages\<close>

primrec free_path :: "memory \<Rightarrow> u32 \<Rightarrow> u32 list \<Rightarrow> bool" where
  "free_path m p [] \<longleftrightarrow> p = 0"
| "free_path m p (x # xs) \<longleftrightarrow> p = x \<and> x \<noteq> 0 \<and> free_path m (load32 m x) xs"

definition kpage_ok :: "kstate \<Rightarrow> u32 \<Rightarrow> bool" where
  "kpage_ok s v \<longleftrightarrow> v mod PGSIZE = 0 \<and> sym_end s \<le> v \<and> V2P v < PHYSTOP"

definition kmem_ready :: "kstate \<Rightarrow> bool" where
  "kmem_ready s \<longleftrightarrow> irq_ok s \<and> (kmem_use_lock s \<noteq> 0 \<longrightarrow> lock_free KmemLock s)"

definition kmem_inv :: "kstate \<Rightarrow> u32 list \<Rightarrow> bool" where
  "kmem_inv s xs \<longleftrightarrow> kmem_ready s \<and> free_path (mem s) (kmem_freelist s) xs \<and> distinct xs \<and>
     (\<forall>x \<in> set xs. kpage_ok s x)"

lemma PGSIZE_mod_iff: "v mod PGSIZE = 0 \<longleftrightarrow> page_aligned v"
  by (simp add: page_aligned_def PGSIZE_def word_unat_eq_iff unat_mod_distrib)

lemma kpage_ok_aligned: "kpage_ok s v \<Longrightarrow> page_aligned v"
  by (simp add: kpage_ok_def PGSIZE_mod_iff)

lemma kpage_ok_nonzero: "kpage_ok s v \<Longrightarrow> v \<noteq> 0"
  by (auto simp: kpage_ok_def V2P_def KERNBASE_def PHYSTOP_def)

lemma unat_PGSIZE [simp]: "unat PGSIZE = 4096"
  by (simp add: PGSIZE_def)

lemma free_path_cong:
  "(\<And>x. x \<in> set xs \<Longrightarrow> load32 m x = load32 m' x) \<Longrightarrow> free_path m p xs = free_path m' p xs"
  by (induction xs arbitrary: p) auto

text \<open>Without lock trouble the two operations reduce to their effect on the list.\<close>

lemma kalloc_run:
  assumes "kmem_ready s"
  shows "kalloc s = (if kmem_freelist s = 0 then Inr (0, s)
    else Inr (kmem_freelist s, s\<lparr>kmem_freelist := load32 (mem s) (kmem_freelist s)\<rparr>))"
proof (cases "kmem_use_lock s = 0")
  case True
  then show ?thesis by (simp add: kalloc_def kmonad)
next
  case False
  with assms have ok: "irq_ok s" and free: "lock_free KmemLock s"
    by (auto simp: kmem_ready_def)
  obtain i where i: "this_cpu s = Some i" using irq_ok_cpu [OF ok] by blast
  let ?s = "locked KmemLock i s"
  let ?f = "\<lambda>t. if kmem_freelist s \<noteq> 0 then t\<lparr>kmem_freelist := load32 (mem s) (kmem_freelist s)\<rparr> else t"
  have acq: "acquire KmemLock s = Inr ((), ?s)"
    using acquire_run [OF ok i] free by (simp add: lock_free_def)
  have "release KmemLock (?f ?s) = Inr ((), put_lock KmemLock
      ((lock_of KmemLock (?f ?s))\<lparr>sl_cpu := None, sl_locked := 0\<rparr>) ((?f ?s)\<lparr>eflags := eflags s, cpus := cpus s\<rparr>))"
    by (rule release_run [OF ok i]) (simp_all add: locked_def)
  moreover have "put_lock KmemLock ((lock_of KmemLock (?f ?s))\<lparr>sl_cpu := None, sl_locked := 0\<rparr>)
      ((?f ?s)\<lparr>eflags := eflags s, cpus := cpus s\<rparr>) = ?f s"
    using free by (cases "locks s KmemLock") (auto simp: locked_def lock_free_def put_lock_def pushed_def fun_upd_idem split: option.splits)
  ultimately have rel: "release KmemLock (?f ?s) = Inr ((), ?f s)" by simp
  show ?thesis
  proof (cases "kmem_freelist s = 0")
    case True
    with False acq rel show ?thesis by (simp add: kalloc_def kmonad locked_def)
  next
    case nz: False
    with False acq rel show ?thesis by (simp add: kalloc_def kmonad locked_def)
  qed
qed

lemma kfree_run:
  assumes "kmem_ready s" "kpage_ok s v"
  shows "kfree v s = Inr ((), s\<lparr>mem := store32 (fill (mem s) v 1 4096) v (kmem_freelist s), kmem_freelist := v\<rparr>)"
proof -
  have v: "v mod PGSIZE = 0" "\<not> v < sym_end s" "\<not> PHYSTOP \<le> V2P v" "v \<noteq> 0"
    using assms(2) kpage_ok_nonzero [OF assms(2)] by (auto simp: kpage_ok_def)
  let ?m = "fill (mem s) v 1 4096"
  have ms: "memset (mem s) v 1 PGSIZE = ?m" by (simp add: memset_fill)
  show ?thesis
  proof (cases "kmem_use_lock s = 0")
    case True
    then show ?thesis using v by (simp add: kfree_def kmemset_def ms kmonad)
  next
    case False
    let ?s = "s\<lparr>mem := ?m\<rparr>"
    from False assms(1) have ok: "irq_ok ?s" and free: "lock_free KmemLock ?s"
      using irq_ok_cong [of ?s s] by (auto simp: kmem_ready_def lock_free_def)
    obtain i where i: "this_cpu ?s = Some i" using irq_ok_cpu [OF ok] by blast
    let ?t = "(locked KmemLock i ?s)\<lparr>mem := store32 ?m v (kmem_freelist s), kmem_freelist := v\<rparr>"
    have acq: "acquire KmemLock ?s = Inr ((), locked KmemLock i ?s)"
      using acquire_run [OF ok i] free by (simp add: lock_free_def)
    have "release KmemLock ?t = Inr ((), put_lock KmemLock
        ((lock_of KmemLock ?t)\<lparr>sl_cpu := None, sl_locked := 0\<rparr>) (?t\<lparr>eflags := eflags ?s, cpus := cpus ?s\<rparr>))"
      by (rule release_run [OF ok i]) (simp_all add: locked_def)
    moreover have "put_lock KmemLock ((lock_of KmemLock ?t)\<lparr>sl_cpu := None, sl_locked := 0\<rparr>)
        (?t\<lparr>eflags := eflags ?s, cpus := cpus ?s\<rparr>) =
        s\<lparr>mem := store32 ?m v (kmem_freelist s), kmem_freelist := v\<rparr>"
      using free by (cases "locks s KmemLock") (auto simp: locked_def lock_free_def put_lock_def pushed_def fun_upd_idem split: option.splits)
    ultimately have rel: "release KmemLock ?t =
        Inr ((), s\<lparr>mem := store32 ?m v (kmem_freelist s), kmem_freelist := v\<rparr>)" by simp
    have loc: "kmem_freelist (locked KmemLock i ?s) = kmem_freelist s" "mem (locked KmemLock i ?s) = ?m"
      by (simp_all add: locked_def)
    show ?thesis using v False acq rel by (simp add: kfree_def kmemset_def ms kmonad loc)
  qed
qed

lemma kfree_bad_page: "\<not> kpage_ok s v \<Longrightarrow> kfree v s = Inl (Panic ''kfree'')"
  by (auto simp: kfree_def kpage_ok_def)

section \<open>The allocator as a stack of pages\<close>

lemma fill_other_page: "page_aligned v \<Longrightarrow> PPN a \<noteq> PPN v \<Longrightarrow> fill m v c 4096 a = m a"
  using in_page_iff [of v a] by (simp add: fill_def)

lemma page_eq_fill: "page_aligned v \<Longrightarrow> PPN p \<noteq> PPN v \<Longrightarrow> page_eq (fill m v c 4096) m p"
  by (simp add: page_eq_def fill_other_page)

lemma kmem_ready_cong:
  "eflags t = eflags s \<Longrightarrow> cpus t = cpus s \<Longrightarrow> ncpu t = ncpu s \<Longrightarrow> lapic_id t = lapic_id s \<Longrightarrow>
   kmem_use_lock t = kmem_use_lock s \<Longrightarrow> locks t KmemLock = locks s KmemLock \<Longrightarrow> kmem_ready t = kmem_ready s"
  using irq_ok_cong [of t s] by (simp add: kmem_ready_def lock_free_def)

lemma kmem_inv_empty: "kmem_inv s [] \<Longrightarrow> kalloc s = Inr (0, s)"
  by (simp add: kmem_inv_def kalloc_run)

lemma kmem_inv_alloc:
  assumes "kmem_inv s (x # xs)"
  shows "kalloc s = Inr (x, s\<lparr>kmem_freelist := load32 (mem s) x\<rparr>)"
    and "kmem_inv (s\<lparr>kmem_freelist := load32 (mem s) x\<rparr>) xs"
proof -
  show "kalloc s = Inr (x, s\<lparr>kmem_freelist := load32 (mem s) x\<rparr>)"
    using assms by (auto simp: kmem_inv_def kalloc_run)
  have "kmem_ready (s\<lparr>kmem_freelist := load32 (mem s) x\<rparr>) = kmem_ready s"
    by (rule kmem_ready_cong) simp_all
  then show "kmem_inv (s\<lparr>kmem_freelist := load32 (mem s) x\<rparr>) xs"
    using assms by (simp add: kmem_inv_def kpage_ok_def)
qed

lemma kmem_inv_free:
  assumes inv: "kmem_inv s xs" and v: "kpage_ok s v" "v \<notin> set xs"
  shows "kmem_inv (s\<lparr>mem := store32 (fill (mem s) v 1 4096) v (kmem_freelist s), kmem_freelist := v\<rparr>) (v # xs)"
    (is "kmem_inv ?t _")
proof -
  have al: "page_aligned v" using v(1) by (rule kpage_ok_aligned)
  have "load32 (store32 (fill (mem s) v 1 4096) v (kmem_freelist s)) x = load32 (mem s) x" if "x \<in> set xs" for x
  proof -
    have x: "page_aligned x" using inv that kpage_ok_aligned by (auto simp: kmem_inv_def)
    then have "PPN x \<noteq> PPN v" using v(2) that al page_eq_iff by blast
    then have "page_eq (store32 (fill (mem s) v 1 4096) v (kmem_freelist s)) (mem s) x"
      using page_eq_trans page_eq_store32 page_eq_fill al page_aligned_aligned4 by blast
    then show ?thesis using load32_page_eq x page_aligned_aligned4 by blast
  qed
  then have "free_path (mem ?t) (kmem_freelist s) xs"
    using inv free_path_cong [of xs "mem ?t" "mem s" "kmem_freelist s"] by (simp add: kmem_inv_def)
  moreover have "kmem_ready ?t = kmem_ready s" by (rule kmem_ready_cong) simp_all
  ultimately show ?thesis
    using inv v kpage_ok_nonzero [OF v(1)] by (auto simp: kmem_inv_def kpage_ok_def)
qed

text \<open>
  The contract a client of the allocator relies on: \<open>pool s xs\<close> says that \<open>xs\<close> are the free
  pages, \<open>valid\<close> which pages may be given back, \<open>null\<close> is the answer when none is left.
\<close>

locale page_allocator =
  fixes alloc :: "('s, 'e, 'p) kcomp"
    and free :: "'p \<Rightarrow> ('s, 'e, unit) kcomp"
    and null :: 'p
    and pool :: "'s \<Rightarrow> 'p list \<Rightarrow> bool"
    and valid :: "'s \<Rightarrow> 'p \<Rightarrow> bool"
  assumes pool_pages: "pool s xs \<Longrightarrow> distinct xs \<and> null \<notin> set xs \<and> (\<forall>x \<in> set xs. valid s x)"
    and alloc_empty: "pool s [] \<Longrightarrow> alloc s = Inr (null, s)"
    and alloc_Cons: "pool s (x # xs) \<Longrightarrow> \<exists>t. alloc s = Inr (x, t) \<and> pool t xs \<and> valid t = valid s"
    and free_valid: "pool s xs \<Longrightarrow> valid s p \<Longrightarrow> p \<notin> set xs \<Longrightarrow>
      \<exists>t. free p s = Inr ((), t) \<and> pool t (p # xs) \<and> valid t = valid s"
begin

lemma alloc_fresh:
  assumes "pool s xs" "alloc s = Inr (p, t)" "p \<noteq> null"
  shows "\<exists>ys. xs = p # ys \<and> pool t ys \<and> p \<notin> set ys \<and> valid t p"
proof (cases xs)
  case Nil
  then show ?thesis using assms alloc_empty by fastforce
next
  case (Cons x ys)
  then obtain t' where "alloc s = Inr (x, t')" "pool t' ys" "valid t' = valid s"
    using assms(1) alloc_Cons by blast
  then show ?thesis using assms Cons pool_pages [OF assms(1)] by auto
qed

lemma alloc_many:
  assumes "pool s xs" "n \<le> length xs"
  shows "\<exists>t. krepeat n alloc s = Inr (take n xs, t) \<and> pool t (drop n xs) \<and> valid t = valid s"
  using assms
proof (induction n arbitrary: s xs)
  case 0
  then show ?case by simp
next
  case (Suc n)
  then obtain x ys where xs: "xs = x # ys" by (cases xs) auto
  with Suc.prems obtain t where t: "alloc s = Inr (x, t)" "pool t ys" "valid t = valid s"
    using alloc_Cons by blast
  with Suc.IH [of t ys] Suc.prems(2) xs show ?case by (auto simp: kmonad)
qed

lemma alloc_free_roundtrip:
  assumes "pool s (x # xs)"
  shows "\<exists>t u. alloc s = Inr (x, t) \<and> free x t = Inr ((), u) \<and> pool u (x # xs)"
proof -
  obtain t where t: "alloc s = Inr (x, t)" "pool t xs" "valid t = valid s"
    using assms alloc_Cons by blast
  moreover have "valid t x" "x \<notin> set xs" using pool_pages [OF assms] t by auto
  ultimately show ?thesis using free_valid by blast
qed

end

interpretation kmem: page_allocator kalloc kfree 0 kmem_inv kpage_ok
proof
  fix s xs
  assume "kmem_inv s xs"
  then show "distinct xs \<and> 0 \<notin> set xs \<and> (\<forall>x \<in> set xs. kpage_ok s x)"
    using kpage_ok_nonzero by (auto simp: kmem_inv_def)
next
  fix s
  assume "kmem_inv s []"
  then show "kalloc s = Inr (0, s)" by (rule kmem_inv_empty)
next
  fix s x xs
  assume "kmem_inv s (x # xs)"
  from kmem_inv_alloc [OF this] show "\<exists>t. kalloc s = Inr (x, t) \<and> kmem_inv t xs \<and> kpage_ok t = kpage_ok s"
    by (auto simp: kpage_ok_def fun_eq_iff)
next
  fix s xs p
  assume inv: "kmem_inv s xs" and p: "kpage_ok s p" "p \<notin> set xs"
  have "kmem_ready s" using inv by (simp add: kmem_inv_def)
  from kfree_run [OF this p(1)] kmem_inv_free [OF inv p]
  show "\<exists>t. kfree p s = Inr ((), t) \<and> kmem_inv t (p # xs) \<and> kpage_ok t = kpage_ok s"
    by (auto simp: kpage_ok_def fun_eq_iff)
qed

section \<open>Initialisation\<close>

definition page_at :: "u32 \<Rightarrow> nat \<Rightarrow> u32" where
  "page_at p k = p + of_nat (4096 * k)"

lemma page_at_Suc: "page_at p (Suc k) = page_at (p + PGSIZE) k"
  by (simp add: page_at_def PGSIZE_def algebra_simps)

lemma freerange_loop_pages:
  assumes "kmem_inv s xs" "unat p + 4096 * n \<le> unat vend" "unat vend < unat p + 4096 * n + 4096"
    "unat vend < 4294963200" "n < fuel"
    "\<And>k. k < n \<Longrightarrow> kpage_ok s (page_at p k)" "\<And>k. k < n \<Longrightarrow> page_at p k \<notin> set xs"
  shows "\<exists>t. freerange_loop fuel p vend s = Inr ((), t) \<and>
    kmem_inv t (rev (map (page_at p) [0..<n]) @ xs) \<and> kpage_ok t = kpage_ok s"
  using assms
proof (induction n arbitrary: s xs p fuel)
  case 0
  then obtain f where f: "fuel = Suc f" by (cases fuel) auto
  have "unat (p + PGSIZE) = unat p + 4096"
    using 0 by (simp add: unat_word_ariths)
  then have "\<not> p + PGSIZE \<le> vend" using 0 by (simp add: word_le_nat_alt)
  with 0 f show ?case by simp
next
  case (Suc n)
  then obtain f where f: "fuel = Suc f" by (cases fuel) auto
  have p': "unat (p + PGSIZE) = unat p + 4096"
    using Suc.prems by (simp add: unat_word_ariths)
  then have le: "p + PGSIZE \<le> vend" using Suc.prems by (simp add: word_le_nat_alt)
  have p0: "kpage_ok s p" "p \<notin> set xs"
    using Suc.prems(6,7) [of 0] by (simp_all add: page_at_def)
  obtain u where u: "kfree p s = Inr ((), u)" "kmem_inv u (p # xs)" "kpage_ok u = kpage_ok s"
    using kmem.free_valid [OF Suc.prems(1) p0] by blast
  have "\<exists>t. freerange_loop f (p + PGSIZE) vend u = Inr ((), t) \<and>
      kmem_inv t (rev (map (page_at (p + PGSIZE)) [0..<n]) @ (p # xs)) \<and> kpage_ok t = kpage_ok u"
  proof (rule Suc.IH [OF u(2)])
    fix k
    assume k: "k < n"
    show "kpage_ok u (page_at (p + PGSIZE) k)"
      using Suc.prems(6) [of "Suc k"] k u(3) by (simp add: page_at_Suc)
    have "page_at (p + PGSIZE) k \<noteq> p"
    proof
      assume "page_at (p + PGSIZE) k = p"
      then have z: "unat (of_nat (4096 * Suc k) :: u32) = 0"
        by (simp add: page_at_def PGSIZE_def algebra_simps)
      have "4096 * Suc k < 4294967296" using Suc.prems(2,4) k by simp
      then have "unat (of_nat (4096 * Suc k) :: u32) = 4096 * Suc k"
        by (simp only: unat_of_nat) simp
      then show False using z by simp
    qed
    then show "page_at (p + PGSIZE) k \<notin> set (p # xs)"
      using Suc.prems(7) [of "Suc k"] k by (simp add: page_at_Suc)
  qed (use Suc.prems f p' in simp_all)
  moreover have "rev (map (page_at p) [0..<Suc n]) @ xs =
      rev (map (page_at (p + PGSIZE)) [0..<n]) @ (p # xs)"
    by (simp add: upt_conv_Cons map_Suc_upt [symmetric] page_at_Suc comp_def page_at_def [of p 0]
        del: upt_Suc)
  ultimately show ?case using u le f by (simp add: kmonad)
qed

lemma unat_PGROUNDUP:
  assumes "unat a \<le> 4294963200"
  shows "unat (PGROUNDUP a) = (unat a + 4095) div 4096 * 4096"
proof -
  have "PGROUNDUP a = PGROUNDDOWN (a + 4095)"
    by (simp add: PGROUNDUP_def PGROUNDDOWN_def PGSIZE_def algebra_simps)
  moreover have "unat (a + 4095) = unat a + 4095" using assms by (simp add: unat_word_ariths)
  ultimately show ?thesis by (simp add: unat_PGROUNDDOWN)
qed

lemma page_aligned_PGROUNDUP [simp]: "page_aligned (PGROUNDUP a)"
proof -
  have "PGROUNDUP a = PGROUNDDOWN (a + 4095)"
    by (simp add: PGROUNDUP_def PGROUNDDOWN_def PGSIZE_def algebra_simps)
  then show ?thesis by simp
qed

lemma freerange_pages:
  assumes inv: "kmem_inv s xs" and range: "PGROUNDUP vstart \<le> vend" "unat vend < 4294963200"
    and pages: "\<And>k. k < (unat vend - unat (PGROUNDUP vstart)) div 4096 \<Longrightarrow>
      kpage_ok s (page_at (PGROUNDUP vstart) k) \<and> page_at (PGROUNDUP vstart) k \<notin> set xs"
  shows "\<exists>t. freerange vstart vend s = Inr ((), t) \<and> kpage_ok t = kpage_ok s \<and>
    kmem_inv t (rev (map (page_at (PGROUNDUP vstart))
      [0..<(unat vend - unat (PGROUNDUP vstart)) div 4096]) @ xs)"
proof -
  let ?p = "PGROUNDUP vstart" and ?n = "(unat vend - unat (PGROUNDUP vstart)) div 4096"
  obtain r where r: "unat vend - unat ?p = 4096 * ?n + r" "r < 4096"
    by (metis div_mod_decomp mod_less_divisor mult.commute zero_less_numeral)
  have le: "unat ?p \<le> unat vend" using range(1) by (simp add: word_le_nat_alt)
  have "?n < 1048577" using range(2) by simp
  moreover have "unat ?p + 4096 * ?n \<le> unat vend" "unat vend < unat ?p + 4096 * ?n + 4096"
    using r le by linarith+
  ultimately show ?thesis
    using freerange_loop_pages [OF inv _ _ range(2), of ?p ?n 1048577] pages
    by (simp only: freerange_def) blast
qed

end
