(* ===== verification/Pagetable.thy ===== *)
theory Pagetable
  imports Kalloc
begin

text \<open>
  Page tables (first part of \<open>vm.c\<close>): walking and extending a two-level page table, mapping
  pages, and switching address spaces; and the processor's own use of the tables when the
  kernel reads or writes a user address. The processor part follows the architecture: both
  entries must be present, a write needs \<open>PTE_W\<close> in both (\<open>entry.S\<close> sets \<open>CR0_WP\<close>), and the
  access sets \<open>PTE_A\<close> in both entries and, for a write, \<open>PTE_D\<close> in the last one. Cached
  translations are not modelled: every routine here that takes rights away reloads \<open>cr3\<close>
  before it returns.
\<close>

section \<open>Walking and mapping\<close>

definition walkpgdir :: "u32 \<Rightarrow> u32 \<Rightarrow> bool \<Rightarrow> u32 K" where
  "walkpgdir pgdir va alloc =
     (let pde = pgdir + 4 * PDX va in
     kbind (rd32 pde) (\<lambda>v.
     if v AND PTE_P \<noteq> 0 then kret (P2V (PTE_ADDR v) + 4 * PTX va)
     else if \<not> alloc then kret 0
     else kbind kalloc (\<lambda>pgtab.
     if pgtab = 0 then kret 0
     else kseq (kmemset pgtab 0 PGSIZE)
     (kseq (wr32 pde (V2P pgtab OR PTE_P OR PTE_W OR PTE_U))
     (kret (pgtab + 4 * PTX va))))))"

text \<open>The loop of \<open>mappages\<close>, bounded by the number of pages in the address space.\<close>

fun mappages_loop :: "nat \<Rightarrow> u32 \<Rightarrow> u32 \<Rightarrow> u32 \<Rightarrow> u32 \<Rightarrow> u32 \<Rightarrow> int K" where
  "mappages_loop 0 pgdir a end_a pa perm = kfail OutOfFuel"
| "mappages_loop (Suc n) pgdir a end_a pa perm =
     kbind (walkpgdir pgdir a True) (\<lambda>pte.
     if pte = 0 then kret (-1)
     else kbind (rd32 pte) (\<lambda>v.
     if v AND (PTE_P OR PTE_E) \<noteq> 0 then panic ''remap''
     else kseq (if perm AND PTE_E \<noteq> 0 then wr32 pte ((pa OR perm OR PTE_E) AND NOT PTE_P)
                else wr32 pte (pa OR perm OR PTE_P))
     (if a = end_a then kret 0
      else mappages_loop n pgdir (a + PGSIZE) end_a (pa + PGSIZE) perm)))"

definition mappages :: "u32 \<Rightarrow> u32 \<Rightarrow> u32 \<Rightarrow> u32 \<Rightarrow> u32 \<Rightarrow> int K" where
  "mappages pgdir va sz pa perm =
     mappages_loop 1048577 pgdir (PGROUNDDOWN va) (PGROUNDDOWN (va + sz - 1)) pa perm"

definition clearpteu :: "u32 \<Rightarrow> u32 \<Rightarrow> unit K" where
  "clearpteu pgdir uva =
     kbind (walkpgdir pgdir uva False) (\<lambda>pte.
     if pte = 0 then panic ''clearpteu''
     else kbind (rd32 pte) (\<lambda>v. wr32 pte (v AND NOT PTE_U)))"

definition uva2ka :: "u32 \<Rightarrow> u32 \<Rightarrow> u32 K" where
  "uva2ka pgdir uva =
     kbind (walkpgdir pgdir uva False) (\<lambda>pte.
     kbind (rd32 pte) (\<lambda>v.
     if (v AND PTE_P) OR (v AND PTE_E) = 0 then kret 0
     else if v AND PTE_U = 0 then kret 0
     else kret (P2V (PTE_ADDR v))))"

definition kmemmove :: "u32 \<Rightarrow> u32 \<Rightarrow> u32 \<Rightarrow> unit K" where
  "kmemmove dst src n = (\<lambda>s. if dst = 0 \<or> src = 0 then Inl NullDeref
     else Inr ((), s\<lparr>mem := memmove (mem s) dst src n\<rparr>))"

text \<open>
  The loop of \<open>copyout\<close>: each round but the last copies up to a page boundary, so the number
  of pages in the address space plus one bounds the rounds.
\<close>

fun copyout_loop :: "nat \<Rightarrow> u32 \<Rightarrow> u32 \<Rightarrow> u32 \<Rightarrow> u32 \<Rightarrow> int K" where
  "copyout_loop 0 pgdir va buf len = kfail OutOfFuel"
| "copyout_loop (Suc k) pgdir va buf len =
     (if len > 0 then
       let va0 = PGROUNDDOWN va in
       kbind (uva2ka pgdir va0) (\<lambda>pa0.
       if pa0 = 0 then kret (-1)
       else let n = (if PGSIZE - (va - va0) > len then len else PGSIZE - (va - va0)) in
       kseq (kmemmove (pa0 + (va - va0)) buf n)
       (copyout_loop k pgdir (va0 + PGSIZE) (buf + n) (len - n)))
      else kret 0)"

definition copyout :: "u32 \<Rightarrow> u32 \<Rightarrow> u32 \<Rightarrow> u32 \<Rightarrow> int K" where
  "copyout pgdir va p len = copyout_loop 1048578 pgdir va p len"

section \<open>Address-space switches\<close>

definition lcr3 :: "u32 \<Rightarrow> unit K" where
  "lcr3 v = kmod (\<lambda>s. s\<lparr>cr3 := v\<rparr>)"

definition ltr :: "u16 \<Rightarrow> unit K" where
  "ltr sel = kmod (\<lambda>s. s\<lparr>tr := sel\<rparr>)"

definition lgdt :: "nat \<Rightarrow> unit K" where
  "lgdt c = kmod (\<lambda>s. s\<lparr>gdtr := Some c\<rparr>)"

definition switchkvm :: "unit K" where
  "switchkvm = kbind (kget kpgdir) (\<lambda>d. lcr3 (V2P d))"

definition seginit :: "unit K" where
  "seginit =
     kbind cpuid (\<lambda>c.
     kseq (modc c (\<lambda>x. x\<lparr>c_gdt := (c_gdt x)[SEG_KCODE := SEG (STA_X OR STA_R) 0 0xFFFFFFFF 0]\<rparr>))
     (kseq (modc c (\<lambda>x. x\<lparr>c_gdt := (c_gdt x)[SEG_KDATA := SEG STA_W 0 0xFFFFFFFF 0]\<rparr>))
     (kseq (modc c (\<lambda>x. x\<lparr>c_gdt := (c_gdt x)[SEG_UCODE := SEG (STA_X OR STA_R) 0 0xFFFFFFFF DPL_USER]\<rparr>))
     (kseq (modc c (\<lambda>x. x\<lparr>c_gdt := (c_gdt x)[SEG_UDATA := SEG STA_W 0 0xFFFFFFFF DPL_USER]\<rparr>))
     (lgdt c)))))"

text \<open>\<open>sizeof(struct taskstate)\<close> is 104; the whole structure is 26 words.\<close>

definition switchuvm :: "nat option \<Rightarrow> unit K" where
  "switchuvm po = (case po of None \<Rightarrow> panic ''switchuvm: no process'' | Some p \<Rightarrow>
     kbind (getp p) (\<lambda>pr.
     if p_kstack pr = 0 then panic ''switchuvm: no kstack''
     else if p_pgdir pr = 0 then panic ''switchuvm: no pgdir''
     else kseq pushcli
     (kbind mycpu (\<lambda>c.
     kseq (modc c (\<lambda>x. x
       \<lparr>c_gdt := (c_gdt x)[SEG_TSS := (SEG16 STS_T32A (c_ts_addr x) (104 - 1) 0)\<lparr>sd_s := 0\<rparr>],
        c_ts := \<lparr>ts_esp0 = p_kstack pr + KSTACKSIZE, ts_ss0 = of_nat SEG_KDATA * 8, ts_iomb = 0xFFFF\<rparr>\<rparr>))
     (kseq (ltr (of_nat SEG_TSS * 8))
     (kseq (lcr3 (V2P (p_pgdir pr)))
     popcli))))))"

section \<open>The processor's view\<close>

definition mmu_walk :: "memory \<Rightarrow> u32 \<Rightarrow> u32 \<Rightarrow> (u32 \<times> u32) option" where
  "mmu_walk m cr va =
     (let pde = P2V (PTE_ADDR cr) + 4 * PDX va; d = load32 m pde in
      if d AND PTE_P = 0 then None
      else let pte = P2V (PTE_ADDR d) + 4 * PTX va in
      if load32 m pte AND PTE_P = 0 then None else Some (pde, pte))"

definition mmu_access :: "bool \<Rightarrow> u32 \<Rightarrow> u32 K" where
  "mmu_access wr va = (\<lambda>s. case mmu_walk (mem s) (cr3 s) va of
       None \<Rightarrow> Inl (PageFault va)
     | Some (pde, pte) \<Rightarrow>
       if wr \<and> (load32 (mem s) pde AND PTE_W = 0 \<or> load32 (mem s) pte AND PTE_W = 0)
       then Inl (PageFault va)
       else let m1 = store32 (mem s) pde (load32 (mem s) pde OR PTE_A);
                m2 = store32 m1 pte (load32 m1 pte OR PTE_A OR (if wr then PTE_D else 0))
         in Inr (P2V (PTE_ADDR (load32 (mem s) pte)) + (va AND 0xFFF), s\<lparr>mem := m2\<rparr>))"

definition uload8 :: "u32 \<Rightarrow> u8 K" where
  "uload8 va = kbind (mmu_access False va) (\<lambda>a. kget (\<lambda>s. mem s a))"

definition ustore8 :: "u32 \<Rightarrow> u8 \<Rightarrow> unit K" where
  "ustore8 va b = kbind (mmu_access True va) (\<lambda>a. kmod (\<lambda>s. s\<lparr>mem := (mem s)(a := b)\<rparr>))"

text \<open>The loop \<open>*slider = ~*slider; slider++\<close> over \<open>n\<close> bytes.\<close>

fun flip_bytes :: "nat \<Rightarrow> u32 \<Rightarrow> unit K" where
  "flip_bytes 0 slider = kret ()"
| "flip_bytes (Suc n) slider =
     kbind (uload8 slider) (\<lambda>b.
     kseq (ustore8 slider (NOT b))
     (flip_bytes n (slider + 1)))"

section \<open>Switching to a process\<close>

definition switch_cpu :: "proc \<Rightarrow> cpu \<Rightarrow> cpu" where
  "switch_cpu pr x = x
     \<lparr>c_gdt := (c_gdt x)[SEG_TSS := (SEG16 STS_T32A (c_ts_addr x) (104 - 1) 0)\<lparr>sd_s := 0\<rparr>],
      c_ts := \<lparr>ts_esp0 = p_kstack pr + KSTACKSIZE, ts_ss0 = of_nat SEG_KDATA * 8, ts_iomb = 0xFFFF\<rparr>\<rparr>"

definition switched :: "proc \<Rightarrow> kstate \<Rightarrow> kstate" where
  "switched pr s = (case this_cpu s of None \<Rightarrow> s | Some i \<Rightarrow>
     s\<lparr>cpus := (cpus s)[i := switch_cpu pr (cpus s ! i)], tr := of_nat SEG_TSS * 8,
       cr3 := V2P (p_pgdir pr)\<rparr>)"

lemma switch_cpu_simps [simp]:
  "c_apicid (switch_cpu pr x) = c_apicid x" "c_ncli (switch_cpu pr x) = c_ncli x"
  "c_intena (switch_cpu pr x) = c_intena x" "c_proc (switch_cpu pr x) = c_proc x"
  by (simp_all add: switch_cpu_def)

lemma switch_cpu_ncli: "(switch_cpu pr (x\<lparr>c_ncli := n\<rparr>))\<lparr>c_ncli := c_ncli x\<rparr> = switch_cpu pr x"
  by (simp add: switch_cpu_def)

lemma popcli_run:
  assumes "eflags t AND FL_IF = 0" "this_cpu t = Some i" "0 < c_ncli (cpus t ! i)"
  shows "popcli t = Inr ((), (t\<lparr>cpus := (cpus t)[i := (cpus t ! i)\<lparr>c_ncli := c_ncli (cpus t ! i) - 1\<rparr>],
    eflags := if c_ncli (cpus t ! i) = 1 \<and> c_intena (cpus t ! i) \<noteq> 0 then eflags t OR FL_IF else eflags t\<rparr>))"
  using assms mycpu_run [OF assms(1,2)] this_cpu_bound [OF assms(2)]
  by (auto simp: popcli_def kmonad)

lemma switchuvm_run:
  assumes ok: "irq_ok s" and p: "p < length (procs s)" "p_kstack (procs s ! p) \<noteq> 0" "p_pgdir (procs s ! p) \<noteq> 0"
  shows "switchuvm (Some p) s = Inr ((), switched (procs s ! p) s)"
proof -
  obtain i where i: "this_cpu s = Some i" using irq_ok_cpu [OF ok] by blast
  note b = this_cpu_bound [OF i]
  let ?c = "cpus s ! i" and ?pr = "procs s ! p"
  define t where "t = (pushed s)\<lparr>cpus := (cpus (pushed s))[i := switch_cpu ?pr (cpus (pushed s) ! i)],
    tr := of_nat SEG_TSS * 8, cr3 := V2P (p_pgdir ?pr)\<rparr>"
  have cp: "cpus (pushed s) = (cpus s)[i := ?c\<lparr>c_ncli := c_ncli ?c + 1\<rparr>]"
    "eflags (pushed s) = eflags s AND NOT FL_IF"
    using pushed_irq_ok [OF ok i] by simp_all
  have off: "eflags t AND FL_IF = 0" using eflags_pushed [OF ok] by (simp add: t_def)
  have "this_cpu t = this_cpu (pushed s)"
    by (rule this_cpu_cong) (simp_all add: t_def map_apicid_update)
  then have cpu_t: "this_cpu t = Some i" using i by simp
  have ct: "cpus t = (cpus s)[i := switch_cpu ?pr (?c\<lparr>c_ncli := c_ncli ?c + 1\<rparr>)]"
    using b by (simp add: t_def cp)
  have ncli: "c_ncli (cpus t ! i) = c_ncli ?c + 1" "c_intena (cpus t ! i) = c_intena ?c" "0 \<le> c_ncli ?c"
    using ok i b by (auto simp: irq_ok_def ct)
  have flag: "if c_ncli ?c = 0 then c_intena ?c = eflags s AND FL_IF else eflags s AND FL_IF = 0"
    using ok i by (auto simp: irq_ok_def)
  have et: "eflags t = eflags s AND NOT FL_IF" by (simp add: t_def cp)
  have fl: "(if c_ncli (cpus t ! i) = 1 \<and> c_intena (cpus t ! i) \<noteq> 0 then eflags t OR FL_IF else eflags t) = eflags s"
  proof (cases "c_ncli ?c = 0 \<and> eflags s AND FL_IF \<noteq> 0")
    case True
    then show ?thesis using flag ncli eflags_restored(1) by (simp add: et)
  next
    case False
    then have "eflags s AND FL_IF = 0" using flag by (simp split: if_splits)
    then show ?thesis using False flag ncli eflags_restored(2) by (simp add: et split: if_splits)
  qed
  have "popcli t = Inr ((), t\<lparr>cpus := (cpus t)[i := (cpus t ! i)\<lparr>c_ncli := c_ncli ?c\<rparr>], eflags := eflags s\<rparr>)"
    using popcli_run [OF off cpu_t] ncli unfolding fl by simp
  also have "t\<lparr>cpus := (cpus t)[i := (cpus t ! i)\<lparr>c_ncli := c_ncli ?c\<rparr>], eflags := eflags s\<rparr> = switched ?pr s"
    using b unfolding ct by (simp add: t_def switched_def i pushed_def switch_cpu_ncli)
  finally have pop: "popcli t = Inr ((), switched ?pr s)" .
  show ?thesis
    using p pushcli_run [OF i] mycpu_pushed [OF ok i] pop
    by (simp add: switchuvm_def kmonad ltr_def lcr3_def t_def switch_cpu_def)
qed

section \<open>Entries of a page table\<close>

definition pde_ptr :: "u32 \<Rightarrow> u32 \<Rightarrow> u32" where
  "pde_ptr pgdir va = pgdir + 4 * PDX va"

definition pde_val :: "memory \<Rightarrow> u32 \<Rightarrow> u32 \<Rightarrow> u32" where
  "pde_val m pgdir va = load32 m (pde_ptr pgdir va)"

definition pt_page :: "memory \<Rightarrow> u32 \<Rightarrow> u32 \<Rightarrow> u32" where
  "pt_page m pgdir va = P2V (PTE_ADDR (pde_val m pgdir va))"

definition pte_ptr :: "memory \<Rightarrow> u32 \<Rightarrow> u32 \<Rightarrow> u32" where
  "pte_ptr m pgdir va = pt_page m pgdir va + 4 * PTX va"

definition pte_val :: "memory \<Rightarrow> u32 \<Rightarrow> u32 \<Rightarrow> u32" where
  "pte_val m pgdir va = load32 m (pte_ptr m pgdir va)"

definition frame :: "memory \<Rightarrow> u32 \<Rightarrow> u32 \<Rightarrow> u32" where
  "frame m pgdir va = P2V (PTE_ADDR (pte_val m pgdir va))"

text \<open>The page table for \<open>va\<close> exists, at a non-null address.\<close>

definition has_table :: "memory \<Rightarrow> u32 \<Rightarrow> u32 \<Rightarrow> bool" where
  "has_table m pgdir va \<longleftrightarrow> page_aligned pgdir \<and> pgdir \<noteq> 0 \<and> bit (pde_val m pgdir va) 0 \<and>
     pt_page m pgdir va \<noteq> 0"

text \<open>
  A page of user memory in the sense of the allocator: directory, table and frame are three
  different pages, and the processor may write through both entries.
\<close>

definition upage :: "memory \<Rightarrow> u32 \<Rightarrow> u32 \<Rightarrow> bool" where
  "upage m pgdir va \<longleftrightarrow> has_table m pgdir va \<and> bit (pde_val m pgdir va) 1 \<and> bit (pte_val m pgdir va) 1 \<and>
     PPN (pt_page m pgdir va) \<noteq> PPN pgdir \<and> PPN (frame m pgdir va) \<noteq> PPN pgdir \<and>
     PPN (frame m pgdir va) \<noteq> PPN (pt_page m pgdir va)"

lemmas entry_defs = pde_ptr_def pde_val_def pt_page_def pte_ptr_def pte_val_def frame_def

lemma page_aligned_pt_page [simp]: "page_aligned (pt_page m pgdir va)"
  and page_aligned_frame [simp]: "page_aligned (frame m pgdir va)"
  by (simp_all add: pt_page_def frame_def)

lemma entry_nonzero:
  assumes "page_aligned p" "p \<noteq> 0" "unat i < 1024"
  shows "p + 4 * i \<noteq> 0"
proof
  assume "p + 4 * i = 0"
  then have "unat p + 4 * unat i = 0" using unat_entry [OF assms(1,3)] by simp
  then show False using assms(2) by (simp add: unat_eq_0)
qed

lemma pde_ptr_simps [simp]:
  "page_aligned pgdir \<Longrightarrow> aligned4 (pde_ptr pgdir va)"
  "page_aligned pgdir \<Longrightarrow> PPN (pde_ptr pgdir va) = PPN pgdir"
  "page_aligned pgdir \<Longrightarrow> pgdir \<noteq> 0 \<Longrightarrow> pde_ptr pgdir va \<noteq> 0"
  by (simp_all add: pde_ptr_def PDX_bound entry_nonzero)

lemma pte_ptr_simps [simp]:
  "aligned4 (pte_ptr m pgdir va)" "PPN (pte_ptr m pgdir va) = PPN (pt_page m pgdir va)"
  "pt_page m pgdir va \<noteq> 0 \<Longrightarrow> pte_ptr m pgdir va \<noteq> 0"
  by (simp_all add: pte_ptr_def PTX_bound entry_nonzero)

lemma entry_eq_iff:
  assumes "page_aligned p" "unat i < 1024" "unat j < 1024"
  shows "p + 4 * i = p + 4 * j \<longleftrightarrow> i = j"
  using unat_entry [OF assms(1,2)] unat_entry [OF assms(1,3)] by (auto simp: word_unat_eq_iff)

lemma pde_ptr_eq_iff: "page_aligned pgdir \<Longrightarrow> pde_ptr pgdir va = pde_ptr pgdir va' \<longleftrightarrow> PDX va = PDX va'"
  unfolding pde_ptr_def by (rule entry_eq_iff) (simp_all add: PDX_bound)

lemma walkpgdir_present:
  assumes "has_table (mem s) pgdir va"
  shows "walkpgdir pgdir va al s = Inr (pte_ptr (mem s) pgdir va, s)"
proof -
  have "pde_ptr pgdir va \<noteq> 0" "bit (load32 (mem s) (pde_ptr pgdir va)) 0"
    using assms by (simp_all add: has_table_def pde_val_def)
  then show ?thesis
    by (simp add: walkpgdir_def Let_def kmonad and_PTE_0_iff entry_defs)
qed

lemma walkpgdir_absent:
  assumes "page_aligned pgdir" "pgdir \<noteq> 0" "\<not> bit (pde_val (mem s) pgdir va) 0"
  shows "walkpgdir pgdir va False s = Inr (0, s)"
proof -
  have "pde_ptr pgdir va \<noteq> 0" using assms by simp
  then show ?thesis
    using assms(3) by (simp add: walkpgdir_def Let_def kmonad and_PTE_0_iff pde_val_def pde_ptr_def)
qed

lemma uva2ka_run:
  assumes "has_table (mem s) pgdir va"
  shows "uva2ka pgdir va s = Inr (if (bit (pte_val (mem s) pgdir va) 0 \<or> bit (pte_val (mem s) pgdir va) 10) \<and>
      bit (pte_val (mem s) pgdir va) 2 then frame (mem s) pgdir va else 0, s)"
proof -
  have nz: "pte_ptr (mem s) pgdir va \<noteq> 0" using assms by (simp add: has_table_def)
  show ?thesis
    using walkpgdir_present [OF assms, of False] nz
    by (simp add: uva2ka_def kmonad or_eq_0_iff and_PTE_0_iff pte_val_def frame_def)
qed

text \<open>Storing an entry of the table of \<open>va\<close>.\<close>

lemma store_pte_entries:
  assumes "has_table m pgdir va" "PPN (pt_page m pgdir va) \<noteq> PPN pgdir"
  shows "pde_val (store32 m (pte_ptr m pgdir va) v) pgdir va' = pde_val m pgdir va'"
    and "pt_page (store32 m (pte_ptr m pgdir va) v) pgdir va' = pt_page m pgdir va'"
    and "pte_ptr (store32 m (pte_ptr m pgdir va) v) pgdir va' = pte_ptr m pgdir va'"
    and "pte_val (store32 m (pte_ptr m pgdir va) v) pgdir va = v"
proof -
  show d: "pde_val (store32 m (pte_ptr m pgdir va) v) pgdir va' = pde_val m pgdir va'" for va'
  proof -
    have "pde_ptr pgdir va' \<noteq> pte_ptr m pgdir va"
      using assms pde_ptr_simps(2) [of pgdir va'] pte_ptr_simps(2) [of m pgdir va]
      by (metis has_table_def)
    then show ?thesis
      using assms(1) by (simp add: pde_val_def load32_store32_other has_table_def)
  qed
  show p: "pt_page (store32 m (pte_ptr m pgdir va) v) pgdir va' = pt_page m pgdir va'" for va'
    unfolding pt_page_def [of "store32 m (pte_ptr m pgdir va) v"] pt_page_def [of m pgdir va'] d ..
  show "pte_ptr (store32 m (pte_ptr m pgdir va) v) pgdir va' = pte_ptr m pgdir va'" for va'
    unfolding pte_ptr_def [of "store32 m (pte_ptr m pgdir va) v"] pte_ptr_def [of m pgdir va'] p ..
  then show "pte_val (store32 m (pte_ptr m pgdir va) v) pgdir va = v"
    by (simp add: pte_val_def)
qed

text \<open>Memory that differs only outside the directory and the table of \<open>va\<close>.\<close>

lemma entries_page_eq:
  assumes "has_table m pgdir va" "page_eq m' m pgdir" "page_eq m' m (pt_page m pgdir va)"
  shows "pde_val m' pgdir va = pde_val m pgdir va" "pt_page m' pgdir va = pt_page m pgdir va"
    "pte_ptr m' pgdir va = pte_ptr m pgdir va" "pte_val m' pgdir va = pte_val m pgdir va"
    "frame m' pgdir va = frame m pgdir va"
proof -
  have al: "page_aligned pgdir" using assms(1) by (simp add: has_table_def)
  show d: "pde_val m' pgdir va = pde_val m pgdir va"
    unfolding pde_val_def using assms(2) al by (intro load32_page_eq) simp_all
  then show p: "pt_page m' pgdir va = pt_page m pgdir va" "pte_ptr m' pgdir va = pte_ptr m pgdir va"
    by (simp_all add: pt_page_def pte_ptr_def)
  have "load32 m' (pte_ptr m pgdir va) = load32 m (pte_ptr m pgdir va)"
    using assms(3) by (intro load32_page_eq [where p = "pt_page m pgdir va"]) simp_all
  then show "pte_val m' pgdir va = pte_val m pgdir va"
    by (simp add: pte_val_def p)
  then show "frame m' pgdir va = frame m pgdir va" by (simp add: frame_def)
qed

section \<open>Access through the page table\<close>

text \<open>What an access through the entry of \<open>va\<close> leaves in the tables.\<close>

definition touched :: "bool \<Rightarrow> memory \<Rightarrow> u32 \<Rightarrow> u32 \<Rightarrow> memory" where
  "touched wr m pgdir va =
     store32 (store32 m (pde_ptr pgdir va) (pde_val m pgdir va OR PTE_A)) (pte_ptr m pgdir va)
       (pte_val m pgdir va OR PTE_A OR (if wr then PTE_D else 0))"

lemma upage_has_table: "upage m pgdir va \<Longrightarrow> has_table m pgdir va"
  by (simp add: upage_def)

lemma upage_nonzero:
  assumes "upage m pgdir va"
  shows "pde_ptr pgdir va \<noteq> 0" "pte_ptr m pgdir va \<noteq> 0" "page_aligned pgdir" "pgdir \<noteq> 0"
  using assms by (simp_all add: upage_def has_table_def)

lemma upage_pde_ne_pte:
  assumes "upage m pgdir va"
  shows "pde_ptr pgdir va \<noteq> pte_ptr m pgdir va"
proof
  assume "pde_ptr pgdir va = pte_ptr m pgdir va"
  then have "PPN (pde_ptr pgdir va) = PPN (pte_ptr m pgdir va)" by simp
  then show False using assms upage_nonzero(3) [OF assms] by (simp add: upage_def)
qed

lemma mmu_access_run:
  assumes up: "upage (mem s) pgdir va" and cr: "cr3 s = V2P pgdir"
    and P: "bit (pte_val (mem s) pgdir va) 0"
  shows "mmu_access wr va s =
    Inr (frame (mem s) pgdir va + (va AND 0xFFF), s\<lparr>mem := touched wr (mem s) pgdir va\<rparr>)"
proof -
  note nz = upage_nonzero [OF up]
  have "P2V (PTE_ADDR (cr3 s)) = pgdir"
    using nz(3) by (simp add: cr)
  then have walk: "mmu_walk (mem s) (cr3 s) va = Some (pde_ptr pgdir va, pte_ptr (mem s) pgdir va)"
    using up P by (simp add: mmu_walk_def Let_def and_PTE_0_iff upage_def has_table_def entry_defs)
  have "load32 (store32 (mem s) (pde_ptr pgdir va) x) (pte_ptr (mem s) pgdir va) = pte_val (mem s) pgdir va" for x
    using upage_pde_ne_pte [OF up] nz by (simp add: load32_store32_other pte_val_def)
  then show ?thesis
    using up walk by (simp add: mmu_access_def Let_def and_PTE_0_iff upage_def touched_def
        pde_val_def pte_val_def frame_def)
qed

text \<open>The tables after an access: only the A and D bits differ.\<close>

lemma touched_entries:
  assumes up: "upage m pgdir va"
  shows "pde_val (touched wr m pgdir va) pgdir va = pde_val m pgdir va OR PTE_A"
    and "pt_page (touched wr m pgdir va) pgdir va = pt_page m pgdir va"
    and "pte_ptr (touched wr m pgdir va) pgdir va = pte_ptr m pgdir va"
    and "pte_val (touched wr m pgdir va) pgdir va = pte_val m pgdir va OR PTE_A OR (if wr then PTE_D else 0)"
    and "frame (touched wr m pgdir va) pgdir va = frame m pgdir va"
proof -
  note nz = upage_nonzero [OF up]
  show d: "pde_val (touched wr m pgdir va) pgdir va = pde_val m pgdir va OR PTE_A"
    using upage_pde_ne_pte [OF up] nz
    by (simp add: touched_def pde_val_def load32_store32_other)
  show t: "pt_page (touched wr m pgdir va) pgdir va = pt_page m pgdir va"
    by (simp add: pt_page_def d PTE_ADDR_flags)
  then show p: "pte_ptr (touched wr m pgdir va) pgdir va = pte_ptr m pgdir va"
    by (simp add: pte_ptr_def)
  have "load32 (touched wr m pgdir va) (pte_ptr m pgdir va) = pte_val m pgdir va OR PTE_A OR (if wr then PTE_D else 0)"
    by (simp add: touched_def)
  then show v: "pte_val (touched wr m pgdir va) pgdir va = pte_val m pgdir va OR PTE_A OR (if wr then PTE_D else 0)"
    by (simp only: pte_val_def p)
  show "frame (touched wr m pgdir va) pgdir va = frame m pgdir va"
    unfolding frame_def v by (simp add: or.assoc [symmetric])
qed

lemma upage_touched:
  assumes up: "upage m pgdir va"
  shows "upage (touched wr m pgdir va) pgdir va"
  using up by (simp add: upage_def has_table_def touched_entries [OF up] bit_simps)

lemma touched_other_page:
  assumes "upage m pgdir va" "PPN p \<noteq> PPN pgdir" "PPN p \<noteq> PPN (pt_page m pgdir va)"
  shows "page_eq (touched wr m pgdir va) m p"
proof -
  have "page_aligned pgdir" using assms(1) by (rule upage_nonzero)
  then show ?thesis
    unfolding touched_def using assms(2,3)
    by (intro page_eq_trans [OF page_eq_store32 page_eq_store32]) simp_all
qed

text \<open>Once both entries carry the bits an access sets, an access changes nothing.\<close>

definition settled :: "memory \<Rightarrow> u32 \<Rightarrow> u32 \<Rightarrow> bool" where
  "settled m pgdir va \<longleftrightarrow> bit (pde_val m pgdir va) 5 \<and> bit (pte_val m pgdir va) 5 \<and> bit (pte_val m pgdir va) 6"

lemma or_bit_idem:
  "bit (x :: u32) 5 \<Longrightarrow> x OR PTE_A = x" "bit x 6 \<Longrightarrow> x OR PTE_D = x"
  by (rule bit_eqI, auto simp: bit_simps bit_PTE)+

lemma touched_settled: "settled m pgdir va \<Longrightarrow> touched wr m pgdir va = m"
proof -
  assume st: "settled m pgdir va"
  have "x OR PTE_A OR (if wr then PTE_D else 0) = x" if "bit x 5" "bit x 6" for x
    using that or_bit_idem by (cases wr) (simp_all add: or.assoc [symmetric])
  then show ?thesis
    using st by (simp add: touched_def settled_def or_bit_idem pde_val_def pte_val_def store32_load32_same)
qed

lemma settled_touched: "upage m pgdir va \<Longrightarrow> settled (touched True m pgdir va) pgdir va"
  by (simp add: settled_def touched_entries bit_simps bit_PTE)

lemma upage_page_eq:
  assumes "has_table m pgdir va" "page_eq m' m pgdir" "page_eq m' m (pt_page m pgdir va)"
  shows "has_table m' pgdir va" "upage m' pgdir va = upage m pgdir va"
    "settled m' pgdir va = settled m pgdir va"
  using assms(1) unfolding upage_def has_table_def settled_def entries_page_eq [OF assms] by simp_all

lemma touched_twice:
  assumes up: "upage m pgdir va"
  shows "touched True (touched False m pgdir va) pgdir va = touched True m pgdir va"
proof -
  let ?t = "touched False m pgdir va"
  have "load32 ?t (pde_ptr pgdir va) = pde_val m pgdir va OR PTE_A"
    using touched_entries(1) [OF up, of False] by (simp add: pde_val_def)
  then have "store32 ?t (pde_ptr pgdir va) (pde_val m pgdir va OR PTE_A OR PTE_A) = ?t"
    by (metis or.assoc or.idem store32_load32_same)
  then show ?thesis
    by (simp add: touched_def [of True ?t] touched_entries [OF up])
      (simp add: touched_def or.assoc [symmetric])
qed

text \<open>Complementing the \<open>n\<close> bytes from \<open>b\<close>.\<close>

definition flip_mem :: "memory \<Rightarrow> u32 \<Rightarrow> nat \<Rightarrow> memory" where
  "flip_mem m b n = (\<lambda>a. if unat (a - b) < n then NOT (m a) else m a)"

lemma flip_mem_0 [simp]: "flip_mem m b 0 = m"
  by (simp add: flip_mem_def)

lemma flip_mem_Suc:
  assumes "n < 4294967296"
  shows "flip_mem m b (Suc n) = flip_mem (m(b := NOT (m b))) (b + 1) n"
proof (rule ext)
  fix a
  have eq: "a - (b + 1) = (a - b) - 1" by simp
  show "flip_mem m b (Suc n) a = flip_mem (m(b := NOT (m b))) (b + 1) n a"
  proof (cases "a = b")
    case True
    have "unat (- 1 :: u32) = 4294967295" by (simp add: unsigned_minus_1_eq_mask mask_eq_exp_minus_1)
    then show ?thesis using assms True by (simp add: flip_mem_def)
  next
    case False
    then have nz: "a - b \<noteq> 0" by simp
    then have "unat (a - b) \<noteq> 0" by (simp add: unat_eq_0)
    then show ?thesis using False nz by (auto simp: flip_mem_def eq unat_minus_1)
  qed
qed

lemma flip_mem_other: "page_aligned f \<Longrightarrow> PPN a \<noteq> PPN f \<Longrightarrow> flip_mem m f 4096 a = m a"
  using in_page_iff [of f a] by (simp add: flip_mem_def)

lemma page_eq_flip: "page_aligned f \<Longrightarrow> PPN p \<noteq> PPN f \<Longrightarrow> page_eq (flip_mem m f 4096) m p"
  by (simp add: page_eq_def flip_mem_other)

lemma flip_mem_involutive: "flip_mem (flip_mem m b n) b n = m"
  by (rule ext) (simp add: flip_mem_def)

text \<open>The entries used for an address depend on its page number only.\<close>

lemma entries_same_page:
  assumes "PPN va = PPN va'"
  shows "pde_ptr pgdir va = pde_ptr pgdir va'" "pde_val m pgdir va = pde_val m pgdir va'"
    "pt_page m pgdir va = pt_page m pgdir va'" "pte_ptr m pgdir va = pte_ptr m pgdir va'"
    "pte_val m pgdir va = pte_val m pgdir va'" "frame m pgdir va = frame m pgdir va'"
    "has_table m pgdir va = has_table m pgdir va'" "upage m pgdir va = upage m pgdir va'"
    "touched wr m pgdir va = touched wr m pgdir va'" "settled m pgdir va = settled m pgdir va'"
proof -
  have "PDX va = PDX va'" "PTX va = PTX va'" using assms same_slot_iff by blast+
  then show "pde_ptr pgdir va = pde_ptr pgdir va'" "pde_val m pgdir va = pde_val m pgdir va'"
    "pt_page m pgdir va = pt_page m pgdir va'" "pte_ptr m pgdir va = pte_ptr m pgdir va'"
    "pte_val m pgdir va = pte_val m pgdir va'" "frame m pgdir va = frame m pgdir va'"
    "has_table m pgdir va = has_table m pgdir va'" "upage m pgdir va = upage m pgdir va'"
    "touched wr m pgdir va = touched wr m pgdir va'" "settled m pgdir va = settled m pgdir va'"
    by (simp_all add: entry_defs has_table_def upage_def touched_def settled_def)
qed

lemma page_offset:
  assumes "page_aligned p" "k < 4096"
  shows "(p + of_nat k) AND 0xFFF = of_nat k"
proof -
  have "unat ((p + of_nat k) AND 0xFFF) = unat (p + of_nat k) mod 4096"
    unfolding mask12 take_bit_eq_mask [symmetric] by (simp add: take_bit_eq_mod unat_mod_distrib)
  also have "\<dots> = k"
    using assms unat_page_add [OF assms] by (auto simp: page_aligned_def mod_page_0)
  finally show ?thesis using assms by (simp add: word_unat_eq_iff unat_of_nat)
qed

text \<open>The state a byte flip needs: \<open>va\<close> is a present, writable user page of the loaded tables.\<close>

definition flippable :: "kstate \<Rightarrow> u32 \<Rightarrow> u32 \<Rightarrow> bool" where
  "flippable s pgdir va \<longleftrightarrow> page_aligned va \<and> upage (mem s) pgdir va \<and> cr3 s = V2P pgdir \<and>
     bit (pte_val (mem s) pgdir va) 0"

lemma flip_byte_run:
  assumes fl: "flippable s pgdir va" and k: "k < 4096"
  defines "f \<equiv> frame (mem s) pgdir va" and "t \<equiv> touched True (mem s) pgdir va"
  shows "flip_bytes (Suc n) (va + of_nat k) s =
    flip_bytes n (va + of_nat (Suc k)) (s\<lparr>mem := t(f + of_nat k := NOT (mem s (f + of_nat k)))\<rparr>)"
proof -
  let ?m = "mem s" and ?a = "va + of_nat k"
  have va: "page_aligned va" and up: "upage ?m pgdir va" and cr: "cr3 s = V2P pgdir"
    and P: "bit (pte_val ?m pgdir va) 0" using fl by (simp_all add: flippable_def)
  have same: "PPN ?a = PPN va" using va k by (rule PPN_page_add)
  note eqs = entries_same_page [OF same]
  have off: "?a AND 0xFFF = of_nat k" using va k by (rule page_offset)
  let ?u = "touched False ?m pgdir va"
  have "PPN (f + of_nat k) = PPN f" unfolding f_def using k by (intro PPN_page_add) simp_all
  moreover have "page_eq ?u ?m f"
    using up unfolding f_def by (intro touched_other_page) (simp_all add: upage_def)
  ultimately have byte: "?u (f + of_nat k) = ?m (f + of_nat k)" by (simp add: page_eq_def)
  have "uload8 ?a s = Inr (?m (f + of_nat k), s\<lparr>mem := ?u\<rparr>)"
    using mmu_access_run [of s pgdir ?a False] up cr P byte
    by (simp add: uload8_def kmonad eqs off f_def)
  moreover have "ustore8 ?a b (s\<lparr>mem := ?u\<rparr>) = Inr ((), s\<lparr>mem := t(f + of_nat k := b)\<rparr>)" for b
    using mmu_access_run [of "s\<lparr>mem := ?u\<rparr>" pgdir ?a True] upage_touched [OF up, of False] cr P
    by (simp add: ustore8_def kmonad eqs off touched_entries [OF up] touched_twice [OF up] bit_simps
        f_def t_def)
  ultimately show ?thesis by (simp add: kmonad add_ac)
qed

lemma frame_upd:
  assumes up: "upage m pgdir va" and k: "k < 4096"
  defines "f \<equiv> frame m pgdir va"
  shows "page_eq (m(f + of_nat k := b)) m pgdir" "page_eq (m(f + of_nat k := b)) m (pt_page m pgdir va)"
proof -
  have "PPN (f + of_nat k) = PPN f" unfolding f_def using k by (intro PPN_page_add) simp_all
  then have "PPN (f + of_nat k) \<noteq> PPN pgdir" "PPN (f + of_nat k) \<noteq> PPN (pt_page m pgdir va)"
    using up by (simp_all add: f_def upage_def)
  then show "page_eq (m(f + of_nat k := b)) m pgdir" "page_eq (m(f + of_nat k := b)) m (pt_page m pgdir va)"
    by (auto simp: page_eq_def)
qed

lemma flip_bytes_settled:
  assumes "flippable s pgdir va" "settled (mem s) pgdir va" "k + n \<le> 4096"
  shows "flip_bytes n (va + of_nat k) s =
    Inr ((), s\<lparr>mem := flip_mem (mem s) (frame (mem s) pgdir va + of_nat k) n\<rparr>)"
  using assms
proof (induction n arbitrary: k s)
  case 0
  then show ?case by simp
next
  case (Suc n)
  let ?m = "mem s" and ?f = "frame (mem s) pgdir va"
  define m' where "m' = ?m(?f + of_nat k := NOT (?m (?f + of_nat k)))"
  have k: "k < 4096" and up: "upage ?m pgdir va" using Suc.prems by (simp_all add: flippable_def)
  note eq = frame_upd [OF up k, of "NOT (?m (?f + of_nat k))", folded m'_def]
  note ent = entries_page_eq [OF upage_has_table [OF up] eq]
  have "flippable (s\<lparr>mem := m'\<rparr>) pgdir va" "settled m' pgdir va"
    using Suc.prems upage_page_eq [OF upage_has_table [OF up] eq]
    unfolding flippable_def by (simp_all add: ent)
  then have "flip_bytes n (va + of_nat (Suc k)) (s\<lparr>mem := m'\<rparr>) =
      Inr ((), s\<lparr>mem := flip_mem m' (?f + of_nat (Suc k)) n\<rparr>)"
    using Suc.IH [of "s\<lparr>mem := m'\<rparr>" "Suc k"] Suc.prems(3) ent(5) by simp
  also have "flip_mem m' (?f + of_nat (Suc k)) n = flip_mem ?m (?f + of_nat k) (Suc n)"
    using Suc.prems(3) unfolding m'_def by (simp add: flip_mem_Suc add_ac)
  finally show ?case
    using flip_byte_run [OF Suc.prems(1) k, of n] by (simp only: touched_settled [OF Suc.prems(2)] m'_def)
qed

text \<open>
  Flipping a whole page complements the bytes of its frame and marks its entries accessed and
  dirty; nothing else changes.
\<close>

lemma flip_page_run:
  assumes fl: "flippable s pgdir va"
  shows "flip_bytes 4096 va s =
    Inr ((), s\<lparr>mem := flip_mem (touched True (mem s) pgdir va) (frame (mem s) pgdir va) 4096\<rparr>)"
proof -
  let ?m = "mem s" and ?f = "frame (mem s) pgdir va"
  let ?t = "touched True ?m pgdir va"
  have up: "upage ?m pgdir va" using fl by (simp add: flippable_def)
  have fr: "frame ?t pgdir va = ?f" by (rule touched_entries [OF up])
  have "page_eq ?t ?m ?f"
    using up by (intro touched_other_page) (simp_all add: upage_def)
  then have b0: "?t ?f = ?m ?f" by (simp add: page_eq_def)
  define m' where "m' = ?t(?f := NOT (?t ?f))"
  have upt: "upage ?t pgdir va" using up by (rule upage_touched)
  have eq: "page_eq m' ?t pgdir" "page_eq m' ?t (pt_page ?t pgdir va)"
    using frame_upd [OF upt, of 0 "NOT (?t ?f)"] fr unfolding m'_def by simp_all
  note ent = entries_page_eq [OF upage_has_table [OF upt] eq]
    and pres = upage_page_eq [OF upage_has_table [OF upt] eq]
  have "flippable (s\<lparr>mem := m'\<rparr>) pgdir va" "settled m' pgdir va"
    using fl pres upt settled_touched [OF up] touched_entries(4) [OF up, of True]
    unfolding flippable_def by (simp_all add: ent bit_simps)
  then have "flip_bytes 4095 (va + of_nat 1) (s\<lparr>mem := m'\<rparr>) =
      Inr ((), s\<lparr>mem := flip_mem m' (?f + 1) 4095\<rparr>)"
    using flip_bytes_settled [of "s\<lparr>mem := m'\<rparr>" pgdir va 1 4095] ent(5) fr by simp
  moreover have "flip_mem m' (?f + 1) 4095 = flip_mem ?t ?f 4096"
    using flip_mem_Suc [of 4095 ?t ?f] unfolding m'_def by simp
  moreover have "flip_bytes 4096 va s = flip_bytes 4095 (va + of_nat 1) (s\<lparr>mem := m'\<rparr>)"
    using flip_byte_run [OF fl, of 0 4095] b0 unfolding m'_def by simp
  ultimately show ?thesis by simp
qed

end
