(* ===== verification/Address_Space.thy ===== *)
theory Address_Space
  imports Pagetable
begin

text \<open>
  Whole address spaces. A page table of the kernel uses a directory page, one page per page
  table, and one frame per user page; \<open>vm_wf\<close> says that they are all different, and this theory
  shows what an edit of one entry or a change of one frame does to the others. The contents of
  an address space are described by \<open>plain\<close>: the byte a user address stands for, which is the
  complement of the stored byte while the page is encrypted.
\<close>

section \<open>Separation\<close>

definition mapped :: "memory \<Rightarrow> u32 \<Rightarrow> u32 \<Rightarrow> bool" where
  "mapped m pgdir va \<longleftrightarrow> bit (pde_val m pgdir va) 0"

text \<open>A page of the user half that has a frame: present or encrypted.\<close>

definition uva :: "memory \<Rightarrow> u32 \<Rightarrow> u32 \<Rightarrow> bool" where
  "uva m pgdir va \<longleftrightarrow> va < KERNBASE \<and> mapped m pgdir va \<and>
     (bit (pte_val m pgdir va) 0 \<or> bit (pte_val m pgdir va) 10)"

definition vm_wf :: "memory \<Rightarrow> u32 \<Rightarrow> bool" where
  "vm_wf m pgdir \<longleftrightarrow> page_aligned pgdir \<and> pgdir \<noteq> 0 \<and>
     (\<forall>va. mapped m pgdir va \<longrightarrow> pt_page m pgdir va \<noteq> 0 \<and> PPN (pt_page m pgdir va) \<noteq> PPN pgdir) \<and>
     (\<forall>va va'. mapped m pgdir va \<and> mapped m pgdir va' \<and> PDX va \<noteq> PDX va' \<longrightarrow>
        pt_page m pgdir va \<noteq> pt_page m pgdir va') \<and>
     (\<forall>va. uva m pgdir va \<longrightarrow> bit (pde_val m pgdir va) 1 \<and> bit (pte_val m pgdir va) 1 \<and>
        frame m pgdir va \<noteq> 0 \<and> PPN (frame m pgdir va) \<noteq> PPN pgdir) \<and>
     (\<forall>va va'. uva m pgdir va \<and> mapped m pgdir va' \<longrightarrow> PPN (frame m pgdir va) \<noteq> PPN (pt_page m pgdir va')) \<and>
     (\<forall>va va'. uva m pgdir va \<and> uva m pgdir va' \<and> PPN va \<noteq> PPN va' \<longrightarrow>
        frame m pgdir va \<noteq> frame m pgdir va') \<and>
     (\<forall>va. KERNBASE \<le> va \<and> mapped m pgdir va \<and> (bit (pte_val m pgdir va) 0 \<or> bit (pte_val m pgdir va) 10) \<longrightarrow>
        \<not> bit (pte_val m pgdir va) 2)"

lemma vm_wf_has_table: "vm_wf m pgdir \<Longrightarrow> mapped m pgdir va \<Longrightarrow> has_table m pgdir va"
  unfolding vm_wf_def has_table_def mapped_def by blast

lemma vm_wf_pt_page: "vm_wf m pgdir \<Longrightarrow> mapped m pgdir va \<Longrightarrow> PPN (pt_page m pgdir va) \<noteq> PPN pgdir"
  unfolding vm_wf_def by blast

lemma uva_mapped: "uva m pgdir va \<Longrightarrow> mapped m pgdir va"
  by (simp add: uva_def)

lemma vm_wf_upage:
  assumes wf: "vm_wf m pgdir" and va: "uva m pgdir va"
  shows "upage m pgdir va"
proof -
  note mp = uva_mapped [OF va]
  have "has_table m pgdir va" "PPN (pt_page m pgdir va) \<noteq> PPN pgdir"
    using vm_wf_has_table [OF wf mp] vm_wf_pt_page [OF wf mp] by blast+
  moreover have "bit (pde_val m pgdir va) 1 \<and> bit (pte_val m pgdir va) 1 \<and> PPN (frame m pgdir va) \<noteq> PPN pgdir \<and>
      PPN (frame m pgdir va) \<noteq> PPN (pt_page m pgdir va)"
    using wf va mp unfolding vm_wf_def by blast
  ultimately show ?thesis unfolding upage_def by blast
qed

lemma vm_wf_frames:
  assumes "vm_wf m pgdir" "uva m pgdir va" "uva m pgdir va'" "PPN va \<noteq> PPN va'"
  shows "PPN (frame m pgdir va) \<noteq> PPN (frame m pgdir va')"
proof -
  have "frame m pgdir va \<noteq> frame m pgdir va'" using assms unfolding vm_wf_def by blast
  then show ?thesis using page_eq_iff [of "frame m pgdir va" "frame m pgdir va'"] by simp
qed

lemma vm_wf_pte_ptr_inj:
  assumes wf: "vm_wf m pgdir" and mp: "mapped m pgdir va" "mapped m pgdir va'"
  shows "pte_ptr m pgdir va = pte_ptr m pgdir va' \<longleftrightarrow> PPN va = PPN va'"
proof (cases "PDX va = PDX va'")
  case True
  then have "pt_page m pgdir va = pt_page m pgdir va'" by (simp add: entry_defs)
  then show ?thesis
    using entry_eq_iff [of "pt_page m pgdir va" "PTX va" "PTX va'"] True same_slot_iff [of va va']
    by (simp add: pte_ptr_def PTX_bound)
next
  case False
  then have "pt_page m pgdir va \<noteq> pt_page m pgdir va'" using wf mp unfolding vm_wf_def by blast
  then have "PPN (pt_page m pgdir va) \<noteq> PPN (pt_page m pgdir va')"
    using page_eq_iff [of "pt_page m pgdir va" "pt_page m pgdir va'"] by simp
  then have "pte_ptr m pgdir va \<noteq> pte_ptr m pgdir va'" by (metis pte_ptr_simps(2))
  then show ?thesis using False same_slot_iff [of va va'] by blast
qed

text \<open>Memories with the same tables describe the same address space.\<close>

definition same_tables :: "memory \<Rightarrow> memory \<Rightarrow> u32 \<Rightarrow> bool" where
  "same_tables m' m pgdir \<longleftrightarrow> page_eq m' m pgdir \<and>
     (\<forall>va. mapped m pgdir va \<longrightarrow> page_eq m' m (pt_page m pgdir va))"

lemma same_tables_entries:
  assumes al: "page_aligned pgdir" and st: "same_tables m' m pgdir"
  shows "pde_val m' pgdir va = pde_val m pgdir va" "pt_page m' pgdir va = pt_page m pgdir va"
    "pte_ptr m' pgdir va = pte_ptr m pgdir va" "mapped m' pgdir va = mapped m pgdir va"
    "mapped m pgdir va \<Longrightarrow> pte_val m' pgdir va = pte_val m pgdir va"
    "mapped m pgdir va \<Longrightarrow> frame m' pgdir va = frame m pgdir va"
    "uva m' pgdir va = uva m pgdir va"
proof -
  have eq: "page_eq m' m pgdir" using st by (simp add: same_tables_def)
  show d: "pde_val m' pgdir va = pde_val m pgdir va"
    unfolding pde_val_def using eq al by (intro load32_page_eq) simp_all
  then show p: "pt_page m' pgdir va = pt_page m pgdir va" and q: "pte_ptr m' pgdir va = pte_ptr m pgdir va"
    and mp: "mapped m' pgdir va = mapped m pgdir va"
    by (simp_all add: pt_page_def pte_ptr_def mapped_def)
  show v: "pte_val m' pgdir va = pte_val m pgdir va" if "mapped m pgdir va"
  proof -
    have "page_eq m' m (pt_page m pgdir va)" using st that by (simp add: same_tables_def)
    then have "load32 m' (pte_ptr m pgdir va) = load32 m (pte_ptr m pgdir va)"
      by (intro load32_page_eq [where p = "pt_page m pgdir va"]) simp_all
    then show ?thesis by (simp add: pte_val_def q)
  qed
  then show "frame m' pgdir va = frame m pgdir va" if "mapped m pgdir va"
    using that by (simp add: frame_def)
  show "uva m' pgdir va = uva m pgdir va"
    using v by (auto simp: uva_def mp)
qed

lemma vm_wf_same_tables:
  assumes wf: "vm_wf m pgdir" and st: "same_tables m' m pgdir"
  shows "vm_wf m' pgdir"
proof -
  have al: "page_aligned pgdir" using wf by (simp add: vm_wf_def)
  note eqs = same_tables_entries [OF al st]
  have "uva m pgdir va \<Longrightarrow> mapped m pgdir va" for va by (simp add: uva_def)
  then show ?thesis
    using wf unfolding vm_wf_def eqs(1-4,7) by (auto simp: eqs(5,6))
qed

section \<open>Editing one entry\<close>

text \<open>New values for the two entries that translate \<open>va\<close>.\<close>

definition edit :: "memory \<Rightarrow> u32 \<Rightarrow> u32 \<Rightarrow> u32 \<Rightarrow> u32 \<Rightarrow> memory" where
  "edit m pgdir va d v = store32 (store32 m (pde_ptr pgdir va) d) (pte_ptr m pgdir va) v"

text \<open>Entries for the same frame with the same rights.\<close>

definition entry_sim :: "u32 \<Rightarrow> u32 \<Rightarrow> bool" where
  "entry_sim v v' \<longleftrightarrow> PTE_ADDR v' = PTE_ADDR v \<and> bit v' 1 = bit v 1 \<and> bit v' 2 = bit v 2"

lemma entry_sim_flags [simp]:
  "entry_sim v v" "entry_sim v (v OR PTE_A)" "entry_sim v (v OR PTE_D)" "entry_sim v (v OR PTE_P)"
  "entry_sim v (v OR PTE_E)" "entry_sim v (v AND NOT PTE_A)" "entry_sim v (v AND NOT PTE_P)"
  "entry_sim v (v AND NOT PTE_E)"
  by (simp_all add: entry_sim_def bit_simps)

lemma entry_sim_trans: "entry_sim u v \<Longrightarrow> entry_sim v w \<Longrightarrow> entry_sim u w"
  by (simp add: entry_sim_def)

lemma touched_edit:
  "touched wr m pgdir va = edit m pgdir va (pde_val m pgdir va OR PTE_A)
     (pte_val m pgdir va OR PTE_A OR (if wr then PTE_D else 0))"
  by (simp add: touched_def edit_def)

lemma store_pte_edit:
  "store32 (edit m pgdir va d v) (pte_ptr m pgdir va) w = edit m pgdir va d w"
  by (simp add: edit_def)

lemma store_pte_is_edit:
  "store32 m (pte_ptr m pgdir va) w = edit m pgdir va (pde_val m pgdir va) w"
  by (simp add: edit_def pde_val_def store32_load32_same)

lemma edit_entries:
  assumes wf: "vm_wf m pgdir" and mp: "mapped m pgdir va" and d: "entry_sim (pde_val m pgdir va) d" "bit d 0"
  shows "pde_val (edit m pgdir va d v) pgdir va' = (if PDX va' = PDX va then d else pde_val m pgdir va')"
    and "pt_page (edit m pgdir va d v) pgdir va' = pt_page m pgdir va'"
    and "pte_ptr (edit m pgdir va d v) pgdir va' = pte_ptr m pgdir va'"
    and "mapped (edit m pgdir va d v) pgdir va' = mapped m pgdir va'"
proof -
  have al: "page_aligned pgdir" using wf by (simp add: vm_wf_def)
  have ne: "pte_ptr m pgdir va \<noteq> pde_ptr pgdir va'"
    using vm_wf_pt_page [OF wf mp] pte_ptr_simps(2) [of m pgdir va] pde_ptr_simps(2) [OF al, of va'] by metis
  show e: "pde_val (edit m pgdir va d v) pgdir va' = (if PDX va' = PDX va then d else pde_val m pgdir va')"
    using ne al pde_ptr_eq_iff [OF al, of va' va]
    by (auto simp: edit_def pde_val_def load32_store32_other)
  have same: "PDX va' = PDX va \<Longrightarrow> pde_val m pgdir va' = pde_val m pgdir va"
    by (simp add: pde_val_def pde_ptr_def)
  show "pt_page (edit m pgdir va d v) pgdir va' = pt_page m pgdir va'"
    using d(1) same by (simp add: pt_page_def e entry_sim_def)
  then show "pte_ptr (edit m pgdir va d v) pgdir va' = pte_ptr m pgdir va'"
    by (simp add: pte_ptr_def)
  show "mapped (edit m pgdir va d v) pgdir va' = mapped m pgdir va'"
    using d(2) mp same by (auto simp: mapped_def e)
qed

lemma edit_pte_val:
  assumes wf: "vm_wf m pgdir" and mp: "mapped m pgdir va" and d: "entry_sim (pde_val m pgdir va) d" "bit d 0"
    and mp': "mapped m pgdir va'"
  shows "pte_val (edit m pgdir va d v) pgdir va' = (if PPN va' = PPN va then v else pte_val m pgdir va')"
proof -
  have al: "page_aligned pgdir" using wf by (simp add: vm_wf_def)
  have "load32 (edit m pgdir va d v) (pte_ptr m pgdir va') = (if PPN va' = PPN va then v else pte_val m pgdir va')"
  proof (cases "PPN va' = PPN va")
    case True
    then show ?thesis using entries_same_page(4) [OF True] by (simp add: edit_def)
  next
    case False
    have "pte_ptr m pgdir va' \<noteq> pte_ptr m pgdir va"
      using vm_wf_pte_ptr_inj [OF wf mp' mp] False by simp
    moreover have "pte_ptr m pgdir va' \<noteq> pde_ptr pgdir va"
      using vm_wf_pt_page [OF wf mp'] pte_ptr_simps(2) [of m pgdir va'] pde_ptr_simps(2) [OF al, of va] by metis
    ultimately show ?thesis using False al by (simp add: edit_def load32_store32_other pte_val_def)
  qed
  then show ?thesis by (simp add: pte_val_def edit_entries(3) [OF wf mp d])
qed

lemma edit_other_page:
  assumes "page_aligned pgdir" "PPN p \<noteq> PPN pgdir" "PPN p \<noteq> PPN (pt_page m pgdir va)"
  shows "page_eq (edit m pgdir va d v) m p"
  unfolding edit_def using assms by (intro page_eq_trans [OF page_eq_store32 page_eq_store32]) simp_all

lemma vm_wf_edit:
  assumes wf: "vm_wf m pgdir" and mp: "mapped m pgdir va" and d: "entry_sim (pde_val m pgdir va) d" "bit d 0"
    and v: "entry_sim (pte_val m pgdir va) v"
      "bit v 0 \<or> bit v 10 \<Longrightarrow> bit (pte_val m pgdir va) 0 \<or> bit (pte_val m pgdir va) 10"
  shows "vm_wf (edit m pgdir va d v) pgdir"
proof -
  let ?e = "edit m pgdir va d v"
  note ent = edit_entries [OF wf mp d] and pv = edit_pte_val [OF wf mp d]
  have fr: "frame ?e pgdir va' = frame m pgdir va'" if "mapped m pgdir va'" for va'
    using v(1) entries_same_page(5) [of va' va] by (simp add: frame_def pv [OF that] entry_sim_def)
  have bits: "bit (pte_val ?e pgdir va') n = bit (pte_val m pgdir va') n" if "mapped m pgdir va'" "n \<in> {1, 2}" for va' n
    using v(1) entries_same_page(5) [of va' va] that(2) by (auto simp: pv [OF that(1)] entry_sim_def)
  have same: "pde_val m pgdir va' = pde_val m pgdir va" if "PDX va' = PDX va" for va'
    using that by (simp add: pde_val_def pde_ptr_def)
  have w: "bit (pde_val ?e pgdir va') 1 = bit (pde_val m pgdir va') 1" for va'
    using d(1) same [of va'] by (cases "PDX va' = PDX va") (simp_all add: ent(1) entry_sim_def)
  have pe: "bit (pte_val m pgdir va') 0 \<or> bit (pte_val m pgdir va') 10"
    if "mapped m pgdir va'" "bit (pte_val ?e pgdir va') 0 \<or> bit (pte_val ?e pgdir va') 10" for va'
    using v(2) that entries_same_page(5) [of va' va] by (auto simp: pv split: if_splits)
  have u: "uva m pgdir va' \<and> mapped m pgdir va'" if "uva ?e pgdir va'" for va'
    using that pe [of va'] by (simp add: uva_def ent(4))
  note base = wf [unfolded vm_wf_def]
  show ?thesis
    unfolding vm_wf_def ent(2,4)
  proof (intro conjI allI impI)
    show "page_aligned pgdir" "pgdir \<noteq> 0" using base by blast+
  next
    fix va' assume "KERNBASE \<le> va' \<and> mapped m pgdir va' \<and> (bit (pte_val ?e pgdir va') 0 \<or> bit (pte_val ?e pgdir va') 10)"
    then show "\<not> bit (pte_val ?e pgdir va') 2" using base pe [of va'] bits [of va' 2] by blast
  next
    fix va' va'' assume "uva ?e pgdir va' \<and> uva ?e pgdir va'' \<and> PPN va' \<noteq> PPN va''"
    then show "frame ?e pgdir va' \<noteq> frame ?e pgdir va''" using base u fr by metis
  next
    fix va' assume "uva ?e pgdir va'"
    then show "bit (pde_val ?e pgdir va') 1" "bit (pte_val ?e pgdir va') 1" "frame ?e pgdir va' \<noteq> 0"
      "PPN (frame ?e pgdir va') \<noteq> PPN pgdir"
      using base u [of va'] fr [of va'] bits [of va' 1] w [of va'] by simp_all
  next
    fix va' va'' assume "uva ?e pgdir va' \<and> mapped m pgdir va''"
    then show "PPN (frame ?e pgdir va') \<noteq> PPN (pt_page m pgdir va'')" using base u fr by metis
  qed (use base in blast)+
qed

lemma uva_edit:
  assumes wf: "vm_wf m pgdir" and mp: "mapped m pgdir va" and d: "entry_sim (pde_val m pgdir va) d" "bit d 0"
    and v: "(bit v 0 \<or> bit v 10) = (bit (pte_val m pgdir va) 0 \<or> bit (pte_val m pgdir va) 10)"
  shows "uva (edit m pgdir va d v) pgdir va' = uva m pgdir va'"
proof (cases "mapped m pgdir va'")
  case True
  show ?thesis
    using v entries_same_page(5) [of va' va]
    by (auto simp: uva_def edit_entries(4) [OF wf mp d] edit_pte_val [OF wf mp d True])
next
  case False
  then show ?thesis by (simp add: uva_def edit_entries(4) [OF wf mp d])
qed

lemma edit_frame:
  assumes wf: "vm_wf m pgdir" and mp: "mapped m pgdir va" and d: "entry_sim (pde_val m pgdir va) d" "bit d 0"
    and v: "entry_sim (pte_val m pgdir va) v" and mp': "mapped m pgdir va'"
  shows "frame (edit m pgdir va d v) pgdir va' = frame m pgdir va'"
  using v entries_same_page(5) [of va' va] by (simp add: frame_def edit_pte_val [OF wf mp d mp'] entry_sim_def)

section \<open>Contents\<close>

definition encrypted :: "memory \<Rightarrow> u32 \<Rightarrow> u32 \<Rightarrow> bool" where
  "encrypted m pgdir va \<longleftrightarrow> bit (pte_val m pgdir va) 10"

definition stored :: "memory \<Rightarrow> u32 \<Rightarrow> u32 \<Rightarrow> u8" where
  "stored m pgdir va = m (frame m pgdir va + (va AND 0xFFF))"

definition plain :: "memory \<Rightarrow> u32 \<Rightarrow> u32 \<Rightarrow> u8" where
  "plain m pgdir va = (if encrypted m pgdir va then NOT (stored m pgdir va) else stored m pgdir va)"

lemma PPN_frame_offset: "PPN (frame m pgdir va + (va AND 0xFFF)) = PPN (frame m pgdir va)"
proof -
  have "unat (va AND 0xFFF) < 4096"
    unfolding mask12 take_bit_eq_mask [symmetric] by (simp add: take_bit_eq_mod unat_mod_distrib)
  then have "PPN (frame m pgdir va + of_nat (unat (va AND 0xFFF))) = PPN (frame m pgdir va)"
    by (intro PPN_page_add) simp_all
  then show ?thesis by simp
qed

text \<open>An edit of the entries of one page leaves all bytes of user pages in place.\<close>

lemma edit_stored:
  assumes wf: "vm_wf m pgdir" and mp: "mapped m pgdir va" and d: "entry_sim (pde_val m pgdir va) d" "bit d 0"
    and v: "entry_sim (pte_val m pgdir va) v" and va': "uva m pgdir va'"
  shows "stored (edit m pgdir va d v) pgdir va' = stored m pgdir va'"
proof -
  have al: "page_aligned pgdir" using wf by (simp add: vm_wf_def)
  have "PPN (frame m pgdir va') \<noteq> PPN pgdir" "PPN (frame m pgdir va') \<noteq> PPN (pt_page m pgdir va)"
    using wf va' mp unfolding vm_wf_def by blast+
  then have "page_eq (edit m pgdir va d v) m (frame m pgdir va')" by (rule edit_other_page [OF al])
  then show ?thesis
    using PPN_frame_offset [of m pgdir va'] edit_frame [OF wf mp d v uva_mapped [OF va']]
    by (simp add: stored_def page_eq_def)
qed

text \<open>Encrypting or decrypting one page: new entries, complemented frame.\<close>

definition crypt :: "memory \<Rightarrow> u32 \<Rightarrow> u32 \<Rightarrow> u32 \<Rightarrow> u32 \<Rightarrow> memory" where
  "crypt m pgdir va d v = flip_mem (edit m pgdir va d v) (frame m pgdir va) 4096"

lemma same_tables_flip:
  assumes wf: "vm_wf m pgdir" and va: "uva m pgdir va"
  shows "same_tables (flip_mem m (frame m pgdir va) 4096) m pgdir"
proof -
  have "PPN pgdir \<noteq> PPN (frame m pgdir va)" "mapped m pgdir va' \<Longrightarrow> PPN (pt_page m pgdir va') \<noteq> PPN (frame m pgdir va)" for va'
    using wf va unfolding vm_wf_def by metis+
  then show ?thesis by (simp add: same_tables_def page_eq_flip)
qed

lemma store_pte_flip:
  assumes up: "upage m pgdir va"
  shows "store32 (flip_mem (edit m pgdir va d v) (frame m pgdir va) 4096) (pte_ptr m pgdir va) w =
    flip_mem (edit m pgdir va d w) (frame m pgdir va) 4096"
proof (rule ext)
  fix a
  let ?f = "frame m pgdir va"
  have ne: "PPN ?f \<noteq> PPN (pt_page m pgdir va)" using up by (simp add: upage_def)
  show "store32 (flip_mem (edit m pgdir va d v) ?f 4096) (pte_ptr m pgdir va) w a = flip_mem (edit m pgdir va d w) ?f 4096 a"
  proof (cases "PPN a = PPN (pt_page m pgdir va)")
    case True
    then have "PPN a \<noteq> PPN ?f" using ne by simp
    then show ?thesis by (simp add: flip_mem_other store32_apply store_pte_edit [symmetric, of m pgdir va d w v])
  next
    case False
    then show ?thesis
      using store32_other_page [of "pte_ptr m pgdir va" a]
      by (simp add: flip_mem_def store_pte_edit [symmetric, of m pgdir va d w v])
  qed
qed

lemma store_pte_crypt:
  "upage m pgdir va \<Longrightarrow> store32 (crypt m pgdir va d v) (pte_ptr m pgdir va) w = crypt m pgdir va d w"
  unfolding crypt_def by (rule store_pte_flip)

lemma load_pte_crypt:
  assumes up: "upage m pgdir va"
  shows "load32 (crypt m pgdir va d v) (pte_ptr m pgdir va) = v"
proof -
  have "page_eq (crypt m pgdir va d v) (edit m pgdir va d v) (pt_page m pgdir va)"
    unfolding crypt_def using up not_sym by (intro page_eq_flip) (auto simp: upage_def)
  then have "load32 (crypt m pgdir va d v) (pte_ptr m pgdir va) = load32 (edit m pgdir va d v) (pte_ptr m pgdir va)"
    by (intro load32_page_eq [where p = "pt_page m pgdir va"]) simp_all
  then show ?thesis by (simp add: edit_def)
qed

text \<open>An earlier change of the flags in the entry is overwritten.\<close>

lemma crypt_store_pte:
  assumes up: "upage m pgdir va" and w: "entry_sim (pte_val m pgdir va) w"
  shows "crypt (store32 m (pte_ptr m pgdir va) w) pgdir va d v = crypt m pgdir va d v"
proof -
  have al: "page_aligned pgdir" using up by (rule upage_nonzero)
  have tab: "has_table m pgdir va" "PPN (pt_page m pgdir va) \<noteq> PPN pgdir" using up by (simp_all add: upage_def)
  note ent = store_pte_entries [OF tab, of w]
  have "frame (store32 m (pte_ptr m pgdir va) w) pgdir va = frame m pgdir va"
    using w by (simp add: frame_def ent(4) entry_sim_def)
  moreover have "store32 (store32 m (pte_ptr m pgdir va) w) (pde_ptr pgdir va) d =
      store32 (store32 m (pde_ptr pgdir va) d) (pte_ptr m pgdir va) w"
    using al upage_pde_ne_pte [OF up] by (intro store32_commute) auto
  ultimately show ?thesis by (simp add: crypt_def edit_def ent(3))
qed

lemma crypt_effect:
  assumes wf: "vm_wf m pgdir" and va: "uva m pgdir va" and d: "entry_sim (pde_val m pgdir va) d" "bit d 0"
    and v: "entry_sim (pte_val m pgdir va) v" "bit v 0 \<or> bit v 10"
  shows "vm_wf (crypt m pgdir va d v) pgdir"
    and "uva (crypt m pgdir va d v) pgdir va' = uva m pgdir va'"
    and "mapped (crypt m pgdir va d v) pgdir va' = mapped m pgdir va'"
    and "pte_ptr (crypt m pgdir va d v) pgdir va' = pte_ptr m pgdir va'"
    and "mapped m pgdir va' \<Longrightarrow> pte_val (crypt m pgdir va d v) pgdir va' =
      (if PPN va' = PPN va then v else pte_val m pgdir va')"
    and "uva m pgdir va' \<Longrightarrow> stored (crypt m pgdir va d v) pgdir va' =
      (if PPN va' = PPN va then NOT (stored m pgdir va') else stored m pgdir va')"
proof -
  let ?e = "edit m pgdir va d v"
  note mp = uva_mapped [OF va]
  have al: "page_aligned pgdir" using wf by (simp add: vm_wf_def)
  have pe: "(bit v 0 \<or> bit v 10) = (bit (pte_val m pgdir va) 0 \<or> bit (pte_val m pgdir va) 10)"
    using va v(2) by (simp add: uva_def)
  have wfe: "vm_wf ?e pgdir" using vm_wf_edit [OF wf mp d v(1)] pe by blast
  note fr = edit_frame [OF wf mp d v(1)]
  have vae: "uva ?e pgdir va" using uva_edit [OF wf mp d pe] va by simp
  have st: "same_tables (crypt m pgdir va d v) ?e pgdir"
    using same_tables_flip [OF wfe vae] by (simp add: crypt_def fr [OF mp])
  note eq = same_tables_entries [OF al st] and ent = edit_entries [OF wf mp d]
  show "vm_wf (crypt m pgdir va d v) pgdir" by (rule vm_wf_same_tables [OF wfe st])
  show "uva (crypt m pgdir va d v) pgdir va' = uva m pgdir va'"
    by (simp add: eq(7) uva_edit [OF wf mp d pe])
  show "mapped (crypt m pgdir va d v) pgdir va' = mapped m pgdir va'"
    and "pte_ptr (crypt m pgdir va d v) pgdir va' = pte_ptr m pgdir va'"
    by (simp_all add: eq(3,4) ent)
  show "pte_val (crypt m pgdir va d v) pgdir va' = (if PPN va' = PPN va then v else pte_val m pgdir va')"
    if "mapped m pgdir va'"
    using that by (simp add: eq(5) ent edit_pte_val [OF wf mp d])
  show "stored (crypt m pgdir va d v) pgdir va' =
      (if PPN va' = PPN va then NOT (stored m pgdir va') else stored m pgdir va')" if va': "uva m pgdir va'"
  proof -
    let ?a = "frame m pgdir va' + (va' AND 0xFFF)"
    have mp': "mapped m pgdir va'" using va' by (rule uva_mapped)
    have "stored (crypt m pgdir va d v) pgdir va' = flip_mem ?e (frame m pgdir va) 4096 ?a"
      using mp' by (simp add: stored_def eq(6) ent fr) (simp add: crypt_def)
    moreover have "?e ?a = stored m pgdir va'"
      using edit_stored [OF wf mp d v(1) va'] by (simp add: stored_def fr [OF mp'])
    moreover have "unat (?a - frame m pgdir va) < 4096 \<longleftrightarrow> PPN va' = PPN va"
      using in_page_iff [of "frame m pgdir va" ?a] PPN_frame_offset [of m pgdir va']
        vm_wf_frames [OF wf va' va] entries_same_page(6) [of va' va m pgdir] by auto
    ultimately show ?thesis by (simp add: flip_mem_def)
  qed
qed

lemma plain_crypt:
  assumes wf: "vm_wf m pgdir" and va: "uva m pgdir va" and d: "entry_sim (pde_val m pgdir va) d" "bit d 0"
    and v: "entry_sim (pte_val m pgdir va) v" "bit v 0 \<or> bit v 10" "bit v 10 = (\<not> encrypted m pgdir va)"
    and va': "uva m pgdir va'"
  shows "plain (crypt m pgdir va d v) pgdir va' = plain m pgdir va'"
proof -
  note eff = crypt_effect [OF wf va d v(1,2)]
  have "PPN va' = PPN va \<Longrightarrow> pte_val m pgdir va' = pte_val m pgdir va" by (rule entries_same_page)
  then show ?thesis
    using v(3) by (auto simp: plain_def encrypted_def eff(5) [OF uva_mapped [OF va']] eff(6) [OF va'])
qed

lemma plain_edit:
  assumes wf: "vm_wf m pgdir" and mp: "mapped m pgdir va" and d: "entry_sim (pde_val m pgdir va) d" "bit d 0"
    and v: "entry_sim (pte_val m pgdir va) v" "bit v 10 = encrypted m pgdir va" and va': "uva m pgdir va'"
  shows "plain (edit m pgdir va d v) pgdir va' = plain m pgdir va'"
proof -
  have "PPN va' = PPN va \<Longrightarrow> pte_val m pgdir va' = pte_val m pgdir va" by (rule entries_same_page)
  then show ?thesis
    using v(2) by (auto simp: plain_def encrypted_def edit_pte_val [OF wf mp d uva_mapped [OF va']]
        edit_stored [OF wf mp d v(1) va'])
qed

section \<open>Changes that keep an address space\<close>

text \<open>Memory that is neither the tables nor a frame of the address space.\<close>

definition foreign :: "memory \<Rightarrow> u32 \<Rightarrow> u32 \<Rightarrow> bool" where
  "foreign m pgdir a \<longleftrightarrow> PPN a \<noteq> PPN pgdir \<and>
     (\<forall>va. mapped m pgdir va \<longrightarrow> PPN a \<noteq> PPN (pt_page m pgdir va)) \<and>
     (\<forall>va. uva m pgdir va \<longrightarrow> PPN a \<noteq> PPN (frame m pgdir va))"

text \<open>
  The new memory describes the same address space: same pages with the same frames and rights,
  the same contents, and nothing else touched. Which pages are encrypted may differ.
\<close>

definition vm_keep :: "memory \<Rightarrow> memory \<Rightarrow> u32 \<Rightarrow> bool" where
  "vm_keep m m' pgdir \<longleftrightarrow> vm_wf m' pgdir \<and>
     (\<forall>va. mapped m' pgdir va = mapped m pgdir va \<and> pt_page m' pgdir va = pt_page m pgdir va \<and>
        uva m' pgdir va = uva m pgdir va) \<and>
     (\<forall>va. mapped m pgdir va \<longrightarrow> entry_sim (pte_val m pgdir va) (pte_val m' pgdir va)) \<and>
     (\<forall>va. uva m pgdir va \<longrightarrow> plain m' pgdir va = plain m pgdir va) \<and>
     (\<forall>a. foreign m pgdir a \<longrightarrow> m' a = m a)"

lemma vm_keep_wf: "vm_keep m m' pgdir \<Longrightarrow> vm_wf m' pgdir"
  by (simp add: vm_keep_def)

lemma vm_keep_mapped:
  assumes "vm_keep m m' pgdir"
  shows "mapped m' pgdir va = mapped m pgdir va" "uva m' pgdir va = uva m pgdir va"
    "pt_page m' pgdir va = pt_page m pgdir va" "pte_ptr m' pgdir va = pte_ptr m pgdir va"
  using assms by (simp_all add: vm_keep_def pte_ptr_def)

lemma vm_keep_frame: "vm_keep m m' pgdir \<Longrightarrow> mapped m pgdir va \<Longrightarrow> frame m' pgdir va = frame m pgdir va"
  by (simp add: vm_keep_def frame_def entry_sim_def)

lemma vm_keep_foreign:
  assumes k: "vm_keep m m' pgdir"
  shows "foreign m' pgdir a = foreign m pgdir a"
proof -
  have "uva m pgdir va \<Longrightarrow> frame m' pgdir va = frame m pgdir va" for va
    using vm_keep_frame [OF k] uva_mapped by blast
  then show ?thesis unfolding foreign_def vm_keep_mapped [OF k] by simp
qed

lemma vm_keep_refl: "vm_wf m pgdir \<Longrightarrow> vm_keep m m pgdir"
  by (simp add: vm_keep_def)

lemma vm_keep_trans:
  assumes a: "vm_keep m m' pgdir" and b: "vm_keep m' m'' pgdir"
  shows "vm_keep m m'' pgdir"
proof -
  have "entry_sim (pte_val m pgdir va) (pte_val m'' pgdir va)" if "mapped m pgdir va" for va
    using a b that entry_sim_trans unfolding vm_keep_def by metis
  moreover have "plain m'' pgdir va = plain m pgdir va" if "uva m pgdir va" for va
    using a b that unfolding vm_keep_def by metis
  moreover have "m'' x = m x" if "foreign m pgdir x" for x
    using a b that vm_keep_foreign [OF a, of x] unfolding vm_keep_def by metis
  ultimately show ?thesis
    using vm_keep_wf [OF b] vm_keep_mapped [OF a] vm_keep_mapped [OF b] unfolding vm_keep_def by simp
qed

lemma vm_keep_edit:
  assumes wf: "vm_wf m pgdir" and mp: "mapped m pgdir va" and d: "entry_sim (pde_val m pgdir va) d" "bit d 0"
    and v: "entry_sim (pte_val m pgdir va) v" "bit v 10 = encrypted m pgdir va"
      "(bit v 0 \<or> bit v 10) = (bit (pte_val m pgdir va) 0 \<or> bit (pte_val m pgdir va) 10)"
  shows "vm_keep m (edit m pgdir va d v) pgdir"
proof -
  have al: "page_aligned pgdir" using wf by (simp add: vm_wf_def)
  have "vm_wf (edit m pgdir va d v) pgdir" using vm_wf_edit [OF wf mp d v(1)] v(3) by blast
  moreover have "entry_sim (pte_val m pgdir va') (pte_val (edit m pgdir va d v) pgdir va')" if "mapped m pgdir va'" for va'
    using v(1) entries_same_page(5) [of va' va m pgdir] by (simp add: edit_pte_val [OF wf mp d that])
  moreover have "edit m pgdir va d v a = m a" if "foreign m pgdir a" for a
    using edit_other_page [OF al, of a m va d v] that mp by (simp add: foreign_def page_eq_def)
  ultimately show ?thesis
    using plain_edit [OF wf mp d v(1,2)] uva_edit [OF wf mp d v(3)] edit_entries [OF wf mp d]
    unfolding vm_keep_def by simp
qed

lemma vm_keep_crypt:
  assumes wf: "vm_wf m pgdir" and va: "uva m pgdir va" and d: "entry_sim (pde_val m pgdir va) d" "bit d 0"
    and v: "entry_sim (pte_val m pgdir va) v" "bit v 0 \<or> bit v 10" "bit v 10 = (\<not> encrypted m pgdir va)"
  shows "vm_keep m (crypt m pgdir va d v) pgdir"
proof -
  have al: "page_aligned pgdir" using wf by (simp add: vm_wf_def)
  note mp = uva_mapped [OF va] and eff = crypt_effect [OF wf va d v(1,2)]
  have "pt_page (crypt m pgdir va d v) pgdir va' = pt_page m pgdir va'" for va'
    using eff(4) [of va'] by (simp add: pte_ptr_def)
  moreover have "entry_sim (pte_val m pgdir va') (pte_val (crypt m pgdir va d v) pgdir va')" if "mapped m pgdir va'" for va'
    using v(1) entries_same_page(5) [of va' va m pgdir] by (simp add: eff(5) [OF that])
  moreover have "crypt m pgdir va d v a = m a" if "foreign m pgdir a" for a
    using edit_other_page [OF al, of a m va d v] that mp va
    by (simp add: foreign_def page_eq_def crypt_def flip_mem_other)
  ultimately show ?thesis
    using plain_crypt [OF wf va d v] eff unfolding vm_keep_def by simp
qed

end
