(* ===== verification/Mencrypt.thy ===== *)
theory Mencrypt
  imports Address_Space
begin

text \<open>
  Page encryption and the clock queue (\<open>vm.c\<close>, from \<open>cq_init\<close> to \<open>pet_in_set\<close>). A user page is
  either present or encrypted; \<open>mencrypt\<close> complements the bytes of pages and swaps the flags,
  \<open>mdecrypt\<close> does the reverse on a page fault and enters the page into the clock queue of the
  process, which holds at most \<open>CLOCKSIZE\<close> decrypted pages and encrypts a victim when full.
\<close>

section \<open>Queue access\<close>

text \<open>The remainder of C truncates towards zero.\<close>

definition crem :: "int \<Rightarrow> int \<Rightarrow> int" where
  "crem a b = (if a < 0 then - ((- a) mod b) else a mod b)"

text \<open>\<open>myproc()\<close> dereferenced, and \<open>myproc()->cq[i]\<close> for reading and writing.\<close>

definition me :: "proc K" where
  "me = kbind curproc getp"

definition modme :: "(proc \<Rightarrow> proc) \<Rightarrow> unit K" where
  "modme f = kbind curproc (\<lambda>p. modp p f)"

definition mycq :: "int \<Rightarrow> cq_node K" where
  "mycq i = kbind me (\<lambda>pr. if 0 \<le> i \<and> i < int CLOCKSIZE then kret (p_cq pr ! nat i) else kfail OutOfBounds)"

definition modcq :: "int \<Rightarrow> (cq_node \<Rightarrow> cq_node) \<Rightarrow> unit K" where
  "modcq i f = (if 0 \<le> i \<and> i < int CLOCKSIZE
     then modme (\<lambda>pr. pr\<lparr>p_cq := (p_cq pr)[nat i := f (p_cq pr ! nat i)]\<rparr>) else kfail OutOfBounds)"

section \<open>Encryption\<close>

fun mencrypt_check :: "nat \<Rightarrow> u32 \<Rightarrow> u32 \<Rightarrow> bool K" where
  "mencrypt_check 0 mypd slider = kret True"
| "mencrypt_check (Suc n) mypd slider =
     kbind (uva2ka mypd slider) (\<lambda>kvp.
     if kvp = 0 then kret False else mencrypt_check n mypd (slider + PGSIZE))"

fun mencrypt_pages :: "nat \<Rightarrow> u32 \<Rightarrow> u32 \<Rightarrow> unit K" where
  "mencrypt_pages 0 mypd slider = kret ()"
| "mencrypt_pages (Suc n) mypd slider =
     kbind (walkpgdir mypd slider False) (\<lambda>mypte.
     kbind (rd32 mypte) (\<lambda>v.
     if v AND PTE_E \<noteq> 0 then mencrypt_pages n mypd (slider + PGSIZE)
     else kseq (flip_bytes (unat PGSIZE) slider)
     (kseq (kbind (rd32 mypte) (\<lambda>v. wr32 mypte (v AND NOT PTE_P)))
     (kseq (kbind (rd32 mypte) (\<lambda>v. wr32 mypte (v OR PTE_E)))
     (mencrypt_pages n mypd (slider + PGSIZE))))))"

definition mencrypt :: "u32 \<Rightarrow> int \<Rightarrow> int K" where
  "mencrypt virtual_addr len =
     kbind me (\<lambda>p.
     let mypd = p_pgdir p; va = PGROUNDDOWN virtual_addr in
     kbind (mencrypt_check (nat len) mypd va) (\<lambda>ok.
     if \<not> ok then kret (-1)
     else kseq (mencrypt_pages (nat len) mypd va)
     (kseq (kbind myproc switchuvm)
     (kret 0))))"

section \<open>The clock queue\<close>

definition cq_init :: "nat \<Rightarrow> unit K" where
  "cq_init p = kseq (modp p (\<lambda>pr. pr\<lparr>p_cq := map (\<lambda>n. n\<lparr>cq_empty := -1, cq_va := 0, cq_pte := 0\<rparr>) (p_cq pr)\<rparr>))
     (modp p (\<lambda>pr. pr\<lparr>p_clock_hand := -1\<rparr>))"

text \<open>The repetition check of \<open>cq_enset\<close>, from index \<open>i\<close> for \<open>n\<close> entries.\<close>

fun cq_member :: "nat \<Rightarrow> int \<Rightarrow> u32 \<Rightarrow> bool K" where
  "cq_member 0 i pte = kret False"
| "cq_member (Suc n) i pte =
     kbind (mycq i) (\<lambda>node.
     if cq_pte node = pte \<and> cq_empty node \<noteq> -1 then kret True else cq_member n (i + 1) pte)"

text \<open>
  The loop that looks for a slot. A round that does not end it clears a reference bit, so
  \<open>CLOCKSIZE + 1\<close> rounds are enough.
\<close>

fun cq_enset_loop :: "nat \<Rightarrow> u32 \<Rightarrow> u32 \<Rightarrow> int \<Rightarrow> int K" where
  "cq_enset_loop 0 va pte hand = kfail OutOfFuel"
| "cq_enset_loop (Suc n) va pte hand =
     (let h = crem (hand + 1) (int CLOCKSIZE) in
     kbind (mycq h) (\<lambda>node.
     if cq_empty node = -1 then
       kseq (modcq h (\<lambda>x. x\<lparr>cq_va := va\<rparr>))
       (kseq (modcq h (\<lambda>x. x\<lparr>cq_pte := pte\<rparr>))
       (kseq (modcq h (\<lambda>x. x\<lparr>cq_empty := 0\<rparr>))
       (kret h)))
     else kbind (rd32 (cq_pte node)) (\<lambda>v.
     if v AND PTE_A = 0 then
       kbind (mencrypt (cq_va node) 1) (\<lambda>_.
       kseq (modcq h (\<lambda>x. x\<lparr>cq_va := va\<rparr>))
       (kseq (modcq h (\<lambda>x. x\<lparr>cq_pte := pte\<rparr>))
       (kret h)))
     else kseq (wr32 (cq_pte node) (v AND NOT PTE_A))
       (cq_enset_loop n va pte h))))"

definition cq_enset :: "u32 \<Rightarrow> int K" where
  "cq_enset va =
     kbind me (\<lambda>pr.
     kbind (walkpgdir (p_pgdir pr) va False) (\<lambda>pte.
     if pte = 0 then kret (-1)
     else kbind (cq_member CLOCKSIZE 0 pte) (\<lambda>found.
     if found then kret 0
     else kbind me (\<lambda>pr'.
     kbind (cq_enset_loop (Suc CLOCKSIZE) va pte (p_clock_hand pr')) (\<lambda>h.
     kseq (modme (\<lambda>x. x\<lparr>p_clock_hand := h\<rparr>))
     (kret 0))))))"

text \<open>
  \<open>cq_remove\<close>: the search loop, then the loop that shifts the entries. The shift has no wrap,
  so it either meets \<open>old_hand\<close> or leaves the array after at most \<open>CLOCKSIZE\<close> rounds.
\<close>

fun cq_find :: "nat \<Rightarrow> int \<Rightarrow> u32 \<Rightarrow> int K" where
  "cq_find 0 i pte = kret (-1)"
| "cq_find (Suc n) i pte =
     kbind (mycq i) (\<lambda>node. if cq_pte node = pte then kret i else cq_find n (i + 1) pte)"

fun cq_shift :: "nat \<Rightarrow> int \<Rightarrow> int \<Rightarrow> unit K" where
  "cq_shift 0 i old_hand = kfail OutOfFuel"
| "cq_shift (Suc n) i old_hand =
     (if i = old_hand then kret ()
      else kbind (mycq (crem (i + 1) (int CLOCKSIZE))) (\<lambda>nx.
      kseq (modcq i (\<lambda>x. x\<lparr>cq_va := cq_va nx\<rparr>))
      (kseq (modcq i (\<lambda>x. x\<lparr>cq_pte := cq_pte nx\<rparr>))
      (kseq (modcq i (\<lambda>x. x\<lparr>cq_empty := cq_empty nx\<rparr>))
      (cq_shift n (i + 1) old_hand)))))"

definition cq_remove :: "u32 \<Rightarrow> unit K" where
  "cq_remove pte =
     kbind me (\<lambda>pr.
     let old_hand = p_clock_hand pr in
     kbind (cq_find CLOCKSIZE 0 pte) (\<lambda>del_i.
     if del_i = -1 then kret ()
     else kseq (cq_shift (Suc CLOCKSIZE) del_i old_hand)
     (kseq (modcq old_hand (\<lambda>x. x\<lparr>cq_empty := -1\<rparr>))
     (modme (\<lambda>x. x\<lparr>p_clock_hand := if p_clock_hand x = 0 then int CLOCKSIZE - 1 else p_clock_hand x - 1\<rparr>)))))"

section \<open>Decryption\<close>

definition mdecrypt :: "u32 \<Rightarrow> int K" where
  "mdecrypt virtual_addr =
     (if virtual_addr \<ge> 2147483648 then kret (-1)
      else kbind myproc (\<lambda>p.
      kbind me (\<lambda>pr.
      kbind (walkpgdir (p_pgdir pr) virtual_addr False) (\<lambda>pte.
      kbind (if pte = 0 then kret True else kbind (rd32 pte) (\<lambda>v. kret (v = 0))) (\<lambda>bad.
      if bad then kret (-1)
      else kseq (kbind (rd32 pte) (\<lambda>v. wr32 pte (v AND NOT PTE_E)))
      (kseq (kbind (rd32 pte) (\<lambda>v. wr32 pte (v OR PTE_P)))
      (kseq (flip_bytes (unat PGSIZE) (PGROUNDDOWN virtual_addr))
      (kbind (cq_enset virtual_addr) (\<lambda>r.
      if r \<noteq> 0 then kret (-1)
      else kseq (switchuvm p) (kret 0))))))))))"

definition pet_in_set :: "u32 \<Rightarrow> bool K" where
  "pet_in_set pte =
     (if pte = 0 then kret False
      else kbind (rd32 pte) (\<lambda>v. kret (v AND PTE_P \<noteq> 0 \<and> v AND NOT PTE_E \<noteq> 0)))"

section \<open>Running as a process\<close>

definition running :: "kstate \<Rightarrow> nat \<Rightarrow> bool" where
  "running s p \<longleftrightarrow> irq_ok s \<and> cur s = Some p \<and> p < length (procs s)"

lemma running_cong:
  "running s p \<Longrightarrow> eflags t = eflags s \<Longrightarrow> cpus t = cpus s \<Longrightarrow> ncpu t = ncpu s \<Longrightarrow> lapic_id t = lapic_id s \<Longrightarrow>
   length (procs t) = length (procs s) \<Longrightarrow> running t p"
  using irq_ok_cong [of t s] this_cpu_cong [of t s] by (auto simp: running_def cur_def split: option.splits)

lemma running_upd [simp]:
  "running s p \<Longrightarrow> running (s\<lparr>mem := m\<rparr>) p" "running s p \<Longrightarrow> length ps = length (procs s) \<Longrightarrow> running (s\<lparr>procs := ps\<rparr>) p"
  by (erule running_cong; simp)+

lemma me_run: "running s p \<Longrightarrow> me s = Inr (procs s ! p, s)"
  by (simp add: me_def running_def kmonad curproc_run)

lemma modme_run: "running s p \<Longrightarrow> modme f s = Inr ((), s\<lparr>procs := (procs s)[p := f (procs s ! p)]\<rparr>)"
  by (simp add: modme_def running_def kmonad curproc_run)

section \<open>Encrypting pages\<close>

text \<open>The effect of the second loop of \<open>mencrypt\<close> on memory.\<close>

definition enc_page :: "memory \<Rightarrow> u32 \<Rightarrow> u32 \<Rightarrow> memory" where
  "enc_page m pd va = (if encrypted m pd va then m
     else crypt m pd va (pde_val m pd va OR PTE_A) (((pte_val m pd va OR PTE_A OR PTE_D) AND NOT PTE_P) OR PTE_E))"

fun enc_pages :: "nat \<Rightarrow> memory \<Rightarrow> u32 \<Rightarrow> u32 \<Rightarrow> memory" where
  "enc_pages 0 m pd va = m"
| "enc_pages (Suc n) m pd va = enc_pages n (enc_page m pd va) pd (va + PGSIZE)"

lemma entry_sim_enc: "entry_sim v (((v OR PTE_A OR PTE_D) AND NOT PTE_P) OR PTE_E)"
  by (simp add: entry_sim_def or.assoc [symmetric] bit_simps)

lemma uva_present: "uva m pd va \<Longrightarrow> \<not> encrypted m pd va \<Longrightarrow> bit (pte_val m pd va) 0"
  by (simp add: uva_def encrypted_def)

lemma flip_run:
  assumes wf: "vm_wf (mem s) pd" and va: "uva (mem s) pd va" "page_aligned va"
    and P: "bit (pte_val (mem s) pd va) 0" and cr: "cr3 s = V2P pd"
  shows "flip_bytes 4096 va s = Inr ((), s\<lparr>mem := crypt (mem s) pd va (pde_val (mem s) pd va OR PTE_A)
    (pte_val (mem s) pd va OR PTE_A OR PTE_D)\<rparr>)"
proof -
  have "flippable s pd va"
    using vm_wf_upage [OF wf va(1)] va(2) P cr by (simp add: flippable_def)
  from flip_page_run [OF this] show ?thesis by (simp add: touched_edit crypt_def)
qed

lemma vm_keep_enc_page:
  assumes wf: "vm_wf m pd" and va: "uva m pd va"
  shows "vm_keep m (enc_page m pd va) pd"
proof (cases "encrypted m pd va")
  case True
  then show ?thesis using vm_keep_refl [OF wf] by (simp add: enc_page_def)
next
  case False
  have "bit (pde_val m pd va) 0" using uva_mapped [OF va] by (simp add: mapped_def)
  then show ?thesis
    unfolding enc_page_def using False entry_sim_enc
    by (simp, intro vm_keep_crypt [OF wf va]) (simp_all add: bit_simps)
qed

lemma enc_page_pte_val:
  assumes wf: "vm_wf m pd" and va: "uva m pd va" and mp: "mapped m pd va'"
  shows "pte_val (enc_page m pd va) pd va' =
    (if PPN va' = PPN va \<and> \<not> encrypted m pd va
     then ((pte_val m pd va' OR PTE_A OR PTE_D) AND NOT PTE_P) OR PTE_E else pte_val m pd va')"
proof -
  have b: "bit (pde_val m pd va) 0" using uva_mapped [OF va] by (simp add: mapped_def)
  have eff: "pte_val (crypt m pd va (pde_val m pd va OR PTE_A) w) pd va' = (if PPN va' = PPN va then w else pte_val m pd va')"
    if "entry_sim (pte_val m pd va) w" "bit w 10" for w
    using crypt_effect(5) [OF wf va _ _ that(1) _ mp] b that(2) by (simp add: bit_simps)
  show ?thesis
    using eff [OF entry_sim_enc] entries_same_page(5) [of va' va m pd]
    by (auto simp: enc_page_def bit_simps)
qed

lemma mencrypt_page_run:
  assumes wf: "vm_wf (mem s) pd" and va: "uva (mem s) pd va" "page_aligned va" and cr: "cr3 s = V2P pd"
  shows "mencrypt_pages (Suc n) pd va s = mencrypt_pages n pd (va + PGSIZE) (s\<lparr>mem := enc_page (mem s) pd va\<rparr>)"
proof -
  let ?m = "mem s"
  have up: "upage ?m pd va" using wf va(1) by (rule vm_wf_upage)
  note nz = upage_nonzero [OF up]
  have walk: "walkpgdir pd va False s = Inr (pte_ptr ?m pd va, s)"
    using up by (intro walkpgdir_present) (rule upage_has_table)
  show ?thesis
  proof (cases "encrypted ?m pd va")
    case True
    then show ?thesis
      using walk nz by (simp add: kmonad and_PTE_0_iff encrypted_def pte_val_def enc_page_def)
  next
    case False
    have "\<not> bit (load32 ?m (pte_ptr ?m pd va)) 10"
      using False by (simp add: encrypted_def pte_val_def)
    then show ?thesis
      using walk nz flip_run [OF wf va uva_present [OF va(1) False] cr] False
      by (simp add: kmonad and_PTE_0_iff enc_page_def load_pte_crypt [OF up] store_pte_crypt [OF up])
  qed
qed

lemma page_aligned_next [simp]: "page_aligned va \<Longrightarrow> page_aligned (va + PGSIZE)"
proof -
  assume "page_aligned va"
  then obtain q where q: "unat va = 4096 * q" unfolding page_aligned_def mod_page_0 by blast
  have "4096 * (q + 1) = 4096 * q + 4096" by simp
  then have "unat (va + PGSIZE) = 4096 * (q + 1) mod (4096 * 1048576)"
    by (simp only: unat_word_ariths q unat_PGSIZE) simp
  also have "\<dots> = 4096 * ((q + 1) mod 1048576)" by (rule mult_mod_right [symmetric])
  finally show ?thesis unfolding page_aligned_def by simp
qed

lemma mencrypt_pages_run:
  assumes "vm_wf (mem s) pd" "page_aligned va" "cr3 s = V2P pd" "\<And>i. i < n \<Longrightarrow> uva (mem s) pd (page_at va i)"
  shows "mencrypt_pages n pd va s = Inr ((), s\<lparr>mem := enc_pages n (mem s) pd va\<rparr>)"
  using assms
proof (induction n arbitrary: s va)
  case 0
  then show ?case by simp
next
  case (Suc n)
  have va: "uva (mem s) pd va" using Suc.prems(4) [of 0] by (simp add: page_at_def)
  note keep = vm_keep_enc_page [OF Suc.prems(1) va]
  have "uva (enc_page (mem s) pd va) pd (page_at (va + PGSIZE) i)" if "i < n" for i
    using Suc.prems(4) [of "Suc i"] that by (simp add: page_at_Suc vm_keep_mapped(2) [OF keep])
  then show ?case
    using mencrypt_page_run [OF Suc.prems(1) va Suc.prems(2,3), of n] vm_keep_wf [OF keep]
      Suc.IH [of "s\<lparr>mem := enc_page (mem s) pd va\<rparr>" "va + PGSIZE"] Suc.prems(2,3)
    by simp
qed

lemma vm_keep_enc_pages:
  assumes "vm_wf m pd" "\<And>i. i < n \<Longrightarrow> uva m pd (page_at va i)"
  shows "vm_keep m (enc_pages n m pd va) pd"
  using assms
proof (induction n arbitrary: m va)
  case 0
  then show ?case by (simp add: vm_keep_refl)
next
  case (Suc n)
  have va: "uva m pd va" using Suc.prems(2) [of 0] by (simp add: page_at_def)
  note keep = vm_keep_enc_page [OF Suc.prems(1) va]
  have "uva (enc_page m pd va) pd (page_at (va + PGSIZE) i)" if "i < n" for i
    using Suc.prems(2) [of "Suc i"] that by (simp add: page_at_Suc vm_keep_mapped(2) [OF keep])
  then have "vm_keep (enc_page m pd va) (enc_pages n (enc_page m pd va) pd (va + PGSIZE)) pd"
    by (intro Suc.IH vm_keep_wf [OF keep])
  from vm_keep_trans [OF keep this] show ?case by simp
qed

definition in_range :: "u32 \<Rightarrow> nat \<Rightarrow> u32 \<Rightarrow> bool" where
  "in_range va n va' \<longleftrightarrow> (\<exists>i<n. PPN va' = PPN (page_at va i))"

lemma page_at_0 [simp]: "page_at p 0 = p"
  by (simp add: page_at_def)

lemma in_range_Suc: "in_range va (Suc n) va' \<longleftrightarrow> PPN va' = PPN va \<or> in_range (va + PGSIZE) n va'"
  by (simp add: in_range_def Ex_less_Suc2 page_at_Suc)

text \<open>The entries after encrypting a range: those of pages in the range that were not encrypted yet.\<close>

definition enc_flags :: "u32 \<Rightarrow> u32" where
  "enc_flags v = (if bit v 10 then v else ((v OR PTE_A OR PTE_D) AND NOT PTE_P) OR PTE_E)"

lemma enc_flags_bits:
  "bit (enc_flags v) 10" "\<not> bit v 10 \<Longrightarrow> \<not> bit (enc_flags v) 0" "enc_flags (enc_flags v) = enc_flags v"
  by (simp_all add: enc_flags_def bit_simps)

lemma enc_pages_pte_val:
  assumes "vm_wf m pd" "\<And>i. i < n \<Longrightarrow> uva m pd (page_at va i)" "mapped m pd va'"
  shows "pte_val (enc_pages n m pd va) pd va' =
    (if in_range va n va' then enc_flags (pte_val m pd va') else pte_val m pd va')"
  using assms
proof (induction n arbitrary: m va)
  case 0
  then show ?case by (simp add: in_range_def)
next
  case (Suc n)
  have va: "uva m pd va" using Suc.prems(2) [of 0] by (simp add: page_at_def)
  note keep = vm_keep_enc_page [OF Suc.prems(1) va]
  have u: "uva (enc_page m pd va) pd (page_at (va + PGSIZE) i)" if "i < n" for i
    using Suc.prems(2) [of "Suc i"] that by (simp add: page_at_Suc vm_keep_mapped(2) [OF keep])
  have first: "pte_val (enc_page m pd va) pd va' = (if PPN va' = PPN va then enc_flags (pte_val m pd va') else pte_val m pd va')"
    using enc_page_pte_val [OF Suc.prems(1) va Suc.prems(3)] entries_same_page(5) [of va' va m pd]
    by (auto simp: enc_flags_def encrypted_def)
  have "mapped (enc_page m pd va) pd va'" using Suc.prems(3) vm_keep_mapped(1) [OF keep] by simp
  from Suc.IH [OF vm_keep_wf [OF keep] u this] show ?case
    by (auto simp: in_range_Suc first enc_flags_bits(3))
qed

section \<open>The encryption call\<close>

text \<open>What \<open>uva2ka\<close> accepts: a user page that is present or encrypted.\<close>

definition accessible :: "memory \<Rightarrow> u32 \<Rightarrow> u32 \<Rightarrow> bool" where
  "accessible m pd va \<longleftrightarrow> mapped m pd va \<and> (bit (pte_val m pd va) 0 \<or> bit (pte_val m pd va) 10) \<and>
     bit (pte_val m pd va) 2"

lemma accessible_uva: "vm_wf m pd \<Longrightarrow> accessible m pd va \<Longrightarrow> uva m pd va"
  unfolding vm_wf_def accessible_def uva_def using not_le by blast

lemma uva2ka_accessible:
  assumes wf: "vm_wf (mem s) pd"
  shows "accessible (mem s) pd va \<Longrightarrow> uva2ka pd va s = Inr (frame (mem s) pd va, s) \<and> frame (mem s) pd va \<noteq> 0"
    and "mapped (mem s) pd va \<Longrightarrow> \<not> accessible (mem s) pd va \<Longrightarrow> uva2ka pd va s = Inr (0, s)"
    and "\<not> mapped (mem s) pd va \<Longrightarrow> uva2ka pd va s = Inl NullDeref"
proof -
  assume "accessible (mem s) pd va"
  moreover from this have "uva (mem s) pd va" using wf by (intro accessible_uva)
  then have "frame (mem s) pd va \<noteq> 0" using wf unfolding vm_wf_def by blast
  ultimately show "uva2ka pd va s = Inr (frame (mem s) pd va, s) \<and> frame (mem s) pd va \<noteq> 0"
    using uva2ka_run [OF vm_wf_has_table [OF wf]] by (simp add: accessible_def)
next
  assume "mapped (mem s) pd va" "\<not> accessible (mem s) pd va"
  then show "uva2ka pd va s = Inr (0, s)"
    using uva2ka_run [OF vm_wf_has_table [OF wf]] by (auto simp: accessible_def)
next
  assume "\<not> mapped (mem s) pd va"
  then have "walkpgdir pd va False s = Inr (0, s)"
    using wf by (intro walkpgdir_absent) (simp_all add: vm_wf_def mapped_def)
  then show "uva2ka pd va s = Inl NullDeref" by (simp add: uva2ka_def kmonad)
qed

lemma mencrypt_check_ok:
  assumes wf: "vm_wf (mem s) pd" and acc: "\<And>i. i < n \<Longrightarrow> accessible (mem s) pd (page_at va i)"
  shows "mencrypt_check n pd va s = Inr (True, s)"
  using acc
proof (induction n arbitrary: va)
  case (Suc n)
  have "accessible (mem s) pd (page_at (va + PGSIZE) i)" if "i < n" for i
    using Suc.prems [of "Suc i"] that by (simp add: page_at_Suc)
  then show ?case
    using Suc.IH [of "va + PGSIZE"] Suc.prems [of 0] uva2ka_accessible(1) [OF wf, of va] by (simp add: kmonad)
qed simp

lemma mencrypt_check_stops:
  assumes wf: "vm_wf (mem s) pd" and "i < n" and acc: "\<And>j. j < i \<Longrightarrow> accessible (mem s) pd (page_at va j)"
    and bad: "\<not> accessible (mem s) pd (page_at va i)"
  shows "mencrypt_check n pd va s =
    (if mapped (mem s) pd (page_at va i) then Inr (False, s) else Inl NullDeref)"
  using assms(2-)
proof (induction i arbitrary: va n)
  case 0
  then obtain k where "n = Suc k" by (cases n) auto
  then show ?case using 0 uva2ka_accessible(2,3) [OF wf, of va] by (simp add: kmonad)
next
  case (Suc i)
  then obtain k where k: "n = Suc k" by (cases n) auto
  have acc: "accessible (mem s) pd (page_at (va + PGSIZE) j)" if "j < i" for j
    using Suc.prems(2) [of "Suc j"] that by (simp add: page_at_Suc)
  have "mencrypt_check k pd (va + PGSIZE) s =
      (if mapped (mem s) pd (page_at (va + PGSIZE) i) then Inr (False, s) else Inl NullDeref)"
    using Suc.prems acc k by (intro Suc.IH) (simp_all add: page_at_Suc)
  then show ?case
    using Suc.prems(2) [of 0] uva2ka_accessible(1) [OF wf, of va] k by (simp add: kmonad page_at_Suc)
qed

text \<open>A process running on its own page table.\<close>

definition user_ctx :: "kstate \<Rightarrow> nat \<Rightarrow> bool" where
  "user_ctx s p \<longleftrightarrow> running s p \<and> p_kstack (procs s ! p) \<noteq> 0 \<and> vm_wf (mem s) (p_pgdir (procs s ! p)) \<and>
     cr3 s = V2P (p_pgdir (procs s ! p))"

lemma switched_simps [simp]:
  "mem (switched pr s) = mem s" "procs (switched pr s) = procs s" "eflags (switched pr s) = eflags s"
  "ncpu (switched pr s) = ncpu s" "lapic_id (switched pr s) = lapic_id s"
  by (simp_all add: switched_def split: option.splits)

lemma this_cpu_switched [simp]: "this_cpu (switched pr s) = this_cpu s"
proof (cases "this_cpu s")
  case (Some i)
  show ?thesis by (rule this_cpu_cong) (simp_all add: switched_def Some map_apicid_update)
qed (simp add: switched_def)

lemma cpus_switched:
  "this_cpu s = Some i \<Longrightarrow> cpus (switched pr s) ! i = switch_cpu pr (cpus s ! i) \<and> cr3 (switched pr s) = V2P (p_pgdir pr)"
  using this_cpu_bound [of s i] by (simp add: switched_def)

lemma running_switched [simp]: "running (switched pr s) p = running s p"
  using cpus_switched [of s] by (auto simp: running_def irq_ok_def cur_def split: option.splits)

lemma cr3_switched: "running s p \<Longrightarrow> cr3 (switched pr s) = V2P (p_pgdir pr)"
  using irq_ok_cpu [of s] cpus_switched [of s] by (auto simp: running_def)

lemma user_ctx_switched:
  assumes "user_ctx s p" "vm_wf m (p_pgdir (procs s ! p))"
  shows "user_ctx (switched (procs s ! p) (s\<lparr>mem := m\<rparr>)) p"
proof -
  have "running (s\<lparr>mem := m\<rparr>) p" using assms(1) by (simp add: user_ctx_def)
  from cr3_switched [OF this] show ?thesis using assms by (simp add: user_ctx_def)
qed

lemma switchuvm_user:
  "user_ctx s p \<Longrightarrow> switchuvm (Some p) s = Inr ((), switched (procs s ! p) s)"
  by (intro switchuvm_run) (simp_all add: user_ctx_def running_def vm_wf_def)

lemma mencrypt_run:
  assumes ctx: "user_ctx s p" and pd: "pd = p_pgdir (procs s ! p)"
    and acc: "\<And>i. i < nat len \<Longrightarrow> accessible (mem s) pd (page_at (PGROUNDDOWN va) i)"
  shows "mencrypt va len s =
    Inr (0, switched (procs s ! p) (s\<lparr>mem := enc_pages (nat len) (mem s) pd (PGROUNDDOWN va)\<rparr>))"
proof -
  let ?m = "enc_pages (nat len) (mem s) pd (PGROUNDDOWN va)"
  have wf: "vm_wf (mem s) pd" and run: "running s p" and cr: "cr3 s = V2P pd"
    using ctx pd by (simp_all add: user_ctx_def)
  have u: "uva (mem s) pd (page_at (PGROUNDDOWN va) i)" if "i < nat len" for i
    using acc [OF that] by (rule accessible_uva [OF wf])
  have ctx': "user_ctx (s\<lparr>mem := ?m\<rparr>) p"
    using ctx pd vm_keep_wf [OF vm_keep_enc_pages [OF wf u]] by (simp add: user_ctx_def)
  then have "myproc (s\<lparr>mem := ?m\<rparr>) = Inr (Some p, s\<lparr>mem := ?m\<rparr>)"
    by (simp add: user_ctx_def running_def myproc_run)
  then show ?thesis
    using me_run [OF run] mencrypt_check_ok [OF wf acc] mencrypt_pages_run [OF wf _ cr u]
      switchuvm_user [OF ctx'] pd
    by (simp add: mencrypt_def Let_def kmonad)
qed

section \<open>The clock\<close>

text \<open>
  The queue of a process: its nonempty entries name different pages of the address space, each
  with the address of its page-table entry.
\<close>

definition cq_full :: "cq_node list \<Rightarrow> nat \<Rightarrow> bool" where
  "cq_full q i \<longleftrightarrow> i < CLOCKSIZE \<and> cq_empty (q ! i) \<noteq> -1"

definition cq_wf :: "memory \<Rightarrow> u32 \<Rightarrow> cq_node list \<Rightarrow> bool" where
  "cq_wf m pd q \<longleftrightarrow> length q = CLOCKSIZE \<and>
     (\<forall>i. cq_full q i \<longrightarrow> mapped m pd (cq_va (q ! i)) \<and> cq_pte (q ! i) = pte_ptr m pd (cq_va (q ! i))) \<and>
     (\<forall>i j. cq_full q i \<and> cq_full q j \<and> PPN (cq_va (q ! i)) = PPN (cq_va (q ! j)) \<longrightarrow> i = j)"

text \<open>Where the hand stops: an empty entry, or one whose page was not referenced.\<close>

definition cq_stop :: "memory \<Rightarrow> u32 \<Rightarrow> cq_node list \<Rightarrow> nat \<Rightarrow> bool" where
  "cq_stop m pd q i \<longleftrightarrow> \<not> cq_full q i \<or> \<not> bit (pte_val m pd (cq_va (q ! i))) 5"

definition clear_A :: "memory \<Rightarrow> u32 \<Rightarrow> u32 \<Rightarrow> memory" where
  "clear_A m pd va = edit m pd va (pde_val m pd va) (pte_val m pd va AND NOT PTE_A)"

lemma clear_A_store: "store32 m (pte_ptr m pd va) (load32 m (pte_ptr m pd va) AND NOT PTE_A) = clear_A m pd va"
  by (simp add: clear_A_def store_pte_is_edit pte_val_def)

lemma clear_A_effect:
  assumes wf: "vm_wf m pd" and mp: "mapped m pd va"
  shows "vm_keep m (clear_A m pd va) pd"
    and "mapped m pd va' \<Longrightarrow> pte_val (clear_A m pd va) pd va' =
      (if PPN va' = PPN va then pte_val m pd va' AND NOT PTE_A else pte_val m pd va')"
proof -
  have b: "bit (pde_val m pd va) 0" using mp by (simp add: mapped_def)
  show "vm_keep m (clear_A m pd va) pd"
    unfolding clear_A_def by (rule vm_keep_edit [OF wf mp]) (simp_all add: b encrypted_def bit_simps)
  show "pte_val (clear_A m pd va) pd va' = (if PPN va' = PPN va then pte_val m pd va' AND NOT PTE_A else pte_val m pd va')"
    if "mapped m pd va'"
    using that b entries_same_page(5) [of va' va m pd]
    by (simp add: clear_A_def edit_pte_val [OF wf mp])
qed

lemma cq_wf_keep:
  "vm_keep m m' pd \<Longrightarrow> cq_wf m pd q \<Longrightarrow> cq_wf m' pd q"
  by (simp add: cq_wf_def vm_keep_mapped)

lemma mycq_run:
  "running s p \<Longrightarrow> i < CLOCKSIZE \<Longrightarrow> mycq (int i) s = Inr (p_cq (procs s ! p) ! i, s)"
  by (simp add: mycq_def kmonad me_run)

lemma modcq_run:
  "running s p \<Longrightarrow> i < CLOCKSIZE \<Longrightarrow> modcq (int i) f s =
    Inr ((), s\<lparr>procs := (procs s)[p := (procs s ! p)\<lparr>p_cq := (p_cq (procs s ! p))[i := f (p_cq (procs s ! p) ! i)]\<rparr>]\<rparr>)"
  by (simp add: modcq_def modme_run)

text \<open>One round of the loop, by what the entry under the hand holds.\<close>

lemma cq_loop_skip:
  assumes run: "running s p" and pr: "pd = p_pgdir (procs s ! p)" "q = p_cq (procs s ! p)"
    and wf: "vm_wf (mem s) pd" "cq_wf (mem s) pd q" and i: "i < CLOCKSIZE" "crem (hand + 1) (int CLOCKSIZE) = int i"
    and skip: "\<not> cq_stop (mem s) pd q i"
  shows "cq_enset_loop (Suc n) va pte hand s =
    cq_enset_loop n va pte (int i) (s\<lparr>mem := clear_A (mem s) pd (cq_va (q ! i))\<rparr>)"
proof -
  let ?x = "cq_va (q ! i)"
  have full: "cq_full q i" and A: "bit (pte_val (mem s) pd ?x) 5" using skip by (simp_all add: cq_stop_def)
  then have mp: "mapped (mem s) pd ?x" and pt: "cq_pte (q ! i) = pte_ptr (mem s) pd ?x"
    using wf(2) by (simp_all add: cq_wf_def)
  have "pte_ptr (mem s) pd ?x \<noteq> 0"
    using wf(1) mp unfolding vm_wf_def by (intro pte_ptr_simps) blast
  then show ?thesis
    using mycq_run [OF run i(1), folded pr] full A i
    by (simp add: Let_def kmonad pt and_PTE_0_iff pte_val_def cq_full_def clear_A_store)
qed

lemma cq_node_upd: "x\<lparr>cq_va := a, cq_pte := b, cq_empty := c\<rparr> = \<lparr>cq_empty = c, cq_va = a, cq_pte = b\<rparr>"
  by (cases x) simp

lemma cq_loop_empty:
  assumes run: "running s p" and q: "q = p_cq (procs s ! p)" "length q = CLOCKSIZE"
    and i: "i < CLOCKSIZE" "crem (hand + 1) (int CLOCKSIZE) = int i" and e: "\<not> cq_full q i"
  shows "cq_enset_loop (Suc n) va pte hand s =
    Inr (int i, s\<lparr>procs := (procs s)[p := (procs s ! p)\<lparr>p_cq := q[i := \<lparr>cq_empty = 0, cq_va = va, cq_pte = pte\<rparr>]\<rparr>]\<rparr>)"
proof -
  have len: "p < length (procs s)" using run by (simp add: running_def)
  have "cq_empty (q ! i) = -1" using e i by (simp add: cq_full_def)
  then show ?thesis
    using mycq_run [OF run i(1)] i run len q by (simp add: Let_def kmonad modcq_run [where p = p] cq_node_upd)
qed

text \<open>
  Apart from memory, the process table and the loaded segments and task state, the state is the
  same.
\<close>

definition cpu_core :: "cpu \<Rightarrow> cpu" where
  "cpu_core c = c\<lparr>c_gdt := [], c_ts := c_ts cpu0\<rparr>"

lemma cpu_core_switch [simp]: "cpu_core (switch_cpu pr c) = cpu_core c"
  by (simp add: cpu_core_def switch_cpu_def)

definition kbase :: "kstate \<Rightarrow> kstate" where
  "kbase s = s\<lparr>mem := (\<lambda>_. 0), procs := [], cpus := map cpu_core (cpus s), tr := 0, cr3 := 0\<rparr>"

definition rest_eq :: "kstate \<Rightarrow> kstate \<Rightarrow> bool" where
  "rest_eq s t \<longleftrightarrow> kbase s = kbase t"

lemma kbase_upd [simp]:
  "kbase (s\<lparr>mem := m\<rparr>) = kbase s" "kbase (s\<lparr>procs := ps\<rparr>) = kbase s" "kbase (switched pr s) = kbase s"
  by (simp_all add: kbase_def switched_def map_update list_update_same_conv nth_map this_cpu_bound split: option.splits)

text \<open>The victim is encrypted if it still is a user page, and replaced.\<close>

definition evict :: "memory \<Rightarrow> u32 \<Rightarrow> u32 \<Rightarrow> memory" where
  "evict m pd va = (if accessible m pd va then enc_page m pd (PGROUNDDOWN va) else m)"

lemma accessible_same_page: "PPN va = PPN va' \<Longrightarrow> accessible m pd va = accessible m pd va'"
  by (simp add: accessible_def mapped_def entries_same_page [of va va'])

lemma mencrypt_evict:
  assumes ctx: "user_ctx s p" and pd: "pd = p_pgdir (procs s ! p)" and mp: "mapped (mem s) pd x"
  shows "\<exists>r t. mencrypt x 1 s = Inr (r, t) \<and> user_ctx t p \<and> mem t = evict (mem s) pd x \<and>
    procs t = procs s \<and> rest_eq s t"
proof (cases "accessible (mem s) pd x")
  case True
  have wf: "vm_wf (mem s) pd" using ctx pd by (simp add: user_ctx_def)
  have acc: "accessible (mem s) pd (PGROUNDDOWN x)"
    using True accessible_same_page [of "PGROUNDDOWN x" x] by simp
  note run = mencrypt_run [OF ctx pd, of 1 x]
  let ?t = "switched (procs s ! p) (s\<lparr>mem := enc_page (mem s) pd (PGROUNDDOWN x)\<rparr>)"
  have "mencrypt x 1 s = Inr (0, ?t)"
    using run acc by (simp add: page_at_def)
  moreover have "user_ctx ?t p"
    using ctx pd vm_keep_wf [OF vm_keep_enc_page [OF wf accessible_uva [OF wf acc]]]
    by (intro user_ctx_switched) simp_all
  ultimately show ?thesis using True by (intro exI [of _ 0] exI [of _ ?t]) (simp add: evict_def rest_eq_def)
next
  case False
  have wf: "vm_wf (mem s) pd" and run: "running s p" using ctx pd by (simp_all add: user_ctx_def)
  have "\<not> accessible (mem s) pd (PGROUNDDOWN x)" "mapped (mem s) pd (PGROUNDDOWN x)"
    using False mp accessible_same_page [of "PGROUNDDOWN x" x] entries_same_page(2) [of "PGROUNDDOWN x" x]
    by (simp_all add: mapped_def)
  then have "mencrypt x 1 s = Inr (-1, s)"
    using mencrypt_check_stops [OF wf, of 0 1 "PGROUNDDOWN x"] me_run [OF run] pd
    by (simp add: mencrypt_def kmonad Let_def)
  then show ?thesis using ctx False by (simp add: evict_def rest_eq_def)
qed

lemma vm_keep_evict: "vm_wf m pd \<Longrightarrow> vm_keep m (evict m pd va) pd"
  using accessible_same_page [of "PGROUNDDOWN va" va m pd]
  by (simp add: evict_def vm_keep_refl vm_keep_enc_page accessible_uva)

lemma evict_pte_val:
  assumes wf: "vm_wf m pd" and mp: "mapped m pd va'"
  shows "pte_val (evict m pd va) pd va' =
    (if accessible m pd va \<and> PPN va' = PPN va then enc_flags (pte_val m pd va') else pte_val m pd va')"
proof -
  have "accessible m pd va \<Longrightarrow> uva m pd (PGROUNDDOWN va)"
    using accessible_same_page [of "PGROUNDDOWN va" va m pd] accessible_uva [OF wf] by simp
  then show ?thesis
    using enc_page_pte_val [OF wf _ mp, of "PGROUNDDOWN va"] entries_same_page(5) [of "va'" "PGROUNDDOWN va" m pd]
    by (auto simp: evict_def enc_flags_def encrypted_def)
qed

lemma user_ctx_procs:
  assumes "user_ctx s p" "p_pgdir pr = p_pgdir (procs s ! p)" "p_kstack pr = p_kstack (procs s ! p)"
  shows "user_ctx (s\<lparr>procs := (procs s)[p := pr]\<rparr>) p"
proof -
  have "p < length (procs s)" using assms(1) by (simp add: user_ctx_def running_def)
  then show ?thesis using assms by (simp add: user_ctx_def)
qed

text \<open>The entry the loop leaves under the hand, and the memory it leaves.\<close>

definition cq_put :: "cq_node list \<Rightarrow> nat \<Rightarrow> u32 \<Rightarrow> u32 \<Rightarrow> cq_node list" where
  "cq_put q i va pte = q[i := \<lparr>cq_empty = (if cq_full q i then cq_empty (q ! i) else 0), cq_va = va, cq_pte = pte\<rparr>]"

definition cq_out :: "memory \<Rightarrow> u32 \<Rightarrow> cq_node list \<Rightarrow> nat \<Rightarrow> memory" where
  "cq_out m pd q i = (if cq_full q i then evict m pd (cq_va (q ! i)) else m)"

lemma cq_loop_stop:
  assumes ctx: "user_ctx s p" and pr: "pd = p_pgdir (procs s ! p)" "q = p_cq (procs s ! p)"
    and cq: "cq_wf (mem s) pd q" and i: "i < CLOCKSIZE" "crem (hand + 1) (int CLOCKSIZE) = int i"
    and stop: "cq_stop (mem s) pd q i"
  shows "\<exists>t. cq_enset_loop (Suc n) va pte hand s = Inr (int i, t) \<and> user_ctx t p \<and>
    mem t = cq_out (mem s) pd q i \<and> procs t = (procs s)[p := (procs s ! p)\<lparr>p_cq := cq_put q i va pte\<rparr>] \<and> rest_eq s t"
proof (cases "cq_full q i")
  case False
  have run: "running s p" using ctx by (simp add: user_ctx_def)
  have "length q = CLOCKSIZE" using cq by (simp add: cq_wf_def)
  then show ?thesis
    using cq_loop_empty [OF run pr(2) _ i False, of n va pte] False
      user_ctx_procs [OF ctx, of "(procs s ! p)\<lparr>p_cq := q[i := \<lparr>cq_empty = 0, cq_va = va, cq_pte = pte\<rparr>]\<rparr>"]
    by (simp add: cq_put_def cq_out_def rest_eq_def)
next
  case True
  let ?x = "cq_va (q ! i)"
  have run: "running s p" and wf: "vm_wf (mem s) pd" using ctx pr by (simp_all add: user_ctx_def)
  have mp: "mapped (mem s) pd ?x" and pt: "cq_pte (q ! i) = pte_ptr (mem s) pd ?x" and len: "length q = CLOCKSIZE"
    using cq True by (simp_all add: cq_wf_def)
  have nz: "pte_ptr (mem s) pd ?x \<noteq> 0"
    using wf mp unfolding vm_wf_def by (intro pte_ptr_simps) blast
  have A: "\<not> bit (load32 (mem s) (pte_ptr (mem s) pd ?x)) 5" using stop True by (simp add: cq_stop_def pte_val_def)
  obtain r t where t: "mencrypt ?x 1 s = Inr (r, t)" "user_ctx t p" "mem t = evict (mem s) pd ?x"
    "procs t = procs s" "rest_eq s t"
    using mencrypt_evict [OF ctx pr(1) mp] by blast
  let ?q = "q[i := (q ! i)\<lparr>cq_va := va, cq_pte := pte\<rparr>]"
  let ?t = "t\<lparr>procs := (procs t)[p := (procs t ! p)\<lparr>p_cq := ?q\<rparr>]\<rparr>"
  have rt: "running t p" and lt: "p < length (procs t)" using t(2) by (simp_all add: user_ctx_def running_def)
  have "cq_enset_loop (Suc n) va pte hand s = Inr (int i, ?t)"
    using mycq_run [OF run i(1), folded pr] t(1,4) nz A True i rt lt len
    by (simp add: Let_def kmonad pt and_PTE_0_iff cq_full_def modcq_run [where p = p] pr(2) [symmetric])
  moreover have "?q = cq_put q i va pte"
    using True by (cases "q ! i") (simp add: cq_put_def)
  moreover have "user_ctx ?t p" using t(2) by (intro user_ctx_procs) simp_all
  moreover have "rest_eq s ?t" using t(5) by (simp add: rest_eq_def)
  ultimately show ?thesis
    using t(3,4) True by (intro exI [of _ ?t]) (simp add: cq_out_def)
qed

text \<open>The hand passes \<open>d\<close> referenced entries from \<open>i\<close> on and clears their reference bits.\<close>

fun clear_As :: "nat \<Rightarrow> memory \<Rightarrow> u32 \<Rightarrow> cq_node list \<Rightarrow> nat \<Rightarrow> memory" where
  "clear_As 0 m pd q i = m"
| "clear_As (Suc d) m pd q i = clear_As d (clear_A m pd (cq_va (q ! i))) pd q (Suc i mod CLOCKSIZE)"

lemma CLOCKSIZE_pos [simp]: "0 < CLOCKSIZE"
  by (simp add: CLOCKSIZE_def)

lemma crem_next: "i < CLOCKSIZE \<Longrightarrow> crem (int i + 1) (int CLOCKSIZE) = int (Suc i mod CLOCKSIZE)"
  by (simp add: crem_def zmod_int add.commute)

lemma next_mod_add: "(Suc i mod CLOCKSIZE + j) mod CLOCKSIZE = (i + Suc j) mod CLOCKSIZE"
  by (metis add_Suc_right add_Suc mod_add_left_eq)

lemma clock_ne: "i < CLOCKSIZE \<Longrightarrow> 0 < j \<Longrightarrow> j < CLOCKSIZE \<Longrightarrow> (i + j) mod CLOCKSIZE \<noteq> i"
  by (simp add: mod_if) arith

lemma cq_stop_clear_A:
  assumes wf: "vm_wf m pd" and cq: "cq_wf m pd q" and i: "cq_full q i" and k: "k \<noteq> i"
  shows "cq_stop (clear_A m pd (cq_va (q ! i))) pd q k = cq_stop m pd q k"
proof (cases "cq_full q k")
  case True
  have "PPN (cq_va (q ! k)) \<noteq> PPN (cq_va (q ! i))" "mapped m pd (cq_va (q ! k))" "mapped m pd (cq_va (q ! i))"
    using cq True i k unfolding cq_wf_def by blast+
  then show ?thesis by (simp add: cq_stop_def clear_A_effect(2) [OF wf])
qed (simp add: cq_stop_def)

lemma cq_loop_scan:
  assumes "user_ctx s p" "pd = p_pgdir (procs s ! p)" "q = p_cq (procs s ! p)" "cq_wf (mem s) pd q"
    "i < CLOCKSIZE" "crem (hand + 1) (int CLOCKSIZE) = int i" "d < CLOCKSIZE" "d < n"
    "\<And>j. j < d \<Longrightarrow> \<not> cq_stop (mem s) pd q ((i + j) mod CLOCKSIZE)" "cq_stop (mem s) pd q ((i + d) mod CLOCKSIZE)"
  shows "\<exists>t. cq_enset_loop n va pte hand s = Inr (int ((i + d) mod CLOCKSIZE), t) \<and> user_ctx t p \<and>
    mem t = cq_out (clear_As d (mem s) pd q i) pd q ((i + d) mod CLOCKSIZE) \<and>
    procs t = (procs s)[p := (procs s ! p)\<lparr>p_cq := cq_put q ((i + d) mod CLOCKSIZE) va pte\<rparr>] \<and> rest_eq s t"
  using assms
proof (induction d arbitrary: i hand s n)
  case 0
  obtain k where "n = Suc k" using 0 by (cases n) auto
  then show ?case using cq_loop_stop [OF 0(1-6), of k va pte] 0 by simp
next
  case (Suc d)
  obtain k where k: "n = Suc k" using Suc.prems by (cases n) auto
  let ?x = "cq_va (q ! i)" and ?i = "Suc i mod CLOCKSIZE"
  let ?m = "clear_A (mem s) pd ?x"
  let ?s = "s\<lparr>mem := ?m\<rparr>"
  have run: "running s p" and wf: "vm_wf (mem s) pd" using Suc.prems(1,2) by (simp_all add: user_ctx_def)
  have skip: "\<not> cq_stop (mem s) pd q i" using Suc.prems(9) [of 0] Suc.prems(5) by simp
  then have full: "cq_full q i" by (simp add: cq_stop_def)
  then have mp: "mapped (mem s) pd ?x" using Suc.prems(4) by (simp add: cq_wf_def)
  note keep = clear_A_effect(1) [OF wf mp]
  have same: "cq_stop ?m pd q ((?i + j) mod CLOCKSIZE) = cq_stop (mem s) pd q ((i + Suc j) mod CLOCKSIZE)" if "j \<le> d" for j
    unfolding next_mod_add using that Suc.prems(5,7)
    by (intro cq_stop_clear_A [OF wf Suc.prems(4) full] clock_ne) simp_all
  have "\<exists>t. cq_enset_loop k va pte (int i) ?s = Inr (int ((?i + d) mod CLOCKSIZE), t) \<and> user_ctx t p \<and>
    mem t = cq_out (clear_As d (mem ?s) pd q ?i) pd q ((?i + d) mod CLOCKSIZE) \<and>
    procs t = (procs ?s)[p := (procs ?s ! p)\<lparr>p_cq := cq_put q ((?i + d) mod CLOCKSIZE) va pte\<rparr>] \<and> rest_eq ?s t"
  proof (rule Suc.IH)
    show "user_ctx ?s p" using Suc.prems(1,2) vm_keep_wf [OF keep] by (simp add: user_ctx_def)
    show "cq_wf (mem ?s) pd q" using cq_wf_keep [OF keep Suc.prems(4)] by simp
    show "\<not> cq_stop (mem ?s) pd q ((?i + j) mod CLOCKSIZE)" if "j < d" for j
      using same [of j] Suc.prems(9) [of "Suc j"] that by simp
    show "cq_stop (mem ?s) pd q ((?i + d) mod CLOCKSIZE)" using same [of d] Suc.prems(10) by simp
  qed (use Suc.prems k crem_next in simp_all)
  then show ?case
    using cq_loop_skip [OF run Suc.prems(2,3) wf Suc.prems(4-6) skip, of k va pte] k
    by (simp add: next_mod_add rest_eq_def)
qed

lemma clear_As_effect:
  assumes "vm_wf m pd" "cq_wf m pd q" "i < CLOCKSIZE" "\<And>j. j < d \<Longrightarrow> cq_full q ((i + j) mod CLOCKSIZE)"
  shows "vm_keep m (clear_As d m pd q i) pd \<and> (\<forall>va. mapped m pd va \<longrightarrow> pte_val (clear_As d m pd q i) pd va =
      (if \<exists>j<d. PPN va = PPN (cq_va (q ! ((i + j) mod CLOCKSIZE))) then pte_val m pd va AND NOT PTE_A else pte_val m pd va))"
  using assms
proof (induction d arbitrary: m i)
  case 0
  then show ?case by (simp add: vm_keep_refl)
next
  case (Suc d)
  let ?x = "cq_va (q ! i)"
  have mp: "mapped m pd ?x" using Suc.prems(4) [of 0] Suc.prems(2,3) by (simp add: cq_wf_def)
  note keep = clear_A_effect(1) [OF Suc.prems(1) mp] and val = clear_A_effect(2) [OF Suc.prems(1) mp]
  have "cq_full q ((Suc i mod CLOCKSIZE + j) mod CLOCKSIZE)" if "j < d" for j
    using Suc.prems(4) [of "Suc j"] that by (simp add: next_mod_add)
  note IH = Suc.IH [OF vm_keep_wf [OF keep] cq_wf_keep [OF keep Suc.prems(2)] _ this]
  show ?case
    using IH vm_keep_trans [OF keep] vm_keep_mapped(1) [OF keep] Suc.prems(3)
    by (auto simp: Ex_less_Suc2 next_mod_add and.assoc val)
qed

end
