(* ===== verification/Working_Set.thy ===== *)
theory Working_Set
  imports Mencrypt
begin

text \<open>
  The working set of a process. The clock queue is compared with a reference description of the
  clock algorithm, and the invariant of the encryption scheme is shown to be kept by \<open>mencrypt\<close>
  and \<open>mdecrypt\<close>: a user page is present or encrypted but not both, its contents never change,
  and every decrypted page is in the queue, so at most \<open>CLOCKSIZE\<close> pages are decrypted.
\<close>

section \<open>The clock algorithm\<close>

text \<open>
  How far the hand moves, starting at entry \<open>i\<close>: to the first entry it stops at, or a full
  turn when every page was referenced.
\<close>

definition clock_dist :: "memory \<Rightarrow> u32 \<Rightarrow> cq_node list \<Rightarrow> nat \<Rightarrow> nat" where
  "clock_dist m pd q i =
     (case find (\<lambda>d. cq_stop m pd q ((i + d) mod CLOCKSIZE)) [0..<CLOCKSIZE] of None \<Rightarrow> CLOCKSIZE | Some d \<Rightarrow> d)"

definition clock_victim :: "memory \<Rightarrow> u32 \<Rightarrow> cq_node list \<Rightarrow> nat \<Rightarrow> nat" where
  "clock_victim m pd q i = (i + clock_dist m pd q i) mod CLOCKSIZE"

lemma clock_dist_cases:
  obtains (stop) "clock_dist m pd q i < CLOCKSIZE" "cq_stop m pd q ((i + clock_dist m pd q i) mod CLOCKSIZE)"
      "\<And>j. j < clock_dist m pd q i \<Longrightarrow> \<not> cq_stop m pd q ((i + j) mod CLOCKSIZE)"
  | (turn) "clock_dist m pd q i = CLOCKSIZE" "\<And>j. j < CLOCKSIZE \<Longrightarrow> \<not> cq_stop m pd q ((i + j) mod CLOCKSIZE)"
proof (cases "find (\<lambda>d. cq_stop m pd q ((i + d) mod CLOCKSIZE)) [0..<CLOCKSIZE]")
  case None
  then have "clock_dist m pd q i = CLOCKSIZE" by (simp add: clock_dist_def)
  with None show ?thesis by (intro turn) (simp_all add: find_None_iff)
next
  case (Some d)
  then have "clock_dist m pd q i = d" by (simp add: clock_dist_def)
  moreover obtain k where "k < CLOCKSIZE" "cq_stop m pd q ((i + k) mod CLOCKSIZE)" "d = k"
    "\<forall>j<k. \<not> cq_stop m pd q ((i + j) mod CLOCKSIZE)"
    using Some by (auto simp: find_Some_iff)
  ultimately show ?thesis by (intro stop) simp_all
qed

lemma clock_dist_full:
  "j < clock_dist m pd q i \<Longrightarrow> cq_full q ((i + j) mod CLOCKSIZE)"
  by (cases rule: clock_dist_cases [of m pd q i]) (auto simp: cq_stop_def)

lemma clock_victim_less [simp]: "clock_victim m pd q i < CLOCKSIZE"
  by (simp add: clock_victim_def)

lemma cq_loop_run:
  assumes ctx: "user_ctx s p" and pr: "pd = p_pgdir (procs s ! p)" "q = p_cq (procs s ! p)" and cq: "cq_wf (mem s) pd q"
    and i: "i < CLOCKSIZE" "crem (hand + 1) (int CLOCKSIZE) = int i"
  defines "v \<equiv> clock_victim (mem s) pd q i"
  shows "\<exists>t. cq_enset_loop (Suc CLOCKSIZE) va pte hand s = Inr (int v, t) \<and> user_ctx t p \<and>
    mem t = cq_out (clear_As (clock_dist (mem s) pd q i) (mem s) pd q i) pd q v \<and>
    procs t = (procs s)[p := (procs s ! p)\<lparr>p_cq := cq_put q v va pte\<rparr>] \<and> rest_eq s t"
proof (cases rule: clock_dist_cases [of "mem s" pd q i])
  case stop
  then show ?thesis
    using cq_loop_scan [OF ctx pr cq i, of "clock_dist (mem s) pd q i" "Suc CLOCKSIZE" va pte]
    by (simp add: v_def clock_victim_def)
next
  case turn
  let ?m = "clear_A (mem s) pd (cq_va (q ! i))" and ?i = "Suc i mod CLOCKSIZE"
  let ?s = "s\<lparr>mem := ?m\<rparr>"
  obtain c where c: "CLOCKSIZE = Suc c" using gr0_implies_Suc [OF CLOCKSIZE_pos] by blast
  have run: "running s p" and wf: "vm_wf (mem s) pd" using ctx pr by (simp_all add: user_ctx_def)
  have skip: "\<not> cq_stop (mem s) pd q i" using turn(2) [of 0] i by simp
  then have full: "cq_full q i" by (simp add: cq_stop_def)
  then have mp: "mapped (mem s) pd (cq_va (q ! i))" using cq by (simp add: cq_wf_def)
  note keep = clear_A_effect(1) [OF wf mp]
  have last: "(?i + c) mod CLOCKSIZE = i" using i c by (simp add: next_mod_add)
  have ctx': "user_ctx ?s p" using ctx pr vm_keep_wf [OF keep] by (simp add: user_ctx_def)
  have cq': "cq_wf (mem ?s) pd q" using cq_wf_keep [OF keep cq] by simp
  have "\<not> cq_stop (mem ?s) pd q ((?i + j) mod CLOCKSIZE)" if "j < c" for j
  proof -
    have "(i + Suc j) mod CLOCKSIZE \<noteq> i" using that c i by (intro clock_ne) simp_all
    then show ?thesis
      using cq_stop_clear_A [OF wf cq full, of "(i + Suc j) mod CLOCKSIZE"] turn(2) [of "Suc j"] that c
      by (simp add: next_mod_add)
  qed
  moreover have "cq_stop (mem ?s) pd q ((?i + c) mod CLOCKSIZE)"
    unfolding last by (simp add: cq_stop_def clear_A_effect(2) [OF wf mp mp] bit_simps)
  moreover have "?i < CLOCKSIZE" "c < CLOCKSIZE" using c by simp_all
  ultimately obtain t where t: "cq_enset_loop CLOCKSIZE va pte (int i) ?s = Inr (int i, t)" "user_ctx t p"
    "mem t = cq_out (clear_As c ?m pd q ?i) pd q i"
    "procs t = (procs s)[p := (procs s ! p)\<lparr>p_cq := cq_put q i va pte\<rparr>]" "rest_eq ?s t"
    using cq_loop_scan [OF ctx' _ _ cq', of ?i "int i" c CLOCKSIZE va pte] crem_next [OF i(1)] pr last by auto
  have "v = i" unfolding v_def clock_victim_def turn(1) using i by simp
  moreover have "clear_As (clock_dist (mem s) pd q i) (mem s) pd q i = clear_As c ?m pd q ?i"
    unfolding turn(1) by (subst c) (rule clear_As.simps)
  ultimately show ?thesis
    unfolding cq_loop_skip [OF run pr wf cq i skip, of CLOCKSIZE va pte]
    using t by (intro exI [of _ t]) (simp add: rest_eq_def)
qed

text \<open>The repetition check.\<close>

lemma ex_range_Suc:
  "(\<exists>j. i \<le> j \<and> j < i + Suc n \<and> P j) \<longleftrightarrow> P i \<or> (\<exists>j. Suc i \<le> j \<and> j < Suc i + n \<and> P j)" for i :: nat
proof
  assume "\<exists>j. i \<le> j \<and> j < i + Suc n \<and> P j"
  then obtain j where "i \<le> j" "j < i + Suc n" "P j" by blast
  then show "P i \<or> (\<exists>j. Suc i \<le> j \<and> j < Suc i + n \<and> P j)"
    by (cases "i = j") (auto simp: Suc_le_eq)
qed (auto intro: Suc_leD)

lemma cq_member_run:
  assumes run: "running s p" and q: "q = p_cq (procs s ! p)" and n: "i + n \<le> CLOCKSIZE"
  shows "cq_member n (int i) pte s =
    Inr (\<exists>j. i \<le> j \<and> j < i + n \<and> cq_full q j \<and> cq_pte (q ! j) = pte, s)"
  using n
proof (induction n arbitrary: i)
  case (Suc n)
  then have i: "int i + 1 = int (Suc i)" "i < CLOCKSIZE" by simp_all
  have "cq_member n (int (Suc i)) pte s =
      Inr (\<exists>j. Suc i \<le> j \<and> j < Suc i + n \<and> cq_full q j \<and> cq_pte (q ! j) = pte, s)"
    using Suc.prems by (intro Suc.IH) simp
  then show ?case
    unfolding ex_range_Suc cq_member.simps i(1)
    using mycq_run [OF run i(2), folded q] i(2) by (auto simp: kmonad cq_full_def)
qed simp

section \<open>Entering a page\<close>

definition cq_has :: "cq_node list \<Rightarrow> u32 \<Rightarrow> bool" where
  "cq_has q va \<longleftrightarrow> (\<exists>j. cq_full q j \<and> PPN (cq_va (q ! j)) = PPN va)"

definition cq_slot :: "int \<Rightarrow> nat" where
  "cq_slot hand = nat ((hand + 1) mod int CLOCKSIZE)"

lemma cq_slot_crem:
  "-1 \<le> hand \<Longrightarrow> cq_slot hand < CLOCKSIZE \<and> crem (hand + 1) (int CLOCKSIZE) = int (cq_slot hand)"
  by (simp add: cq_slot_def crem_def nat_less_iff)

lemma cq_has_pte:
  assumes wf: "vm_wf m pd" and cq: "cq_wf m pd q" and mp: "mapped m pd va"
  shows "(\<exists>j. 0 \<le> j \<and> j < 0 + CLOCKSIZE \<and> cq_full q j \<and> cq_pte (q ! j) = pte_ptr m pd va) = cq_has q va"
proof -
  have "cq_full q j \<Longrightarrow> cq_pte (q ! j) = pte_ptr m pd va \<longleftrightarrow> PPN (cq_va (q ! j)) = PPN va" for j
    using cq vm_wf_pte_ptr_inj [OF wf _ mp, of "cq_va (q ! j)"] by (simp add: cq_wf_def)
  then show ?thesis by (auto simp: cq_has_def cq_full_def)
qed

text \<open>The result of \<open>cq_enset\<close>: nothing for a page in the queue, else the clock algorithm.\<close>

lemma cq_enset_run:
  assumes ctx: "user_ctx s p" and pr: "pd = p_pgdir (procs s ! p)" "q = p_cq (procs s ! p)" and cq: "cq_wf (mem s) pd q"
    and hand: "-1 \<le> p_clock_hand (procs s ! p)" and mp: "mapped (mem s) pd va"
  defines "i \<equiv> cq_slot (p_clock_hand (procs s ! p))"
  defines "v \<equiv> clock_victim (mem s) pd q i"
  shows "cq_has q va \<Longrightarrow> cq_enset va s = Inr (0, s)"
    and "\<not> cq_has q va \<Longrightarrow> \<exists>t. cq_enset va s = Inr (0, t) \<and> user_ctx t p \<and>
      mem t = cq_out (clear_As (clock_dist (mem s) pd q i) (mem s) pd q i) pd q v \<and>
      procs t = (procs s)[p := (procs s ! p)\<lparr>p_cq := cq_put q v va (pte_ptr (mem s) pd va), p_clock_hand := int v\<rparr>] \<and>
      rest_eq s t"
proof -
  have run: "running s p" and wf: "vm_wf (mem s) pd" using ctx pr by (simp_all add: user_ctx_def)
  let ?pte = "pte_ptr (mem s) pd va"
  have nz: "?pte \<noteq> 0" using wf mp unfolding vm_wf_def by (intro pte_ptr_simps) blast
  have walk: "walkpgdir pd va False s = Inr (?pte, s)"
    using vm_wf_has_table [OF wf mp] by (rule walkpgdir_present)
  have mem: "cq_member CLOCKSIZE 0 ?pte s = Inr (cq_has q va, s)"
    using cq_member_run [OF run pr(2), of 0 CLOCKSIZE ?pte] cq_has_pte [OF wf cq mp] by simp
  note pre = me_run [OF run] walk nz mem
  show "cq_has q va \<Longrightarrow> cq_enset va s = Inr (0, s)"
    using pre pr by (simp add: cq_enset_def kmonad)
  assume new: "\<not> cq_has q va"
  obtain t where t: "cq_enset_loop (Suc CLOCKSIZE) va ?pte (p_clock_hand (procs s ! p)) s = Inr (int v, t)"
    "user_ctx t p" "mem t = cq_out (clear_As (clock_dist (mem s) pd q i) (mem s) pd q i) pd q v"
    "procs t = (procs s)[p := (procs s ! p)\<lparr>p_cq := cq_put q v va ?pte\<rparr>]" "rest_eq s t"
    using cq_loop_run [OF ctx pr cq, of i "p_clock_hand (procs s ! p)" va ?pte] cq_slot_crem [OF hand]
    unfolding i_def v_def by blast
  let ?t = "t\<lparr>procs := (procs t)[p := (procs t ! p)\<lparr>p_clock_hand := int v\<rparr>]\<rparr>"
  have rt: "running t p" and lt: "p < length (procs s)" using t(2,4) run by (simp_all add: user_ctx_def running_def)
  have "cq_enset va s = Inr (0, ?t)"
    using pre pr new t(1) rt
    by (simp add: cq_enset_def kmonad modme_run [where p = p] del: cq_enset_loop.simps)
  moreover have "user_ctx ?t p" using t(2) by (intro user_ctx_procs) simp_all
  ultimately show "\<exists>t. cq_enset va s = Inr (0, t) \<and> user_ctx t p \<and>
      mem t = cq_out (clear_As (clock_dist (mem s) pd q i) (mem s) pd q i) pd q v \<and>
      procs t = (procs s)[p := (procs s ! p)\<lparr>p_cq := cq_put q v va ?pte, p_clock_hand := int v\<rparr>] \<and> rest_eq s t"
    using t(3-5) lt by (intro exI [of _ ?t]) (simp add: rest_eq_def)
qed

text \<open>The memory the clock leaves: the same address space, with the victim encrypted.\<close>

lemma clock_memory:
  assumes wf: "vm_wf m pd" and cq: "cq_wf m pd q" and i: "i < CLOCKSIZE"
  defines "v \<equiv> clock_victim m pd q i"
  defines "m' \<equiv> cq_out (clear_As (clock_dist m pd q i) m pd q i) pd q v"
  shows "vm_keep m m' pd"
    and "mapped m pd va \<Longrightarrow> \<not> (cq_full q v \<and> accessible m pd (cq_va (q ! v)) \<and> PPN va = PPN (cq_va (q ! v))) \<Longrightarrow>
      pte_val m' pd va = pte_val m pd va \<or> pte_val m' pd va = pte_val m pd va AND NOT PTE_A"
    and "cq_full q v \<Longrightarrow> accessible m pd (cq_va (q ! v)) \<Longrightarrow> encrypted m' pd (cq_va (q ! v)) \<and>
      (\<not> encrypted m pd (cq_va (q ! v)) \<longrightarrow> \<not> bit (pte_val m' pd (cq_va (q ! v))) 0)"
    and "encrypted m pd va \<Longrightarrow> mapped m pd va \<Longrightarrow> encrypted m' pd va \<and> bit (pte_val m' pd va) 0 = bit (pte_val m pd va) 0"
proof -
  let ?c = "clear_As (clock_dist m pd q i) m pd q i"
  have eff: "vm_keep m ?c pd" "\<And>va. mapped m pd va \<Longrightarrow> pte_val ?c pd va = pte_val m pd va \<or> pte_val ?c pd va = pte_val m pd va AND NOT PTE_A"
    using clear_As_effect [OF wf cq i clock_dist_full] by auto
  note wfc = vm_keep_wf [OF eff(1)] and mpc = vm_keep_mapped(1) [OF eff(1)]
  have bits: "bit (pte_val ?c pd va) n = bit (pte_val m pd va) n" if "mapped m pd va" "n \<in> {0, 2, 10}" for va n
    using eff(2) [OF that(1)] that(2) by (auto simp: bit_simps)
  have acc: "accessible ?c pd va = accessible m pd va" for va
    using bits [of va] by (auto simp: accessible_def mpc)
  have val: "pte_val m' pd va = (if cq_full q v \<and> accessible m pd (cq_va (q ! v)) \<and> PPN va = PPN (cq_va (q ! v))
      then enc_flags (pte_val ?c pd va) else pte_val ?c pd va)" if "mapped m pd va" for va
    using evict_pte_val [OF wfc, of va "cq_va (q ! v)"] that by (simp add: m'_def cq_out_def mpc acc)
  show "vm_keep m m' pd"
    using vm_keep_trans [OF eff(1) vm_keep_evict [OF wfc, of "cq_va (q ! v)"]] eff(1)
    by (simp add: m'_def cq_out_def)
  show "pte_val m' pd va = pte_val m pd va \<or> pte_val m' pd va = pte_val m pd va AND NOT PTE_A"
    if "mapped m pd va" "\<not> (cq_full q v \<and> accessible m pd (cq_va (q ! v)) \<and> PPN va = PPN (cq_va (q ! v)))"
    using eff(2) [OF that(1)] that(2) by (auto simp: val [OF that(1)])
  show "encrypted m' pd (cq_va (q ! v)) \<and> (\<not> encrypted m pd (cq_va (q ! v)) \<longrightarrow> \<not> bit (pte_val m' pd (cq_va (q ! v))) 0)"
    if "cq_full q v" "accessible m pd (cq_va (q ! v))"
  proof -
    have "mapped m pd (cq_va (q ! v))" using that(2) by (simp add: accessible_def)
    then show ?thesis using that by (simp add: encrypted_def val enc_flags_bits bits)
  qed
  show "encrypted m' pd va \<and> bit (pte_val m' pd va) 0 = bit (pte_val m pd va) 0"
    if "encrypted m pd va" "mapped m pd va"
    using that bits [OF that(2)] by (simp add: encrypted_def val [OF that(2)] enc_flags_bits) (simp add: enc_flags_def)
qed

section \<open>Decrypting a page\<close>

definition dec_flags :: "u32 \<Rightarrow> u32" where
  "dec_flags v = ((v AND NOT PTE_E) OR PTE_P) OR PTE_A OR PTE_D"

definition dec_page :: "memory \<Rightarrow> u32 \<Rightarrow> u32 \<Rightarrow> memory" where
  "dec_page m pd va = crypt m pd va (pde_val m pd va OR PTE_A) (dec_flags (pte_val m pd va))"

lemma dec_flags_bits [simp]: "bit (dec_flags v) 0" "\<not> bit (dec_flags v) 10" "bit (dec_flags v) 2 = bit v 2"
  and entry_sim_dec [simp]: "entry_sim v (dec_flags v)"
  by (simp_all add: dec_flags_def entry_sim_def or.assoc [symmetric] bit_simps)

lemma crypt_same_page: "PPN va = PPN va' \<Longrightarrow> crypt m pd va d v = crypt m pd va' d v"
  by (simp add: crypt_def edit_def entries_same_page [of va va'])

text \<open>The part of \<open>mdecrypt\<close> before the queue is entered.\<close>

lemma mdecrypt_flip:
  assumes ctx: "user_ctx s p" and pd: "pd = p_pgdir (procs s ! p)" and va: "uva (mem s) pd va"
  shows "mdecrypt va s = kbind (cq_enset va) (\<lambda>r. if r \<noteq> 0 then kret (-1) else kseq (switchuvm (Some p)) (kret 0))
    (s\<lparr>mem := dec_page (mem s) pd va\<rparr>)"
proof -
  let ?m = "mem s" and ?x = "PGROUNDDOWN va"
  have run: "running s p" and wf: "vm_wf ?m pd" and cr: "cr3 s = V2P pd" using ctx pd by (simp_all add: user_ctx_def)
  have up: "upage ?m pd va" using wf va by (rule vm_wf_upage)
  note mp = uva_mapped [OF va] and nz = upage_nonzero [OF up] and eqs = entries_same_page [of ?x va]
  let ?pte = "pte_ptr ?m pd va" and ?v = "pte_val ?m pd va"
  define w where "w = (?v AND NOT PTE_E) OR PTE_P"
  define m' where "m' = store32 ?m ?pte w"
  have v0: "load32 ?m ?pte \<noteq> 0" using va by (auto simp: uva_def pte_val_def)
  have lt: "\<not> va \<ge> 2147483648" using va by (auto simp: uva_def KERNBASE_def)
  have b: "bit (pde_val ?m pd va) 0" using mp by (simp add: mapped_def)
  have w: "entry_sim ?v w" "bit w 0" by (simp_all add: w_def entry_sim_def bit_simps)
  have edit: "m' = edit ?m pd va (pde_val ?m pd va) w" unfolding m'_def by (rule store_pte_is_edit)
  have pe: "bit w 0 \<or> bit w 10 \<longleftrightarrow> bit ?v 0 \<or> bit ?v 10" using va w by (simp add: uva_def)
  have wf': "vm_wf m' pd" unfolding edit using vm_wf_edit [OF wf mp _ b w(1)] pe by simp
  have ent: "pte_val m' pd va = w" "pde_val m' pd va = pde_val ?m pd va" "uva m' pd va"
    using edit_pte_val [OF wf mp _ b mp] edit_entries(1) [OF wf mp _ b] uva_edit [OF wf mp _ b pe] va
    by (simp_all add: edit)
  have same: "PPN ?x = PPN va" by simp
  have "uva m' pd ?x"
    using ent(3) unfolding uva_def mapped_def entries_same_page [OF same]
    by (auto simp: KERNBASE_def word_less_nat_alt unat_PGROUNDDOWN intro: le_less_trans div_times_less_eq_dividend)
  then have "flip_bytes 4096 ?x (s\<lparr>mem := m'\<rparr>) =
      Inr ((), s\<lparr>mem := crypt m' pd ?x (pde_val m' pd va OR PTE_A) (w OR PTE_A OR PTE_D)\<rparr>)"
    using flip_run [of "s\<lparr>mem := m'\<rparr>" pd ?x] wf' cr w(2) ent(1) entries_same_page [OF same] by simp
  also have "crypt m' pd ?x (pde_val m' pd va OR PTE_A) (w OR PTE_A OR PTE_D) = dec_page ?m pd va"
    using crypt_store_pte [OF up w(1), folded m'_def] crypt_same_page [OF same]
    by (simp add: dec_page_def ent(2) dec_flags_def w_def)
  finally have flip: "flip_bytes 4096 ?x (s\<lparr>mem := m'\<rparr>) = Inr ((), s\<lparr>mem := dec_page ?m pd va\<rparr>)" .
  have my: "myproc s = Inr (Some p, s)" using run by (simp add: running_def myproc_run)
  have walk: "walkpgdir pd va False s = Inr (?pte, s)"
    using vm_wf_has_table [OF wf mp] by (rule walkpgdir_present)
  have m': "store32 (store32 ?m ?pte (load32 ?m ?pte AND NOT PTE_E)) ?pte ((load32 ?m ?pte AND NOT PTE_E) OR PTE_P) = m'"
    by (simp add: m'_def w_def pte_val_def)
  show ?thesis
    using my me_run [OF run] walk nz lt v0 flip pd m' by (simp add: mdecrypt_def kmonad)
qed

section \<open>The working-set invariant\<close>

definition ws_inv :: "memory \<Rightarrow> u32 \<Rightarrow> cq_node list \<Rightarrow> bool" where
  "ws_inv m pd q \<longleftrightarrow> cq_wf m pd q \<and>
     (\<forall>va. uva m pd va \<longrightarrow> bit (pte_val m pd va) 0 \<noteq> bit (pte_val m pd va) 10) \<and>
     (\<forall>va. accessible m pd va \<and> \<not> encrypted m pd va \<longrightarrow> cq_has q va)"

definition cq_inv :: "kstate \<Rightarrow> nat \<Rightarrow> bool" where
  "cq_inv s p \<longleftrightarrow> user_ctx s p \<and> ws_inv (mem s) (p_pgdir (procs s ! p)) (p_cq (procs s ! p)) \<and>
     -1 \<le> p_clock_hand (procs s ! p) \<and> p_clock_hand (procs s ! p) < int CLOCKSIZE"

lemma cq_has_same_page: "PPN va = PPN va' \<Longrightarrow> cq_has q va = cq_has q va'"
  by (simp add: cq_has_def)

lemma encrypted_same_page: "PPN va = PPN va' \<Longrightarrow> encrypted m pd va = encrypted m pd va'"
  by (simp add: encrypted_def entries_same_page(5) [of va va'])

lemma cq_full_put: "length q = CLOCKSIZE \<Longrightarrow> v < CLOCKSIZE \<Longrightarrow> cq_full (cq_put q v va pte) j = (j = v \<or> cq_full q j)"
  by (cases "j = v") (auto simp: cq_full_def cq_put_def)

lemma nth_cq_put:
  "length q = CLOCKSIZE \<Longrightarrow> v < CLOCKSIZE \<Longrightarrow> cq_va (cq_put q v va pte ! j) = (if j = v then va else cq_va (q ! j))"
  "length q = CLOCKSIZE \<Longrightarrow> v < CLOCKSIZE \<Longrightarrow> cq_pte (cq_put q v va pte ! j) = (if j = v then pte else cq_pte (q ! j))"
  by (auto simp: cq_put_def nth_list_update)

lemma accessible_keep:
  "vm_keep m m' pd \<Longrightarrow> vm_wf m pd \<Longrightarrow> accessible m' pd va = accessible m pd va"
  using accessible_uva [of m pd va] accessible_uva [of m' pd va]
  by (auto simp: vm_keep_def accessible_def uva_def entry_sim_def)

text \<open>Entering a decrypted page that is not in the queue re-establishes the invariant.\<close>

lemma ws_inv_enset:
  assumes wf: "vm_wf m pd" and cq: "cq_wf m pd q" and i: "i < CLOCKSIZE" and new: "\<not> cq_has q va" and mp: "mapped m pd va"
    and pe: "\<And>va'. uva m pd va' \<Longrightarrow> bit (pte_val m pd va') 0 \<noteq> bit (pte_val m pd va') 10"
    and dec: "\<And>va'. accessible m pd va' \<Longrightarrow> \<not> encrypted m pd va' \<Longrightarrow> PPN va' = PPN va \<or> cq_has q va'"
  defines "v \<equiv> clock_victim m pd q i"
  defines "m' \<equiv> cq_out (clear_As (clock_dist m pd q i) m pd q i) pd q v"
  shows "ws_inv m' pd (cq_put q v va (pte_ptr m pd va))"
proof -
  note mem = clock_memory [OF wf cq i, folded v_def, folded m'_def]
  note keep = mem(1) and vl = clock_victim_less [of m pd q i, folded v_def]
  let ?q = "cq_put q v va (pte_ptr m pd va)"
  have len: "length q = CLOCKSIZE" using cq by (simp add: cq_wf_def)
  note put = cq_full_put [OF len vl] nth_cq_put [OF len vl]
  have "cq_wf m' pd ?q"
    unfolding cq_wf_def
  proof (intro conjI allI impI)
    show "length ?q = CLOCKSIZE" by (simp add: cq_put_def len)
  next
    fix j assume "cq_full ?q j"
    then show "mapped m' pd (cq_va (?q ! j))" "cq_pte (?q ! j) = pte_ptr m' pd (cq_va (?q ! j))"
      using cq mp unfolding cq_wf_def by (auto simp: put vm_keep_mapped [OF keep])
  next
    fix j k assume "cq_full ?q j \<and> cq_full ?q k \<and> PPN (cq_va (?q ! j)) = PPN (cq_va (?q ! k))"
    then show "j = k"
      using cq new unfolding cq_wf_def cq_has_def by (auto simp: put split: if_splits)
  qed
  moreover have "bit (pte_val m' pd x) 0 \<noteq> bit (pte_val m' pd x) 10" if x: "uva m' pd x" for x
  proof -
    have um: "uva m pd x" using x vm_keep_mapped(2) [OF keep] by simp
    note mx = uva_mapped [OF um]
    consider "encrypted m pd x" | "\<not> encrypted m pd x" "\<not> (cq_full q v \<and> accessible m pd (cq_va (q ! v)) \<and> PPN x = PPN (cq_va (q ! v)))"
      | "\<not> encrypted m pd x" "cq_full q v" "accessible m pd (cq_va (q ! v))" "PPN x = PPN (cq_va (q ! v))" by blast
    then show ?thesis
    proof cases
      case 1 then show ?thesis using mem(4) [OF _ mx] pe [OF um] by (simp add: encrypted_def)
    next
      case 2 then show ?thesis using mem(2) [OF mx] pe [OF um] by (auto simp: bit_simps)
    next
      case 3
      then show ?thesis
        using mem(3) encrypted_same_page [of x "cq_va (q ! v)"] entries_same_page(5) [of x "cq_va (q ! v)" m' pd]
        by (simp add: encrypted_def)
    qed
  qed
  moreover have "cq_has ?q x" if x: "accessible m' pd x" "\<not> encrypted m' pd x" for x
  proof -
    have acc: "accessible m pd x" using x(1) accessible_keep [OF keep wf] by simp
    then have ne: "\<not> encrypted m pd x" using x(2) mem(4) [of x] by (auto simp: accessible_def)
    from dec [OF acc ne] show ?thesis
    proof
      assume "PPN x = PPN va"
      then show ?thesis unfolding cq_has_def by (intro exI [of _ v]) (simp add: put)
    next
      assume "cq_has q x"
      then obtain j where j: "cq_full q j" "PPN (cq_va (q ! j)) = PPN x" by (auto simp: cq_has_def)
      have "j \<noteq> v"
      proof
        assume "j = v"
        then have "encrypted m' pd (cq_va (q ! v))"
          using mem(3) j acc accessible_same_page [of x "cq_va (q ! v)"] by auto
        then show False using x(2) j \<open>j = v\<close> encrypted_same_page [of x "cq_va (q ! v)"] by auto
      qed
      then show ?thesis unfolding cq_has_def using j by (intro exI [of _ j]) (simp add: put)
    qed
  qed
  ultimately show ?thesis unfolding ws_inv_def by blast
qed

lemma vm_keep_dec_page:
  assumes wf: "vm_wf m pd" and va: "uva m pd va" and enc: "encrypted m pd va"
  shows "vm_keep m (dec_page m pd va) pd"
    and "mapped m pd va' \<Longrightarrow> pte_val (dec_page m pd va) pd va' =
      (if PPN va' = PPN va then dec_flags (pte_val m pd va) else pte_val m pd va')"
proof -
  have b: "bit (pde_val m pd va) 0" using uva_mapped [OF va] by (simp add: mapped_def)
  show "vm_keep m (dec_page m pd va) pd"
    unfolding dec_page_def using enc b by (intro vm_keep_crypt [OF wf va]) (simp_all add: bit_simps)
  show "pte_val (dec_page m pd va) pd va' = (if PPN va' = PPN va then dec_flags (pte_val m pd va) else pte_val m pd va')"
    if "mapped m pd va'"
    unfolding dec_page_def using b that by (intro crypt_effect(5) [OF wf va]) (simp_all add: bit_simps)
qed

text \<open>What a fault on an encrypted page leads to.\<close>

definition decrypts :: "kstate \<Rightarrow> nat \<Rightarrow> u32 \<Rightarrow> kstate \<Rightarrow> bool" where
  "decrypts s p va t \<longleftrightarrow> (let pd = p_pgdir (procs s ! p) in
     cq_inv t p \<and> vm_keep (mem s) (mem t) pd \<and> \<not> encrypted (mem t) pd va \<and> bit (pte_val (mem t) pd va) 0 \<and>
     cq_has (p_cq (procs t ! p)) va \<and>
     (\<forall>va'. mapped (mem s) pd va' \<and> PPN va' \<noteq> PPN va \<and> encrypted (mem s) pd va' \<longrightarrow> encrypted (mem t) pd va') \<and>
     procs t = (procs s)[p := (procs s ! p)\<lparr>p_cq := p_cq (procs t ! p), p_clock_hand := p_clock_hand (procs t ! p)\<rparr>] \<and>
     rest_eq s t)"

lemma mdecrypt_decrypts:
  assumes inv: "cq_inv s p" and pd: "pd = p_pgdir (procs s ! p)"
    and acc: "accessible (mem s) pd va" and enc: "encrypted (mem s) pd va"
  shows "\<exists>t. mdecrypt va s = Inr (0, t) \<and> decrypts s p va t"
proof -
  let ?m = "mem s" and ?q = "p_cq (procs s ! p)" and ?h = "p_clock_hand (procs s ! p)"
  have ctx: "user_ctx s p" and ws: "ws_inv ?m pd ?q" and hand: "-1 \<le> ?h" "?h < int CLOCKSIZE"
    using inv pd by (simp_all add: cq_inv_def)
  have wf: "vm_wf ?m pd" and lenp: "p < length (procs s)" using ctx pd by (simp_all add: user_ctx_def running_def)
  have va: "uva ?m pd va" using wf acc by (rule accessible_uva)
  note mp = uva_mapped [OF va]
  define m1 where "m1 = dec_page ?m pd va"
  have keep: "vm_keep ?m m1 pd" and val: "\<And>va'. mapped ?m pd va' \<Longrightarrow> pte_val m1 pd va' =
      (if PPN va' = PPN va then dec_flags (pte_val ?m pd va) else pte_val ?m pd va')"
    using vm_keep_dec_page [OF wf va enc] by (simp_all add: m1_def)
  note wf1 = vm_keep_wf [OF keep]
  let ?s = "s\<lparr>mem := m1\<rparr>"
  have ctx1: "user_ctx ?s p" using ctx pd wf1 by (simp add: user_ctx_def)
  have cq1: "cq_wf (mem ?s) pd ?q" using ws cq_wf_keep [OF keep] by (simp add: ws_inv_def)
  have pe1: "bit (pte_val m1 pd x) 0 \<noteq> bit (pte_val m1 pd x) 10" if "uva m1 pd x" for x
    using that ws val [of x] uva_mapped [of ?m pd x] by (auto simp: ws_inv_def vm_keep_mapped(2) [OF keep])
  have dec1: "PPN x = PPN va \<or> cq_has ?q x" if "accessible m1 pd x" "\<not> encrypted m1 pd x" for x
  proof -
    have ax: "accessible ?m pd x" using that(1) accessible_keep [OF keep wf] by simp
    then have "PPN x \<noteq> PPN va \<Longrightarrow> \<not> encrypted ?m pd x"
      using that(2) val [of x] by (simp add: encrypted_def accessible_def)
    then show ?thesis using ws ax unfolding ws_inv_def by blast
  qed
  have mp1: "mapped (mem ?s) pd va" using mp vm_keep_mapped(1) [OF keep] by simp
  have other: "encrypted m1 pd x" if "mapped ?m pd x" "PPN x \<noteq> PPN va" "encrypted ?m pd x" for x
    using that val [of x] by (simp add: encrypted_def)
  have dva: "\<not> bit (pte_val m1 pd va) 10" "bit (pte_val m1 pd va) 0" using val [OF mp] by simp_all
  note flip = mdecrypt_flip [OF ctx pd va, folded m1_def]
  show ?thesis
  proof (cases "cq_has ?q va")
    case True
    let ?t = "switched (procs s ! p) ?s"
    have "cq_has ?q x" if "PPN x = PPN va" for x
      using True cq_has_same_page [OF that, of ?q] by simp
    then have "ws_inv m1 pd ?q"
      unfolding ws_inv_def using cq1 pe1 dec1 by simp blast
    moreover have "user_ctx ?t p" using ctx pd wf1 by (intro user_ctx_switched) simp_all
    moreover have "mdecrypt va s = Inr (0, ?t)"
      using cq_enset_run(1) [OF ctx1 _ _ cq1 _ mp1] True hand pd flip switchuvm_user [OF ctx1] by (simp add: kmonad)
    ultimately show ?thesis
      using pd hand keep dva other True lenp
      by (intro exI [of _ ?t]) (simp add: decrypts_def cq_inv_def rest_eq_def encrypted_def)
  next
    case False
    define i where "i = cq_slot ?h"
    define v where "v = clock_victim m1 pd ?q i"
    define m2 where "m2 = cq_out (clear_As (clock_dist m1 pd ?q i) m1 pd ?q i) pd ?q v"
    have i: "i < CLOCKSIZE" using cq_slot_crem [OF hand(1)] by (simp add: i_def)
    obtain t where t: "cq_enset va ?s = Inr (0, t)" "user_ctx t p" "mem t = m2"
      "procs t = (procs s)[p := (procs s ! p)\<lparr>p_cq := cq_put ?q v va (pte_ptr m1 pd va), p_clock_hand := int v\<rparr>]"
      "rest_eq ?s t"
      using cq_enset_run(2) [OF ctx1 _ _ cq1 _ mp1] False hand pd by (auto simp: i_def v_def m2_def)
    have cq1': "cq_wf m1 pd ?q" using cq1 by simp
    have wsi: "ws_inv m2 pd (cq_put ?q v va (pte_ptr m1 pd va))"
      unfolding m2_def v_def using mp1 pe1 dec1 by (intro ws_inv_enset [OF wf1 cq1' i False]) simp_all
    note mem = clock_memory [OF wf1 cq1' i, folded v_def, folded m2_def]
    have keep2: "vm_keep ?m m2 pd" using vm_keep_trans [OF keep mem(1)] .
    have "\<not> (cq_full ?q v \<and> PPN va = PPN (cq_va (?q ! v)))" using False by (auto simp: cq_has_def)
    then have dva2: "\<not> bit (pte_val m2 pd va) 10" "bit (pte_val m2 pd va) 0"
      using mem(2) [of va] mp1 dva by (auto simp: bit_simps)
    have has: "cq_has (cq_put ?q v va (pte_ptr m1 pd va)) va"
      unfolding cq_has_def using cq1' clock_victim_less [of m1 pd ?q i]
      by (intro exI [of _ v]) (simp add: cq_full_put nth_cq_put cq_wf_def v_def)
    let ?t = "switched (procs t ! p) t"
    have "mdecrypt va s = Inr (0, ?t)"
      using flip t(1) switchuvm_user [OF t(2)] by (simp add: kmonad)
    moreover have "user_ctx ?t p" using user_ctx_switched [OF t(2), of "mem t"] t(2) by (simp add: user_ctx_def)
    moreover have "encrypted m2 pd x" if "mapped ?m pd x" "PPN x \<noteq> PPN va" "encrypted ?m pd x" for x
      using mem(4) [OF other [OF that]] that(1) vm_keep_mapped(1) [OF keep] by simp
    ultimately show ?thesis
      using pd lenp t(3-5) wsi keep2 dva2 has
      by (intro exI [of _ ?t]) (simp add: decrypts_def cq_inv_def rest_eq_def encrypted_def v_def less_imp_le)
  qed
qed

section \<open>Encrypting pages\<close>

definition encrypts :: "kstate \<Rightarrow> nat \<Rightarrow> u32 \<Rightarrow> nat \<Rightarrow> kstate \<Rightarrow> bool" where
  "encrypts s p va n t \<longleftrightarrow> (let pd = p_pgdir (procs s ! p) in
     cq_inv t p \<and> vm_keep (mem s) (mem t) pd \<and>
     (\<forall>va'. mapped (mem s) pd va' \<longrightarrow>
        encrypted (mem t) pd va' = (encrypted (mem s) pd va' \<or> in_range (PGROUNDDOWN va) n va')) \<and>
     procs t = procs s \<and> rest_eq s t)"

lemma mencrypt_encrypts:
  assumes inv: "cq_inv s p" and pd: "pd = p_pgdir (procs s ! p)"
    and acc: "\<And>i. i < nat len \<Longrightarrow> accessible (mem s) pd (page_at (PGROUNDDOWN va) i)"
  shows "\<exists>t. mencrypt va len s = Inr (0, t) \<and> encrypts s p va (nat len) t"
proof -
  let ?m = "mem s" and ?q = "p_cq (procs s ! p)" and ?x = "PGROUNDDOWN va"
  define m' where "m' = enc_pages (nat len) ?m pd ?x"
  have ctx: "user_ctx s p" and ws: "ws_inv ?m pd ?q" and hand: "-1 \<le> p_clock_hand (procs s ! p)"
    "p_clock_hand (procs s ! p) < int CLOCKSIZE" using inv pd by (simp_all add: cq_inv_def)
  have wf: "vm_wf ?m pd" using ctx pd by (simp add: user_ctx_def)
  have u: "uva ?m pd (page_at ?x i)" if "i < nat len" for i using acc [OF that] by (rule accessible_uva [OF wf])
  have keep: "vm_keep ?m m' pd" unfolding m'_def by (rule vm_keep_enc_pages [OF wf u])
  have val: "pte_val m' pd x = (if in_range ?x (nat len) x then enc_flags (pte_val ?m pd x) else pte_val ?m pd x)"
    if "mapped ?m pd x" for x unfolding m'_def by (rule enc_pages_pte_val [OF wf u that])
  have enc: "encrypted m' pd x = (encrypted ?m pd x \<or> in_range ?x (nat len) x)" if "mapped ?m pd x" for x
    using val [OF that] enc_flags_bits(1) by (simp add: encrypted_def)
  have "bit (pte_val m' pd x) 0 \<noteq> bit (pte_val m' pd x) 10" if "uva m' pd x" for x
  proof -
    have um: "uva ?m pd x" using that vm_keep_mapped(2) [OF keep] by simp
    then have pe: "bit (pte_val ?m pd x) 0 \<noteq> bit (pte_val ?m pd x) 10" using ws by (simp add: ws_inv_def)
    show ?thesis
      using pe val [OF uva_mapped [OF um]] enc_flags_bits(1,2) [of "pte_val ?m pd x"] by (auto simp: enc_flags_def)
  qed
  moreover have "cq_has ?q x" if "accessible m' pd x" "\<not> encrypted m' pd x" for x
  proof -
    have ax: "accessible ?m pd x" using that(1) accessible_keep [OF keep wf] by simp
    moreover have "\<not> encrypted ?m pd x" using that(2) enc [of x] ax by (simp add: accessible_def)
    ultimately show ?thesis using ws by (simp add: ws_inv_def)
  qed
  ultimately have "ws_inv m' pd ?q" using ws cq_wf_keep [OF keep] by (simp add: ws_inv_def)
  moreover have "user_ctx (switched (procs s ! p) (s\<lparr>mem := m'\<rparr>)) p"
    using ctx pd vm_keep_wf [OF keep] by (intro user_ctx_switched) simp_all
  ultimately show ?thesis
    using mencrypt_run [OF ctx pd acc] pd hand keep enc
    by (intro exI [of _ "switched (procs s ! p) (s\<lparr>mem := m'\<rparr>)"])
      (simp add: encrypts_def cq_inv_def rest_eq_def m'_def)
qed

lemma mencrypt_fails:
  assumes ctx: "user_ctx s p" and pd: "pd = p_pgdir (procs s ! p)" and i: "i < nat len"
    and acc: "\<And>j. j < i \<Longrightarrow> accessible (mem s) pd (page_at (PGROUNDDOWN va) j)"
    and bad: "\<not> accessible (mem s) pd (page_at (PGROUNDDOWN va) i)"
  shows "mencrypt va len s =
    (if mapped (mem s) pd (page_at (PGROUNDDOWN va) i) then Inr (-1, s) else Inl NullDeref)"
proof -
  have wf: "vm_wf (mem s) pd" and run: "running s p" using ctx pd by (simp_all add: user_ctx_def)
  show ?thesis
    using mencrypt_check_stops [OF wf i acc bad] me_run [OF run] pd by (simp add: mencrypt_def kmonad Let_def)
qed

section \<open>Removing a page\<close>

lemma cq_find_run:
  assumes run: "running s p" and q: "q = p_cq (procs s ! p)" and n: "i + n \<le> CLOCKSIZE"
    and k: "i \<le> k" "k < i + n" "cq_pte (q ! k) = pte" "\<And>j. i \<le> j \<Longrightarrow> j < k \<Longrightarrow> cq_pte (q ! j) \<noteq> pte"
  shows "cq_find n (int i) pte s = Inr (int k, s)"
  using n k
proof (induction n arbitrary: i)
  case (Suc n)
  then have i: "int i + 1 = int (Suc i)" "i < CLOCKSIZE" by simp_all
  show ?case
  proof (cases "i = k")
    case True
    then show ?thesis using Suc.prems mycq_run [OF run i(2), folded q] by (simp add: kmonad)
  next
    case False
    then have "cq_find n (int (Suc i)) pte s = Inr (int k, s)" using Suc.prems by (intro Suc.IH) simp_all
    then show ?thesis
      using False Suc.prems mycq_run [OF run i(2), folded q] by (simp add: kmonad add.commute)
  qed
qed simp

text \<open>One round of the shift.\<close>

lemma cq_shift_step:
  assumes run: "running s p" and q: "q = p_cq (procs s ! p)" "length q = CLOCKSIZE" and i: "i < CLOCKSIZE" "int i \<noteq> h"
  shows "cq_shift (Suc n) (int i) h s = cq_shift n (int (Suc i)) h
    (s\<lparr>procs := (procs s)[p := (procs s ! p)\<lparr>p_cq := q[i := q ! (Suc i mod CLOCKSIZE)]\<rparr>]\<rparr>)"
proof -
  have lp: "p < length (procs s)" using run by (simp add: running_def)
  let ?nx = "q ! (Suc i mod CLOCKSIZE)"
  have nd: "(q ! i)\<lparr>cq_va := cq_va ?nx, cq_pte := cq_pte ?nx, cq_empty := cq_empty ?nx\<rparr> = ?nx" by simp
  show ?thesis
    using mycq_run [OF run, of "Suc i mod CLOCKSIZE", folded q(1)] crem_next [OF i(1)] i run lp q(2)
    by (simp add: kmonad modcq_run [where p = p] q(1) [symmetric] add.commute nd)
qed

lemma cq_shift_past:
  assumes "running s p" "length (p_cq (procs s ! p)) = CLOCKSIZE" "h < int i" "i \<le> CLOCKSIZE" "CLOCKSIZE - i < n"
  shows "cq_shift n (int i) h s = Inl OutOfBounds"
  using assms
proof (induction n arbitrary: i s)
  case (Suc n)
  have lp: "p < length (procs s)" using Suc.prems(1) by (simp add: running_def)
  show ?case
  proof (cases "i = CLOCKSIZE")
    case True
    have "mycq (crem (int i + 1) (int CLOCKSIZE)) s = Inr (p_cq (procs s ! p) ! 1, s)"
      using mycq_run [OF Suc.prems(1), of 1] True by (simp add: crem_def CLOCKSIZE_def)
    then show ?thesis using True Suc.prems(3) by (simp add: kmonad modcq_def)
  next
    case False
    let ?s = "s\<lparr>procs := (procs s)[p := (procs s ! p)\<lparr>p_cq := (p_cq (procs s ! p))[i := p_cq (procs s ! p) ! (Suc i mod CLOCKSIZE)]\<rparr>]\<rparr>"
    have "cq_shift n (int (Suc i)) h ?s = Inl OutOfBounds"
      using Suc.prems False lp by (intro Suc.IH) simp_all
    then show ?thesis
      using cq_shift_step [OF Suc.prems(1) refl Suc.prems(2), of i h n] Suc.prems(3,4) False by simp
  qed
qed simp

definition cq_shifted :: "cq_node list \<Rightarrow> nat \<Rightarrow> nat \<Rightarrow> cq_node list" where
  "cq_shifted q i h = map (\<lambda>k. if i \<le> k \<and> k < h then q ! Suc k else q ! k) [0..<CLOCKSIZE]"

lemma cq_shifted_step:
  assumes "length q = CLOCKSIZE" "i < h" "h < CLOCKSIZE"
  shows "cq_shifted (q[i := q ! Suc i]) (Suc i) h = cq_shifted q i h"
  using assms unfolding cq_shifted_def by (auto simp: nth_list_update)

lemma cq_shifted_id: "length q = CLOCKSIZE \<Longrightarrow> cq_shifted q i i = q"
  unfolding cq_shifted_def by (intro nth_equalityI) auto

lemma cq_shift_run:
  assumes "running s p" "length (p_cq (procs s ! p)) = CLOCKSIZE" "i \<le> h" "h < CLOCKSIZE" "h - i < n"
  shows "cq_shift n (int i) (int h) s =
    Inr ((), s\<lparr>procs := (procs s)[p := (procs s ! p)\<lparr>p_cq := cq_shifted (p_cq (procs s ! p)) i h\<rparr>]\<rparr>)"
  using assms
proof (induction n arbitrary: i s)
  case (Suc n)
  let ?q = "p_cq (procs s ! p)"
  have lp: "p < length (procs s)" using Suc.prems(1) by (simp add: running_def)
  show ?case
  proof (cases "i = h")
    case True
    then show ?thesis using Suc.prems lp by (simp add: cq_shifted_id)
  next
    case False
    let ?s = "s\<lparr>procs := (procs s)[p := (procs s ! p)\<lparr>p_cq := ?q[i := ?q ! (Suc i mod CLOCKSIZE)]\<rparr>]\<rparr>"
    have "cq_shift n (int (Suc i)) (int h) ?s = Inr ((), ?s\<lparr>procs := (procs ?s)[p := (procs ?s ! p)\<lparr>p_cq :=
        cq_shifted (p_cq (procs ?s ! p)) (Suc i) h\<rparr>]\<rparr>)"
      using Suc.prems False lp by (intro Suc.IH) simp_all
    then show ?thesis
      using cq_shift_step [OF Suc.prems(1) refl Suc.prems(2), of i "int h" n] Suc.prems(2-4) False lp
      by (simp add: cq_shifted_step del: cq_shift.simps)
  qed
qed simp

definition cq_removed :: "cq_node list \<Rightarrow> nat \<Rightarrow> nat \<Rightarrow> cq_node list" where
  "cq_removed q k h = (cq_shifted q k h)[h := (cq_shifted q k h ! h)\<lparr>cq_empty := -1\<rparr>]"

lemma cq_remove_run:
  assumes run: "running s p" and q: "q = p_cq (procs s ! p)" "length q = CLOCKSIZE"
    and k: "k < CLOCKSIZE" "cq_pte (q ! k) = pte" "\<And>j. j < k \<Longrightarrow> cq_pte (q ! j) \<noteq> pte"
  shows "p_clock_hand (procs s ! p) = int h \<Longrightarrow> k \<le> h \<Longrightarrow> h < CLOCKSIZE \<Longrightarrow> cq_remove pte s =
      Inr ((), s\<lparr>procs := (procs s)[p := (procs s ! p)\<lparr>p_cq := cq_removed q k h,
        p_clock_hand := if h = 0 then int CLOCKSIZE - 1 else int h - 1\<rparr>]\<rparr>)"
    and "p_clock_hand (procs s ! p) < int k \<Longrightarrow> cq_remove pte s = Inl OutOfBounds"
proof -
  have lp: "p < length (procs s)" using run by (simp add: running_def)
  have find: "cq_find CLOCKSIZE 0 pte s = Inr (int k, s)"
    using cq_find_run [OF run q(1), of 0 CLOCKSIZE k pte] k by simp
  show "cq_remove pte s = Inr ((), s\<lparr>procs := (procs s)[p := (procs s ! p)\<lparr>p_cq := cq_removed q k h,
        p_clock_hand := if h = 0 then int CLOCKSIZE - 1 else int h - 1\<rparr>]\<rparr>)"
    if h: "p_clock_hand (procs s ! p) = int h" "k \<le> h" "h < CLOCKSIZE"
  proof -
    have "cq_shift (Suc CLOCKSIZE) (int k) (int h) s =
        Inr ((), s\<lparr>procs := (procs s)[p := (procs s ! p)\<lparr>p_cq := cq_shifted q k h\<rparr>]\<rparr>)"
      using cq_shift_run [OF run _ h(2,3), of "Suc CLOCKSIZE"] q h(3) by simp
    moreover have "length (cq_shifted q k h) = CLOCKSIZE" by (simp add: cq_shifted_def)
    ultimately show ?thesis
      using find me_run [OF run] h run lp
      by (simp add: cq_remove_def kmonad Let_def modcq_run [where p = p] modme_run [where p = p] cq_removed_def
          del: cq_shift.simps)
  qed
  show "cq_remove pte s = Inl OutOfBounds" if "p_clock_hand (procs s ! p) < int k"
    using cq_shift_past [OF run, of "p_clock_hand (procs s ! p)" k "Suc CLOCKSIZE"] that k(1) q find me_run [OF run]
    by (simp add: cq_remove_def kmonad Let_def del: cq_shift.simps)
qed

text \<open>After a removal the remaining entries follow each other in the same order.\<close>

lemma nth_cq_removed:
  assumes "h < CLOCKSIZE" "j < CLOCKSIZE" "k \<le> h"
  shows "cq_removed q k h ! j = (if j < k \<or> h < j then q ! j else if j < h then q ! Suc j else (q ! h)\<lparr>cq_empty := -1\<rparr>)"
  using assms by (auto simp: cq_removed_def cq_shifted_def nth_list_update)

section \<open>Faults on pages that are not encrypted\<close>

text \<open>
  \<open>mdecrypt\<close> does not look at \<open>PTE_E\<close>: a fault on a present page (a guard page, whose entry lacks
  \<open>PTE_U\<close>) complements its contents and is reported as served.
\<close>

lemma mdecrypt_complements:
  assumes ctx: "user_ctx s p" and pd: "pd = p_pgdir (procs s ! p)" and cq: "cq_wf (mem s) pd (p_cq (procs s ! p))"
    and hand: "-1 \<le> p_clock_hand (procs s ! p)" and va: "uva (mem s) pd va" and page: "PPN va' = PPN va" "va' < KERNBASE"
  shows "\<exists>t. mdecrypt va s = Inr (0, t) \<and> stored (mem t) pd va' = NOT (stored (mem s) pd va')"
proof -
  let ?m = "mem s" and ?q = "p_cq (procs s ! p)"
  define m1 where "m1 = dec_page ?m pd va"
  have wf: "vm_wf ?m pd" using ctx pd by (simp add: user_ctx_def)
  have b: "bit (pde_val ?m pd va) 0" using uva_mapped [OF va] by (simp add: mapped_def)
  have d: "entry_sim (pde_val ?m pd va) (pde_val ?m pd va OR PTE_A)" "bit (pde_val ?m pd va OR PTE_A) 0"
    and v: "entry_sim (pte_val ?m pd va) (dec_flags (pte_val ?m pd va))"
      "bit (dec_flags (pte_val ?m pd va)) 0 \<or> bit (dec_flags (pte_val ?m pd va)) 10"
    using b by (simp_all add: bit_simps)
  note eff = crypt_effect [OF wf va d v, folded dec_page_def, folded m1_def]
  have va': "uva ?m pd va'" using va page entries_same_page [OF page(1)] by (simp add: uva_def mapped_def)
  have flip: "stored m1 pd va' = NOT (stored ?m pd va')" using eff(6) [OF va'] page by simp
  have cq1: "cq_wf m1 pd ?q" using cq by (simp add: cq_wf_def eff(3,4))
  let ?s = "s\<lparr>mem := m1\<rparr>"
  have ctx1: "user_ctx ?s p" using ctx pd eff(1) by (simp add: user_ctx_def)
  have mp1: "mapped m1 pd va" using uva_mapped [OF va] by (simp add: eff(3))
  note run = mdecrypt_flip [OF ctx pd va, folded m1_def]
  show ?thesis
  proof (cases "cq_has ?q va")
    case True
    then show ?thesis
      using cq_enset_run(1) [OF ctx1, of pd ?q va] pd cq1 hand mp1 run switchuvm_user [OF ctx1] flip by (simp add: kmonad)
  next
    case False
    define i where "i = cq_slot (p_clock_hand (procs s ! p))"
    define m2 where "m2 = cq_out (clear_As (clock_dist m1 pd ?q i) m1 pd ?q i) pd ?q (clock_victim m1 pd ?q i)"
    have i: "i < CLOCKSIZE" using cq_slot_crem [OF hand] by (simp add: i_def)
    obtain t where t: "cq_enset va ?s = Inr (0, t)" "user_ctx t p" "mem t = m2"
      using cq_enset_run(2) [OF ctx1, of pd ?q va] pd cq1 hand mp1 False by (auto simp: i_def m2_def)
    note mem = clock_memory [OF eff(1) cq1 i, folded m2_def]
    have mp': "mapped m1 pd va'" using uva_mapped [OF va'] by (simp add: eff(3))
    have "\<not> (cq_full ?q (clock_victim m1 pd ?q i) \<and> PPN va' = PPN (cq_va (?q ! clock_victim m1 pd ?q i)))"
      using False page by (auto simp: cq_has_def)
    then have "encrypted m2 pd va' = encrypted m1 pd va'"
      using mem(2) [OF mp'] by (auto simp: encrypted_def bit_simps)
    moreover have "plain m2 pd va' = plain m1 pd va'"
      using mem(1) va' by (simp add: vm_keep_def eff(2))
    ultimately have "stored m2 pd va' = stored m1 pd va'" by (simp add: plain_def split: if_splits)
    then show ?thesis
      using run t switchuvm_user [OF t(2)] flip by (simp add: kmonad)
  qed
qed

end
