(* ===== verification/Encryption_Props.thy ===== *)
theory Encryption_Props
  imports Working_Set
begin

text \<open>
  The properties of page encryption and the clock queue, each with an instance on a small
  concrete machine: one process with two user pages.
\<close>

section \<open>A concrete address space\<close>

text \<open>
  A directory at \<open>0x80400000\<close> with one table at \<open>0x80401000\<close>, whose first two entries are \<open>v0\<close>
  and \<open>v1\<close>.
\<close>

definition ex_pd :: u32 where "ex_pd = 0x80400000"

definition ex_mem :: "u32 \<Rightarrow> u32 \<Rightarrow> memory" where
  "ex_mem v0 v1 = store32 (store32 (store32 (\<lambda>_. 0) 0x80400000 0x401007) 0x80401000 v0) 0x80401004 v1"

definition ex_state :: "u32 \<Rightarrow> u32 \<Rightarrow> cq_node list \<Rightarrow> int \<Rightarrow> kstate" where
  "ex_state v0 v1 q hand = kstate0\<lparr>mem := ex_mem v0 v1, cpus := [cpu0\<lparr>c_proc := Some 0\<rparr>], cr3 := 0x400000,
     procs := [proc0\<lparr>p_sz := 8192, p_pgdir := ex_pd, p_kstack := 0x80500000, p_state := RUNNING, p_cq := q,
       p_clock_hand := hand\<rparr>]\<rparr>"

definition ex_empty :: "cq_node list" where
  "ex_empty = replicate CLOCKSIZE \<lparr>cq_empty = -1, cq_va = 0, cq_pte = 0\<rparr>"

lemma load32_zero: "load32 (\<lambda>_. 0) a = 0"
  by (rule bit_eqI) (simp add: bit_load32)

lemma page_aligned_ex_pd [simp]: "page_aligned ex_pd"
  by (simp add: page_aligned_def ex_pd_def)

lemma PDX_0_iff: "ex_pd + 4 * PDX va = 0x80400000 \<longleftrightarrow> PDX va = 0"
  by (simp add: ex_pd_def) (metis PDX_bound entry_eq_iff ex_pd_def add.right_neutral mult_zero_right page_aligned_ex_pd unat_0 zero_less_numeral)

lemma ex_ptr_page: "PPN (pde_ptr ex_pd va) = 0x80400" "aligned4 (pde_ptr ex_pd va)"
  "PPN (0x80401000 + 4 * PTX va) = 0x80401" "aligned4 (0x80401000 + 4 * PTX va)"
proof -
  have al: "page_aligned 0x80401000" by (simp add: page_aligned_def)
  show "PPN (pde_ptr ex_pd va) = 0x80400" "aligned4 (pde_ptr ex_pd va)"
    using pde_ptr_simps(1,2) [OF page_aligned_ex_pd, of va] by (simp_all add: PPN_def [of ex_pd] PTXSHIFT_def) (simp add: ex_pd_def)
  show "PPN (0x80401000 + 4 * PTX va) = 0x80401" "aligned4 (0x80401000 + 4 * PTX va)"
    using PPN_entry [OF al] aligned4_entry [OF al] PTX_bound [of va]
    by (simp_all add: PPN_def PTXSHIFT_def)
qed

lemma ex_aligned: "aligned4 0x80400000" "aligned4 0x80401000" "aligned4 0x80401004"
  by (simp_all add: aligned4_def)

lemma ex_pde_val: "pde_val (ex_mem v0 v1) ex_pd va = (if PDX va = 0 then 0x401007 else 0)"
proof -
  have ne: "pde_ptr ex_pd va \<noteq> 0x80401000" "pde_ptr ex_pd va \<noteq> 0x80401004"
    using ex_ptr_page(1) [of va] by (auto simp: PPN_def PTXSHIFT_def)
  have "pde_ptr ex_pd va = 0x80400000 \<longleftrightarrow> PDX va = 0" using PDX_0_iff by (simp add: pde_ptr_def)
  then show ?thesis
    using ne ex_aligned ex_ptr_page(2) [of va]
    by (auto simp: pde_val_def ex_mem_def load32_store32_other load32_zero)
qed

lemma ex_mapped: "mapped (ex_mem v0 v1) ex_pd va \<longleftrightarrow> PDX va = 0"
  by (simp add: mapped_def ex_pde_val)

lemma ex_pt_page: "PDX va = 0 \<Longrightarrow> pt_page (ex_mem v0 v1) ex_pd va = 0x80401000"
  by (simp add: pt_page_def ex_pde_val PTE_ADDR_def P2V_def KERNBASE_def)

lemma ex_pte_val:
  assumes "PDX va = 0"
  shows "pte_val (ex_mem v0 v1) ex_pd va = (if PTX va = 0 then v0 else if PTX va = 1 then v1 else 0)"
proof -
  have al: "page_aligned 0x80401000" by (simp add: page_aligned_def)
  let ?a = "0x80401000 + 4 * PTX va"
  have ne: "?a \<noteq> 0x80400000"
  proof
    assume "?a = 0x80400000"
    then have "PPN ?a = PPN 0x80400000" by (rule arg_cong)
    then show False unfolding ex_ptr_page(3) by (simp add: PPN_def PTXSHIFT_def)
  qed
  have "?a = 0x80401000 + 4 * 0 \<longleftrightarrow> PTX va = 0" "?a = 0x80401000 + 4 * 1 \<longleftrightarrow> PTX va = 1"
    by (rule entry_eq_iff [OF al]; simp add: PTX_bound)+
  then have "?a = 0x80401000 \<longleftrightarrow> PTX va = 0" "?a = 0x80401004 \<longleftrightarrow> PTX va = 1" by simp_all
  then have "load32 (ex_mem v0 v1) ?a = (if PTX va = 0 then v0 else if PTX va = 1 then v1 else 0)"
    using ne ex_aligned ex_ptr_page(4) [of va] by (auto simp: ex_mem_def load32_store32_other load32_zero)
  then show ?thesis by (simp add: pte_val_def pte_ptr_def ex_pt_page [OF assms])
qed

lemma ex_page_cases:
  assumes "PDX va = 0" "pte_val (ex_mem v0 v1) ex_pd va \<noteq> 0"
  obtains "PPN va = 0" "pte_val (ex_mem v0 v1) ex_pd va = v0" | "PPN va = 1" "pte_val (ex_mem v0 v1) ex_pd va = v1"
proof -
  have "PTX va = 0 \<or> PTX va = 1" using assms by (auto simp: ex_pte_val split: if_splits)
  moreover have "PPN va = PTX va"
    using assms(1) unat_PPN [of va] unat_PTX [of va] unat_PDX [of va] by (simp add: word_unat_eq_iff)
  ultimately show ?thesis using that assms(1) by (auto simp: ex_pte_val)
qed

lemma ex_uva:
  assumes "bit v0 0 \<or> bit v0 10" "bit v1 0 \<or> bit v1 10"
  shows "uva (ex_mem v0 v1) ex_pd va \<longleftrightarrow> PPN va = 0 \<or> PPN va = 1"
proof
  assume "uva (ex_mem v0 v1) ex_pd va"
  then have "PDX va = 0" "pte_val (ex_mem v0 v1) ex_pd va \<noteq> 0" by (auto simp: uva_def ex_mapped)
  then show "PPN va = 0 \<or> PPN va = 1" by (rule ex_page_cases) simp_all
next
  assume "PPN va = 0 \<or> PPN va = 1"
  then have "unat va div 4096 = 0 \<or> unat va div 4096 = 1" using unat_PPN [of va] by auto
  then have lt: "unat va < 8192" and pt: "unat (PTX va) = 0 \<or> unat (PTX va) = 1" by (auto simp: unat_PTX)
  then have "PDX va = 0" "PTX va = 0 \<or> PTX va = 1" "va < KERNBASE"
    by (auto simp: word_unat_eq_iff unat_PDX KERNBASE_def word_less_nat_alt)
  then show "uva (ex_mem v0 v1) ex_pd va" using assms by (auto simp: uva_def ex_mapped ex_pte_val)
qed

text \<open>Entries for two writable pages with frames at \<open>0x402000\<close> and \<open>0x403000\<close>.\<close>

definition ex_entries :: "u32 \<Rightarrow> u32 \<Rightarrow> bool" where
  "ex_entries v0 v1 \<longleftrightarrow> PTE_ADDR v0 = 0x402000 \<and> PTE_ADDR v1 = 0x403000 \<and> bit v0 1 \<and> bit v1 1 \<and>
     (bit v0 0 \<or> bit v0 10) \<and> (bit v1 0 \<or> bit v1 10)"

lemma ex_uva_val:
  assumes "ex_entries v0 v1" "uva (ex_mem v0 v1) ex_pd va"
  shows "PDX va = 0" "bit (pte_val (ex_mem v0 v1) ex_pd va) 1"
    "frame (ex_mem v0 v1) ex_pd va = (if PPN va = 0 then 0x80402000 else 0x80403000)"
proof -
  have pd: "PDX va = 0" and nz: "pte_val (ex_mem v0 v1) ex_pd va \<noteq> 0"
    using assms(2) by (auto simp: uva_def ex_mapped)
  show "PDX va = 0" by (rule pd)
  show "bit (pte_val (ex_mem v0 v1) ex_pd va) 1"
    "frame (ex_mem v0 v1) ex_pd va = (if PPN va = 0 then 0x80402000 else 0x80403000)"
    using pd nz assms(1)
    by (auto elim!: ex_page_cases simp: ex_entries_def frame_def P2V_def KERNBASE_def)
qed

lemma vm_wf_ex:
  assumes e: "ex_entries v0 v1"
  shows "vm_wf (ex_mem v0 v1) ex_pd"
proof -
  note val = ex_uva_val [OF e]
  have u: "uva (ex_mem v0 v1) ex_pd va \<longleftrightarrow> PPN va = 0 \<or> PPN va = 1" for va
    using e by (intro ex_uva) (simp_all add: ex_entries_def)
  have k: "\<not> (KERNBASE \<le> va \<and> PDX va = 0)" for va
    using unat_PDX [of va] by (auto simp: KERNBASE_def word_le_nat_alt)
  show ?thesis
    unfolding vm_wf_def ex_mapped
  proof (intro conjI allI impI)
    show "page_aligned ex_pd" "ex_pd \<noteq> 0" by simp (simp add: ex_pd_def)
  next
    fix va assume "PDX va = 0"
    then show "pt_page (ex_mem v0 v1) ex_pd va \<noteq> 0" "PPN (pt_page (ex_mem v0 v1) ex_pd va) \<noteq> PPN ex_pd"
      by (simp_all add: ex_pt_page) (simp add: PPN_def PTXSHIFT_def ex_pd_def)
  next
    fix va assume "uva (ex_mem v0 v1) ex_pd va"
    then show "bit (pde_val (ex_mem v0 v1) ex_pd va) 1" "bit (pte_val (ex_mem v0 v1) ex_pd va) 1"
      "frame (ex_mem v0 v1) ex_pd va \<noteq> 0" "PPN (frame (ex_mem v0 v1) ex_pd va) \<noteq> PPN ex_pd"
      using val by (auto simp: ex_pde_val) (auto simp: PPN_def PTXSHIFT_def ex_pd_def)
  next
    fix va va' assume "uva (ex_mem v0 v1) ex_pd va \<and> PDX va' = 0"
    then show "PPN (frame (ex_mem v0 v1) ex_pd va) \<noteq> PPN (pt_page (ex_mem v0 v1) ex_pd va')"
      using val(3) by (auto simp: ex_pt_page) (auto simp: PPN_def PTXSHIFT_def)
  next
    fix va va' assume a: "uva (ex_mem v0 v1) ex_pd va \<and> uva (ex_mem v0 v1) ex_pd va' \<and> PPN va \<noteq> PPN va'"
    then have "PPN va = 0 \<or> PPN va = 1" "PPN va' = 0 \<or> PPN va' = 1" "PPN va \<noteq> PPN va'" unfolding u by auto
    then show "frame (ex_mem v0 v1) ex_pd va \<noteq> frame (ex_mem v0 v1) ex_pd va'"
      using a val(3) by auto
  qed (metis k)+
qed

lemma user_ctx_ex:
  assumes "ex_entries v0 v1"
  shows "user_ctx (ex_state v0 v1 q hand) 0"
  using vm_wf_ex [OF assms]
  by (simp add: user_ctx_def running_def irq_ok_def cur_def this_cpu_def ex_state_def kstate0_def cpu0_def V2P_def
      KERNBASE_def) (simp add: ex_pd_def)

lemma ex_state_simps [simp]:
  "mem (ex_state v0 v1 q hand) = ex_mem v0 v1" "p_pgdir (procs (ex_state v0 v1 q hand) ! 0) = ex_pd"
  "p_cq (procs (ex_state v0 v1 q hand) ! 0) = q" "p_clock_hand (procs (ex_state v0 v1 q hand) ! 0) = hand"
  by (simp_all add: ex_state_def)

lemma ex_small_page: "va < 8192 \<Longrightarrow> PDX va = 0 \<and> PTX va = (if va < 4096 then 0 else 1)"
  by (auto simp: word_unat_eq_iff unat_PDX unat_PTX word_less_nat_alt)

lemma ex_values: "ex_entries 0x402406 0x403406" "ex_entries 0x402007 0x403406" "ex_entries 0x402007 0x403007"
  "ex_entries 0x402003 0x403406"
  by (simp_all add: ex_entries_def PTE_ADDR_def)

lemma ws_inv_ex: "ws_inv (ex_mem 0x402406 0x403406) ex_pd ex_empty"
proof -
  have "\<not> cq_full ex_empty i" for i by (auto simp: cq_full_def ex_empty_def)
  then have "cq_wf (ex_mem 0x402406 0x403406) ex_pd ex_empty" by (simp add: cq_wf_def) (simp add: ex_empty_def)
  moreover have "bit (pte_val (ex_mem 0x402406 0x403406) ex_pd va) 10 \<and> \<not> bit (pte_val (ex_mem 0x402406 0x403406) ex_pd va) 0"
    if "PDX va = 0" "bit (pte_val (ex_mem 0x402406 0x403406) ex_pd va) 0 \<or> bit (pte_val (ex_mem 0x402406 0x403406) ex_pd va) 10" for va
    using that(2) unfolding ex_pte_val [OF that(1)] by (simp split: if_splits)
  ultimately show ?thesis
    unfolding ws_inv_def uva_def accessible_def encrypted_def ex_mapped by blast
qed

lemma cq_inv_ex: "cq_inv (ex_state 0x402406 0x403406 ex_empty (-1)) 0"
  using user_ctx_ex [OF ex_values(1)] ws_inv_ex by (simp add: cq_inv_def CLOCKSIZE_def)

lemma accessible_ex:
  "va < 8192 \<Longrightarrow> bit v0 0 \<or> bit v0 10 \<Longrightarrow> bit v1 0 \<or> bit v1 10 \<Longrightarrow> bit v0 2 \<Longrightarrow> bit v1 2 \<Longrightarrow>
   accessible (ex_mem v0 v1) ex_pd va"
  using ex_small_page [of va] by (simp add: accessible_def ex_mapped ex_pte_val split: if_splits)

text \<open>The first page decrypted and in the queue.\<close>

definition ex_one :: "cq_node list" where
  "ex_one = ex_empty[0 := \<lparr>cq_empty = 0, cq_va = 0, cq_pte = 0x80401000\<rparr>]"

lemma ex_one_full: "cq_full ex_one i \<longleftrightarrow> i = 0"
  by (cases "i = 0") (auto simp: cq_full_def ex_one_def ex_empty_def CLOCKSIZE_def)

lemma ex_one_0 [simp]: "ex_one ! 0 = \<lparr>cq_empty = 0, cq_va = 0, cq_pte = 0x80401000\<rparr>" "length ex_one = CLOCKSIZE"
  by (simp_all add: ex_one_def ex_empty_def CLOCKSIZE_def)

lemma cq_wf_ex_one: "cq_wf (ex_mem v0 v1) ex_pd ex_one"
proof -
  have "PDX 0 = 0" "PTX 0 = 0" using ex_small_page [of 0] by simp_all
  then show ?thesis by (simp add: cq_wf_def ex_one_full ex_mapped pte_ptr_def ex_pt_page)
qed

lemma cq_inv_ex_one: "cq_inv (ex_state 0x402007 0x403406 ex_one 0) 0"
proof -
  let ?m = "ex_mem 0x402007 0x403406"
  have v: "pte_val ?m ex_pd va = 0x402007 \<and> PPN va = 0 \<or> pte_val ?m ex_pd va = 0x403406" if "uva ?m ex_pd va" for va
  proof -
    have "PDX va = 0" "pte_val ?m ex_pd va \<noteq> 0" using that by (auto simp: uva_def ex_mapped)
    then show ?thesis by (rule ex_page_cases) simp_all
  qed
  have "bit (pte_val ?m ex_pd va) 0 \<noteq> bit (pte_val ?m ex_pd va) 10" if "uva ?m ex_pd va" for va
    using v [OF that] by (elim disjE conjE) simp_all
  moreover have "cq_has ex_one va" if "accessible ?m ex_pd va" "\<not> encrypted ?m ex_pd va" for va
  proof -
    have "PPN va = 0"
      using v [OF accessible_uva [OF vm_wf_ex [OF ex_values(2)] that(1)]] that(2)
      by (elim disjE conjE) (simp_all add: encrypted_def)
    then show ?thesis unfolding cq_has_def by (intro exI [of _ 0]) (simp add: ex_one_full PPN_def)
  qed
  ultimately have "ws_inv ?m ex_pd ex_one" using cq_wf_ex_one by (simp add: ws_inv_def)
  then show ?thesis using user_ctx_ex [OF ex_values(2)] by (simp add: cq_inv_def CLOCKSIZE_def)
qed

section \<open>Properties\<close>

text \<open>
  C1: decryption on a page fault. When a process faults on an encrypted page of its own,
  \<open>mdecrypt\<close> returns 0; afterwards the page is present and in the clock queue, every page of the
  process has the contents and frame it had, no other memory changed, no other encrypted page was
  decrypted, and the working-set invariant holds again.
\<close>

theorem mdecrypt_correct:
  assumes "cq_inv s p" "accessible (mem s) (p_pgdir (procs s ! p)) va" "encrypted (mem s) (p_pgdir (procs s ! p)) va"
  shows "\<exists>t. mdecrypt va s = Inr (0, t) \<and> decrypts s p va t"
  using mdecrypt_decrypts [OF assms(1) refl assms(2,3)] .

theorem mdecrypt_correct_witness:
  "\<exists>t. mdecrypt 0x1004 (ex_state 0x402406 0x403406 ex_empty (-1)) = Inr (0, t) \<and> \<not> encrypted (mem t) ex_pd 0x1004"
proof -
  have "accessible (ex_mem 0x402406 0x403406) ex_pd 0x1004" by (rule accessible_ex) simp_all
  moreover have "encrypted (ex_mem 0x402406 0x403406) ex_pd 0x1004"
    using ex_small_page [of "0x1004"] by (simp add: encrypted_def ex_pte_val)
  ultimately show ?thesis
    using mdecrypt_correct [OF cq_inv_ex, of "0x1004"] by (auto simp: decrypts_def Let_def)
qed

text \<open>
  C2: encryption of a range. When every page of the range is a user page of the process,
  \<open>mencrypt\<close> returns 0; afterwards exactly the pages that were encrypted and those of the range are
  encrypted, contents and frames are kept, no other memory changed, and the working-set invariant
  still holds.
\<close>

theorem mencrypt_correct:
  assumes "cq_inv s p"
    and "\<forall>i<nat len. accessible (mem s) (p_pgdir (procs s ! p)) (page_at (PGROUNDDOWN va) i)"
  shows "\<exists>t. mencrypt va len s = Inr (0, t) \<and> encrypts s p va (nat len) t"
  using mencrypt_encrypts [OF assms(1) refl, of len va] assms(2) by blast

theorem mencrypt_correct_witness:
  "\<exists>t. mencrypt 0x10 2 (ex_state 0x402007 0x403406 ex_one 0) = Inr (0, t) \<and> encrypted (mem t) ex_pd 0"
proof -
  have z: "PGROUNDDOWN 0x10 = 0" by (simp add: PGROUNDDOWN_def PGSIZE_def)
  have acc: "\<forall>i<nat 2. accessible (ex_mem 0x402007 0x403406) ex_pd (page_at (PGROUNDDOWN 0x10) i)"
    unfolding z by (auto simp: less_2_cases_iff page_at_def intro!: accessible_ex)
  have "mapped (ex_mem 0x402007 0x403406) ex_pd 0" "in_range (PGROUNDDOWN 0x10) (nat 2) 0"
    using ex_small_page [of 0] by (simp add: ex_mapped) (auto simp: in_range_def page_at_def z intro!: exI [of _ 0])
  then show ?thesis
    using mencrypt_correct [OF cq_inv_ex_one, of 2 "0x10"] acc by (auto simp: encrypts_def Let_def)
qed




text \<open>
  C26: a hole in the address space. If the range reaches an address whose page table does not exist
  before any other unusable page, the check of \<open>mencrypt\<close> dereferences the null entry that
  \<open>walkpgdir\<close> returned to \<open>uva2ka\<close>.
\<close>

theorem mencrypt_missing_table:
  assumes "user_ctx s p" "i < nat len"
    and "\<forall>j<i. accessible (mem s) (p_pgdir (procs s ! p)) (page_at (PGROUNDDOWN va) j)"
    and "\<not> mapped (mem s) (p_pgdir (procs s ! p)) (page_at (PGROUNDDOWN va) i)"
  shows "mencrypt va len s = Inl NullDeref"
  using mencrypt_fails [OF assms(1) refl assms(2), of va] assms(3,4) by (simp add: accessible_def)

theorem mencrypt_missing_table_witness:
  "mencrypt 0x400000 1 (ex_state 0x402007 0x403406 ex_one 0) = Inl NullDeref"
proof -
  have "PDX 0x400000 = 1" by (simp add: word_unat_eq_iff unat_PDX)
  moreover have "PGROUNDDOWN 0x400000 = 0x400000" by (rule PGROUNDDOWN_aligned) (simp add: page_aligned_def)
  ultimately show ?thesis
    using mencrypt_missing_table [OF user_ctx_ex [OF ex_values(2), of ex_one 0], of 0 1 "0x400000"]
    by (simp add: ex_mapped)
qed



text \<open>
  C21: encrypting a page and decrypting it again. The bytes of the frame are complemented while the
  page is encrypted and are the original ones afterwards.
\<close>

theorem encrypt_decrypt_roundtrip:
  assumes inv: "cq_inv s p" and acc: "accessible (mem s) (p_pgdir (procs s ! p)) va"
    and dec: "\<not> encrypted (mem s) (p_pgdir (procs s ! p)) va"
  shows "\<exists>t u. mencrypt va 1 s = Inr (0, t) \<and> mdecrypt va t = Inr (0, u) \<and> cq_inv u p \<and>
    stored (mem t) (p_pgdir (procs s ! p)) va = NOT (stored (mem s) (p_pgdir (procs s ! p)) va) \<and>
    stored (mem u) (p_pgdir (procs s ! p)) va = stored (mem s) (p_pgdir (procs s ! p)) va"
proof -
  let ?pd = "p_pgdir (procs s ! p)"
  have wf: "vm_wf (mem s) ?pd" using inv by (simp add: cq_inv_def user_ctx_def)
  have u: "uva (mem s) ?pd va" using wf acc by (rule accessible_uva)
  have "accessible (mem s) ?pd (PGROUNDDOWN va)" using acc accessible_same_page [of "PGROUNDDOWN va" va] by simp
  then obtain t where t: "mencrypt va 1 s = Inr (0, t)" "encrypts s p va 1 t"
    using mencrypt_encrypts [OF inv refl, of 1 va] by (auto simp: page_at_def)
  have "in_range (PGROUNDDOWN va) 1 va" by (auto simp: in_range_def)
  then have t': "cq_inv t p" "vm_keep (mem s) (mem t) ?pd" "encrypted (mem t) ?pd va" "procs t = procs s"
    using t(2) uva_mapped [OF u] by (simp_all add: encrypts_def Let_def)
  have "accessible (mem t) ?pd va" using acc accessible_keep [OF t'(2) wf] by simp
  then obtain u where u': "mdecrypt va t = Inr (0, u)" "decrypts t p va u"
    using mdecrypt_decrypts [OF t'(1) refl] t'(3,4) by auto
  then have "cq_inv u p" "vm_keep (mem t) (mem u) ?pd" "\<not> encrypted (mem u) ?pd va"
    using t'(4) by (simp_all add: decrypts_def Let_def)
  moreover have "plain (mem t) ?pd va = plain (mem s) ?pd va" "plain (mem u) ?pd va = plain (mem t) ?pd va"
    using t'(2) \<open>vm_keep (mem t) (mem u) ?pd\<close> u vm_keep_mapped(2) [OF t'(2)] by (simp_all add: vm_keep_def)
  ultimately show ?thesis
    using t(1) t'(3) u'(1) dec by (auto simp: plain_def) (metis bit.double_compl)
qed

theorem encrypt_decrypt_roundtrip_witness:
  "\<exists>t u. mencrypt 0 1 (ex_state 0x402007 0x403406 ex_one 0) = Inr (0, t) \<and> mdecrypt 0 t = Inr (0, u) \<and>
     stored (mem u) ex_pd 0 = stored (ex_mem 0x402007 0x403406) ex_pd 0"
proof -
  have "accessible (ex_mem 0x402007 0x403406) ex_pd 0" by (rule accessible_ex) simp_all
  moreover have "\<not> encrypted (ex_mem 0x402007 0x403406) ex_pd 0"
    using ex_small_page [of 0] by (simp add: encrypted_def ex_pte_val)
  ultimately show ?thesis using encrypt_decrypt_roundtrip [OF cq_inv_ex_one, of 0] by auto
qed

text \<open>
  C6: \<open>cq_enset\<close> is the clock algorithm. For a page that is not queued, the slot taken is the first
  one after the hand that is empty or unreferenced, or the one after the hand when all were
  referenced (\<open>clock_victim\<close>); the page and its entry are stored there and the hand points to it,
  the reference bits the hand passed are cleared, and a page that was in the slot is encrypted
  if it still is a user page.
\<close>

theorem cq_enset_clock:
  assumes "user_ctx s p" and q: "q = p_cq (procs s ! p)" and pd: "pd = p_pgdir (procs s ! p)"
    and "cq_wf (mem s) pd q" "-1 \<le> p_clock_hand (procs s ! p)" "mapped (mem s) pd va" "\<not> cq_has q va"
    and i: "i = cq_slot (p_clock_hand (procs s ! p))" and v: "v = clock_victim (mem s) pd q i"
  shows "\<exists>t. cq_enset va s = Inr (0, t) \<and> p_cq (procs t ! p) = cq_put q v va (pte_ptr (mem s) pd va) \<and>
    p_clock_hand (procs t ! p) = int v \<and> vm_keep (mem s) (mem t) pd \<and>
    (\<forall>j<clock_dist (mem s) pd q i. (i + j) mod CLOCKSIZE \<noteq> v \<longrightarrow>
       \<not> bit (pte_val (mem t) pd (cq_va (q ! ((i + j) mod CLOCKSIZE)))) 5) \<and>
    (cq_full q v \<and> accessible (mem s) pd (cq_va (q ! v)) \<longrightarrow> encrypted (mem t) pd (cq_va (q ! v)))"
proof -
  let ?m = "mem s" and ?d = "clock_dist (mem s) pd q i"
  have wf: "vm_wf ?m pd" and lp: "p < length (procs s)" using assms(1) pd by (simp_all add: user_ctx_def running_def)
  have ib: "i < CLOCKSIZE" using cq_slot_crem [OF assms(5)] i by simp
  obtain t where t: "cq_enset va s = Inr (0, t)" "mem t = cq_out (clear_As ?d ?m pd q i) pd q v"
    "procs t = (procs s)[p := (procs s ! p)\<lparr>p_cq := cq_put q v va (pte_ptr ?m pd va), p_clock_hand := int v\<rparr>]"
    using cq_enset_run(2) [OF assms(1) pd q assms(4-7)] i v by auto
  note mem = clock_memory [OF wf assms(4) ib, folded v, folded t(2)]
  have "\<not> bit (pte_val (mem t) pd (cq_va (q ! k))) 5" if j: "j < ?d" "k = (i + j) mod CLOCKSIZE" "k \<noteq> v" for j k
  proof -
    let ?x = "cq_va (q ! k)" and ?c = "clear_As ?d ?m pd q i"
    have full: "cq_full q k" using clock_dist_full [OF j(1)] j(2) by simp
    then have mp: "mapped ?m pd ?x" using assms(4) by (simp add: cq_wf_def)
    have eff: "vm_keep ?m ?c pd" "pte_val ?c pd ?x = pte_val ?m pd ?x AND NOT PTE_A"
      using clear_As_effect [OF wf assms(4) ib clock_dist_full] mp j by auto
    have "cq_full q v \<Longrightarrow> PPN ?x \<noteq> PPN (cq_va (q ! v))" using assms(4) full j(3) unfolding cq_wf_def by blast
    then have "pte_val (mem t) pd ?x = pte_val ?c pd ?x"
      using evict_pte_val [OF vm_keep_wf [OF eff(1)], of ?x "cq_va (q ! v)"] mp
      by (simp add: t(2) cq_out_def vm_keep_mapped(1) [OF eff(1)])
    then show ?thesis by (simp add: eff(2) bit_simps)
  qed
  then show ?thesis using t(1,3) lp mem(1,3) by auto
qed

theorem cq_enset_clock_witness:
  "\<exists>t. cq_enset 0 (ex_state 0x402406 0x403406 ex_empty (-1)) = Inr (0, t) \<and> p_clock_hand (procs t ! 0) = 0"
proof -
  have e: "\<not> cq_full ex_empty j" for j by (auto simp: cq_full_def ex_empty_def)
  then have "clock_victim (ex_mem 0x402406 0x403406) ex_pd ex_empty (cq_slot (-1)) = 0"
    by (simp add: clock_victim_def clock_dist_def cq_stop_def cq_slot_def CLOCKSIZE_def upt_conv_Cons)
  moreover have "cq_wf (ex_mem 0x402406 0x403406) ex_pd ex_empty" using ws_inv_ex by (simp add: ws_inv_def)
  moreover have "mapped (ex_mem 0x402406 0x403406) ex_pd 0" using ex_small_page [of 0] by (simp add: ex_mapped)
  ultimately show ?thesis
    using cq_enset_clock [OF user_ctx_ex [OF ex_values(1), of ex_empty "-1"] refl refl _ _ _ _ refl refl, of 0] e
    by (auto simp: cq_has_def)
qed

text \<open>
  C23: removing an entry at or before the hand. The entries between it and the hand move down by
  one, the slot under the hand becomes empty, the others stay, and the hand steps back by one.
\<close>

theorem cq_remove_shifts:
  assumes "running s p" and q: "q = p_cq (procs s ! p)" "length q = CLOCKSIZE"
    and k: "k \<le> h" "h < CLOCKSIZE" "p_clock_hand (procs s ! p) = int h" "cq_pte (q ! k) = pte" "\<forall>j<k. cq_pte (q ! j) \<noteq> pte"
  shows "\<exists>q'. cq_remove pte s = Inr ((), s\<lparr>procs := (procs s)[p := (procs s ! p)\<lparr>p_cq := q',
      p_clock_hand := if h = 0 then int CLOCKSIZE - 1 else int h - 1\<rparr>]\<rparr>) \<and>
    (\<forall>j<CLOCKSIZE. q' ! j =
      (if j < k \<or> h < j then q ! j else if j < h then q ! Suc j else (q ! h)\<lparr>cq_empty := -1\<rparr>))"
proof (intro exI conjI)
  show "cq_remove pte s = Inr ((), s\<lparr>procs := (procs s)[p := (procs s ! p)\<lparr>p_cq := cq_removed q k h,
      p_clock_hand := if h = 0 then int CLOCKSIZE - 1 else int h - 1\<rparr>]\<rparr>)"
    using cq_remove_run(1) [OF assms(1) q, of k pte h] k by simp
  show "\<forall>j<CLOCKSIZE. cq_removed q k h ! j =
      (if j < k \<or> h < j then q ! j else if j < h then q ! Suc j else (q ! h)\<lparr>cq_empty := -1\<rparr>)"
    using nth_cq_removed [OF k(2) _ k(1)] by blast
qed

lemma running_ex: "running (ex_state v0 v1 q hand) 0"
  by (simp add: running_def irq_ok_def cur_def this_cpu_def ex_state_def kstate0_def cpu0_def)

theorem cq_remove_shifts_witness:
  "\<exists>t. cq_remove 0x80401000 (ex_state 0x402007 0x403406 ex_one 0) = Inr ((), t) \<and> p_clock_hand (procs t ! 0) = 7"
proof -
  have "0 < length (procs (ex_state 0x402007 0x403406 ex_one 0))" by (simp add: ex_state_def)
  then show ?thesis
    using cq_remove_shifts [OF running_ex [of "0x402007" "0x403406" ex_one 0] refl, of 0 0 "0x80401000"]
    by (auto simp: CLOCKSIZE_def)
qed

text \<open>
  C24: removing an entry after the hand. The shift loop has no wrap-around, so when the entry found
  lies after the hand (or the hand is still -1) the loop writes past the end of the queue.
\<close>

theorem cq_remove_overruns:
  assumes "running s p" and q: "q = p_cq (procs s ! p)" "length q = CLOCKSIZE"
    and k: "k < CLOCKSIZE" "p_clock_hand (procs s ! p) < int k" "cq_pte (q ! k) = pte" "\<forall>j<k. cq_pte (q ! j) \<noteq> pte"
  shows "cq_remove pte s = Inl OutOfBounds"
  using cq_remove_run(2) [OF assms(1) q, of k pte] k by simp

theorem cq_remove_overruns_witness:
  "cq_remove 0x80401000 (ex_state 0x402007 0x403406 ex_one (-1)) = Inl OutOfBounds"
  using cq_remove_overruns [OF running_ex [of "0x402007" "0x403406" ex_one "-1"] refl, of 0 "0x80401000"] by simp

text \<open>
  C25: a fault on a page that is not encrypted, such as the guard page below a user stack.
  \<open>mdecrypt\<close> returns 0 although the page was never encrypted, and every byte of the page is
  complemented.
\<close>

theorem mdecrypt_guard_page:
  assumes "user_ctx s p" "cq_wf (mem s) (p_pgdir (procs s ! p)) (p_cq (procs s ! p))" "-1 \<le> p_clock_hand (procs s ! p)"
    and "uva (mem s) (p_pgdir (procs s ! p)) va" "\<not> encrypted (mem s) (p_pgdir (procs s ! p)) va"
    and "PPN va' = PPN va" "va' < KERNBASE"
  shows "\<exists>t. mdecrypt va s = Inr (0, t) \<and>
    stored (mem t) (p_pgdir (procs s ! p)) va' = NOT (stored (mem s) (p_pgdir (procs s ! p)) va')"
  using mdecrypt_complements [OF assms(1) refl assms(2-4,6,7)] .

theorem mdecrypt_guard_page_witness:
  "\<exists>t. mdecrypt 0 (ex_state 0x402003 0x403406 ex_empty (-1)) = Inr (0, t) \<and>
     stored (mem t) ex_pd 8 = NOT (stored (ex_mem 0x402003 0x403406) ex_pd 8)"
proof -
  have "\<not> cq_full ex_empty i" for i by (auto simp: cq_full_def ex_empty_def)
  then have "cq_wf (ex_mem 0x402003 0x403406) ex_pd ex_empty" by (simp add: cq_wf_def) (simp add: ex_empty_def)
  moreover have "uva (ex_mem 0x402003 0x403406) ex_pd 0" using ex_uva [of "0x402003" "0x403406" 0] by (simp add: PPN_def)
  moreover have "\<not> encrypted (ex_mem 0x402003 0x403406) ex_pd 0"
    using ex_small_page [of 0] by (simp add: encrypted_def ex_pte_val)
  moreover have "PPN 8 = PPN 0" by (simp add: PPN_def PTXSHIFT_def)
  ultimately show ?thesis
    using mdecrypt_guard_page [OF user_ctx_ex [OF ex_values(4), of ex_empty "-1"], of 0 8] by (simp add: KERNBASE_def)
qed

text \<open>
  \<open>pet_in_set\<close> tests \<open>*pte & ~PTE_E\<close>, which holds for every present entry, so the answer is
  the present bit alone.
\<close>

theorem pet_in_set_present:
  assumes "pte \<noteq> 0"
  shows "pet_in_set pte s = Inr (bit (load32 (mem s) pte) 0, s)"
proof -
  have "v AND PTE_P \<noteq> 0 \<and> v AND NOT PTE_E \<noteq> 0 \<longleftrightarrow> bit v 0" for v
  proof -
    have "bit v 0 \<Longrightarrow> bit (v AND NOT PTE_E) 0" by (simp add: bit_simps)
    then have "bit v 0 \<Longrightarrow> v AND NOT PTE_E \<noteq> 0" by auto
    then show ?thesis by (auto simp: and_PTE_0_iff)
  qed
  then show ?thesis using assms by (simp add: pet_in_set_def kmonad)
qed

theorem pet_in_set_present_witness:
  "pet_in_set 0x80401000 (ex_state 0x402007 0x403406 ex_one 0) = Inr (bit (load32 (ex_mem 0x402007 0x403406) 0x80401000) 0, ex_state 0x402007 0x403406 ex_one 0)"
  using pet_in_set_present [of "0x80401000" "ex_state 0x402007 0x403406 ex_one 0"] by simp

end
