(* ===== verification/Vm.thy ===== *)
theory Vm
  imports Encryption_Props
begin

text \<open>
  Address-space construction and teardown (the rest of \<open>vm.c\<close>): the kernel part of a page table,
  growing, shrinking, copying and freeing the user part, and the two inspection calls. The kernel
  reaches user memory through the loaded page table; an access that faults enters the trap
  handler, which decrypts the page and retries. Messages printed with \<open>cprintf\<close> are not part of
  the state.
\<close>

section \<open>Freeing\<close>

text \<open>
  The loop of \<open>deallocuvm\<close>. Below \<open>KERNBASE\<close> every round moves \<open>a\<close> up by at least a page, so the
  number of pages in the address space bounds the rounds.
\<close>

fun deallocuvm_loop :: "nat \<Rightarrow> u32 \<Rightarrow> u32 \<Rightarrow> u32 \<Rightarrow> unit K" where
  "deallocuvm_loop 0 pgdir a oldsz = kfail OutOfFuel"
| "deallocuvm_loop (Suc n) pgdir a oldsz =
     (if a < oldsz then
       kbind (walkpgdir pgdir a False) (\<lambda>pte.
       if pte = 0 then deallocuvm_loop n pgdir (PGADDR (PDX a + 1) 0 0 - PGSIZE + PGSIZE) oldsz
       else kbind (rd32 pte) (\<lambda>v.
         if v AND (PTE_P OR PTE_E) \<noteq> 0 then
           let pa = PTE_ADDR v in
           if pa = 0 then panic ''kfree''
           else kseq (kfree (P2V pa))
             (kseq (cq_remove pte)
             (kseq (wr32 pte 0)
             (deallocuvm_loop n pgdir (a + PGSIZE) oldsz)))
         else deallocuvm_loop n pgdir (a + PGSIZE) oldsz))
      else kret ())"

definition deallocuvm :: "u32 \<Rightarrow> u32 \<Rightarrow> u32 \<Rightarrow> u32 K" where
  "deallocuvm pgdir oldsz newsz =
     (if newsz \<ge> oldsz then kret oldsz
      else kseq (deallocuvm_loop 1048577 pgdir (PGROUNDUP newsz) oldsz) (kret newsz))"

fun freevm_loop :: "nat \<Rightarrow> u32 \<Rightarrow> u32 \<Rightarrow> unit K" where
  "freevm_loop 0 pgdir i = kret ()"
| "freevm_loop (Suc n) pgdir i =
     kbind (rd32 (pgdir + 4 * i)) (\<lambda>d.
     kseq (if d AND PTE_P \<noteq> 0 then kfree (P2V (PTE_ADDR d)) else kret ())
     (freevm_loop n pgdir (i + 1)))"

definition freevm :: "u32 \<Rightarrow> unit K" where
  "freevm pgdir =
     (if pgdir = 0 then panic ''freevm: no pgdir''
      else kbind (deallocuvm pgdir KERNBASE 0) (\<lambda>_.
      kseq (freevm_loop NPDENTRIES pgdir 0)
      (kfree pgdir)))"

section \<open>The kernel part\<close>

record kmap_entry =
  km_virt :: u32
  km_phys_start :: u32
  km_phys_end :: u32
  km_perm :: u32

definition kmap :: "kstate \<Rightarrow> kmap_entry list" where
  "kmap s =
    [\<lparr>km_virt = KERNBASE, km_phys_start = 0, km_phys_end = EXTMEM, km_perm = PTE_W\<rparr>,
     \<lparr>km_virt = KERNLINK, km_phys_start = V2P KERNLINK, km_phys_end = V2P (sym_data s), km_perm = 0\<rparr>,
     \<lparr>km_virt = sym_data s, km_phys_start = V2P (sym_data s), km_phys_end = PHYSTOP, km_perm = PTE_W\<rparr>,
     \<lparr>km_virt = DEVSPACE, km_phys_start = DEVSPACE, km_phys_end = 0, km_perm = PTE_W\<rparr>]"

fun setupkvm_loop :: "kmap_entry list \<Rightarrow> u32 \<Rightarrow> u32 K" where
  "setupkvm_loop [] pgdir = kret pgdir"
| "setupkvm_loop (k # ks) pgdir =
     kbind (mappages pgdir (km_virt k) (km_phys_end k - km_phys_start k) (km_phys_start k) (km_perm k)) (\<lambda>r.
     if r < 0 then kseq (freevm pgdir) (kret 0) else setupkvm_loop ks pgdir)"

definition setupkvm :: "u32 K" where
  "setupkvm =
     kbind kalloc (\<lambda>pgdir.
     if pgdir = 0 then kret 0
     else kseq (kmemset pgdir 0 PGSIZE)
     (if P2V PHYSTOP > DEVSPACE then panic ''PHYSTOP too high''
      else kbind (kget kmap) (\<lambda>ks. setupkvm_loop ks pgdir)))"

definition kvmalloc :: "unit K" where
  "kvmalloc =
     kbind setupkvm (\<lambda>d.
     kseq (kmod (\<lambda>s. s\<lparr>kpgdir := d\<rparr>)) switchkvm)"

section \<open>The user part\<close>

definition inituvm :: "u32 \<Rightarrow> u32 \<Rightarrow> u32 \<Rightarrow> unit K" where
  "inituvm pgdir init sz =
     (if sz \<ge> PGSIZE then panic ''inituvm: more than a page''
      else kbind kalloc (\<lambda>mem.
      kseq (kmemset mem 0 PGSIZE)
      (kbind (mappages pgdir 0 PGSIZE (V2P mem) (PTE_W OR PTE_U)) (\<lambda>_.
      kmemmove mem init sz))))"

fun allocuvm_loop :: "nat \<Rightarrow> u32 \<Rightarrow> u32 \<Rightarrow> u32 \<Rightarrow> u32 \<Rightarrow> u32 K" where
  "allocuvm_loop 0 pgdir a oldsz newsz = kfail OutOfFuel"
| "allocuvm_loop (Suc n) pgdir a oldsz newsz =
     (if a < newsz then
       kbind kalloc (\<lambda>mem.
       if mem = 0 then kbind (deallocuvm pgdir newsz oldsz) (\<lambda>_. kret 0)
       else kseq (kmemset mem 0 PGSIZE)
       (kbind (mappages pgdir a PGSIZE (V2P mem) (PTE_W OR PTE_U)) (\<lambda>r.
       if r < 0 then kbind (deallocuvm pgdir newsz oldsz) (\<lambda>_. kseq (kfree mem) (kret 0))
       else allocuvm_loop n pgdir (a + PGSIZE) oldsz newsz)))
      else kret newsz)"

definition allocuvm :: "u32 \<Rightarrow> u32 \<Rightarrow> u32 \<Rightarrow> u32 K" where
  "allocuvm pgdir oldsz newsz =
     (if newsz \<ge> KERNBASE then kret 0
      else if newsz < oldsz then kret oldsz
      else allocuvm_loop 1048577 pgdir (PGROUNDUP oldsz) oldsz newsz)"

fun copyuvm_loop :: "nat \<Rightarrow> u32 \<Rightarrow> u32 \<Rightarrow> u32 \<Rightarrow> u32 \<Rightarrow> u32 K" where
  "copyuvm_loop 0 pgdir d i sz = kfail OutOfFuel"
| "copyuvm_loop (Suc n) pgdir d i sz =
     (if i < sz then
       kbind (walkpgdir pgdir i False) (\<lambda>pte.
       if pte = 0 then panic ''copyuvm: pte should exist''
       else kbind (rd32 pte) (\<lambda>v.
       if v AND (PTE_P OR PTE_E) = 0 then panic ''copyuvm: page not present''
       else let pa = PTE_ADDR v; flags = PTE_FLAGS v in
       kbind kalloc (\<lambda>mem.
       if mem = 0 then kseq (freevm d) (kret 0)
       else kseq (kmemmove mem (P2V pa) PGSIZE)
       (kbind (mappages d i PGSIZE (V2P mem) flags) (\<lambda>r.
       if r < 0 then kseq (kfree mem) (kseq (freevm d) (kret 0))
       else copyuvm_loop n pgdir d (i + PGSIZE) sz)))))
      else kret d)"

definition copyuvm :: "u32 \<Rightarrow> u32 \<Rightarrow> u32 K" where
  "copyuvm pgdir sz =
     kbind setupkvm (\<lambda>d. if d = 0 then kret 0 else copyuvm_loop 1048577 pgdir d 0 sz)"

section \<open>User memory seen from the kernel\<close>

text \<open>
  A fault in the kernel runs the \<open>T_PGFLT\<close> case of \<open>trap\<close>: if \<open>mdecrypt\<close> succeeds the access is
  repeated, otherwise the kernel panics. The second attempt is the last one modelled; an access
  that still faults would fault for ever.
\<close>

definition retry_access :: "bool \<Rightarrow> u32 \<Rightarrow> u32 K" where
  "retry_access wr va = (\<lambda>s. case mmu_access wr va s of
       Inl (PageFault a) \<Rightarrow> kbind (mdecrypt a) (\<lambda>r. if r = 0 then mmu_access wr va else panic ''trap'') s
     | x \<Rightarrow> x)"

definition uget8 :: "u32 \<Rightarrow> u8 K" where
  "uget8 va = kbind (retry_access False va) (\<lambda>a. kget (\<lambda>s. mem s a))"

definition uput8 :: "u32 \<Rightarrow> u8 \<Rightarrow> unit K" where
  "uput8 va b = kbind (retry_access True va) (\<lambda>a. kmod (\<lambda>s. s\<lparr>mem := (mem s)(a := b)\<rparr>))"

definition uget32 :: "u32 \<Rightarrow> u32 K" where
  "uget32 va =
     kbind (uget8 va) (\<lambda>b0. kbind (uget8 (va + 1)) (\<lambda>b1.
     kbind (uget8 (va + 2)) (\<lambda>b2. kbind (uget8 (va + 3)) (\<lambda>b3.
     kret (ucast b0 OR push_bit 8 (ucast b1) OR push_bit 16 (ucast b2) OR push_bit 24 (ucast b3))))))"

definition uput32 :: "u32 \<Rightarrow> u32 \<Rightarrow> unit K" where
  "uput32 va v =
     kseq (uput8 va (ucast v)) (kseq (uput8 (va + 1) (ucast (drop_bit 8 v)))
     (kseq (uput8 (va + 2) (ucast (drop_bit 16 v))) (uput8 (va + 3) (ucast (drop_bit 24 v)))))"

section \<open>Inspection\<close>

text \<open>
  \<open>struct pt_entry\<close>: the first word holds \<open>pdx\<close> and \<open>ptx\<close>, the second the other fields, each
  field at its bit position.
\<close>

record pt_entry =
  pt_pdx :: u32
  pt_ptx :: u32
  pt_ppage :: u32
  pt_present :: bool
  pt_writable :: bool
  pt_encrypted :: bool
  pt_user :: bool
  pt_ref :: bool

definition put_field :: "u32 \<Rightarrow> nat \<Rightarrow> nat \<Rightarrow> u32 \<Rightarrow> unit K" where
  "put_field a pos w v =
     kbind (uget32 a) (\<lambda>x. uput32 a ((x AND NOT (push_bit pos (mask w))) OR push_bit pos (v AND mask w)))"

definition put_flag :: "u32 \<Rightarrow> nat \<Rightarrow> bool \<Rightarrow> unit K" where
  "put_flag a pos b = put_field a pos 1 (if b then 1 else 0)"

text \<open>The assignments to \<open>entries[index]\<close>; \<open>*curr_pte\<close> is read again for every field.\<close>

definition put_pt_entry :: "u32 \<Rightarrow> u32 \<Rightarrow> u32 \<Rightarrow> unit K" where
  "put_pt_entry a i pte =
     kseq (put_field a 0 10 (PDX i))
     (kseq (put_field a 10 10 (PTX i))
     (kseq (kbind (rd32 pte) (\<lambda>v. put_field (a + 4) 0 20 (PPN v)))
     (kseq (kbind (rd32 pte) (\<lambda>v. put_flag (a + 4) 20 (v AND PTE_P \<noteq> 0)))
     (kseq (kbind (rd32 pte) (\<lambda>v. put_flag (a + 4) 21 (v AND PTE_W \<noteq> 0)))
     (kseq (kbind (rd32 pte) (\<lambda>v. put_flag (a + 4) 23 (v AND PTE_U \<noteq> 0)))
     (kseq (kbind (rd32 pte) (\<lambda>v. put_flag (a + 4) 22 (v AND PTE_E \<noteq> 0)))
     (kbind (rd32 pte) (\<lambda>v. put_flag (a + 4) 24 (v AND PTE_E = 0 \<and> v AND PTE_A \<noteq> 0)))))))))"

text \<open>Reading an entry back from its two words.\<close>

definition pt_entry_at :: "u32 \<Rightarrow> u32 \<Rightarrow> pt_entry" where
  "pt_entry_at w0 w1 = \<lparr>pt_pdx = w0 AND mask 10, pt_ptx = drop_bit 10 w0 AND mask 10, pt_ppage = w1 AND mask 20,
     pt_present = bit w1 20, pt_writable = bit w1 21, pt_encrypted = bit w1 22, pt_user = bit w1 23, pt_ref = bit w1 24\<rparr>"

text \<open>
  The loop runs down from the page of \<open>sz\<close> and stops at page 0. The number of pages bounds it.
\<close>

fun getpgtable_loop :: "nat \<Rightarrow> u32 \<Rightarrow> u32 \<Rightarrow> int \<Rightarrow> int \<Rightarrow> int \<Rightarrow> int K" where
  "getpgtable_loop 0 entries i index num wsetOnly = kfail OutOfFuel"
| "getpgtable_loop (Suc n) entries i index num wsetOnly =
     (if index < num \<and> i \<noteq> 0 then
       kbind me (\<lambda>p.
       kbind (walkpgdir (p_pgdir p) i False) (\<lambda>pte.
       kbind (if pte = 0 then kret 0 else rd32 pte) (\<lambda>v.
       kbind (if v = 0 then kret False
              else if wsetOnly = 0 then kret True else pet_in_set pte) (\<lambda>rep.
       if rep then kseq (put_pt_entry (entries + 8 * of_int index) i pte)
           (getpgtable_loop n entries (i - PGSIZE) (index + 1) num wsetOnly)
       else getpgtable_loop n entries (i - PGSIZE) index num wsetOnly))))
      else kret index)"

definition getpgtable :: "u32 \<Rightarrow> int \<Rightarrow> int \<Rightarrow> int K" where
  "getpgtable entries num wsetOnly =
     (if wsetOnly \<noteq> 0 \<and> wsetOnly \<noteq> 1 then kret (-1)
      else kbind me (\<lambda>p. getpgtable_loop 1048577 entries (PGROUNDDOWN (p_sz p)) 0 num wsetOnly))"

definition dump_rawphymem :: "u32 \<Rightarrow> u32 \<Rightarrow> int K" where
  "dump_rawphymem physical_addr buffer =
     kseq (kbind (uget8 buffer) (\<lambda>b. uput8 buffer b))
     (kbind me (\<lambda>p.
     kbind (copyout (p_pgdir p) buffer (P2V physical_addr) PGSIZE) (\<lambda>r.
     if r \<noteq> 0 then kret (-1) else kret 0)))"

end
