(* ===== verification/Kernel_Loops.thy ===== *)
theory Kernel_Loops
  imports Vm
begin

text \<open>
  The loops of the memory code end. A loop whose bound is not obvious from its recursion carries
  fuel in the model and fails with \<open>OutOfFuel\<close> when it is used up; here the fuel is shown to be
  enough in every state, loop by loop. The composition rules are collected in \<open>ends\<close>.
\<close>

section \<open>Computations that end\<close>

named_theorems ends

definition no_fuel :: "'a K \<Rightarrow> bool" where
  "no_fuel f \<longleftrightarrow> (\<forall>s. f s \<noteq> Inl OutOfFuel)"

lemma no_fuelD: "no_fuel f \<Longrightarrow> f s \<noteq> Inl OutOfFuel"
  by (simp add: no_fuel_def)

lemma no_fuel_kbind [ends]: "no_fuel f \<Longrightarrow> (\<And>x. no_fuel (g x)) \<Longrightarrow> no_fuel (kbind f g)"
  by (auto simp: no_fuel_def kbind_def split: sum.splits)

lemma no_fuel_kseq [ends]: "no_fuel f \<Longrightarrow> no_fuel g \<Longrightarrow> no_fuel (kseq f g)"
  unfolding kseq_def by (rule no_fuel_kbind)

lemma no_fuel_if [ends]: "(b \<Longrightarrow> no_fuel f) \<Longrightarrow> (\<not> b \<Longrightarrow> no_fuel g) \<Longrightarrow> no_fuel (if b then f else g)"
  by simp

lemma no_fuel_basic [ends]:
  "no_fuel (kret x)" "no_fuel (kget g)" "no_fuel (kmod h)" "no_fuel (panic msg)"
  "no_fuel (rd32 a)" "no_fuel (wr32 a v)" "no_fuel (getp i)" "no_fuel (modp i k)"
  "no_fuel (kfail OutOfBounds)" "no_fuel (kfail NullDeref)" "no_fuel (kfail Spin)"
  by (auto simp: no_fuel_def rd32_def wr32_def getp_def modp_def)

lemma no_fuel_state: "(\<And>s. no_fuel (F s)) \<Longrightarrow> no_fuel (\<lambda>s. F s s)"
  by (simp add: no_fuel_def)

section \<open>Locks and allocation\<close>

lemma no_fuel_mycpu [ends]: "no_fuel mycpu"
  by (auto simp: no_fuel_def mycpu_def split: option.splits)

lemma no_fuel_modc [ends]: "no_fuel (modc i f)"
  by (simp add: no_fuel_def)

lemma no_fuel_cli [ends]: "no_fuel cli" "no_fuel sti"
  by (simp_all add: no_fuel_def)

lemma no_fuel_pushcli [ends]: "no_fuel pushcli"
  unfolding pushcli_def by (intro ends)

lemma no_fuel_popcli [ends]: "no_fuel popcli"
  unfolding popcli_def by (intro ends)

lemma no_fuel_myproc [ends]: "no_fuel myproc"
  unfolding myproc_def by (intro ends)

lemma no_fuel_curproc [ends]: "no_fuel curproc"
  unfolding curproc_def by (intro ends) (auto simp: no_fuel_def split: option.splits)

lemma no_fuel_modl [ends]: "no_fuel (modl r f)"
  by (simp add: no_fuel_def)

lemma no_fuel_lock [ends]: "no_fuel (holding r)" "no_fuel (xchg r v)" "no_fuel (acquire r)" "no_fuel (release r)"
proof -
  show h: "no_fuel (holding r)" unfolding holding_def by (intro ends)
  show "no_fuel (xchg r v)" for v unfolding xchg_def by (intro ends)
  then show "no_fuel (acquire r)" unfolding acquire_def by (intro ends h)
  show "no_fuel (release r)" unfolding release_def by (intro ends h)
qed

lemma no_fuel_kmem [ends]: "no_fuel (kmemset a c n)" "no_fuel (kmemmove a b n)"
  by (simp_all add: no_fuel_def kmemset_def kmemmove_def)

lemma no_fuel_kalloc [ends]: "no_fuel kalloc"
  unfolding kalloc_def by (rule no_fuel_state) (intro ends)

lemma no_fuel_kfree [ends]: "no_fuel (kfree v)"
proof -
  have eq: "kfree v = (\<lambda>s. (if v mod PGSIZE \<noteq> 0 \<or> v < sym_end s \<or> V2P v \<ge> PHYSTOP then panic ''kfree'' else
     kseq (kmemset v 1 PGSIZE)
     (kseq (if kmem_use_lock s \<noteq> 0 then acquire KmemLock else kret ())
     (kbind (kget kmem_freelist) (\<lambda>head.
     kseq (wr32 v head)
     (kseq (kmod (\<lambda>s. s\<lparr>kmem_freelist := v\<rparr>))
     (if kmem_use_lock s \<noteq> 0 then release KmemLock else kret ())))))) s)"
    by (rule ext) (simp add: kfree_def)
  show ?thesis unfolding eq by (rule no_fuel_state) (intro ends)
qed

lemma no_fuel_walkpgdir [ends]: "no_fuel (walkpgdir pgdir va al)"
  unfolding walkpgdir_def Let_def by (intro ends)

section \<open>Page loops\<close>

lemma unat_next_page: "unat a + 4096 \<le> 4294967295 \<Longrightarrow> unat (a + PGSIZE) = unat a + 4096"
  by (simp add: unat_word_ariths)

text \<open>Counting up to a page that may lie on the other side of address 0.\<close>

lemma page_distance_step:
  assumes "page_aligned a" "page_aligned e" "a \<noteq> e"
  shows "unat (e - (a + PGSIZE)) + 4096 = unat (e - a)"
proof -
  have "page_aligned (e - a)"
  proof -
    obtain q r where q: "unat e = 4096 * q" "unat a = 4096 * r"
      using assms unfolding page_aligned_def mod_page_0 by blast
    have "q < 1048576" "r < 1048576" using unat_lt_u32 [of e] unat_lt_u32 [of a] q by simp_all
    then have "unat (e - a) = (if r \<le> q then 4096 * (q - r) else 4096 * (q + 1048576 - r))"
      using unat_sub_if' [of e a] q by (simp add: word_le_nat_alt right_diff_distrib')
    then show ?thesis unfolding page_aligned_def by simp
  qed
  then obtain k where k: "unat (e - a) = 4096 * k" unfolding page_aligned_def mod_page_0 by blast
  have "e - a \<noteq> 0" using assms(3) by simp
  then have "k \<noteq> 0" using k by (metis mult_0_right unat_eq_0)
  then have "PGSIZE \<le> e - a" using k by (simp add: word_le_nat_alt)
  then have "unat (e - a - PGSIZE) = unat (e - a) - 4096" using unat_sub [of PGSIZE "e - a"] by simp
  then have "unat (e - (a + PGSIZE)) = unat (e - a) - 4096" by (simp only: diff_diff_eq)
  then show ?thesis using k \<open>k \<noteq> 0\<close> by simp
qed

lemma mappages_loop_ends:
  "page_aligned a \<Longrightarrow> page_aligned e \<Longrightarrow> unat (e - a) < 4096 * n \<Longrightarrow> no_fuel (mappages_loop n pgdir a e pa perm)"
proof (induction n arbitrary: a pa)
  case (Suc n)
  have "no_fuel (mappages_loop n pgdir (a + PGSIZE) e (pa + PGSIZE) perm)" if "a \<noteq> e"
    using page_distance_step [OF Suc.prems(1,2) that] Suc.prems by (intro Suc.IH) simp_all
  then show ?case by (simp only: mappages_loop.simps) (intro ends)
qed simp

lemma no_fuel_mappages [ends]: "no_fuel (mappages pgdir va sz pa perm)"
  unfolding mappages_def by (intro mappages_loop_ends less_trans [OF unat_lt_u32]) simp_all

text \<open>Counting up to a size.\<close>

lemma no_fuel_upto:
  assumes step: "\<And>n a. (a < e \<Longrightarrow> no_fuel (f n (a + PGSIZE))) \<Longrightarrow> no_fuel (f (Suc n) a)"
    and e: "unat e \<le> 4294963200"
  shows "unat e \<le> unat a + 4096 * n \<Longrightarrow> no_fuel (f (Suc n) a)"
proof (induction n arbitrary: a)
  case 0
  then have "\<not> a < e" by (simp add: word_less_nat_alt)
  then show ?case by (intro step) simp
next
  case (Suc n)
  have "no_fuel (f (Suc n) (a + PGSIZE))" if "a < e"
  proof -
    have "unat a < unat e" using that by (simp add: word_less_nat_alt)
    then have "unat (a + PGSIZE) = unat a + 4096" using e by (intro unat_next_page) simp
    then show ?thesis using Suc.prems by (intro Suc.IH) simp
  qed
  then show ?case by (rule step)
qed

text \<open>The clock-queue routines.\<close>

lemma no_fuel_me [ends]: "no_fuel me"
  unfolding me_def by (intro ends)

lemma no_fuel_modme [ends]: "no_fuel (modme f)"
  unfolding modme_def by (intro ends)

lemma no_fuel_mycq [ends]: "no_fuel (mycq i)"
  unfolding mycq_def by (intro ends)

lemma no_fuel_modcq [ends]: "no_fuel (modcq i f)"
  unfolding modcq_def by (intro ends)

lemma no_fuel_cq_find [ends]: "no_fuel (cq_find n i pte)"
  by (induction n arbitrary: i) (simp_all only: cq_find.simps, (intro ends | simp)+)

text \<open>Outside the array the shift stops at once.\<close>

lemma no_fuel_bounds: "\<not> (0 \<le> i \<and> i < int CLOCKSIZE) \<Longrightarrow> no_fuel (kseq (modcq i f) g)"
  by (auto simp: modcq_def no_fuel_def kmonad)

lemma cq_shift_ends: "0 \<le> i \<Longrightarrow> i \<le> int CLOCKSIZE \<Longrightarrow> int CLOCKSIZE < i + int n \<Longrightarrow> no_fuel (cq_shift n i h)"
proof (induction n arbitrary: i)
  case (Suc n)
  have body: "no_fuel (kseq (modcq i (\<lambda>x. x\<lparr>cq_va := cq_va nx\<rparr>)) (kseq (modcq i (\<lambda>x. x\<lparr>cq_pte := cq_pte nx\<rparr>))
      (kseq (modcq i (\<lambda>x. x\<lparr>cq_empty := cq_empty nx\<rparr>)) (cq_shift n (i + 1) h))))" for nx
  proof (cases "i < int CLOCKSIZE")
    case True
    then have "no_fuel (cq_shift n (i + 1) h)" using Suc.prems by (intro Suc.IH) simp_all
    then show ?thesis by (intro ends)
  next
    case False
    then show ?thesis by (intro no_fuel_bounds) simp
  qed
  show ?case
    by (simp only: cq_shift.simps) (intro no_fuel_if no_fuel_basic no_fuel_kbind no_fuel_mycq body)
qed simp

lemma no_fuel_kbind_res:
  "no_fuel f \<Longrightarrow> (\<And>x s t. f s = Inr (x, t) \<Longrightarrow> no_fuel (g x)) \<Longrightarrow> no_fuel (kbind f g)"
  by (auto simp: no_fuel_def kbind_def split: sum.splits)

lemma cq_find_res: "cq_find n i pte s = Inr (x, t) \<Longrightarrow> 0 \<le> i \<Longrightarrow> x = -1 \<or> 0 \<le> x \<and> x < i + int n"
proof (induction n arbitrary: i s)
  case (Suc n)
  obtain node u where "mycq i s = Inr (node, u)"
    "(if cq_pte node = pte then kret i else cq_find n (i + 1) pte) u = Inr (x, t)"
    using Suc.prems(1) by (auto elim: kbind_InrE)
  then show ?case using Suc.IH [of "i + 1" u] Suc.prems(2) by (auto split: if_splits)
qed simp

lemma no_fuel_cq_remove [ends]: "no_fuel (cq_remove pte)"
proof -
  have "no_fuel (cq_shift (Suc CLOCKSIZE) x h)" if "cq_find CLOCKSIZE 0 pte s = Inr (x, t)" "x \<noteq> -1" for x h s t
    using cq_find_res [OF that(1)] that(2) by (intro cq_shift_ends) simp_all
  then show ?thesis
    unfolding cq_remove_def Let_def by (intro no_fuel_kbind_res [of "cq_find CLOCKSIZE 0 pte"] ends)
qed

section \<open>Freeing, growing and copying\<close>

lemma PGADDR_next:
  assumes "unat a < 2147483648"
  shows "unat a + 1 \<le> unat (PGADDR (PDX a + 1) 0 0)" "page_aligned (PGADDR (PDX a + 1) 0 0)"
    "unat (PGADDR (PDX a + 1) 0 0) \<le> 2147483648" "page_aligned a \<Longrightarrow> unat a + 4096 \<le> unat (PGADDR (PDX a + 1) 0 0)"
proof -
  have p: "unat (PDX a) = unat a div 4194304" by (rule unat_PDX)
  then have lt: "unat (PDX a) < 512" using assms by simp
  then have p1: "unat (PDX a + 1) = unat (PDX a) + 1" by (simp add: unat_word_ariths)
  have "PGADDR (PDX a + 1) 0 0 = push_bit 22 (PDX a + 1)" by (simp add: PGADDR_def PDXSHIFT_def)
  then have "unat (PGADDR (PDX a + 1) 0 0) = (unat (PDX a) + 1) * 4194304"
    using p1 lt by (simp add: push_bit_eq_mult unat_word_ariths)
  then have e: "unat (PGADDR (PDX a + 1) 0 0) = (unat a div 4194304 + 1) * 4194304" by (simp add: p)
  have lt': "unat a < (unat a div 4194304 + 1) * 4194304" by (simp add: div_mult_self_is_m dividend_less_div_times)
  then show "unat a + 1 \<le> unat (PGADDR (PDX a + 1) 0 0)" unfolding e by simp
  show al: "page_aligned (PGADDR (PDX a + 1) 0 0)" unfolding page_aligned_def e by simp
  have "unat a div 4194304 < 512" using assms by simp
  then show "unat (PGADDR (PDX a + 1) 0 0) \<le> 2147483648" unfolding e by simp
  show "unat a + 4096 \<le> unat (PGADDR (PDX a + 1) 0 0)" if pa: "page_aligned a"
  proof -
    obtain q where q: "unat a = 4096 * q" using pa unfolding page_aligned_def mod_page_0 by blast
    have "4096 * q < 4096 * ((unat a div 4194304 + 1) * 1024)" using lt' q by simp
    then have "q + 1 \<le> (unat a div 4194304 + 1) * 1024" by simp
    then show ?thesis unfolding e q by simp
  qed
qed

lemma deallocuvm_loop_ends:
  "page_aligned a \<Longrightarrow> unat e \<le> 2147483648 \<Longrightarrow> unat e \<le> unat a + 4096 * n \<Longrightarrow> no_fuel (deallocuvm_loop (Suc n) pgdir a e)"
proof (induction n arbitrary: a)
  case 0
  then have "\<not> a < e" by (simp add: word_less_nat_alt)
  then show ?case by (simp add: no_fuel_def)
next
  case (Suc n)
  show ?case
  proof (cases "a < e")
    case True
    then have lt: "unat a < 2147483648" using Suc.prems(2) by (simp add: word_less_nat_alt)
    then have "unat (a + PGSIZE) = unat a + 4096" by (intro unat_next_page) simp
    then have a: "no_fuel (deallocuvm_loop (Suc n) pgdir (a + PGSIZE) e)" using Suc.prems by (intro Suc.IH) simp_all
    have b: "no_fuel (deallocuvm_loop (Suc n) pgdir (PGADDR (PDX a + 1) 0 0 - PGSIZE + PGSIZE) e)"
      using PGADDR_next [OF lt] Suc.prems by (intro Suc.IH) simp_all
    show ?thesis
      unfolding deallocuvm_loop.simps(2) [of "Suc n"] Let_def by (intro ends a b)
  qed (simp add: no_fuel_def)
qed

lemma no_fuel_deallocuvm: "unat oldsz \<le> 2147483648 \<Longrightarrow> no_fuel (deallocuvm pgdir oldsz newsz)"
proof -
  assume e: "unat oldsz \<le> 2147483648"
  have "no_fuel (deallocuvm_loop (Suc 1048576) pgdir (PGROUNDUP newsz) oldsz)"
    using e by (intro deallocuvm_loop_ends) simp_all
  then show ?thesis unfolding deallocuvm_def by (intro ends) simp
qed

lemma no_fuel_freevm_loop [ends]: "no_fuel (freevm_loop n pgdir i)"
  by (induction n arbitrary: i) (simp_all only: freevm_loop.simps, (intro ends | assumption)+)

lemma no_fuel_freevm [ends]: "no_fuel (freevm pgdir)"
  unfolding freevm_def by (intro ends no_fuel_deallocuvm) (simp add: KERNBASE_def)

lemma no_fuel_setupkvm_loop [ends]: "no_fuel (setupkvm_loop ks pgdir)"
  by (induction ks) (simp_all only: setupkvm_loop.simps, (intro ends | assumption)+)

lemma no_fuel_setupkvm [ends]: "no_fuel setupkvm"
  unfolding setupkvm_def by (intro ends)

lemma no_fuel_allocuvm [ends]: "no_fuel (allocuvm pgdir oldsz newsz)"
proof (cases "newsz \<ge> KERNBASE \<or> newsz < oldsz")
  case True
  then show ?thesis by (auto simp: allocuvm_def no_fuel_def)
next
  case False
  then have e: "unat newsz \<le> 2147483648" by (simp add: KERNBASE_def word_le_nat_alt)
  have "no_fuel (allocuvm_loop (Suc 1048576) pgdir (PGROUNDUP oldsz) oldsz newsz)"
  proof (rule no_fuel_upto [where f = "\<lambda>n a. allocuvm_loop n pgdir a oldsz newsz" and e = newsz])
    show "no_fuel (allocuvm_loop (Suc n) pgdir a oldsz newsz)"
      if "a < newsz \<Longrightarrow> no_fuel (allocuvm_loop n pgdir (a + PGSIZE) oldsz newsz)" for n a
      unfolding allocuvm_loop.simps(2) by (intro ends no_fuel_deallocuvm e that)
  qed (use e in simp_all)
  then show ?thesis using False by (simp add: allocuvm_def)
qed

lemma no_fuel_copyuvm:
  assumes e: "unat sz \<le> 2147483648"
  shows "no_fuel (copyuvm pgdir sz)"
proof -
  have "no_fuel (copyuvm_loop (Suc 1048576) pgdir d 0 sz)" for d
  proof (rule no_fuel_upto [where f = "\<lambda>n a. copyuvm_loop n pgdir d a sz" and e = sz])
    show "no_fuel (copyuvm_loop (Suc n) pgdir d a sz)" if "a < sz \<Longrightarrow> no_fuel (copyuvm_loop n pgdir d (a + PGSIZE) sz)" for n a
      unfolding copyuvm_loop.simps(2) Let_def by (intro ends that)
  qed (use e in simp_all)
  then have "no_fuel (copyuvm_loop 1048577 pgdir d 0 sz)" for d by simp
  then show ?thesis unfolding copyuvm_def by (intro ends)
qed

section \<open>Encryption\<close>

lemma no_fuel_mmu_access [ends]: "no_fuel (mmu_access wr va)"
  by (auto simp: no_fuel_def mmu_access_def Let_def split: option.splits)

lemma no_fuel_user_byte [ends]: "no_fuel (uload8 va)" "no_fuel (ustore8 va b)"
  unfolding uload8_def ustore8_def by (rule no_fuel_kbind; intro ends)+

lemma no_fuel_flip [ends]: "no_fuel (flip_bytes n va)"
  by (induction n arbitrary: va) (simp_all only: flip_bytes.simps, (intro ends | assumption | blast)+)

lemma no_fuel_uva2ka [ends]: "no_fuel (uva2ka pgdir va)"
  unfolding uva2ka_def by (intro ends)

lemma no_fuel_switchuvm [ends]: "no_fuel (switchuvm po)"
proof (cases po)
  case None
  then show ?thesis by (simp add: switchuvm_def no_fuel_def)
next
  case (Some p)
  have "no_fuel (ltr x)" "no_fuel (lcr3 y)" for x y by (simp_all add: no_fuel_def ltr_def lcr3_def)
  then show ?thesis unfolding switchuvm_def Some option.case by (intro ends)
qed

lemma no_fuel_mencrypt [ends]: "no_fuel (mencrypt va len)"
proof -
  have "no_fuel (mencrypt_check n pd x)" for n pd x
    by (induction n arbitrary: x) (simp_all only: mencrypt_check.simps, (intro ends | assumption | blast)+)
  moreover have "no_fuel (mencrypt_pages n pd x)" for n pd x
    by (induction n arbitrary: x) (simp_all only: mencrypt_pages.simps, (intro ends | assumption | blast)+)
  ultimately show ?thesis unfolding mencrypt_def Let_def by (intro ends)
qed

text \<open>What the interrupt bracket leaves alone, whatever state it is used in.\<close>

definition core :: "kstate \<Rightarrow> proc list \<times> memory \<times> nat \<times> u8 \<times> (u8 \<times> nat option) list" where
  "core s = (procs s, mem s, ncpu s, lapic_id s, map (\<lambda>c. (c_apicid c, c_proc c)) (cpus s))"

definition keeps_core :: "'a K \<Rightarrow> bool" where
  "keeps_core f \<longleftrightarrow> (\<forall>s x t. f s = Inr (x, t) \<longrightarrow> core t = core s)"

lemma core_cpus: "core t = core s \<Longrightarrow> map c_apicid (cpus t) = map c_apicid (cpus s) \<and> map c_proc (cpus t) = map c_proc (cpus s)"
proof -
  assume "core t = core s"
  then have e: "map (\<lambda>c. (c_apicid c, c_proc c)) (cpus t) = map (\<lambda>c. (c_apicid c, c_proc c)) (cpus s)" by (simp add: core_def)
  from arg_cong [OF e, of "map fst"] arg_cong [OF e, of "map snd"] show ?thesis by (simp add: comp_def)
qed

lemma cur_core: "core t = core s \<Longrightarrow> this_cpu t = this_cpu s \<and> cur t = cur s"
proof -
  assume c: "core t = core s"
  note cp = core_cpus [OF c]
  have tc: "this_cpu t = this_cpu s" using c cp by (intro this_cpu_cong) (simp_all add: core_def)
  moreover have "c_proc (cpus t ! i) = c_proc (cpus s ! i)" if "this_cpu s = Some i" for i
  proof -
    have "i < length (cpus s)" using this_cpu_bound [OF that] by simp
    moreover have "length (cpus t) = length (cpus s)" using cp by (metis length_map)
    ultimately show ?thesis using cp by (metis nth_map)
  qed
  ultimately show ?thesis by (simp add: cur_def split: option.splits)
qed

lemma keeps_kbind: "keeps_core f \<Longrightarrow> (\<And>x. keeps_core (g x)) \<Longrightarrow> keeps_core (kbind f g)"
  unfolding keeps_core_def by (metis kbind_InrE)

lemma keeps_kseq: "keeps_core f \<Longrightarrow> keeps_core g \<Longrightarrow> keeps_core (kseq f g)"
  unfolding kseq_def by (rule keeps_kbind)

lemma keeps_basic: "keeps_core (kret x)" "keeps_core (kget h)" "keeps_core (panic msg)" "keeps_core mycpu"
  "keeps_core cli" "keeps_core sti" "keeps_core (getp i)" "keeps_core (kfail e)"
  by (auto simp: keeps_core_def mycpu_def core_def getp_def split: option.splits if_splits)

lemma keeps_if: "(b \<Longrightarrow> keeps_core f) \<Longrightarrow> (\<not> b \<Longrightarrow> keeps_core g) \<Longrightarrow> keeps_core (if b then f else g)"
  by simp

lemma keeps_modc:
  assumes "\<And>x. c_apicid (f x) = c_apicid x \<and> c_proc (f x) = c_proc x"
  shows "keeps_core (modc i f)"
proof -
  have "map (\<lambda>c. (c_apicid c, c_proc c)) (xs[i := f (xs ! i)]) = map (\<lambda>c. (c_apicid c, c_proc c)) xs" for xs
    using assms by (cases "i < length xs") (simp_all add: map_update list_update_same_conv list_update_beyond)
  then show ?thesis by (simp add: keeps_core_def core_def)
qed

lemma keeps_cli: "keeps_core pushcli" "keeps_core popcli"
  unfolding pushcli_def popcli_def by (intro keeps_kbind keeps_kseq keeps_if keeps_basic keeps_modc; simp)+

lemma myproc_res: "myproc s = Inr (p, t) \<Longrightarrow> p = cur s \<and> core t = core s"
proof -
  assume "myproc s = Inr (p, t)"
  then obtain u c where u: "pushcli s = Inr ((), u)" "mycpu u = Inr (c, u)" "p = c_proc (cpus u ! c)" "popcli u = Inr ((), t)"
    by (auto simp: myproc_def mycpu_def kbind_eq_Inr kseq_eq_Inr split: option.splits if_splits)
  have cu: "core u = core s" using keeps_cli(1) u(1) unfolding keeps_core_def by blast
  moreover have "core t = core u" using keeps_cli(2) u(4) unfolding keeps_core_def by blast
  moreover have "this_cpu u = Some c" using u(2) by (auto simp: mycpu_def split: option.splits if_splits)
  ultimately show ?thesis using cur_core [OF cu] u(3) by (auto simp: cur_def)
qed

lemma me_res:
  assumes "me s = Inr (pr, t)"
  shows "core t = core s" "\<exists>p. cur s = Some p \<and> p < length (procs s) \<and> pr = procs s ! p"
proof -
  obtain u p where u: "myproc s = Inr (Some p, u)" "getp p u = Inr (pr, t)"
    using assms by (auto simp: me_def curproc_def kbind_eq_Inr split: option.splits)
  have "core u = core s" "cur s = Some p" using myproc_res [OF u(1)] by simp_all
  moreover have "t = u" "p < length (procs u)" "pr = procs u ! p" using u(2) by (auto simp: getp_def split: if_splits)
  ultimately show "core t = core s" "\<exists>p. cur s = Some p \<and> p < length (procs s) \<and> pr = procs s ! p"
    by (simp_all add: core_def)
qed

text \<open>Clearing a bit of a word never sets a bit of another word, however they overlap.\<close>

definition mem_sub :: "memory \<Rightarrow> memory \<Rightarrow> bool" where
  "mem_sub m' m \<longleftrightarrow> (\<forall>a n. bit (m' a) n \<longrightarrow> bit (m a) n)"

lemma mem_sub_load: "mem_sub m' m \<Longrightarrow> bit (load32 m' a) n \<Longrightarrow> bit (load32 m a) n"
  by (auto simp: mem_sub_def bit_load32 split: if_splits)

lemma mem_sub_clear: "mem_sub (store32 m a (load32 m a AND w)) m"
  unfolding mem_sub_def
proof (intro allI impI)
  fix x n assume "bit (store32 m a (load32 m a AND w) x) n"
  then show "bit (m x) n"
    by (auto simp: store32_apply bit_simps bit_load32 split: if_splits dest: bit_imp_le_length)
qed

text \<open>The queue of the current process, as the loop sees it.\<close>

definition seen_clear :: "kstate \<Rightarrow> nat \<Rightarrow> nat \<Rightarrow> bool" where
  "seen_clear s i d \<longleftrightarrow> (\<forall>p j. cur s = Some p \<and> j < d \<longrightarrow>
     \<not> bit (load32 (mem s) (cq_pte (p_cq (procs s ! p) ! ((i + j) mod CLOCKSIZE)))) 5)"

lemma mycq_res:
  assumes "mycq h s = Inr (node, t)"
  shows "core t = core s" "0 \<le> h" "h < int CLOCKSIZE" "\<exists>p. cur s = Some p \<and> node = p_cq (procs s ! p) ! nat h"
proof -
  obtain pr u where u: "me s = Inr (pr, u)" "(if 0 \<le> h \<and> h < int CLOCKSIZE then kret (p_cq pr ! nat h) else kfail OutOfBounds) u = Inr (node, t)"
    using assms by (auto simp: mycq_def kbind_eq_Inr)
  then show "core t = core s" "0 \<le> h" "h < int CLOCKSIZE" "\<exists>p. cur s = Some p \<and> node = p_cq (procs s ! p) ! nat h"
    using me_res [OF u(1)] by (auto split: if_splits)
qed

lemma seen_clear_step:
  assumes sc: "seen_clear s i d" and c: "core t = core s"
    and p: "cur s = Some p" "node = p_cq (procs s ! p) ! ((i + d) mod CLOCKSIZE)"
    and m: "m = store32 (mem t) (cq_pte node) (load32 (mem t) (cq_pte node) AND NOT PTE_A)"
  shows "seen_clear (t\<lparr>mem := m\<rparr>) i (Suc d)"
  unfolding seen_clear_def
proof (intro allI impI)
  fix q j assume q: "cur (t\<lparr>mem := m\<rparr>) = Some q \<and> j < Suc d"
  have eq: "mem t = mem s" "procs t = procs s" "cur t = cur s" using c cur_core [OF c] by (simp_all add: core_def)
  have "cur (t\<lparr>mem := m\<rparr>) = cur t" by (simp add: cur_def this_cpu_def split: option.splits)
  then have [simp]: "q = p" using q p(1) eq by simp
  let ?a = "cq_pte (p_cq (procs s ! p) ! ((i + j) mod CLOCKSIZE))"
  have sub: "bit (load32 m ?a) 5 \<Longrightarrow> bit (load32 (mem t) ?a) 5" unfolding m by (rule mem_sub_load [OF mem_sub_clear])
  have "\<not> bit (load32 m ?a) 5"
  proof (cases "j = d")
    case True
    then show ?thesis using p(2) by (simp add: m bit_simps)
  next
    case False
    then show ?thesis using sub sc q p(1) eq by (auto simp: seen_clear_def)
  qed
  then show "\<not> bit (load32 (mem (t\<lparr>mem := m\<rparr>)) (cq_pte (p_cq (procs (t\<lparr>mem := m\<rparr>) ! q) ! ((i + j) mod CLOCKSIZE)))) 5"
    using eq by simp
qed

lemma cq_enset_loop_ends:
  "crem (hand + 1) (int CLOCKSIZE) = int ((i + d) mod CLOCKSIZE) \<Longrightarrow> seen_clear s i d \<Longrightarrow> d \<le> CLOCKSIZE \<Longrightarrow> CLOCKSIZE < n + d \<Longrightarrow>
   cq_enset_loop n va pte hand s \<noteq> Inl OutOfFuel"
proof (induction n arbitrary: d hand s)
  case (Suc n)
  let ?k = "(i + d) mod CLOCKSIZE"
  show ?case
  proof (cases "mycq (int ?k) s")
    case (Inl e)
    then show ?thesis using no_fuelD [OF no_fuel_mycq, of "int ?k" s] Suc.prems(1) by (simp add: Let_def kmonad)
  next
    case (Inr r)
    then obtain node t where nt: "mycq (int ?k) s = Inr (node, t)" by (cases r) simp
    obtain p where p: "cur s = Some p" "node = p_cq (procs s ! p) ! ?k" using mycq_res(4) [OF nt] by auto
    note c = mycq_res(1) [OF nt]
    let ?v = "load32 (mem t) (cq_pte node)"
    consider "cq_empty node = -1 \<or> cq_pte node = 0 \<or> \<not> bit ?v 5" | "cq_empty node \<noteq> -1" "cq_pte node \<noteq> 0" "bit ?v 5" by blast
    then show ?thesis
    proof cases
      case 1
      have "no_fuel (kbind (mencrypt (cq_va node) 1) (\<lambda>_. kseq (modcq h (\<lambda>x. x\<lparr>cq_va := va\<rparr>))
          (kseq (modcq h (\<lambda>x. x\<lparr>cq_pte := pte\<rparr>)) (kret h))))"
        and "no_fuel (kseq (modcq h (\<lambda>x. x\<lparr>cq_va := va\<rparr>)) (kseq (modcq h (\<lambda>x. x\<lparr>cq_pte := pte\<rparr>))
          (kseq (modcq h (\<lambda>x. x\<lparr>cq_empty := 0\<rparr>)) (kret h))))" for h by (intro ends)+
      note nf = this [THEN no_fuelD, of "int ?k" t]
      show ?thesis
      proof (cases "cq_empty node = -1")
        case True
        then show ?thesis using nt nf Suc.prems(1) by (simp add: Let_def kbind_def)
      next
        case False
        then show ?thesis
          using 1 nt nf Suc.prems(1) by (cases "cq_pte node = 0") (simp_all add: Let_def kbind_def and_PTE_0_iff)
      qed
    next
      case 2
      let ?m = "store32 (mem t) (cq_pte node) (?v AND NOT PTE_A)"
      have d: "d < CLOCKSIZE"
      proof (rule ccontr)
        assume "\<not> d < CLOCKSIZE"
        then have "d = CLOCKSIZE" using Suc.prems(3) by simp
        moreover have "\<forall>j<d. \<not> bit (load32 (mem s) (cq_pte (p_cq (procs s ! p) ! ((i + j) mod CLOCKSIZE)))) 5"
          using Suc.prems(2) p(1) by (simp add: seen_clear_def)
        ultimately have "\<not> bit (load32 (mem s) (cq_pte node)) 5"
          unfolding p(2) using CLOCKSIZE_pos by (metis add_0_right mod_add_self2)
        then show False using 2(3) c by (simp add: core_def)
      qed
      have "crem (int ?k + 1) (int CLOCKSIZE) = int ((i + Suc d) mod CLOCKSIZE)"
        using crem_next [of ?k] by (simp add: mod_Suc_eq)
      moreover have "seen_clear (t\<lparr>mem := ?m\<rparr>) i (Suc d)" by (rule seen_clear_step [OF Suc.prems(2) c p refl])
      ultimately have "cq_enset_loop n va pte (int ?k) (t\<lparr>mem := ?m\<rparr>) \<noteq> Inl OutOfFuel"
        using Suc.prems(4) d by (intro Suc.IH [of _ "Suc d"]) simp_all
      then show ?thesis using 2 nt Suc.prems(1) by (simp add: Let_def kmonad and_PTE_0_iff)
    qed
  qed
qed simp

lemma no_fuel_cq_member [ends]: "no_fuel (cq_member n i pte)"
  by (induction n arbitrary: i) (simp_all only: cq_member.simps, (intro ends | assumption | blast)+)

lemma no_fuel_cq_enset_loop: "no_fuel (cq_enset_loop (Suc CLOCKSIZE) va pte hand)"
  unfolding no_fuel_def
proof
  fix s
  let ?h = "crem (hand + 1) (int CLOCKSIZE)"
  show "cq_enset_loop (Suc CLOCKSIZE) va pte hand s \<noteq> Inl OutOfFuel"
  proof (cases "0 \<le> ?h \<and> ?h < int CLOCKSIZE")
    case True
    then have "nat ?h < CLOCKSIZE" by (simp add: nat_less_iff)
    then have "?h = int (nat ?h mod CLOCKSIZE)" using True by simp
    then show ?thesis
      by (intro cq_enset_loop_ends [of _ "nat ?h" 0]) (simp_all add: seen_clear_def)
  next
    case False
    have "no_fuel (kbind (mycq ?h) f)" for f :: "cq_node \<Rightarrow> int K"
      using False no_fuel_me by (auto simp: mycq_def no_fuel_def kmonad split: sum.splits)
    then show ?thesis by (simp add: Let_def no_fuel_def)
  qed
qed

lemma no_fuel_cq_enset [ends]: "no_fuel (cq_enset va)"
  unfolding cq_enset_def by (intro ends no_fuel_cq_enset_loop)

lemma no_fuel_mdecrypt [ends]: "no_fuel (mdecrypt va)"
  unfolding mdecrypt_def by (intro ends)

section \<open>Copying out and inspection\<close>

lemma no_fuel_user_access [ends]: "no_fuel (retry_access wr va)"
proof -
  have "no_fuel (kbind (mdecrypt a) (\<lambda>r. if r = 0 then mmu_access wr va else panic ''trap''))" for a by (intro ends)
  then show ?thesis
    using no_fuelD [OF no_fuel_mmu_access, of wr va]
    by (auto simp: no_fuel_def retry_access_def split: sum.splits kerr.splits)
qed

lemma no_fuel_user_words [ends]: "no_fuel (uget8 va)" "no_fuel (uput8 va b)" "no_fuel (uget32 va)" "no_fuel (uput32 va w)"
proof -
  show g: "no_fuel (uget8 va)" for va unfolding uget8_def by (intro ends)
  show p: "no_fuel (uput8 va b)" for va b unfolding uput8_def by (intro ends)
  show "no_fuel (uget32 va)" unfolding uget32_def by (intro ends g)
  show "no_fuel (uput32 va w)" unfolding uput32_def by (intro ends p)
qed

lemma no_fuel_put_pt_entry [ends]: "no_fuel (put_pt_entry a i pte)"
  unfolding put_pt_entry_def put_flag_def put_field_def by (intro ends)

lemma no_fuel_pet_in_set [ends]: "no_fuel (pet_in_set pte)"
  unfolding pet_in_set_def by (intro ends)

lemma getpgtable_loop_ends:
  "page_aligned i \<Longrightarrow> unat i < 4096 * n \<Longrightarrow> no_fuel (getpgtable_loop n entries i index num wsetOnly)"
proof (induction n arbitrary: i index)
  case (Suc n)
  have "no_fuel (getpgtable_loop n entries (i - PGSIZE) k num wsetOnly)" if nz: "i \<noteq> 0" for k
  proof -
    obtain q where q: "unat i = 4096 * q" using Suc.prems(1) unfolding page_aligned_def mod_page_0 by blast
    have q0: "q \<noteq> 0" using nz q by (metis mult_0_right unat_eq_0)
    then have "PGSIZE \<le> i" using q by (simp add: word_le_nat_alt)
    then have u: "unat (i - PGSIZE) = 4096 * (q - 1)" using unat_sub [of PGSIZE i] q by (simp add: right_diff_distrib')
    show ?thesis using Suc.prems(2) q q0 by (intro Suc.IH) (simp_all add: page_aligned_def u)
  qed
  then show ?case unfolding getpgtable_loop.simps by (intro ends) blast+
qed simp

lemma no_fuel_getpgtable [ends]: "no_fuel (getpgtable entries num wsetOnly)"
  unfolding getpgtable_def by (intro ends getpgtable_loop_ends less_trans [OF unat_lt_u32]) simp_all

lemma next_page_aligned: "page_aligned (PGROUNDDOWN va + PGSIZE)"
proof -
  obtain q where q: "unat (PGROUNDDOWN va) = 4096 * q" using page_aligned_PGROUNDDOWN [of va] unfolding page_aligned_def mod_page_0 by blast
  have "unat (PGROUNDDOWN va + PGSIZE) mod 4096 = 0"
    using q by (simp add: unat_word_ariths mod_mod_cancel)
  then show ?thesis unfolding page_aligned_def .
qed

lemma copyout_loop_ends: "page_aligned va \<Longrightarrow> unat len \<le> 4096 * n \<Longrightarrow> no_fuel (copyout_loop (Suc n) pgdir va buf len)"
proof (induction n arbitrary: va buf len)
  case (Suc n)
  let ?n = "if PGSIZE - (va - PGROUNDDOWN va) > len then len else PGSIZE - (va - PGROUNDDOWN va)"
  have n: "?n = (if PGSIZE > len then len else PGSIZE)" using Suc.prems(1) by simp
  have "unat (len - ?n) \<le> 4096 * n"
    using Suc.prems(2) unat_sub [of PGSIZE len] unfolding n by (auto simp: not_less word_le_nat_alt)
  then have "no_fuel (copyout_loop (Suc n) pgdir (PGROUNDDOWN va + PGSIZE) (buf + ?n) (len - ?n))"
    by (intro Suc.IH next_page_aligned)
  then show ?case unfolding copyout_loop.simps(2) [of "Suc n"] Let_def by (intro ends)
qed (simp add: no_fuel_def unat_eq_0)

lemma no_fuel_copyout [ends]: "no_fuel (copyout pgdir va buf len)"
proof -
  have s: "1048578 = Suc (Suc 1048576)" by simp
  have u: "unat (x :: u32) \<le> 4096 * 1048576" for x using unat_lt_u32 [of x] by simp
  show ?thesis unfolding copyout_def s copyout_loop.simps(2) [of "Suc 1048576"] Let_def
    by (intro ends copyout_loop_ends next_page_aligned u)
qed

lemma no_fuel_dump_rawphymem [ends]: "no_fuel (dump_rawphymem pa buffer)"
  unfolding dump_rawphymem_def by (intro ends)

section \<open>The loops end\<close>

text \<open>
  C28: The clock scan ends. In every state, whatever the queue, the hand and the page tables hold,
  entering a page in the working set takes at most \<open>CLOCKSIZE + 1\<close> rounds, because a page passed
  once has lost its reference bit; so a decryption request is always answered.
\<close>

theorem clock_scan_ends: "cq_enset va s \<noteq> Inl OutOfFuel \<and> mdecrypt va s \<noteq> Inl OutOfFuel"
  using no_fuel_cq_enset no_fuel_mdecrypt by (simp add: no_fuel_def)

text \<open>
  C29: The page loops end: freeing, growing and copying an address space of at most 2 GB, removing
  a queue entry, copying out and reporting the page table never exceed the number of pages.
\<close>

theorem page_loops_end:
  assumes "unat sz \<le> 2147483648"
  shows "deallocuvm pgdir sz newsz s \<noteq> Inl OutOfFuel \<and> allocuvm pgdir oldsz newsz s \<noteq> Inl OutOfFuel \<and>
    copyuvm pgdir sz s \<noteq> Inl OutOfFuel \<and> freevm pgdir s \<noteq> Inl OutOfFuel \<and> cq_remove pte s \<noteq> Inl OutOfFuel \<and>
    copyout pgdir va buf len s \<noteq> Inl OutOfFuel \<and> getpgtable entries num wsetOnly s \<noteq> Inl OutOfFuel"
  using no_fuel_deallocuvm [OF assms] no_fuel_copyuvm [OF assms] no_fuel_allocuvm no_fuel_freevm no_fuel_cq_remove
    no_fuel_copyout no_fuel_getpgtable
  by (simp add: no_fuel_def)

theorem page_loops_end_witness: "unat (0x5000 :: u32) \<le> 2147483648 \<and> copyuvm 0x80400000 0x5000 kstate0 \<noteq> Inl OutOfFuel"
  using page_loops_end [of "0x5000" "0x80400000" 0 kstate0] by simp

end
