(* ===== verification/Proc.thy ===== *)
theory Proc
  imports Kernel_Loops
begin

text \<open>
  Processes and scheduling: \<open>proc.c\<close> up to the routines that need the file system (\<open>fork\<close>, \<open>exit\<close>,
  \<open>userinit\<close> and \<open>forkret\<close> are in \<open>Proc_Life\<close>). A call of \<open>swtch\<close> takes the next state in which the
  thread is resumed, so \<open>sched\<close>, \<open>sleep\<close> and the loops around them are written as in the source;
  a loop around \<open>sleep\<close> runs at most once more than the thread is resumed.
\<close>

section \<open>Layout of trap frames and contexts\<close>

text \<open>Byte offsets in \<open>struct trapframe\<close> and \<open>struct context\<close>.\<close>

definition TF_SIZE :: u32 where "TF_SIZE = 76"
definition TF_eax :: u32 where "TF_eax = 28"
definition TF_es :: u32 where "TF_es = 40"
definition TF_ds :: u32 where "TF_ds = 44"
definition TF_trapno :: u32 where "TF_trapno = 48"
definition TF_eip :: u32 where "TF_eip = 56"
definition TF_cs :: u32 where "TF_cs = 60"
definition TF_eflags :: u32 where "TF_eflags = 64"
definition TF_esp :: u32 where "TF_esp = 68"
definition TF_ss :: u32 where "TF_ss = 72"
definition CTX_SIZE :: u32 where "CTX_SIZE = 20"
definition CTX_eip :: u32 where "CTX_eip = 16"

lemmas layout_defs = TF_SIZE_def TF_eax_def TF_es_def TF_ds_def TF_trapno_def TF_eip_def TF_cs_def TF_eflags_def
  TF_esp_def TF_ss_def CTX_SIZE_def CTX_eip_def

definition rd16 :: "u32 \<Rightarrow> u16 K" where
  "rd16 a = (if a = 0 then kfail NullDeref
     else kget (\<lambda>s. ucast (mem s a) OR push_bit 8 (ucast (mem s (a + 1)))))"

definition wr16 :: "u32 \<Rightarrow> u16 \<Rightarrow> unit K" where
  "wr16 a v = (if a = 0 then kfail NullDeref
     else kmod (\<lambda>s. s\<lparr>mem := (mem s)(a := ucast v, a + 1 := ucast (drop_bit 8 v))\<rparr>))"

section \<open>The process table\<close>

text \<open>The first entry of a table that satisfies a test.\<close>

primrec first_idx :: "('a \<Rightarrow> bool) \<Rightarrow> 'a list \<Rightarrow> nat \<Rightarrow> nat option" where
  "first_idx P [] i = None"
| "first_idx P (x # xs) i = (if P x then Some i else first_idx P xs (Suc i))"

definition pinit :: "unit K" where
  "pinit = initlock PtableLock ''ptable''"

definition allocproc :: "nat option K" where
  "allocproc =
     kseq (acquire PtableLock)
     (kbind (kget procs) (\<lambda>ps. case first_idx (\<lambda>p. p_state p = UNUSED) ps 0 of
       None \<Rightarrow> kseq (release PtableLock) (kret None)
     | Some p \<Rightarrow>
       kseq (modp p (\<lambda>x. x\<lparr>p_state := EMBRYO\<rparr>))
       (kbind (kget nextpid) (\<lambda>n.
       kseq (modp p (\<lambda>x. x\<lparr>p_pid := n\<rparr>))
       (kseq (kmod (\<lambda>s. s\<lparr>nextpid := n + 1\<rparr>))
       (kseq (release PtableLock)
       (kbind kalloc (\<lambda>k.
       kseq (modp p (\<lambda>x. x\<lparr>p_kstack := k\<rparr>))
       (if k = 0 then kseq (modp p (\<lambda>x. x\<lparr>p_state := UNUSED\<rparr>)) (kret None)
        else let tf = k + KSTACKSIZE - TF_SIZE; ra = tf - 4; ctx = ra - CTX_SIZE in
        kseq (modp p (\<lambda>x. x\<lparr>p_tf := tf\<rparr>))
        (kbind (kget sym_trapret) (\<lambda>trapret.
        kseq (wr32 ra trapret)
        (kseq (modp p (\<lambda>x. x\<lparr>p_context := ctx\<rparr>))
        (kseq (kmemset ctx 0 CTX_SIZE)
        (kbind (kget sym_forkret) (\<lambda>forkret.
        kseq (wr32 (ctx + CTX_eip) forkret)
        (kret (Some p)))))))))))))))))"

text \<open>Division of C integers truncates towards zero.\<close>

definition cdiv :: "int \<Rightarrow> int \<Rightarrow> int" where
  "cdiv a b = (if a < 0 then - ((- a) div b) else a div b)"

definition growproc :: "int \<Rightarrow> int K" where
  "growproc n =
     kbind curproc (\<lambda>p.
     kbind (getp p) (\<lambda>pr.
     kbind (if n > 0 then allocuvm (p_pgdir pr) (p_sz pr) (p_sz pr + of_int n)
            else if n < 0 then deallocuvm (p_pgdir pr) (p_sz pr) (p_sz pr + of_int n)
            else kret (p_sz pr)) (\<lambda>sz.
     if n \<noteq> 0 \<and> sz = 0 then kret (-1)
     else kseq (modp p (\<lambda>x. x\<lparr>p_sz := sz\<rparr>))
     (kseq (switchuvm (Some p))
     (kbind (mencrypt (PGROUNDUP (sz - of_int n)) (cdiv n (uint PGSIZE))) (\<lambda>r.
     if r \<noteq> 0 then kret (-1) else kret 0))))))"

section \<open>Switching\<close>

definition swtch :: "unit K" where
  "swtch = (\<lambda>s. case resumes s of
       [] \<Rightarrow> Inl (Swtch s)
     | t # ts \<Rightarrow> Inr ((), kcore.extend t (kstate.fields ts)))"

definition sched :: "unit K" where
  "sched =
     kbind myproc (\<lambda>po.
     kbind (holding PtableLock) (\<lambda>h.
     if \<not> h then panic ''sched ptable.lock''
     else kbind mycpu (\<lambda>c. kbind (kget (\<lambda>s. c_ncli (cpus s ! c))) (\<lambda>ncli.
     if ncli \<noteq> 1 then panic ''sched locks''
     else case po of None \<Rightarrow> kfail NullDeref | Some p \<Rightarrow>
     kbind (getp p) (\<lambda>pr.
     if p_state pr = RUNNING then panic ''sched running''
     else kbind (kget eflags) (\<lambda>fl.
     if fl AND FL_IF \<noteq> 0 then panic ''sched interruptible''
     else kbind mycpu (\<lambda>c. kbind (kget (\<lambda>s. c_intena (cpus s ! c))) (\<lambda>intena.
     kseq swtch
     (kbind mycpu (\<lambda>c. modc c (\<lambda>x. x\<lparr>c_intena := intena\<rparr>)))))))))))"

definition yield :: "unit K" where
  "yield =
     kseq (acquire PtableLock)
     (kseq (modme (\<lambda>x. x\<lparr>p_state := RUNNABLE\<rparr>))
     (kseq sched
     (release PtableLock)))"

definition sleep :: "chan \<Rightarrow> lockref \<Rightarrow> unit K" where
  "sleep ch lk =
     kbind myproc (\<lambda>po. case po of None \<Rightarrow> panic ''sleep'' | Some p \<Rightarrow>
     kseq (if lk \<noteq> PtableLock then kseq (acquire PtableLock) (release lk) else kret ())
     (kseq (modp p (\<lambda>x. x\<lparr>p_chan := ch\<rparr>))
     (kseq (modp p (\<lambda>x. x\<lparr>p_state := SLEEPING\<rparr>))
     (kseq sched
     (kseq (modp p (\<lambda>x. x\<lparr>p_chan := NoChan\<rparr>))
     (if lk \<noteq> PtableLock then kseq (release PtableLock) (acquire lk) else kret ()))))))"

definition wakeup1 :: "chan \<Rightarrow> unit K" where
  "wakeup1 ch = kmod (\<lambda>s. s\<lparr>procs := map (\<lambda>p.
     if p_state p = SLEEPING \<and> p_chan p = ch then p\<lparr>p_state := RUNNABLE\<rparr> else p) (procs s)\<rparr>)"

definition wakeup :: "chan \<Rightarrow> unit K" where
  "wakeup ch =
     kseq (acquire PtableLock)
     (kseq (wakeup1 ch)
     (release PtableLock))"

definition kill :: "int \<Rightarrow> int K" where
  "kill pid =
     kseq (acquire PtableLock)
     (kbind (kget procs) (\<lambda>ps. case first_idx (\<lambda>p. p_pid p = pid) ps 0 of
       None \<Rightarrow> kseq (release PtableLock) (kret (-1))
     | Some p \<Rightarrow>
       kseq (modp p (\<lambda>x. x\<lparr>p_killed := 1\<rparr>))
       (kseq (cq_init p)
       (kseq (modp p (\<lambda>x. if p_state x = SLEEPING then x\<lparr>p_state := RUNNABLE\<rparr> else x))
       (kseq (release PtableLock)
       (kret 0))))))"

section \<open>Waiting for children\<close>

text \<open>A loop that sleeps is resumed at most as often as \<open>resumes\<close> says.\<close>

definition wakeups :: "nat K" where
  "wakeups = kget (\<lambda>s. Suc (length (resumes s)))"

text \<open>Freeing the table entry of the exited child \<open>p\<close>.\<close>

definition wait_reap :: "nat \<Rightarrow> int K" where
  "wait_reap p =
     kbind (getp p) (\<lambda>pr.
     kseq (kfree (p_kstack pr))
     (kseq (modp p (\<lambda>x. x\<lparr>p_kstack := 0\<rparr>))
     (kseq (freevm (p_pgdir pr))
     (kseq (modp p (\<lambda>x. x\<lparr>p_pid := 0\<rparr>))
     (kseq (modp p (\<lambda>x. x\<lparr>p_parent := None\<rparr>))
     (kseq (modp p (\<lambda>x. x\<lparr>p_name := (p_name x)[0 := 0]\<rparr>))
     (kseq (modp p (\<lambda>x. x\<lparr>p_killed := 0\<rparr>))
     (kseq (modp p (\<lambda>x. x\<lparr>p_state := UNUSED\<rparr>))
     (kseq (release PtableLock)
     (kret (p_pid pr)))))))))))"

fun wait_loop :: "nat \<Rightarrow> nat \<Rightarrow> int K" where
  "wait_loop 0 cp = kfail OutOfFuel"
| "wait_loop (Suc n) cp =
     kbind (kget procs) (\<lambda>ps. case first_idx (\<lambda>p. p_parent p = Some cp \<and> p_state p = ZOMBIE) ps 0 of
       Some p \<Rightarrow> wait_reap p
     | None \<Rightarrow>
       kbind (getp cp) (\<lambda>me.
       if \<not> (\<exists>p\<in>set ps. p_parent p = Some cp) \<or> p_killed me \<noteq> 0
       then kseq (release PtableLock) (kret (-1))
       else kseq (sleep (ProcChan cp) PtableLock) (wait_loop n cp)))"

definition wait :: "int K" where
  "wait =
     kbind curproc (\<lambda>cp.
     kseq (acquire PtableLock)
     (kbind wakeups (\<lambda>n. wait_loop n cp)))"

section \<open>The scheduler\<close>

text \<open>
  One pass over the table from entry \<open>i\<close>. The first \<open>n\<close> entries from there are visited; \<open>swtch\<close>
  runs the chosen process until it jumps back.
\<close>

fun scheduler_pass :: "nat \<Rightarrow> nat \<Rightarrow> nat \<Rightarrow> unit K" where
  "scheduler_pass 0 i c = kret ()"
| "scheduler_pass (Suc n) i c =
     kbind (getp i) (\<lambda>p.
     if p_state p \<noteq> RUNNABLE then scheduler_pass n (Suc i) c
     else kseq (modc c (\<lambda>x. x\<lparr>c_proc := Some i\<rparr>))
     (kseq (switchuvm (Some i))
     (kseq (modp i (\<lambda>x. x\<lparr>p_state := RUNNING\<rparr>))
     (kseq swtch
     (kseq switchkvm
     (kseq (modc c (\<lambda>x. x\<lparr>c_proc := None\<rparr>))
     (scheduler_pass n (Suc i) c)))))))"

definition scheduler_round :: "nat \<Rightarrow> unit K" where
  "scheduler_round c =
     kseq sti
     (kseq (acquire PtableLock)
     (kseq (scheduler_pass NPROC 0 c)
     (release PtableLock)))"

text \<open>The scheduler never returns; this is its first \<open>n\<close> rounds.\<close>

fun scheduler_loop :: "nat \<Rightarrow> nat \<Rightarrow> unit K" where
  "scheduler_loop 0 c = kret ()"
| "scheduler_loop (Suc n) c = kseq (scheduler_round c) (scheduler_loop n c)"

definition scheduler :: "nat \<Rightarrow> unit K" where
  "scheduler n =
     kbind mycpu (\<lambda>c.
     kseq (modc c (\<lambda>x. x\<lparr>c_proc := None\<rparr>))
     (scheduler_loop n c))"

end
