(* ===== verification/Cstring.thy ===== *)
theory Cstring
  imports Proc
begin

text \<open>
  The string routines of \<open>string.c\<close> on byte lists, and bytes of structures: little-endian words
  inside a block, directory entries and inodes on disk. A string is a list of bytes that ends
  at the first 0 or at the end of the list. A destination is the array's old contents. The names
  of the source that clash with library names carry the prefix \<open>c_\<close>.
\<close>

section \<open>Strings\<close>

text \<open>The character a string pointer points at.\<close>

definition chr :: "u8 list \<Rightarrow> u8" where
  "chr t = (case t of [] \<Rightarrow> 0 | c # _ \<Rightarrow> c)"

lemma chr_simps [simp]: "chr [] = 0" "chr (c # t) = c"
  by (simp_all add: chr_def)

fun memcmp :: "u8 list \<Rightarrow> u8 list \<Rightarrow> nat \<Rightarrow> int" where
  "memcmp s1 s2 0 = 0"
| "memcmp s1 s2 (Suc n) = (if chr s1 \<noteq> chr s2 then uint (chr s1) - uint (chr s2) else memcmp (tl s1) (tl s2) n)"

fun strncmp :: "u8 list \<Rightarrow> u8 list \<Rightarrow> nat \<Rightarrow> int" where
  "strncmp p q 0 = 0"
| "strncmp p q (Suc n) = (if chr p \<noteq> 0 \<and> chr p = chr q then strncmp (tl p) (tl q) n
     else uint (chr p) - uint (chr q))"

definition zero_fill :: "nat \<Rightarrow> u8 list \<Rightarrow> u8 list" where
  "zero_fill n s = replicate (min n (length s)) 0 @ drop n s"

fun strncpy :: "u8 list \<Rightarrow> u8 list \<Rightarrow> nat \<Rightarrow> u8 list" where
  "strncpy s t 0 = s"
| "strncpy [] t (Suc n) = []"
| "strncpy (x # s) t (Suc n) = chr t # (if chr t \<noteq> 0 then strncpy s (tl t) n else zero_fill n s)"

text \<open>
  The loop of \<open>safestrcpy\<close> with \<open>n\<close> already decremented. Storing the terminator moves the
  pointer on, and the last statement stores a second one there.
\<close>

fun safestrcpy_loop :: "u8 list \<Rightarrow> u8 list \<Rightarrow> nat \<Rightarrow> u8 list" where
  "safestrcpy_loop [] t n = []"
| "safestrcpy_loop (x # s) t 0 = 0 # s"
| "safestrcpy_loop (x # s) t (Suc n) =
     chr t # (if chr t \<noteq> 0 then safestrcpy_loop s (tl t) n else case s of [] \<Rightarrow> [] | y # s' \<Rightarrow> 0 # s')"

definition safestrcpy :: "u8 list \<Rightarrow> u8 list \<Rightarrow> nat \<Rightarrow> u8 list" where
  "safestrcpy s t n = (case n of 0 \<Rightarrow> s | Suc k \<Rightarrow> safestrcpy_loop s t k)"

fun strlen :: "u8 list \<Rightarrow> nat" where
  "strlen [] = 0"
| "strlen (c # s) = (if c = 0 then 0 else Suc (strlen s))"

text \<open>The string a buffer holds, and its part within \<open>n\<close> bytes.\<close>

definition cstr :: "u8 list \<Rightarrow> u8 list" where
  "cstr s = takeWhile (\<lambda>c. c \<noteq> 0) s"

definition cstrn :: "nat \<Rightarrow> u8 list \<Rightarrow> u8 list" where
  "cstrn n s = cstr (take n s)"

lemma cstr_simps [simp]: "cstr [] = []" "cstr (c # s) = (if c = 0 then [] else c # cstr s)"
  by (simp_all add: cstr_def)

lemma cstrn_simps [simp]: "cstrn 0 s = []" "cstrn n [] = []"
  "cstrn (Suc n) (c # s) = (if c = 0 then [] else c # cstrn n s)"
  by (simp_all add: cstrn_def)

lemma cstrn_Suc: "cstrn (Suc n) s = (if chr s = 0 then [] else chr s # cstrn n (tl s))"
  by (cases s) simp_all

lemma strlen_cstr: "strlen s = length (cstr s)"
  by (induction s) simp_all

lemma length_strncpy [simp]: "length (strncpy s t n) = length s"
  by (induction s t n rule: strncpy.induct) (auto simp: zero_fill_def)

lemma cstrn_zero_fill: "n \<le> length s \<Longrightarrow> cstrn n (zero_fill n s) = []"
  by (cases n) (simp_all add: zero_fill_def cstrn_def min_def)

lemma cstrn_strncpy: "n \<le> length s \<Longrightarrow> cstrn n (strncpy s t n) = cstrn n t"
  by (induction s t n rule: strncpy.induct) (auto simp: cstrn_Suc)

lemma strncpy_zeros: "n = length s \<Longrightarrow> strncpy s t n = cstrn n t @ replicate (n - length (cstrn n t)) 0"
  by (induction s t n rule: strncpy.induct) (auto simp: cstrn_Suc zero_fill_def)

lemma strncmp_0_iff: "strncmp p q n = 0 \<longleftrightarrow> cstrn n p = cstrn n q"
proof (induction p q n rule: strncmp.induct)
  case (2 p q n)
  have "uint (chr p) - uint (chr q) = 0 \<longleftrightarrow> chr p = chr q" by (simp add: word_uint_eq_iff)
  then show ?case using 2 by (auto simp: cstrn_Suc)
qed simp

lemma memcmp_0_iff: "n \<le> length p \<Longrightarrow> n \<le> length q \<Longrightarrow> memcmp p q n = 0 \<longleftrightarrow> take n p = take n q"
proof (induction p q n rule: memcmp.induct)
  case (2 p q n)
  then obtain x p' y q' where "p = x # p'" "q = y # q'" by (cases p; cases q) auto
  then show ?case using 2 by (auto simp: word_uint_eq_iff)
qed simp

lemma length_safestrcpy_loop: "length (safestrcpy_loop s t n) = length s"
  by (induction s t n rule: safestrcpy_loop.induct) (auto split: list.splits)

lemma length_safestrcpy [simp]: "length (safestrcpy s t n) = length s"
  by (simp add: safestrcpy_def length_safestrcpy_loop split: nat.splits)

lemma cstr_safestrcpy_loop: "n < length s \<Longrightarrow> cstr (safestrcpy_loop s t n) = cstrn n t"
  by (induction s t n rule: safestrcpy_loop.induct) (auto simp: cstrn_Suc)

lemma cstr_safestrcpy: "0 < n \<Longrightarrow> n \<le> length s \<Longrightarrow> cstr (safestrcpy s t n) = cstrn (n - 1) t"
  by (cases n) (simp_all add: safestrcpy_def cstr_safestrcpy_loop)

section \<open>Words inside a block\<close>

definition le16 :: "u8 list \<Rightarrow> nat \<Rightarrow> u16" where
  "le16 d i = ucast (d ! i) OR push_bit 8 (ucast (d ! (i + 1)))"

definition le32 :: "u8 list \<Rightarrow> nat \<Rightarrow> u32" where
  "le32 d i = ucast (d ! i) OR push_bit 8 (ucast (d ! (i + 1))) OR push_bit 16 (ucast (d ! (i + 2))) OR
     push_bit 24 (ucast (d ! (i + 3)))"

definition bytes16 :: "u16 \<Rightarrow> u8 list" where
  "bytes16 v = [ucast v, ucast (drop_bit 8 v)]"

definition bytes32 :: "u32 \<Rightarrow> u8 list" where
  "bytes32 v = [ucast v, ucast (drop_bit 8 v), ucast (drop_bit 16 v), ucast (drop_bit 24 v)]"

text \<open>Overwriting part of an array; the caller keeps it inside.\<close>

definition splice :: "u8 list \<Rightarrow> nat \<Rightarrow> u8 list \<Rightarrow> u8 list" where
  "splice d i bs = take i d @ bs @ drop (i + length bs) d"

definition put16 :: "u8 list \<Rightarrow> nat \<Rightarrow> u16 \<Rightarrow> u8 list" where
  "put16 d i v = splice d i (bytes16 v)"

definition put32 :: "u8 list \<Rightarrow> nat \<Rightarrow> u32 \<Rightarrow> u8 list" where
  "put32 d i v = splice d i (bytes32 v)"

lemma length_bytes [simp]: "length (bytes16 v) = 2" "length (bytes32 w) = 4"
  by (simp_all add: bytes16_def bytes32_def)

lemma length_splice [simp]: "i + length bs \<le> length d \<Longrightarrow> length (splice d i bs) = length d"
  by (simp add: splice_def)

lemma nth_splice:
  "i + length bs \<le> length d \<Longrightarrow> k < length d \<Longrightarrow>
   splice d i bs ! k = (if i \<le> k \<and> k < i + length bs then bs ! (k - i) else d ! k)"
  by (auto simp: splice_def nth_append)

lemma length_put [simp]: "i + 2 \<le> length d \<Longrightarrow> length (put16 d i v) = length d"
  "i + 4 \<le> length d \<Longrightarrow> length (put32 d i w) = length d"
  by (simp_all add: put16_def put32_def)

lemma le16_put16 [simp]: "i + 2 \<le> length d \<Longrightarrow> le16 (put16 d i v) i = v"
  by (rule bit_eqI) (auto simp: le16_def put16_def nth_splice bytes16_def bit_simps nth_Cons')

lemma bit_le32:
  "bit (le32 d i) n =
     (if n < 8 then bit (d ! i) n else if n < 16 then bit (d ! (i + 1)) (n - 8)
      else if n < 24 then bit (d ! (i + 2)) (n - 16) else bit (d ! (i + 3)) (n - 24))"
  by (auto simp: le32_def bit_simps dest: bit_imp_le_length)

lemma le32_put32 [simp]: "i + 4 \<le> length d \<Longrightarrow> le32 (put32 d i v) i = v"
  by (rule bit_eqI) (auto simp: bit_le32 put32_def nth_splice bytes32_def bit_simps nth_Cons')

lemma le32_put32_other:
  "i + 4 \<le> length d \<Longrightarrow> j + 4 \<le> length d \<Longrightarrow> j + 4 \<le> i \<or> i + 4 \<le> j \<Longrightarrow> le32 (put32 d i v) j = le32 d j"
  by (auto simp: le32_def put32_def nth_splice)

lemma nth_put32_other:
  "i + 4 \<le> length d \<Longrightarrow> k < length d \<Longrightarrow> k < i \<or> i + 4 \<le> k \<Longrightarrow> put32 d i v ! k = d ! k"
  by (auto simp: put32_def nth_splice)

end
