(* ===== verification/Sleeplock.thy ===== *)
theory Sleeplock
  imports Cstring
begin

text \<open>
  Access to the kernel's tables (buffers, inodes, files, pipes) and sleeping locks
  (\<open>sleeplock.c\<close>). A sleeping lock is part of the buffer or inode it protects.
\<close>

section \<open>Tables\<close>

definition getb :: "nat \<Rightarrow> buf K" where
  "getb b = (\<lambda>s. if b < length (bcache s) then Inr (bcache s ! b, s) else Inl OutOfBounds)"

definition modb :: "nat \<Rightarrow> (buf \<Rightarrow> buf) \<Rightarrow> unit K" where
  "modb b f = (\<lambda>s. if b < length (bcache s)
     then Inr ((), s\<lparr>bcache := (bcache s)[b := f (bcache s ! b)]\<rparr>) else Inl OutOfBounds)"

definition geti :: "nat \<Rightarrow> inode K" where
  "geti i = (\<lambda>s. if i < length (icache s) then Inr (icache s ! i, s) else Inl OutOfBounds)"

definition modi :: "nat \<Rightarrow> (inode \<Rightarrow> inode) \<Rightarrow> unit K" where
  "modi i f = (\<lambda>s. if i < length (icache s)
     then Inr ((), s\<lparr>icache := (icache s)[i := f (icache s ! i)]\<rparr>) else Inl OutOfBounds)"

definition getf :: "nat \<Rightarrow> file_t K" where
  "getf i = (\<lambda>s. if i < length (ftable s) then Inr (ftable s ! i, s) else Inl OutOfBounds)"

definition modf :: "nat \<Rightarrow> (file_t \<Rightarrow> file_t) \<Rightarrow> unit K" where
  "modf i f = (\<lambda>s. if i < length (ftable s)
     then Inr ((), s\<lparr>ftable := (ftable s)[i := f (ftable s ! i)]\<rparr>) else Inl OutOfBounds)"

definition getlog :: "log K" where
  "getlog = kget klog"

definition modlog :: "(log \<Rightarrow> log) \<Rightarrow> unit K" where
  "modlog f = kmod (\<lambda>s. s\<lparr>klog := f (klog s)\<rparr>)"

lemma getb_run [simp, kmonad]: "b < length (bcache s) \<Longrightarrow> getb b s = Inr (bcache s ! b, s)"
  by (simp add: getb_def)

lemma modb_run [simp, kmonad]:
  "b < length (bcache s) \<Longrightarrow> modb b f s = Inr ((), s\<lparr>bcache := (bcache s)[b := f (bcache s ! b)]\<rparr>)"
  by (simp add: modb_def)

lemma geti_run [simp, kmonad]: "i < length (icache s) \<Longrightarrow> geti i s = Inr (icache s ! i, s)"
  by (simp add: geti_def)

lemma modi_run [simp, kmonad]:
  "i < length (icache s) \<Longrightarrow> modi i f s = Inr ((), s\<lparr>icache := (icache s)[i := f (icache s ! i)]\<rparr>)"
  by (simp add: modi_def)

lemma getf_run [simp, kmonad]: "i < length (ftable s) \<Longrightarrow> getf i s = Inr (ftable s ! i, s)"
  by (simp add: getf_def)

lemma modf_run [simp, kmonad]:
  "i < length (ftable s) \<Longrightarrow> modf i f s = Inr ((), s\<lparr>ftable := (ftable s)[i := f (ftable s ! i)]\<rparr>)"
  by (simp add: modf_def)

lemma getlog_run [simp, kmonad]: "getlog s = Inr (klog s, s)"
  by (simp add: getlog_def)

lemma modlog_run [simp, kmonad]: "modlog f s = Inr ((), s\<lparr>klog := f (klog s)\<rparr>)"
  by (simp add: modlog_def)

section \<open>Sleeping locks\<close>

fun slk_get :: "sleepref \<Rightarrow> sleeplock K" where
  "slk_get (BufSleep b) = kbind (getb b) (\<lambda>x. kret (b_lock x))"
| "slk_get (InodeSleep i) = kbind (geti i) (\<lambda>x. kret (ip_lock x))"

fun slk_mod :: "sleepref \<Rightarrow> (sleeplock \<Rightarrow> sleeplock) \<Rightarrow> unit K" where
  "slk_mod (BufSleep b) f = modb b (\<lambda>x. x\<lparr>b_lock := f (b_lock x)\<rparr>)"
| "slk_mod (InodeSleep i) f = modi i (\<lambda>x. x\<lparr>ip_lock := f (ip_lock x)\<rparr>)"

definition initsleeplock :: "sleepref \<Rightarrow> string \<Rightarrow> unit K" where
  "initsleeplock lk nm =
     kseq (initlock (SleepLk lk) ''sleep lock'')
     (kseq (slk_mod lk (\<lambda>l. l\<lparr>slk_name := nm\<rparr>))
     (kseq (slk_mod lk (\<lambda>l. l\<lparr>slk_locked := 0\<rparr>))
     (slk_mod lk (\<lambda>l. l\<lparr>slk_pid := 0\<rparr>))))"

fun acquiresleep_wait :: "nat \<Rightarrow> sleepref \<Rightarrow> unit K" where
  "acquiresleep_wait 0 lk = kfail OutOfFuel"
| "acquiresleep_wait (Suc n) lk =
     kbind (slk_get lk) (\<lambda>l.
     if slk_locked l \<noteq> 0 then kseq (sleep (SleepChan lk) (SleepLk lk)) (acquiresleep_wait n lk)
     else kret ())"

definition acquiresleep :: "sleepref \<Rightarrow> unit K" where
  "acquiresleep lk =
     kseq (acquire (SleepLk lk))
     (kseq (kbind wakeups (\<lambda>n. acquiresleep_wait n lk))
     (kseq (slk_mod lk (\<lambda>l. l\<lparr>slk_locked := 1\<rparr>))
     (kbind me (\<lambda>p.
     kseq (slk_mod lk (\<lambda>l. l\<lparr>slk_pid := p_pid p\<rparr>))
     (release (SleepLk lk))))))"

definition releasesleep :: "sleepref \<Rightarrow> unit K" where
  "releasesleep lk =
     kseq (acquire (SleepLk lk))
     (kseq (slk_mod lk (\<lambda>l. l\<lparr>slk_locked := 0\<rparr>))
     (kseq (slk_mod lk (\<lambda>l. l\<lparr>slk_pid := 0\<rparr>))
     (kseq (wakeup (SleepChan lk))
     (release (SleepLk lk)))))"

definition holdingsleep :: "sleepref \<Rightarrow> bool K" where
  "holdingsleep lk =
     kseq (acquire (SleepLk lk))
     (kbind (slk_get lk) (\<lambda>l.
     kbind (if slk_locked l \<noteq> 0 then kbind me (\<lambda>p. kret (slk_pid l = p_pid p)) else kret False) (\<lambda>r.
     kseq (release (SleepLk lk)) (kret r))))"

end
