(* ===== verification/Bio.thy ===== *)
theory Bio
  imports Sleeplock
begin

text \<open>
  The block device and the buffer cache. \<open>iderw\<close> is the in-memory disk of \<open>memide.c\<close>, the driver
  of the kernel that carries its file system image; the driver for the disk controller is in
  \<open>Ide\<close>. The buffer cache (\<open>bio.c\<close>) is a table of buffers linked into a ring through \<open>prev\<close> and
  \<open>next\<close>, most recently released first.
\<close>

section \<open>The in-memory disk\<close>

text \<open>\<open>img\<close> and \<open>img_size\<close> are the file system image the linker put into the kernel. The history of
  device accesses records the blocks written, so that the states of the disk between two writes
  can be told.\<close>

definition ideinit :: "(u32 \<Rightarrow> u8 list) \<Rightarrow> u32 \<Rightarrow> unit K" where
  "ideinit img img_size = kmod (\<lambda>s. s\<lparr>memdisk := img, disksize := uint img_size div int BSIZE\<rparr>)"

definition ideintr :: "unit K" where
  "ideintr = kret ()"

definition iderw :: "nat \<Rightarrow> unit K" where
  "iderw b =
     kbind (holdingsleep (BufSleep b)) (\<lambda>h.
     if \<not> h then panic ''iderw: buf not locked''
     else kbind (getb b) (\<lambda>x.
     if b_flags x AND (B_VALID OR B_DIRTY) = B_VALID then panic ''iderw: nothing to do''
     else if b_dev x \<noteq> 1 then panic ''iderw: request not for disk 1''
     else kbind (kget disksize) (\<lambda>n.
     if b_blockno x \<ge> of_int n then panic ''iderw: block out of range''
     else kseq
       (if b_flags x AND B_DIRTY \<noteq> 0 then
          kseq (modb b (\<lambda>y. y\<lparr>b_flags := b_flags y AND NOT B_DIRTY\<rparr>))
          (kmod (\<lambda>s. s\<lparr>memdisk := (memdisk s)(b_blockno x := b_data x),
            iolog := iolog s @ [DiskWrite (b_blockno x) (b_data x)]\<rparr>))
        else kbind (kget (\<lambda>s. memdisk s (b_blockno x))) (\<lambda>d. modb b (\<lambda>y. y\<lparr>b_data := d\<rparr>)))
     (modb b (\<lambda>y. y\<lparr>b_flags := b_flags y OR B_VALID\<rparr>)))))"

section \<open>The buffer cache\<close>

abbreviation head :: nat where "head \<equiv> NBUF"

text \<open>Linking buffer \<open>b\<close> in behind the head, as at the end of \<open>brelse\<close> and in \<open>binit\<close>.\<close>

definition link_front :: "nat \<Rightarrow> unit K" where
  "link_front b =
     kbind (getb head) (\<lambda>h.
     kseq (modb (b_next h) (\<lambda>x. x\<lparr>b_prev := b\<rparr>))
     (modb head (\<lambda>x. x\<lparr>b_next := b\<rparr>)))"

fun binit_loop :: "nat \<Rightarrow> nat \<Rightarrow> unit K" where
  "binit_loop 0 b = kret ()"
| "binit_loop (Suc n) b =
     kbind (getb head) (\<lambda>h.
     kseq (modb b (\<lambda>x. x\<lparr>b_next := b_next h\<rparr>))
     (kseq (modb b (\<lambda>x. x\<lparr>b_prev := head\<rparr>))
     (kseq (initsleeplock (BufSleep b) ''buffer'')
     (kseq (link_front b)
     (binit_loop n (Suc b))))))"

definition binit :: "unit K" where
  "binit =
     kseq (initlock BcacheLock ''bcache'')
     (kseq (modb head (\<lambda>x. x\<lparr>b_prev := head\<rparr>))
     (kseq (modb head (\<lambda>x. x\<lparr>b_next := head\<rparr>))
     (binit_loop NBUF 0)))"

text \<open>
  The two searches of \<open>bget\<close>. A walk around the ring ends at the head; the number of buffers
  bounds it.
\<close>

fun bget_cached :: "nat \<Rightarrow> nat \<Rightarrow> u32 \<Rightarrow> u32 \<Rightarrow> nat option K" where
  "bget_cached 0 b dev blockno = kfail OutOfFuel"
| "bget_cached (Suc n) b dev blockno =
     (if b = head then kret None
      else kbind (getb b) (\<lambda>x.
      if b_dev x = dev \<and> b_blockno x = blockno then kret (Some b)
      else bget_cached n (b_next x) dev blockno))"

fun bget_unused :: "nat \<Rightarrow> nat \<Rightarrow> nat option K" where
  "bget_unused 0 b = kfail OutOfFuel"
| "bget_unused (Suc n) b =
     (if b = head then kret None
      else kbind (getb b) (\<lambda>x.
      if b_refcnt x = 0 \<and> b_flags x AND B_DIRTY = 0 then kret (Some b)
      else bget_unused n (b_prev x)))"

definition bget :: "u32 \<Rightarrow> u32 \<Rightarrow> nat K" where
  "bget dev blockno =
     kseq (acquire BcacheLock)
     (kbind (getb head) (\<lambda>h.
     kbind (bget_cached (Suc NBUF) (b_next h) dev blockno) (\<lambda>r. case r of
       Some b \<Rightarrow>
         kseq (modb b (\<lambda>x. x\<lparr>b_refcnt := b_refcnt x + 1\<rparr>))
         (kseq (release BcacheLock)
         (kseq (acquiresleep (BufSleep b))
         (kret b)))
     | None \<Rightarrow>
       kbind (bget_unused (Suc NBUF) (b_prev h)) (\<lambda>r. case r of
         Some b \<Rightarrow>
           kseq (modb b (\<lambda>x. x\<lparr>b_dev := dev\<rparr>))
           (kseq (modb b (\<lambda>x. x\<lparr>b_blockno := blockno\<rparr>))
           (kseq (modb b (\<lambda>x. x\<lparr>b_flags := 0\<rparr>))
           (kseq (modb b (\<lambda>x. x\<lparr>b_refcnt := 1\<rparr>))
           (kseq (release BcacheLock)
           (kseq (acquiresleep (BufSleep b))
           (kret b))))))
       | None \<Rightarrow> panic ''bget: no buffers''))))"

definition bread :: "u32 \<Rightarrow> u32 \<Rightarrow> nat K" where
  "bread dev blockno =
     kbind (bget dev blockno) (\<lambda>b.
     kbind (getb b) (\<lambda>x.
     kseq (if b_flags x AND B_VALID = 0 then iderw b else kret ())
     (kret b)))"

definition bwrite :: "nat \<Rightarrow> unit K" where
  "bwrite b =
     kbind (holdingsleep (BufSleep b)) (\<lambda>h.
     if \<not> h then panic ''bwrite''
     else kseq (modb b (\<lambda>x. x\<lparr>b_flags := b_flags x OR B_DIRTY\<rparr>))
     (iderw b))"

text \<open>Unlinking a buffer and linking it in at the front.\<close>

definition move_front :: "nat \<Rightarrow> unit K" where
  "move_front b =
     kbind (getb b) (\<lambda>x.
     kseq (modb (b_next x) (\<lambda>y. y\<lparr>b_prev := b_prev x\<rparr>))
     (kseq (modb (b_prev x) (\<lambda>y. y\<lparr>b_next := b_next x\<rparr>))
     (kbind (getb head) (\<lambda>h.
     kseq (modb b (\<lambda>y. y\<lparr>b_next := b_next h\<rparr>))
     (kseq (modb b (\<lambda>y. y\<lparr>b_prev := head\<rparr>))
     (link_front b))))))"

definition brelse :: "nat \<Rightarrow> unit K" where
  "brelse b =
     kbind (holdingsleep (BufSleep b)) (\<lambda>h.
     if \<not> h then panic ''brelse''
     else kseq (releasesleep (BufSleep b))
     (kseq (acquire BcacheLock)
     (kseq (modb b (\<lambda>x. x\<lparr>b_refcnt := b_refcnt x - 1\<rparr>))
     (kbind (getb b) (\<lambda>x.
     kseq (if b_refcnt x = 0 then move_front b else kret ())
     (release BcacheLock))))))"

end
