(* ===== verification/Log.thy ===== *)
theory Log
  imports Bio
begin

text \<open>
  The redo log (\<open>log.c\<close>) and \<open>readsb\<close> of \<open>fs.c\<close>, which it calls. A transaction's blocks are
  collected in the header in memory, copied to the log area, committed by writing the header and
  then installed at their home locations; recovery after a crash installs what the header on disk
  names.
\<close>

section \<open>The super block\<close>

definition sb_of :: "u8 list \<Rightarrow> superblock" where
  "sb_of d = \<lparr>sb_size = le32 d 0, sb_nblocks = le32 d 4, sb_ninodes = le32 d 8, sb_nlog = le32 d 12,
     sb_logstart = le32 d 16, sb_inodestart = le32 d 20, sb_bmapstart = le32 d 24\<rparr>"

definition readsb :: "u32 \<Rightarrow> superblock K" where
  "readsb dev =
     kbind (bread dev 1) (\<lambda>bp.
     kbind (getb bp) (\<lambda>x.
     kseq (brelse bp)
     (kret (sb_of (b_data x)))))"

section \<open>Installing and headers\<close>

text \<open>\<open>log.lh.block[i]\<close>\<close>

definition lh_block :: "nat \<Rightarrow> u32 K" where
  "lh_block i = kbind getlog (\<lambda>l. if i < LOGSIZE then kret (lg_block l ! i) else kfail OutOfBounds)"

definition set_lh_block :: "nat \<Rightarrow> u32 \<Rightarrow> unit K" where
  "set_lh_block i v =
     (if i < LOGSIZE then modlog (\<lambda>l. l\<lparr>lg_block := (lg_block l)[i := v]\<rparr>) else kfail OutOfBounds)"

fun install_loop :: "nat \<Rightarrow> nat \<Rightarrow> unit K" where
  "install_loop 0 tail = kret ()"
| "install_loop (Suc n) tail =
     kbind getlog (\<lambda>l.
     kbind (bread (lg_dev l) (lg_start l + of_nat tail + 1)) (\<lambda>lbuf.
     kbind (lh_block tail) (\<lambda>dst.
     kbind (bread (lg_dev l) dst) (\<lambda>dbuf.
     kbind (getb lbuf) (\<lambda>x.
     kseq (modb dbuf (\<lambda>y. y\<lparr>b_data := b_data x\<rparr>))
     (kseq (bwrite dbuf)
     (kseq (brelse lbuf)
     (kseq (brelse dbuf)
     (install_loop n (Suc tail))))))))))"

definition install_trans :: "unit K" where
  "install_trans = kbind getlog (\<lambda>l. install_loop (nat (lg_n l)) 0)"

text \<open>The header block: the count in the first word, the block numbers in the following ones.\<close>

fun read_head_loop :: "nat \<Rightarrow> nat \<Rightarrow> u8 list \<Rightarrow> unit K" where
  "read_head_loop 0 i d = kret ()"
| "read_head_loop (Suc n) i d =
     kseq (set_lh_block i (le32 d (4 + 4 * i))) (read_head_loop n (Suc i) d)"

definition read_head :: "unit K" where
  "read_head =
     kbind getlog (\<lambda>l.
     kbind (bread (lg_dev l) (lg_start l)) (\<lambda>b.
     kbind (getb b) (\<lambda>x.
     let n = sint (le32 (b_data x) 0) in
     kseq (modlog (\<lambda>l. l\<lparr>lg_n := n\<rparr>))
     (kseq (read_head_loop (nat n) 0 (b_data x))
     (brelse b)))))"

fun write_head_loop :: "nat \<Rightarrow> nat \<Rightarrow> nat \<Rightarrow> unit K" where
  "write_head_loop 0 i b = kret ()"
| "write_head_loop (Suc n) i b =
     kbind (lh_block i) (\<lambda>v.
     kseq (modb b (\<lambda>x. x\<lparr>b_data := put32 (b_data x) (4 + 4 * i) v\<rparr>))
     (write_head_loop n (Suc i) b))"

definition write_head :: "unit K" where
  "write_head =
     kbind getlog (\<lambda>l.
     kbind (bread (lg_dev l) (lg_start l)) (\<lambda>b.
     kseq (modb b (\<lambda>x. x\<lparr>b_data := put32 (b_data x) 0 (of_int (lg_n l))\<rparr>))
     (kseq (write_head_loop (nat (lg_n l)) 0 b)
     (kseq (bwrite b)
     (brelse b)))))"

definition recover_from_log :: "unit K" where
  "recover_from_log =
     kseq read_head
     (kseq install_trans
     (kseq (modlog (\<lambda>l. l\<lparr>lg_n := 0\<rparr>))
     write_head))"

text \<open>\<open>sizeof(struct logheader)\<close> is 124, below \<open>BSIZE\<close>.\<close>

definition initlog :: "u32 \<Rightarrow> unit K" where
  "initlog dev =
     (if 4 + 4 * LOGSIZE \<ge> BSIZE then panic ''initlog: too big logheader''
      else kseq (initlock LogLock ''log'')
      (kbind (readsb dev) (\<lambda>b.
      kseq (modlog (\<lambda>l. l\<lparr>lg_start := sb_logstart b\<rparr>))
      (kseq (modlog (\<lambda>l. l\<lparr>lg_size := sint (sb_nlog b)\<rparr>))
      (kseq (modlog (\<lambda>l. l\<lparr>lg_dev := dev\<rparr>))
      recover_from_log)))))"

section \<open>Transactions\<close>

fun begin_op_loop :: "nat \<Rightarrow> unit K" where
  "begin_op_loop 0 = kfail OutOfFuel"
| "begin_op_loop (Suc n) =
     kbind getlog (\<lambda>l.
     if lg_committing l \<noteq> 0 then kseq (sleep LogChan LogLock) (begin_op_loop n)
     else if lg_n l + (lg_outstanding l + 1) * int MAXOPBLOCKS > int LOGSIZE
     then kseq (sleep LogChan LogLock) (begin_op_loop n)
     else kseq (modlog (\<lambda>l. l\<lparr>lg_outstanding := lg_outstanding l + 1\<rparr>))
     (release LogLock))"

definition begin_op :: "unit K" where
  "begin_op = kseq (acquire LogLock) (kbind wakeups begin_op_loop)"

fun write_log_loop :: "nat \<Rightarrow> nat \<Rightarrow> unit K" where
  "write_log_loop 0 tail = kret ()"
| "write_log_loop (Suc n) tail =
     kbind getlog (\<lambda>l.
     kbind (bread (lg_dev l) (lg_start l + of_nat tail + 1)) (\<lambda>to.
     kbind (lh_block tail) (\<lambda>src.
     kbind (bread (lg_dev l) src) (\<lambda>from.
     kbind (getb from) (\<lambda>x.
     kseq (modb to (\<lambda>y. y\<lparr>b_data := b_data x\<rparr>))
     (kseq (bwrite to)
     (kseq (brelse from)
     (kseq (brelse to)
     (write_log_loop n (Suc tail))))))))))"

definition write_log :: "unit K" where
  "write_log = kbind getlog (\<lambda>l. write_log_loop (nat (lg_n l)) 0)"

definition commit :: "unit K" where
  "commit =
     kbind getlog (\<lambda>l.
     if lg_n l > 0 then
       kseq write_log
       (kseq write_head
       (kseq install_trans
       (kseq (modlog (\<lambda>l. l\<lparr>lg_n := 0\<rparr>))
       write_head)))
     else kret ())"

definition end_op :: "unit K" where
  "end_op =
     kseq (acquire LogLock)
     (kseq (modlog (\<lambda>l. l\<lparr>lg_outstanding := lg_outstanding l - 1\<rparr>))
     (kbind getlog (\<lambda>l.
     if lg_committing l \<noteq> 0 then panic ''log.committing''
     else kbind
       (if lg_outstanding l = 0 then kseq (modlog (\<lambda>l. l\<lparr>lg_committing := 1\<rparr>)) (kret True)
        else kseq (wakeup LogChan) (kret False)) (\<lambda>do_commit.
     kseq (release LogLock)
     (if do_commit then
        kseq commit
        (kseq (acquire LogLock)
        (kseq (modlog (\<lambda>l. l\<lparr>lg_committing := 0\<rparr>))
        (kseq (wakeup LogChan)
        (release LogLock))))
      else kret ())))))"

text \<open>The index of a block number among the first \<open>n\<close> entries of the header, or \<open>n\<close>.\<close>

fun log_absorb :: "nat \<Rightarrow> nat \<Rightarrow> u32 \<Rightarrow> nat K" where
  "log_absorb 0 i v = kret i"
| "log_absorb (Suc n) i v = kbind (lh_block i) (\<lambda>x. if x = v then kret i else log_absorb n (Suc i) v)"

definition log_write :: "nat \<Rightarrow> unit K" where
  "log_write b =
     kbind getlog (\<lambda>l.
     if lg_n l \<ge> int LOGSIZE \<or> lg_n l \<ge> lg_size l - 1 then panic ''too big a transaction''
     else if lg_outstanding l < 1 then panic ''log_write outside of trans''
     else kseq (acquire LogLock)
     (kbind (getb b) (\<lambda>x.
     kbind getlog (\<lambda>l.
     kbind (log_absorb (nat (lg_n l)) 0 (b_blockno x)) (\<lambda>i.
     kseq (set_lh_block i (b_blockno x))
     (kseq (if int i = lg_n l then modlog (\<lambda>l. l\<lparr>lg_n := lg_n l + 1\<rparr>) else kret ())
     (kseq (modb b (\<lambda>x. x\<lparr>b_flags := b_flags x OR B_DIRTY\<rparr>))
     (release LogLock))))))))"

end
