(* ===== verification/Inode.thy ===== *)
theory Inode
  imports Log
begin

text \<open>
  Block allocation and inodes (\<open>fs.c\<close> up to \<open>stati\<close>): the free bitmap, the inode cache with its
  reference counts, inodes on disk, and the map from a file's block index to a disk block.
\<close>

section \<open>Blocks\<close>

definition getsb :: "superblock K" where
  "getsb = kget sb"

lemma getsb_run [simp, kmonad]: "getsb s = Inr (sb s, s)"
  by (simp add: getsb_def)

definition IPB :: u32 where "IPB = 8"

definition IBLOCK :: "u32 \<Rightarrow> superblock \<Rightarrow> u32" where
  "IBLOCK i p = i div IPB + sb_inodestart p"

definition BBLOCK :: "u32 \<Rightarrow> superblock \<Rightarrow> u32" where
  "BBLOCK b p = b div of_nat BPB + sb_bmapstart p"

definition bzero :: "u32 \<Rightarrow> u32 \<Rightarrow> unit K" where
  "bzero dev bno =
     kbind (bread dev bno) (\<lambda>bp.
     kseq (modb bp (\<lambda>x. x\<lparr>b_data := replicate BSIZE 0\<rparr>))
     (kseq (log_write bp)
     (brelse bp)))"

text \<open>Bit \<open>bi\<close> of a bitmap block: byte \<open>bi/8\<close>, bit \<open>bi%8\<close>.\<close>

definition bm_get :: "u8 list \<Rightarrow> nat \<Rightarrow> bool" where
  "bm_get d bi = (d ! (bi div 8) AND push_bit (bi mod 8) 1 \<noteq> 0)"

definition bm_set :: "u8 list \<Rightarrow> nat \<Rightarrow> u8 list" where
  "bm_set d bi = d[bi div 8 := d ! (bi div 8) OR push_bit (bi mod 8) 1]"

definition bm_clear :: "u8 list \<Rightarrow> nat \<Rightarrow> u8 list" where
  "bm_clear d bi = d[bi div 8 := d ! (bi div 8) AND NOT (push_bit (bi mod 8) 1)]"

text \<open>The inner loop of \<open>balloc\<close>: the first clear bit from \<open>bi\<close> on.\<close>

fun balloc_bit :: "nat \<Rightarrow> nat \<Rightarrow> u32 \<Rightarrow> u32 \<Rightarrow> u8 list \<Rightarrow> nat option" where
  "balloc_bit 0 bi b sz d = None"
| "balloc_bit (Suc n) bi b sz d =
     (if b + of_nat bi < sz then if \<not> bm_get d bi then Some bi else balloc_bit n (Suc bi) b sz d
      else None)"

text \<open>The outer loop visits one bitmap block per round; there are at most \<open>2^20\<close>.\<close>

fun balloc_loop :: "nat \<Rightarrow> u32 \<Rightarrow> u32 \<Rightarrow> u32 K" where
  "balloc_loop 0 dev b = kfail OutOfFuel"
| "balloc_loop (Suc n) dev b =
     kbind getsb (\<lambda>sb.
     if b < sb_size sb then
       kbind (bread dev (BBLOCK b sb)) (\<lambda>bp.
       kbind (getb bp) (\<lambda>x. case balloc_bit BPB 0 b (sb_size sb) (b_data x) of
         Some bi \<Rightarrow>
           kseq (modb bp (\<lambda>y. y\<lparr>b_data := bm_set (b_data y) bi\<rparr>))
           (kseq (log_write bp)
           (kseq (brelse bp)
           (kseq (bzero dev (b + of_nat bi))
           (kret (b + of_nat bi)))))
       | None \<Rightarrow> kseq (brelse bp) (balloc_loop n dev (b + of_nat BPB))))
     else panic ''balloc: out of blocks'')"

definition balloc :: "u32 \<Rightarrow> u32 K" where
  "balloc dev = balloc_loop 1048577 dev 0"

definition bfree :: "u32 \<Rightarrow> u32 \<Rightarrow> unit K" where
  "bfree dev b =
     kbind getsb (\<lambda>sb.
     kbind (bread dev (BBLOCK b sb)) (\<lambda>bp.
     kbind (getb bp) (\<lambda>x.
     let bi = unat b mod BPB in
     if \<not> bm_get (b_data x) bi then panic ''freeing free block''
     else kseq (modb bp (\<lambda>y. y\<lparr>b_data := bm_clear (b_data y) bi\<rparr>))
     (kseq (log_write bp)
     (brelse bp)))))"

section \<open>Inodes on disk\<close>

text \<open>\<open>sizeof(struct dinode)\<close> is 64.\<close>

definition DINODE_SIZE :: nat where "DINODE_SIZE = 64"

definition get_dinode :: "u8 list \<Rightarrow> nat \<Rightarrow> dinode" where
  "get_dinode d k = (let at = k * DINODE_SIZE in
     \<lparr>di_type = le16 d at, di_major = le16 d (at + 2), di_minor = le16 d (at + 4), di_nlink = le16 d (at + 6),
      di_size = le32 d (at + 8), di_addrs = map (\<lambda>j. le32 d (at + 12 + 4 * j)) [0..<NDIRECT + 1]\<rparr>)"

definition dinode_bytes :: "dinode \<Rightarrow> u8 list" where
  "dinode_bytes di = bytes16 (di_type di) @ bytes16 (di_major di) @ bytes16 (di_minor di) @ bytes16 (di_nlink di) @
     bytes32 (di_size di) @ concat (map bytes32 (di_addrs di))"

definition put_dinode :: "u8 list \<Rightarrow> nat \<Rightarrow> dinode \<Rightarrow> u8 list" where
  "put_dinode d k di = splice d (k * DINODE_SIZE) (dinode_bytes di)"

text \<open>The slot of inode \<open>inum\<close> in its block.\<close>

definition dslot :: "u32 \<Rightarrow> nat" where
  "dslot inum = unat (inum mod IPB)"

section \<open>The inode cache\<close>

fun iinit_loop :: "nat \<Rightarrow> nat \<Rightarrow> unit K" where
  "iinit_loop 0 i = kret ()"
| "iinit_loop (Suc n) i = kseq (initsleeplock (InodeSleep i) ''inode'') (iinit_loop n (Suc i))"

definition iinit :: "u32 \<Rightarrow> unit K" where
  "iinit dev =
     kseq (initlock IcacheLock ''icache'')
     (kseq (iinit_loop NINODE 0)
     (kbind (readsb dev) (\<lambda>b. kmod (\<lambda>s. s\<lparr>sb := b\<rparr>))))"

text \<open>
  The search of \<open>iget\<close>: the cached entry if there is one, and otherwise the first unused entry
  seen on the way.
\<close>

fun iget_scan :: "inode list \<Rightarrow> nat \<Rightarrow> nat option \<Rightarrow> u32 \<Rightarrow> u32 \<Rightarrow> nat option \<times> nat option" where
  "iget_scan [] i empt dev inum = (None, empt)"
| "iget_scan (ip # ips) i empt dev inum =
     (if ip_ref ip > 0 \<and> ip_dev ip = dev \<and> ip_inum ip = inum then (Some i, empt)
      else iget_scan ips (Suc i) (if empt = None \<and> ip_ref ip = 0 then Some i else empt) dev inum)"

definition iget :: "u32 \<Rightarrow> u32 \<Rightarrow> nat K" where
  "iget dev inum =
     kseq (acquire IcacheLock)
     (kbind (kget icache) (\<lambda>ips. case iget_scan ips 0 None dev inum of
       (Some i, _) \<Rightarrow>
         kseq (modi i (\<lambda>x. x\<lparr>ip_ref := ip_ref x + 1\<rparr>))
         (kseq (release IcacheLock)
         (kret i))
     | (None, None) \<Rightarrow> panic ''iget: no inodes''
     | (None, Some i) \<Rightarrow>
         kseq (modi i (\<lambda>x. x\<lparr>ip_dev := dev, ip_inum := inum, ip_ref := 1, ip_valid := 0\<rparr>))
         (kseq (release IcacheLock)
         (kret i))))"

definition idup :: "nat \<Rightarrow> nat K" where
  "idup ip =
     kseq (acquire IcacheLock)
     (kseq (modi ip (\<lambda>x. x\<lparr>ip_ref := ip_ref x + 1\<rparr>))
     (kseq (release IcacheLock)
     (kret ip)))"

fun ialloc_loop :: "nat \<Rightarrow> u32 \<Rightarrow> u32 \<Rightarrow> u16 \<Rightarrow> nat K" where
  "ialloc_loop 0 inum dev type = panic ''ialloc: no inodes''"
| "ialloc_loop (Suc n) inum dev type =
     kbind getsb (\<lambda>sb.
     kbind (bread dev (IBLOCK inum sb)) (\<lambda>bp.
     kbind (getb bp) (\<lambda>x.
     if di_type (get_dinode (b_data x) (dslot inum)) = 0 then
       kseq (modb bp (\<lambda>y. y\<lparr>b_data := put_dinode (b_data y) (dslot inum)
           \<lparr>di_type = type, di_major = 0, di_minor = 0, di_nlink = 0, di_size = 0,
            di_addrs = replicate (NDIRECT + 1) 0\<rparr>\<rparr>))
       (kseq (log_write bp)
       (kseq (brelse bp)
       (iget dev inum)))
     else kseq (brelse bp) (ialloc_loop n (inum + 1) dev type))))"

definition ialloc :: "u32 \<Rightarrow> u16 \<Rightarrow> nat K" where
  "ialloc dev type = kbind getsb (\<lambda>sb. ialloc_loop (unat (sb_ninodes sb) - 1) 1 dev type)"

definition iupdate :: "nat \<Rightarrow> unit K" where
  "iupdate ip =
     kbind (geti ip) (\<lambda>x.
     kbind getsb (\<lambda>sb.
     kbind (bread (ip_dev x) (IBLOCK (ip_inum x) sb)) (\<lambda>bp.
     kseq (modb bp (\<lambda>y. y\<lparr>b_data := put_dinode (b_data y) (dslot (ip_inum x))
         \<lparr>di_type = ip_type x, di_major = ip_major x, di_minor = ip_minor x, di_nlink = ip_nlink x,
          di_size = ip_size x, di_addrs = ip_addrs x\<rparr>\<rparr>))
     (kseq (log_write bp)
     (brelse bp)))))"

definition ilock :: "nat option \<Rightarrow> unit K" where
  "ilock ipo = (case ipo of None \<Rightarrow> panic ''ilock'' | Some ip \<Rightarrow>
     kbind (geti ip) (\<lambda>x.
     if ip_ref x < 1 then panic ''ilock''
     else kseq (acquiresleep (InodeSleep ip))
     (kbind (geti ip) (\<lambda>x.
     if ip_valid x = 0 then
       kbind getsb (\<lambda>sb.
       kbind (bread (ip_dev x) (IBLOCK (ip_inum x) sb)) (\<lambda>bp.
       kbind (getb bp) (\<lambda>y.
       let di = get_dinode (b_data y) (dslot (ip_inum x)) in
       kseq (modi ip (\<lambda>x. x\<lparr>ip_type := di_type di, ip_major := di_major di, ip_minor := di_minor di,
           ip_nlink := di_nlink di, ip_size := di_size di, ip_addrs := di_addrs di\<rparr>))
       (kseq (brelse bp)
       (kseq (modi ip (\<lambda>x. x\<lparr>ip_valid := 1\<rparr>))
       (if di_type di = 0 then panic ''ilock: no type'' else kret ()))))))
     else kret ()))))"

definition iunlock :: "nat option \<Rightarrow> unit K" where
  "iunlock ipo = (case ipo of None \<Rightarrow> panic ''iunlock'' | Some ip \<Rightarrow>
     kbind (holdingsleep (InodeSleep ip)) (\<lambda>h.
     kbind (geti ip) (\<lambda>x.
     if \<not> h \<or> ip_ref x < 1 then panic ''iunlock''
     else releasesleep (InodeSleep ip))))"

section \<open>Inode content\<close>

text \<open>\<open>ip->addrs[i]\<close> for writing.\<close>

definition set_addr :: "nat \<Rightarrow> nat \<Rightarrow> u32 \<Rightarrow> unit K" where
  "set_addr ip i a = modi ip (\<lambda>x. x\<lparr>ip_addrs := (ip_addrs x)[i := a]\<rparr>)"

definition bmap :: "nat \<Rightarrow> u32 \<Rightarrow> u32 K" where
  "bmap ip bn =
     kbind (geti ip) (\<lambda>x.
     if bn < of_nat NDIRECT then
       (if ip_addrs x ! unat bn = 0
        then kbind (balloc (ip_dev x)) (\<lambda>addr. kseq (set_addr ip (unat bn) addr) (kret addr))
        else kret (ip_addrs x ! unat bn))
     else let bn = bn - of_nat NDIRECT in
     if bn < of_nat NINDIRECT then
       kbind (if ip_addrs x ! NDIRECT = 0
              then kbind (balloc (ip_dev x)) (\<lambda>addr. kseq (set_addr ip NDIRECT addr) (kret addr))
              else kret (ip_addrs x ! NDIRECT)) (\<lambda>addr.
       kbind (bread (ip_dev x) addr) (\<lambda>bp.
       kbind (getb bp) (\<lambda>y.
       let a = le32 (b_data y) (4 * unat bn) in
       kbind (if a = 0 then
                kbind (balloc (ip_dev x)) (\<lambda>addr.
                kseq (modb bp (\<lambda>y. y\<lparr>b_data := put32 (b_data y) (4 * unat bn) addr\<rparr>))
                (kseq (log_write bp)
                (kret addr)))
              else kret a) (\<lambda>addr.
       kseq (brelse bp)
       (kret addr)))))
     else panic ''bmap: out of range'')"

fun itrunc_direct :: "nat \<Rightarrow> nat \<Rightarrow> nat \<Rightarrow> unit K" where
  "itrunc_direct 0 i ip = kret ()"
| "itrunc_direct (Suc n) i ip =
     kbind (geti ip) (\<lambda>x.
     kseq (if ip_addrs x ! i \<noteq> 0 then kseq (bfree (ip_dev x) (ip_addrs x ! i)) (set_addr ip i 0) else kret ())
     (itrunc_direct n (Suc i) ip))"

fun itrunc_indirect :: "nat \<Rightarrow> nat \<Rightarrow> u32 \<Rightarrow> nat \<Rightarrow> unit K" where
  "itrunc_indirect 0 j dev bp = kret ()"
| "itrunc_indirect (Suc n) j dev bp =
     kbind (getb bp) (\<lambda>y.
     let a = le32 (b_data y) (4 * j) in
     kseq (if a \<noteq> 0 then bfree dev a else kret ())
     (itrunc_indirect n (Suc j) dev bp))"

definition itrunc :: "nat \<Rightarrow> unit K" where
  "itrunc ip =
     kseq (itrunc_direct NDIRECT 0 ip)
     (kbind (geti ip) (\<lambda>x.
     kseq (if ip_addrs x ! NDIRECT \<noteq> 0 then
             kbind (bread (ip_dev x) (ip_addrs x ! NDIRECT)) (\<lambda>bp.
             kseq (itrunc_indirect NINDIRECT 0 (ip_dev x) bp)
             (kseq (brelse bp)
             (kseq (bfree (ip_dev x) (ip_addrs x ! NDIRECT))
             (set_addr ip NDIRECT 0))))
           else kret ())
     (kseq (modi ip (\<lambda>x. x\<lparr>ip_size := 0\<rparr>))
     (iupdate ip))))"

definition iput :: "nat \<Rightarrow> unit K" where
  "iput ip =
     kseq (acquiresleep (InodeSleep ip))
     (kbind (geti ip) (\<lambda>x.
     kseq (if ip_valid x \<noteq> 0 \<and> ip_nlink x = 0 then
             kseq (acquire IcacheLock)
             (kbind (geti ip) (\<lambda>y.
             kseq (release IcacheLock)
             (if ip_ref y = 1 then
                kseq (itrunc ip)
                (kseq (modi ip (\<lambda>x. x\<lparr>ip_type := 0\<rparr>))
                (kseq (iupdate ip)
                (modi ip (\<lambda>x. x\<lparr>ip_valid := 0\<rparr>))))
              else kret ())))
           else kret ())
     (kseq (releasesleep (InodeSleep ip))
     (kseq (acquire IcacheLock)
     (kseq (modi ip (\<lambda>x. x\<lparr>ip_ref := ip_ref x - 1\<rparr>))
     (release IcacheLock))))))"

definition iunlockput :: "nat \<Rightarrow> unit K" where
  "iunlockput ip = kseq (iunlock (Some ip)) (iput ip)"

definition uput16 :: "u32 \<Rightarrow> u16 \<Rightarrow> unit K" where
  "uput16 va v = kseq (uput8 va (ucast v)) (uput8 (va + 1) (ucast (drop_bit 8 v)))"

text \<open>\<open>struct stat\<close> in user memory: the fields lie at offsets 0, 4, 8, 12 and 16.\<close>

definition stati :: "nat \<Rightarrow> u32 \<Rightarrow> unit K" where
  "stati ip st =
     kbind (geti ip) (\<lambda>x.
     kseq (uput32 (st + 4) (ip_dev x))
     (kseq (uput32 (st + 8) (ip_inum x))
     (kseq (uput16 st (ip_type x))
     (kseq (uput16 (st + 12) (ip_nlink x))
     (uput32 (st + 16) (ip_size x))))))"

end
