(* ===== verification/Devices.thy ===== *)
theory Devices
  imports Inode
begin

text \<open>
  Port and register access (\<open>inb\<close>, \<open>outb\<close>, \<open>insl\<close>, \<open>outsl\<close> of \<open>x86.h\<close>) and the drivers that only
  talk to the hardware: the serial port (\<open>uart.c\<close>), the interrupt controllers (\<open>lapic.c\<close>,
  \<open>ioapic.c\<close>, \<open>picirq.c\<close>) and the search for the processors (\<open>mp.c\<close>). A driver's behaviour is the
  sequence of accesses it makes. A loop that waits for a device carries a bound on the number of
  polls and fails with \<open>Spin\<close> beyond it.
\<close>

section \<open>Access\<close>

definition io :: "ioevent \<Rightarrow> unit K" where
  "io e = kmod (\<lambda>s. s\<lparr>iolog := iolog s @ [e]\<rparr>)"

definition inb :: "u16 \<Rightarrow> u8 K" where
  "inb port = kbind (kget (\<lambda>s. dev_reply s (iolog s) port 0)) (\<lambda>v. kseq (io (PortIn port v)) (kret v))"

definition outb :: "u16 \<Rightarrow> u8 \<Rightarrow> unit K" where
  "outb port v = io (PortOut port v)"

text \<open>\<open>n\<close> words from or to a port, as bytes.\<close>

definition insl :: "u16 \<Rightarrow> nat \<Rightarrow> u8 list K" where
  "insl port n = kbind (kget (\<lambda>s. map (dev_reply s (iolog s) port) [0..<4 * n])) (\<lambda>bs.
     kseq (io (PortIns port bs)) (kret bs))"

definition outsl :: "u16 \<Rightarrow> u8 list \<Rightarrow> unit K" where
  "outsl port bs = io (PortOuts port bs)"

definition reg_in :: "u32 \<Rightarrow> u32 K" where
  "reg_in a = kbind (kget (\<lambda>s. reg_reply s (iolog s) a)) (\<lambda>v. kseq (io (RegIn a v)) (kret v))"

definition reg_out :: "u32 \<Rightarrow> u32 \<Rightarrow> unit K" where
  "reg_out a v = io (RegOut a v)"

lemma io_run [simp, kmonad]: "io e s = Inr ((), s\<lparr>iolog := iolog s @ [e]\<rparr>)"
  by (simp add: io_def)

lemma inb_run [simp, kmonad]: "inb port s = Inr (dev_reply s (iolog s) port 0,
    s\<lparr>iolog := iolog s @ [PortIn port (dev_reply s (iolog s) port 0)]\<rparr>)"
  by (simp add: inb_def kmonad)

lemma outb_run [simp, kmonad]: "outb port v s = Inr ((), s\<lparr>iolog := iolog s @ [PortOut port v]\<rparr>)"
  by (simp add: outb_def)

lemma reg_in_run [simp, kmonad]: "reg_in a s = Inr (reg_reply s (iolog s) a,
    s\<lparr>iolog := iolog s @ [RegIn a (reg_reply s (iolog s) a)]\<rparr>)"
  by (simp add: reg_in_def kmonad)

lemma reg_out_run [simp, kmonad]: "reg_out a v s = Inr ((), s\<lparr>iolog := iolog s @ [RegOut a v]\<rparr>)"
  by (simp add: reg_out_def)

text \<open>The bytes of a string literal.\<close>

definition str :: "string \<Rightarrow> u8 list" where
  "str = map of_char"

section \<open>Trap numbers\<close>

definition T_PGFLT :: u32 where "T_PGFLT = 14"
definition T_SYSCALL :: u32 where "T_SYSCALL = 64"
definition T_IRQ0 :: u32 where "T_IRQ0 = 32"
definition IRQ_TIMER :: u32 where "IRQ_TIMER = 0"
definition IRQ_KBD :: u32 where "IRQ_KBD = 1"
definition IRQ_COM1 :: u32 where "IRQ_COM1 = 4"
definition IRQ_IDE :: u32 where "IRQ_IDE = 14"
definition IRQ_ERROR :: u32 where "IRQ_ERROR = 19"
definition IRQ_SPURIOUS :: u32 where "IRQ_SPURIOUS = 31"

lemmas trap_defs = T_PGFLT_def T_SYSCALL_def T_IRQ0_def IRQ_TIMER_def IRQ_KBD_def IRQ_COM1_def IRQ_IDE_def
  IRQ_ERROR_def IRQ_SPURIOUS_def

section \<open>The interrupt controllers\<close>

text \<open>Register offsets of the local controller; an index of the source counts words.\<close>

definition LAPIC_ID :: u32 where "LAPIC_ID = 0x20"
definition LAPIC_VER :: u32 where "LAPIC_VER = 0x30"
definition LAPIC_TPR :: u32 where "LAPIC_TPR = 0x80"
definition LAPIC_EOI :: u32 where "LAPIC_EOI = 0xB0"
definition LAPIC_SVR :: u32 where "LAPIC_SVR = 0xF0"
definition LAPIC_ESR :: u32 where "LAPIC_ESR = 0x280"
definition LAPIC_ICRLO :: u32 where "LAPIC_ICRLO = 0x300"
definition LAPIC_ICRHI :: u32 where "LAPIC_ICRHI = 0x310"
definition LAPIC_TIMER :: u32 where "LAPIC_TIMER = 0x320"
definition LAPIC_PCINT :: u32 where "LAPIC_PCINT = 0x340"
definition LAPIC_LINT0 :: u32 where "LAPIC_LINT0 = 0x350"
definition LAPIC_LINT1 :: u32 where "LAPIC_LINT1 = 0x360"
definition LAPIC_ERROR :: u32 where "LAPIC_ERROR = 0x370"
definition LAPIC_TICR :: u32 where "LAPIC_TICR = 0x380"
definition LAPIC_TDCR :: u32 where "LAPIC_TDCR = 0x3E0"

definition lapicw :: "u32 \<Rightarrow> u32 \<Rightarrow> unit K" where
  "lapicw reg v =
     kbind (kget lapic) (\<lambda>l.
     kseq (reg_out (l + reg) v)
     (kbind (reg_in (l + LAPIC_ID)) (\<lambda>_. kret ())))"

text \<open>Polling until the delivery status bit is clear.\<close>

fun lapic_wait :: "nat \<Rightarrow> unit K" where
  "lapic_wait 0 = kfail Spin"
| "lapic_wait (Suc n) =
     kbind (kget lapic) (\<lambda>l.
     kbind (reg_in (l + LAPIC_ICRLO)) (\<lambda>v.
     if v AND 0x1000 \<noteq> 0 then lapic_wait n else kret ()))"

definition lapicinit :: "nat \<Rightarrow> unit K" where
  "lapicinit polls =
     kbind (kget lapic) (\<lambda>l.
     if l = 0 then kret ()
     else kseq (lapicw LAPIC_SVR (0x100 OR (T_IRQ0 + IRQ_SPURIOUS)))
     (kseq (lapicw LAPIC_TDCR 0xB)
     (kseq (lapicw LAPIC_TIMER (0x20000 OR (T_IRQ0 + IRQ_TIMER)))
     (kseq (lapicw LAPIC_TICR 10000000)
     (kseq (lapicw LAPIC_LINT0 0x10000)
     (kseq (lapicw LAPIC_LINT1 0x10000)
     (kbind (reg_in (l + LAPIC_VER)) (\<lambda>v.
     kseq (if drop_bit 16 v AND 0xFF \<ge> 4 then lapicw LAPIC_PCINT 0x10000 else kret ())
     (kseq (lapicw LAPIC_ERROR (T_IRQ0 + IRQ_ERROR))
     (kseq (lapicw LAPIC_ESR 0)
     (kseq (lapicw LAPIC_ESR 0)
     (kseq (lapicw LAPIC_EOI 0)
     (kseq (lapicw LAPIC_ICRHI 0)
     (kseq (lapicw LAPIC_ICRLO (0x80000 OR 0x500 OR 0x8000))
     (kseq (lapic_wait polls)
     (lapicw LAPIC_TPR 0))))))))))))))))"

definition lapiceoi :: "unit K" where
  "lapiceoi = kbind (kget lapic) (\<lambda>l. if l \<noteq> 0 then lapicw LAPIC_EOI 0 else kret ())"

definition microdelay :: "int \<Rightarrow> unit K" where
  "microdelay us = kret ()"

fun startap_ipi :: "nat \<Rightarrow> u8 \<Rightarrow> u32 \<Rightarrow> unit K" where
  "startap_ipi 0 apicid addr = kret ()"
| "startap_ipi (Suc n) apicid addr =
     kseq (lapicw LAPIC_ICRHI (push_bit 24 (ucast apicid)))
     (kseq (lapicw LAPIC_ICRLO (0x600 OR drop_bit 12 addr))
     (kseq (microdelay 200)
     (startap_ipi n apicid addr)))"

definition lapicstartap :: "u8 \<Rightarrow> u32 \<Rightarrow> unit K" where
  "lapicstartap apicid addr =
     kseq (outb 0x70 0xF)
     (kseq (outb 0x71 0x0A)
     (let wrv = P2V (push_bit 4 0x40 OR 0x67) in
     kseq (wr16 wrv 0)
     (kseq (wr16 (wrv + 2) (ucast (drop_bit 4 addr)))
     (kseq (lapicw LAPIC_ICRHI (push_bit 24 (ucast apicid)))
     (kseq (lapicw LAPIC_ICRLO (0x500 OR 0x8000 OR 0x4000))
     (kseq (microdelay 200)
     (kseq (lapicw LAPIC_ICRLO (0x500 OR 0x8000))
     (kseq (microdelay 100)
     (startap_ipi 2 apicid addr)))))))))"

definition cmos_read :: "u8 \<Rightarrow> u32 K" where
  "cmos_read reg =
     kseq (outb 0x70 reg)
     (kseq (microdelay 200)
     (kbind (inb 0x71) (\<lambda>v. kret (ucast v))))"

record rtcdate =
  rtc_second :: u32
  rtc_minute :: u32
  rtc_hour :: u32
  rtc_day :: u32
  rtc_month :: u32
  rtc_year :: u32

definition fill_rtcdate :: "rtcdate K" where
  "fill_rtcdate =
     kbind (cmos_read 0x00) (\<lambda>sec.
     kbind (cmos_read 0x02) (\<lambda>min.
     kbind (cmos_read 0x04) (\<lambda>hour.
     kbind (cmos_read 0x07) (\<lambda>day.
     kbind (cmos_read 0x08) (\<lambda>month.
     kbind (cmos_read 0x09) (\<lambda>year.
     kret \<lparr>rtc_second = sec, rtc_minute = min, rtc_hour = hour, rtc_day = day, rtc_month = month,
       rtc_year = year\<rparr>))))))"

text \<open>Reading until two reads agree and no update is in progress.\<close>

fun cmos_stable :: "nat \<Rightarrow> rtcdate K" where
  "cmos_stable 0 = kfail Spin"
| "cmos_stable (Suc n) =
     kbind fill_rtcdate (\<lambda>t1.
     kbind (cmos_read 0x0A) (\<lambda>a.
     if a AND 0x80 \<noteq> 0 then cmos_stable n
     else kbind fill_rtcdate (\<lambda>t2. if t1 = t2 then kret t1 else cmos_stable n)))"

definition bcd_conv :: "u32 \<Rightarrow> u32" where
  "bcd_conv x = drop_bit 4 x * 10 + (x AND 0xF)"

definition cmostime :: "nat \<Rightarrow> rtcdate K" where
  "cmostime polls =
     kbind (cmos_read 0x0B) (\<lambda>statb.
     kbind (cmos_stable polls) (\<lambda>t.
     let t = (if statb AND 4 = 0
       then \<lparr>rtc_second = bcd_conv (rtc_second t), rtc_minute = bcd_conv (rtc_minute t), rtc_hour = bcd_conv (rtc_hour t),
             rtc_day = bcd_conv (rtc_day t), rtc_month = bcd_conv (rtc_month t), rtc_year = bcd_conv (rtc_year t)\<rparr>
       else t) in
     kret (t\<lparr>rtc_year := rtc_year t + 2000\<rparr>)))"

definition IOAPIC :: u32 where "IOAPIC = 0xFEC00000"
definition REG_TABLE :: u32 where "REG_TABLE = 0x10"

definition ioapicread :: "u32 \<Rightarrow> u32 K" where
  "ioapicread reg = kseq (reg_out IOAPIC reg) (reg_in (IOAPIC + 16))"

definition ioapicwrite :: "u32 \<Rightarrow> u32 \<Rightarrow> unit K" where
  "ioapicwrite reg v = kseq (reg_out IOAPIC reg) (reg_out (IOAPIC + 16) v)"

fun ioapic_mask :: "nat \<Rightarrow> u32 \<Rightarrow> unit K" where
  "ioapic_mask 0 i = kret ()"
| "ioapic_mask (Suc n) i =
     kseq (ioapicwrite (REG_TABLE + 2 * i) (0x10000 OR (T_IRQ0 + i)))
     (kseq (ioapicwrite (REG_TABLE + 2 * i + 1) 0)
     (ioapic_mask n (i + 1)))"

text \<open>A mismatch of the identification is only reported.\<close>

definition ioapicinit :: "unit K" where
  "ioapicinit =
     kbind (ioapicread 0x01) (\<lambda>v.
     kbind (ioapicread 0x00) (\<lambda>_.
     ioapic_mask (Suc (unat (drop_bit 16 v AND 0xFF))) 0))"

definition ioapicenable :: "u32 \<Rightarrow> u32 \<Rightarrow> unit K" where
  "ioapicenable irq cpunum =
     kseq (ioapicwrite (REG_TABLE + 2 * irq) (T_IRQ0 + irq))
     (ioapicwrite (REG_TABLE + 2 * irq + 1) (push_bit 24 cpunum))"

definition picinit :: "unit K" where
  "picinit = kseq (outb 0x21 0xFF) (outb 0xA1 0xFF)"

section \<open>The serial port\<close>

definition COM1 :: u16 where "COM1 = 0x3F8"

fun uart_wait :: "nat \<Rightarrow> unit K" where
  "uart_wait 0 = kret ()"
| "uart_wait (Suc n) =
     kbind (inb (COM1 + 5)) (\<lambda>v.
     if v AND 0x20 = 0 then kseq (microdelay 10) (uart_wait n) else kret ())"

definition uartputc :: "u8 \<Rightarrow> unit K" where
  "uartputc c =
     kbind (kget uart) (\<lambda>u.
     if u = 0 then kret ()
     else kseq (uart_wait 128) (outb COM1 c))"

fun uartputs :: "u8 list \<Rightarrow> unit K" where
  "uartputs [] = kret ()"
| "uartputs (c # cs) = kseq (uartputc c) (uartputs cs)"

definition uartinit :: "unit K" where
  "uartinit =
     kseq (outb (COM1 + 2) 0)
     (kseq (outb (COM1 + 3) 0x80)
     (kseq (outb (COM1 + 0) 12)
     (kseq (outb (COM1 + 1) 0)
     (kseq (outb (COM1 + 3) 0x03)
     (kseq (outb (COM1 + 4) 0)
     (kseq (outb (COM1 + 1) 0x01)
     (kbind (inb (COM1 + 5)) (\<lambda>v.
     if v = 0xFF then kret ()
     else kseq (kmod (\<lambda>s. s\<lparr>uart := 1\<rparr>))
     (kbind (inb (COM1 + 2)) (\<lambda>_.
     kbind (inb (COM1 + 0)) (\<lambda>_.
     kseq (ioapicenable IRQ_COM1 0)
     (uartputs (str ''xv6...'' @ [10])))))))))))))"

definition uartgetc :: "int K" where
  "uartgetc =
     kbind (kget uart) (\<lambda>u.
     if u = 0 then kret (-1)
     else kbind (inb (COM1 + 5)) (\<lambda>v.
     if v AND 0x01 = 0 then kret (-1)
     else kbind (inb (COM1 + 0)) (\<lambda>c. kret (uint c))))"

section \<open>Finding the processors\<close>

definition rd8 :: "u32 \<Rightarrow> u8 K" where
  "rd8 a = kget (\<lambda>s. mem s a)"

definition mem_bytes :: "memory \<Rightarrow> u32 \<Rightarrow> nat \<Rightarrow> u8 list" where
  "mem_bytes m a n = map (\<lambda>i. m (a + of_nat i)) [0..<n]"

text \<open>The sum of bytes, as the unsigned char it is returned as.\<close>

definition sum_bytes :: "u8 list \<Rightarrow> u8" where
  "sum_bytes bs = sum_list bs"

fun mpsearch1_loop :: "nat \<Rightarrow> u32 \<Rightarrow> u32 K" where
  "mpsearch1_loop 0 p = kret 0"
| "mpsearch1_loop (Suc n) p =
     kbind (kget mem) (\<lambda>m.
     if memcmp (mem_bytes m p 4) (str ''_MP_'') 4 = 0 \<and> sum_bytes (mem_bytes m p 16) = 0 then kret p
     else mpsearch1_loop n (p + 16))"

definition mpsearch1 :: "u32 \<Rightarrow> nat \<Rightarrow> u32 K" where
  "mpsearch1 a len = mpsearch1_loop (len div 16) (P2V a)"

definition mpsearch :: "u32 K" where
  "mpsearch =
     kbind (rd8 (P2V 0x400 + 0x0F)) (\<lambda>hi. kbind (rd8 (P2V 0x400 + 0x0E)) (\<lambda>lo.
     let p = push_bit 4 (push_bit 8 (ucast hi) OR ucast lo) in
     kbind (if p \<noteq> 0 then mpsearch1 p 1024
            else kbind (rd8 (P2V 0x400 + 0x14)) (\<lambda>hi. kbind (rd8 (P2V 0x400 + 0x13)) (\<lambda>lo.
              let p = (push_bit 8 (ucast hi) OR ucast lo) * 1024 in mpsearch1 (p - 1024) 1024))) (\<lambda>mp.
     if mp \<noteq> 0 then kret mp else mpsearch1 0xF0000 0x10000)))"

text \<open>The floating pointer and the configuration table, or \<open>None\<close>.\<close>

definition mpconfig :: "(u32 \<times> u32) option K" where
  "mpconfig =
     kbind mpsearch (\<lambda>mp.
     if mp = 0 then kret None
     else kbind (rd32 (mp + 4)) (\<lambda>physaddr.
     if physaddr = 0 then kret None
     else let conf = P2V physaddr in
     kbind (kget mem) (\<lambda>m.
     if memcmp (mem_bytes m conf 4) (str ''PCMP'') 4 \<noteq> 0 then kret None
     else if m (conf + 6) \<noteq> 1 \<and> m (conf + 6) \<noteq> 4 then kret None
     else kbind (rd16 (conf + 4)) (\<lambda>len.
     if sum_bytes (mem_bytes m conf (unat len)) \<noteq> 0 then kret None
     else kret (Some (mp, conf))))))"

text \<open>
  The entries of the table. An entry of unknown type clears \<open>ismp\<close> and does not advance \<open>p\<close>, so the
  loop stays there; \<open>n\<close> bounds the rounds.
\<close>

definition NCPU :: nat where "NCPU = 8"

fun mpinit_loop :: "nat \<Rightarrow> u32 \<Rightarrow> u32 \<Rightarrow> bool \<Rightarrow> bool K" where
  "mpinit_loop 0 p e ismp = kfail OutOfFuel"
| "mpinit_loop (Suc n) p e ismp =
     (if p < e then
        kbind (rd8 p) (\<lambda>type.
        if type = 0 then
          kbind (rd8 (p + 1)) (\<lambda>apicid.
          kseq (kmod (\<lambda>s. if ncpu s < NCPU then
              s\<lparr>cpus := (cpus s)[ncpu s := (cpus s ! ncpu s)\<lparr>c_apicid := apicid\<rparr>], ncpu := ncpu s + 1\<rparr> else s))
          (mpinit_loop n (p + 20) e ismp))
        else if type = 2 then
          kbind (rd8 (p + 1)) (\<lambda>apicno.
          kseq (kmod (\<lambda>s. s\<lparr>ioapicid := apicno\<rparr>))
          (mpinit_loop n (p + 8) e ismp))
        else if type = 1 \<or> type = 3 \<or> type = 4 then mpinit_loop n (p + 8) e ismp
        else mpinit_loop n p e False)
      else kret ismp)"

definition mpinit :: "nat \<Rightarrow> unit K" where
  "mpinit n =
     kbind mpconfig (\<lambda>r. case r of
       None \<Rightarrow> panic ''Expect to run on an SMP''
     | Some (mp, conf) \<Rightarrow>
       kbind (rd32 (conf + 36)) (\<lambda>lapicaddr.
       kseq (kmod (\<lambda>s. s\<lparr>lapic := lapicaddr\<rparr>))
       (kbind (rd16 (conf + 4)) (\<lambda>len.
       kbind (mpinit_loop n (conf + 44) (conf + ucast len) True) (\<lambda>ismp.
       if \<not> ismp then panic ''Didn't find a suitable machine''
       else kbind (rd8 (mp + 12)) (\<lambda>imcrp.
       if imcrp \<noteq> 0 then
         kseq (outb 0x22 0x70)
         (kbind (inb 0x23) (\<lambda>v. outb 0x23 (v OR 1)))
       else kret ()))))))"

text \<open>An entry of unknown type is never passed, however many rounds are allowed.\<close>

lemma mpinit_loop_stuck:
  assumes "p < e" "mem s p \<notin> {0, 1, 2, 3, 4}"
  shows "mpinit_loop n p e ismp s = Inl OutOfFuel"
  using assms by (induction n arbitrary: ismp) (simp_all add: kmonad rd8_def)

end
