(* ===== verification/Console.thy ===== *)
theory Console
  imports Devices
begin

text \<open>
  The console (\<open>console.c\<close>) with the keyboard (\<open>kbd.c\<close>, \<open>kbd.h\<close>), the input side of the serial
  port, and the debugging aids that print (\<open>procdump\<close> of \<open>proc.c\<close>, \<open>getcallerpcs\<close> of
  \<open>spinlock.c\<close>). Characters are C integers; 0x100 stands for a backspace. The text mode screen is
  an array of 16-bit cells.
\<close>

section \<open>Output\<close>

definition BACKSPACE :: int where "BACKSPACE = 0x100"
definition CRTPORT :: u16 where "CRTPORT = 0x3D4"

definition newline :: int where "newline = 10"

definition cga_getpos :: "int K" where
  "cga_getpos =
     kseq (outb CRTPORT 14)
     (kbind (inb (CRTPORT + 1)) (\<lambda>hi.
     kseq (outb CRTPORT 15)
     (kbind (inb (CRTPORT + 1)) (\<lambda>lo.
     kret (uint hi * 256 + uint lo)))))"

definition set_cell :: "int \<Rightarrow> u16 \<Rightarrow> unit K" where
  "set_cell pos v = kmod (\<lambda>s. s\<lparr>crt := (crt s)(nat pos := v)\<rparr>)"

definition cga_scroll :: "int \<Rightarrow> unit K" where
  "cga_scroll pos =
     kseq (kmod (\<lambda>s. s\<lparr>crt := (\<lambda>i. if i < 23 * 80 then crt s (i + 80) else crt s i)\<rparr>))
     (kmod (\<lambda>s. s\<lparr>crt := (\<lambda>i. if nat (pos - 80) \<le> i \<and> i < 24 * 80 then 0 else crt s i)\<rparr>))"

definition cgaputc :: "int \<Rightarrow> unit K" where
  "cgaputc c =
     kbind cga_getpos (\<lambda>pos.
     kbind (if c = newline then kret (pos + (80 - pos mod 80))
            else if c = BACKSPACE then kret (if pos > 0 then pos - 1 else pos)
            else kseq (set_cell pos (ucast (of_int c :: u8) OR 0x0700)) (kret (pos + 1))) (\<lambda>pos.
     if pos < 0 \<or> pos > 25 * 80 then panic ''pos under/overflow''
     else kbind (if pos div 80 \<ge> 24 then kseq (cga_scroll pos) (kret (pos - 80)) else kret pos) (\<lambda>pos.
     kseq (outb CRTPORT 14)
     (kseq (outb (CRTPORT + 1) (of_int (pos div 256)))
     (kseq (outb CRTPORT 15)
     (kseq (outb (CRTPORT + 1) (of_int pos))
     (set_cell pos 0x0720)))))))"

definition consputc :: "int \<Rightarrow> unit K" where
  "consputc c =
     kbind (kget panicked) (\<lambda>p.
     if p \<noteq> 0 then kseq cli (kfail Spin)
     else kseq (if c = BACKSPACE then kseq (uartputc 8) (kseq (uartputc 32) (uartputc 8))
                else uartputc (of_int c))
     (cgaputc c))"

fun consputs :: "u8 list \<Rightarrow> unit K" where
  "consputs [] = kret ()"
| "consputs (c # cs) = kseq (consputc (uint c)) (consputs cs)"

text \<open>
  The digits of a number, last digit first, as \<open>printint\<close> collects them in its buffer. A 32-bit
  number has at most 32 digits in any base.
\<close>

definition hexdigit :: "nat \<Rightarrow> u8" where
  "hexdigit d = (if d < 10 then 48 + of_nat d else 87 + of_nat d)"

fun digits_of :: "nat \<Rightarrow> nat \<Rightarrow> nat \<Rightarrow> u8 list" where
  "digits_of 0 x base = []"
| "digits_of (Suc n) x base = hexdigit (x mod base) # (if x div base \<noteq> 0 then digits_of n (x div base) base else [])"

definition printint_buf :: "u32 \<Rightarrow> nat \<Rightarrow> bool \<Rightarrow> u8 list" where
  "printint_buf xx base sign =
     (let neg = sign \<and> sint xx < 0; x = (if neg then - xx else xx) in
      digits_of 32 (unat x) base @ (if neg then [45] else []))"

definition printint :: "u32 \<Rightarrow> nat \<Rightarrow> bool \<Rightarrow> unit K" where
  "printint xx base sign = consputs (rev (printint_buf xx base sign))"

text \<open>An argument of \<open>cprintf\<close>: a word, or a pointer to a string, which may be null.\<close>

datatype fmt_arg = ArgInt u32 | ArgStr "u8 list option"

fun cprintf_loop :: "u8 list \<Rightarrow> fmt_arg list \<Rightarrow> unit K" where
  "cprintf_loop [] as = kret ()"
| "cprintf_loop [c] as = (if c = 0 \<or> c = 37 then kret () else consputc (uint c))"
| "cprintf_loop (c # d # fmt) as =
     (if c = 0 then kret ()
      else if c \<noteq> 37 then kseq (consputc (uint c)) (cprintf_loop (d # fmt) as)
      else if d = 0 then kret ()
      else if d = 100 then
        (case as of ArgInt v # as' \<Rightarrow> kseq (printint v 10 True) (cprintf_loop fmt as') | _ \<Rightarrow> kfail OutOfBounds)
      else if d = 120 \<or> d = 112 then
        (case as of ArgInt v # as' \<Rightarrow> kseq (printint v 16 False) (cprintf_loop fmt as') | _ \<Rightarrow> kfail OutOfBounds)
      else if d = 115 then
        (case as of
           ArgStr so # as' \<Rightarrow>
             kseq (consputs (cstr (case so of None \<Rightarrow> str ''(null)'' | Some t \<Rightarrow> t))) (cprintf_loop fmt as')
         | _ \<Rightarrow> kfail OutOfBounds)
      else if d = 99 then
        (case as of ArgInt v # as' \<Rightarrow> kseq (consputc (uint (ucast v :: u8))) (cprintf_loop fmt as') | _ \<Rightarrow> kfail OutOfBounds)
      else if d = 37 then kseq (consputc 37) (cprintf_loop fmt as)
      else kseq (consputc 37) (kseq (consputc (uint d)) (cprintf_loop fmt as)))"

text \<open>The lock is taken unless this processor already holds it, and released in either case.\<close>

definition cprintf :: "u8 list \<Rightarrow> fmt_arg list \<Rightarrow> unit K" where
  "cprintf fmt as =
     kbind (kget cons_locking) (\<lambda>locking.
     kseq (if locking \<noteq> 0 then kbind (holding ConsLock) (\<lambda>h. if \<not> h then acquire ConsLock else kret ())
           else kret ())
     (kseq (cprintf_loop fmt as)
     (if locking \<noteq> 0 then release ConsLock else kret ())))"

section \<open>Listing processes\<close>

fun getcallerpcs :: "nat \<Rightarrow> u32 \<Rightarrow> u32 list K" where
  "getcallerpcs 0 ebp = kret []"
| "getcallerpcs (Suc n) ebp =
     (if ebp = 0 \<or> ebp < KERNBASE \<or> ebp = 0xFFFFFFFF then kret (replicate (Suc n) 0)
      else kbind (rd32 (ebp + 4)) (\<lambda>pc. kbind (rd32 ebp) (\<lambda>ebp'.
      kbind (getcallerpcs n ebp') (\<lambda>pcs. kret (pc # pcs)))))"

fun state_name :: "procstate \<Rightarrow> string" where
  "state_name UNUSED = ''unused''"
| "state_name EMBRYO = ''embryo''"
| "state_name SLEEPING = ''sleep ''"
| "state_name RUNNABLE = ''runble''"
| "state_name RUNNING = ''run   ''"
| "state_name ZOMBIE = ''zombie''"

fun print_pcs :: "u32 list \<Rightarrow> unit K" where
  "print_pcs [] = kret ()"
| "print_pcs (pc # pcs) = (if pc \<noteq> 0 then kseq (cprintf (str '' %p'') [ArgInt pc]) (print_pcs pcs) else kret ())"

fun procdump_loop :: "nat \<Rightarrow> nat \<Rightarrow> unit K" where
  "procdump_loop 0 i = kret ()"
| "procdump_loop (Suc n) i =
     kbind (getp i) (\<lambda>p.
     kseq (if p_state p = UNUSED then kret ()
       else kseq (cprintf (str ''%d %s %s'') [ArgInt (of_int (p_pid p)), ArgStr (Some (str (state_name (p_state p)))),
           ArgStr (Some (p_name p))])
         (kseq (if p_state p = SLEEPING then
                  kbind (rd32 (p_context p + 12)) (\<lambda>ebp. kbind (getcallerpcs 10 ebp) print_pcs)
                else kret ())
         (cprintf [10] [])))
     (procdump_loop n (Suc i)))"

definition procdump :: "unit K" where
  "procdump = procdump_loop NPROC 0"

section \<open>Input\<close>

definition modin :: "(inputbuf \<Rightarrow> inputbuf) \<Rightarrow> unit K" where
  "modin f = kmod (\<lambda>s. s\<lparr>input := f (input s)\<rparr>)"

definition in_at :: "inputbuf \<Rightarrow> u32 \<Rightarrow> u8" where
  "in_at i k = in_buf i ! (unat k mod INPUT_BUF)"

text \<open>Control characters.\<close>

definition ctl :: "char \<Rightarrow> int" where
  "ctl c = of_char c - 64"

text \<open>Erasing back to the start of the line; \<open>e\<close> reaches \<open>w\<close> after \<open>e - w\<close> steps.\<close>

fun kill_line :: "nat \<Rightarrow> unit K" where
  "kill_line 0 = kret ()"
| "kill_line (Suc n) =
     kbind (kget input) (\<lambda>i.
     if in_e i \<noteq> in_w i \<and> in_at i (in_e i - 1) \<noteq> 10 then
       kseq (modin (\<lambda>i. i\<lparr>in_e := in_e i - 1\<rparr>))
       (kseq (consputc BACKSPACE)
       (kill_line n))
     else kret ())"

definition cons_char :: "int \<Rightarrow> unit K" where
  "cons_char c =
     kbind (kget input) (\<lambda>i.
     if c \<noteq> 0 \<and> in_e i - in_r i < of_nat INPUT_BUF then
       let c = (if c = 13 then newline else c) in
       kseq (modin (\<lambda>i. i\<lparr>in_buf := (in_buf i)[unat (in_e i) mod INPUT_BUF := of_int c], in_e := in_e i + 1\<rparr>))
       (kseq (consputc c)
       (kbind (kget input) (\<lambda>i.
       if c = newline \<or> c = ctl CHR ''D'' \<or> in_e i = in_r i + of_nat INPUT_BUF then
         kseq (modin (\<lambda>i. i\<lparr>in_w := in_e i\<rparr>)) (wakeup InputChan)
       else kret ())))
     else kret ())"

text \<open>The loop over the available characters; \<open>n\<close> bounds how many the device delivers.\<close>

fun consoleintr_loop :: "nat \<Rightarrow> int K \<Rightarrow> bool \<Rightarrow> bool K" where
  "consoleintr_loop 0 getc dump = kfail OutOfFuel"
| "consoleintr_loop (Suc n) getc dump =
     kbind getc (\<lambda>c.
     if c < 0 then kret dump
     else if c = ctl CHR ''P'' then consoleintr_loop n getc True
     else if c = ctl CHR ''U'' then
       kseq (kbind (kget input) (\<lambda>i. kill_line (unat (in_e i - in_w i))))
       (consoleintr_loop n getc dump)
     else if c = ctl CHR ''H'' \<or> c = 127 then
       kseq (kbind (kget input) (\<lambda>i.
         if in_e i \<noteq> in_w i then kseq (modin (\<lambda>i. i\<lparr>in_e := in_e i - 1\<rparr>)) (consputc BACKSPACE) else kret ()))
       (consoleintr_loop n getc dump)
     else kseq (cons_char c) (consoleintr_loop n getc dump))"

definition consoleintr :: "nat \<Rightarrow> int K \<Rightarrow> unit K" where
  "consoleintr n getc =
     kseq (acquire ConsLock)
     (kbind (consoleintr_loop n getc False) (\<lambda>dump.
     kseq (release ConsLock)
     (if dump then procdump else kret ())))"

text \<open>
  Destinations and sources of a transfer. A sink stores bytes at an offset from the destination
  pointer; a source delivers bytes at an offset. Local buffers of the kernel take the bytes that
  the routine returns.
\<close>

type_synonym sink = "nat \<Rightarrow> u8 list \<Rightarrow> unit K"
type_synonym src = "nat \<Rightarrow> nat \<Rightarrow> u8 list K"

fun cons_wait :: "nat \<Rightarrow> nat \<Rightarrow> bool K" where
  "cons_wait 0 ip = kfail OutOfFuel"
| "cons_wait (Suc n) ip =
     kbind (kget input) (\<lambda>i.
     if in_r i = in_w i then
       kbind me (\<lambda>p.
       if p_killed p \<noteq> 0 then kseq (release ConsLock) (kseq (ilock (Some ip)) (kret False))
       else kseq (sleep InputChan ConsLock) (cons_wait n ip))
     else kret True)"

text \<open>
  The copy loop with \<open>n\<close> bytes still wanted of \<open>target\<close>; the result is \<open>None\<close> when the process was
  killed, and otherwise the bytes stored.
\<close>

fun consoleread_loop :: "nat \<Rightarrow> nat \<Rightarrow> nat \<Rightarrow> sink \<Rightarrow> u8 list \<Rightarrow> u8 list option K" where
  "consoleread_loop 0 target ip dst got = kret (Some got)"
| "consoleread_loop (Suc n) target ip dst got =
     kbind (kbind wakeups (\<lambda>m. cons_wait m ip)) (\<lambda>ok.
     if \<not> ok then kret None
     else kbind (kget (\<lambda>s. in_at (input s) (in_r (input s)))) (\<lambda>c.
     kseq (modin (\<lambda>i. i\<lparr>in_r := in_r i + 1\<rparr>))
     (if uint c = ctl CHR ''D'' then
        kseq (if Suc n < target then modin (\<lambda>i. i\<lparr>in_r := in_r i - 1\<rparr>) else kret ()) (kret (Some got))
      else kseq (dst (length got) [c])
      (if c = 10 then kret (Some (got @ [c]))
       else consoleread_loop n target ip dst (got @ [c])))))"

definition consoleread :: "nat \<Rightarrow> sink \<Rightarrow> int \<Rightarrow> (int \<times> u8 list) K" where
  "consoleread ip dst n =
     kseq (iunlock (Some ip))
     (kseq (acquire ConsLock)
     (kbind (consoleread_loop (nat n) (nat n) ip dst []) (\<lambda>r. case r of
       None \<Rightarrow> kret (-1, [])
     | Some got \<Rightarrow>
       kseq (release ConsLock)
       (kseq (ilock (Some ip))
       (kret (int (length got), got))))))"

fun consolewrite_loop :: "nat \<Rightarrow> nat \<Rightarrow> src \<Rightarrow> unit K" where
  "consolewrite_loop 0 i f = kret ()"
| "consolewrite_loop (Suc n) i f =
     kbind (f i 1) (\<lambda>bs.
     kseq (consputc (uint (chr bs)))
     (consolewrite_loop n (Suc i) f))"

definition consolewrite :: "nat \<Rightarrow> src \<Rightarrow> int \<Rightarrow> int K" where
  "consolewrite ip f n =
     kseq (iunlock (Some ip))
     (kseq (acquire ConsLock)
     (kseq (consolewrite_loop (nat n) 0 f)
     (kseq (release ConsLock)
     (kseq (ilock (Some ip))
     (kret n)))))"

definition consoleinit :: "unit K" where
  "consoleinit =
     kseq (initlock ConsLock ''console'')
     (kseq (kmod (\<lambda>s. s\<lparr>devsw_tab := (devsw_tab s)[CONSOLE := (devsw_tab s ! CONSOLE)\<lparr>dv_write := Some ConsoleWrite\<rparr>]\<rparr>))
     (kseq (kmod (\<lambda>s. s\<lparr>devsw_tab := (devsw_tab s)[CONSOLE := (devsw_tab s ! CONSOLE)\<lparr>dv_read := Some ConsoleRead\<rparr>]\<rparr>))
     (kseq (kmod (\<lambda>s. s\<lparr>cons_locking := 1\<rparr>))
     (ioapicenable IRQ_KBD 0))))"

definition uartintr :: "nat \<Rightarrow> unit K" where
  "uartintr n = consoleintr n uartgetc"

section \<open>The keyboard\<close>

definition KBD_SHIFT :: u32 where "KBD_SHIFT = 1"
definition KBD_CTL :: u32 where "KBD_CTL = 2"
definition KBD_ALT :: u32 where "KBD_ALT = 4"
definition CAPSLOCK :: u32 where "CAPSLOCK = 8"
definition NUMLOCK :: u32 where "NUMLOCK = 16"
definition SCROLLLOCK :: u32 where "SCROLLLOCK = 32"
definition E0ESC :: u32 where "E0ESC = 64"

definition shiftcode :: "u32 \<Rightarrow> u32" where
  "shiftcode d = (if d = 0x1D \<or> d = 0x9D then KBD_CTL else if d = 0x2A \<or> d = 0x36 then KBD_SHIFT
     else if d = 0x38 \<or> d = 0xB8 then KBD_ALT else 0)"

definition togglecode :: "u32 \<Rightarrow> u32" where
  "togglecode d = (if d = 0x3A then CAPSLOCK else if d = 0x45 then NUMLOCK else if d = 0x46 then SCROLLLOCK else 0)"

text \<open>A table given by its first entries and by designated ones; the rest is 0.\<close>

definition keytable :: "u8 list \<Rightarrow> (u32 \<times> u8) list \<Rightarrow> u32 \<Rightarrow> u8" where
  "keytable row special d = (case map_of special d of Some c \<Rightarrow> c
     | None \<Rightarrow> if unat d < length row then row ! unat d else 0)"

definition arrow_keys :: "(u32 \<times> u8) list" where
  "arrow_keys = [(0xC8, 0xE2), (0xD0, 0xE3), (0xC9, 0xE6), (0xD1, 0xE7), (0xCB, 0xE4), (0xCD, 0xE5),
     (0x97, 0xE0), (0xCF, 0xE1), (0xD2, 0xE8), (0xD3, 0xE9)]"

definition normalmap :: "u32 \<Rightarrow> u8" where
  "normalmap = keytable
     ([0, 0x1B] @ str ''1234567890-='' @ [8, 9] @ str ''qwertyuiop[]'' @ [10, 0] @ str ''asdfghjkl;'' @ [39, 96, 0, 92] @
      str ''zxcvbnm,./'' @ [0, 42, 0, 32] @ replicate 13 0 @ str ''789-456+1230.'' @ replicate 4 0)
     ([(0x9C, 10), (0xB5, 47)] @ arrow_keys)"

definition shiftmap :: "u32 \<Rightarrow> u8" where
  "shiftmap = keytable
     ([0, 0x1B] @ str ''!@#$%^&*()_+'' @ [8, 9] @ str ''QWERTYUIOP{}'' @ [10, 0] @ str ''ASDFGHJKL:'' @ [34, 126, 0, 124] @
      str ''ZXCVBNM<>?'' @ [0, 42, 0, 32] @ replicate 13 0 @ str ''789-456+1230.'' @ replicate 4 0)
     ([(0x9C, 10), (0xB5, 47)] @ arrow_keys)"

definition ctls :: "string \<Rightarrow> u8 list" where
  "ctls cs = map (\<lambda>c. of_int (ctl c)) cs"

definition ctlmap :: "u32 \<Rightarrow> u8" where
  "ctlmap = keytable
     (replicate 16 0 @ ctls ''QWERTYUIOP'' @ [0, 0, 13, 0] @ ctls ''ASDFGHJKL'' @ replicate 4 0 @ ctls [CHR 0x5C] @
      ctls ''ZXCVBNM'' @ [0, 0] @ ctls ''/'' @ [0, 0])
     ([(0x9C, 13), (0xB5, of_int (ctl CHR ''/''))] @ arrow_keys)"

definition charcode :: "u32 \<Rightarrow> u32 \<Rightarrow> u8" where
  "charcode k = (if k = 0 then normalmap else if k = 1 then shiftmap else ctlmap)"

text \<open>What a key press with shift state \<open>sh\<close> produces: the character and the new state.\<close>

definition key_down :: "u32 \<Rightarrow> u32 \<Rightarrow> u8 \<times> u32" where
  "key_down sh data =
     (let data = (if sh AND E0ESC \<noteq> 0 then data OR 0x80 else data);
          sh = (if sh AND E0ESC \<noteq> 0 then sh AND NOT E0ESC else sh);
          sh = (sh OR shiftcode data) XOR togglecode data;
          c = charcode (sh AND (KBD_CTL OR KBD_SHIFT)) data;
          c = (if sh AND CAPSLOCK \<noteq> 0 then
                 if 97 \<le> c \<and> c \<le> 122 then c - 32 else if 65 \<le> c \<and> c \<le> 90 then c + 32 else c
               else c)
      in (c, sh))"

definition kbdgetc :: "int K" where
  "kbdgetc =
     kbind (inb 0x64) (\<lambda>st.
     if st AND 0x01 = 0 then kret (-1)
     else kbind (inb 0x60) (\<lambda>d.
     kbind (kget kbd_shift) (\<lambda>sh.
     let data = ucast d in
     if data = 0xE0 then kseq (kmod (\<lambda>s. s\<lparr>kbd_shift := sh OR E0ESC\<rparr>)) (kret 0)
     else if data AND 0x80 \<noteq> 0 then
       let data = (if sh AND E0ESC \<noteq> 0 then data else data AND 0x7F) in
       kseq (kmod (\<lambda>s. s\<lparr>kbd_shift := sh AND NOT (shiftcode data OR E0ESC)\<rparr>)) (kret 0)
     else case key_down sh data of (c, sh') \<Rightarrow>
       kseq (kmod (\<lambda>s. s\<lparr>kbd_shift := sh'\<rparr>)) (kret (uint c)))))"

definition kbdintr :: "nat \<Rightarrow> unit K" where
  "kbdintr n = consoleintr n kbdgetc"

end
