(* ===== verification/Fs.thy ===== *)
theory Fs
  imports Console
begin

text \<open>
  Reading and writing inodes, directories and path names (\<open>fs.c\<close> from \<open>readi\<close> on). Path names are
  byte lists: the caller has read them from user memory before, where they cannot change.
\<close>

section \<open>User and kernel memory as source and destination\<close>

fun uput_bytes :: "u32 \<Rightarrow> u8 list \<Rightarrow> unit K" where
  "uput_bytes va [] = kret ()"
| "uput_bytes va (b # bs) = kseq (uput8 va b) (uput_bytes (va + 1) bs)"

fun uget_bytes :: "u32 \<Rightarrow> nat \<Rightarrow> u8 list K" where
  "uget_bytes va 0 = kret []"
| "uget_bytes va (Suc n) = kbind (uget8 va) (\<lambda>b. kbind (uget_bytes (va + 1) n) (\<lambda>bs. kret (b # bs)))"

definition user_sink :: "u32 \<Rightarrow> sink" where
  "user_sink va k bs = uput_bytes (va + of_nat k) bs"

definition user_src :: "u32 \<Rightarrow> src" where
  "user_src va k n = uget_bytes (va + of_nat k) n"

fun store_bytes :: "memory \<Rightarrow> u32 \<Rightarrow> u8 list \<Rightarrow> memory" where
  "store_bytes m a [] = m"
| "store_bytes m a (b # bs) = store_bytes (m(a := b)) (a + 1) bs"

definition kern_sink :: "u32 \<Rightarrow> sink" where
  "kern_sink a k bs = kmod (\<lambda>s. s\<lparr>mem := store_bytes (mem s) (a + of_nat k) bs\<rparr>)"

definition local_sink :: sink where
  "local_sink k bs = kret ()"

definition local_src :: "u8 list \<Rightarrow> src" where
  "local_src d k n = kret (take n (drop k d))"

section \<open>Inode content\<close>

definition dev_fun :: "(devsw \<Rightarrow> devfun option) \<Rightarrow> u16 \<Rightarrow> devfun option K" where
  "dev_fun sel major = kget (\<lambda>s. if sint major < 0 \<or> sint major \<ge> int NDEV then None
     else sel (devsw_tab s ! nat (sint major)))"

text \<open>
  The copy loop of \<open>readi\<close> with \<open>off\<close> the current offset and \<open>n - tot\<close> bytes left. Every round
  copies at least one byte.
\<close>

fun readi_loop :: "nat \<Rightarrow> nat \<Rightarrow> sink \<Rightarrow> u32 \<Rightarrow> u32 \<Rightarrow> u32 \<Rightarrow> u8 list \<Rightarrow> u8 list K" where
  "readi_loop 0 ip dst off tot n got = kfail OutOfFuel"
| "readi_loop (Suc k) ip dst off tot n got =
     (if tot < n then
        kbind (geti ip) (\<lambda>x.
        kbind (bmap ip (off div of_nat BSIZE)) (\<lambda>a.
        kbind (bread (ip_dev x) a) (\<lambda>bp.
        kbind (getb bp) (\<lambda>y.
        let m = min (n - tot) (of_nat BSIZE - off mod of_nat BSIZE);
            bs = take (unat m) (drop (unat (off mod of_nat BSIZE)) (b_data y)) in
        kseq (dst (unat tot) bs)
        (kseq (brelse bp)
        (readi_loop k ip dst (off + m) (tot + m) n (got @ bs)))))))
      else kret got)"

definition readi :: "nat \<Rightarrow> sink \<Rightarrow> u32 \<Rightarrow> u32 \<Rightarrow> (int \<times> u8 list) K" where
  "readi ip dst off n =
     kbind (geti ip) (\<lambda>x.
     if ip_type x = T_DEV then
       kbind (dev_fun dv_read (ip_major x)) (\<lambda>f. case f of
         Some ConsoleRead \<Rightarrow> consoleread ip dst (sint n)
       | _ \<Rightarrow> kret (-1, []))
     else if off > ip_size x \<or> off + n < off then kret (-1, [])
     else let n = (if off + n > ip_size x then ip_size x - off else n) in
     kbind (readi_loop (Suc (unat n)) ip dst off 0 n []) (\<lambda>got. kret (sint n, got)))"

fun writei_loop :: "nat \<Rightarrow> nat \<Rightarrow> src \<Rightarrow> u32 \<Rightarrow> u32 \<Rightarrow> u32 \<Rightarrow> u32 K" where
  "writei_loop 0 ip f off tot n = kfail OutOfFuel"
| "writei_loop (Suc k) ip f off tot n =
     (if tot < n then
        kbind (geti ip) (\<lambda>x.
        kbind (bmap ip (off div of_nat BSIZE)) (\<lambda>a.
        kbind (bread (ip_dev x) a) (\<lambda>bp.
        let m = min (n - tot) (of_nat BSIZE - off mod of_nat BSIZE) in
        kbind (f (unat tot) (unat m)) (\<lambda>bs.
        kseq (modb bp (\<lambda>y. y\<lparr>b_data := splice (b_data y) (unat (off mod of_nat BSIZE)) bs\<rparr>))
        (kseq (log_write bp)
        (kseq (brelse bp)
        (writei_loop k ip f (off + m) (tot + m) n)))))))
      else kret off)"

definition writei :: "nat \<Rightarrow> src \<Rightarrow> u32 \<Rightarrow> u32 \<Rightarrow> int K" where
  "writei ip f off n =
     kbind (geti ip) (\<lambda>x.
     if ip_type x = T_DEV then
       kbind (dev_fun dv_write (ip_major x)) (\<lambda>g. case g of
         Some ConsoleWrite \<Rightarrow> consolewrite ip f (sint n)
       | _ \<Rightarrow> kret (-1))
     else if off > ip_size x \<or> off + n < off then kret (-1)
     else if off + n > of_nat (MAXFILE * BSIZE) then kret (-1)
     else kbind (writei_loop (Suc (unat n)) ip f off 0 n) (\<lambda>off'.
     kbind (geti ip) (\<lambda>x.
     kseq (if n > 0 \<and> off' > ip_size x then kseq (modi ip (\<lambda>x. x\<lparr>ip_size := off'\<rparr>)) (iupdate ip) else kret ())
     (kret (sint n)))))"

section \<open>Directories\<close>

definition DIRENT_SIZE :: u32 where "DIRENT_SIZE = 16"

definition dirent_of :: "u8 list \<Rightarrow> dirent" where
  "dirent_of d = \<lparr>de_inum = le16 d 0, de_name = drop 2 d\<rparr>"

definition dirent_bytes :: "dirent \<Rightarrow> u8 list" where
  "dirent_bytes de = bytes16 (de_inum de) @ de_name de"

definition namecmp :: "u8 list \<Rightarrow> u8 list \<Rightarrow> int" where
  "namecmp s t = strncmp s t DIRSIZ"

text \<open>Reading the entry at an offset; a short read panics.\<close>

definition read_dirent :: "string \<Rightarrow> nat \<Rightarrow> u32 \<Rightarrow> dirent K" where
  "read_dirent msg dp off =
     kbind (readi dp local_sink off DIRENT_SIZE) (\<lambda>(r, bs).
     if r \<noteq> 16 then panic msg else kret (dirent_of bs))"

fun dirlookup_loop :: "nat \<Rightarrow> nat \<Rightarrow> u8 list \<Rightarrow> u32 \<Rightarrow> (nat \<times> u32) option K" where
  "dirlookup_loop 0 dp name off = kfail OutOfFuel"
| "dirlookup_loop (Suc k) dp name off =
     kbind (geti dp) (\<lambda>x.
     if off < ip_size x then
       kbind (read_dirent ''dirlookup read'' dp off) (\<lambda>de.
       if de_inum de = 0 then dirlookup_loop k dp name (off + DIRENT_SIZE)
       else if namecmp name (de_name de) = 0 then
         kbind (iget (ip_dev x) (ucast (de_inum de))) (\<lambda>ip. kret (Some (ip, off)))
       else dirlookup_loop k dp name (off + DIRENT_SIZE))
     else kret None)"

text \<open>The inode of an entry and the entry's offset. The number of entries bounds the loop.\<close>

definition dirlookup :: "nat \<Rightarrow> u8 list \<Rightarrow> (nat \<times> u32) option K" where
  "dirlookup dp name =
     kbind (geti dp) (\<lambda>x.
     if ip_type x \<noteq> T_DIR then panic ''dirlookup not DIR''
     else dirlookup_loop (unat (ip_size x) div 16 + 2) dp name 0)"

fun dirlink_slot :: "nat \<Rightarrow> nat \<Rightarrow> u32 \<Rightarrow> u32 K" where
  "dirlink_slot 0 dp off = kfail OutOfFuel"
| "dirlink_slot (Suc k) dp off =
     kbind (geti dp) (\<lambda>x.
     if off < ip_size x then
       kbind (read_dirent ''dirlink read'' dp off) (\<lambda>de.
       if de_inum de = 0 then kret off else dirlink_slot k dp (off + DIRENT_SIZE))
     else kret off)"

definition dirlink :: "nat \<Rightarrow> u8 list \<Rightarrow> u32 \<Rightarrow> int K" where
  "dirlink dp name inum =
     kbind (dirlookup dp name) (\<lambda>r. case r of
       Some (ip, _) \<Rightarrow> kseq (iput ip) (kret (-1))
     | None \<Rightarrow>
       kbind (geti dp) (\<lambda>x.
       kbind (dirlink_slot (unat (ip_size x) div 16 + 2) dp 0) (\<lambda>off.
       let de = \<lparr>de_inum = ucast inum, de_name = strncpy (replicate DIRSIZ 0) name DIRSIZ\<rparr> in
       kbind (writei dp (local_src (dirent_bytes de)) off DIRENT_SIZE) (\<lambda>r.
       if r \<noteq> 16 then panic ''dirlink'' else kret 0))))"

section \<open>Path names\<close>

definition slash :: u8 where "slash = 47"

text \<open>
  The first element of a path and the rest of the path behind it. The element's buffer holds
  \<open>DIRSIZ\<close> bytes; a longer element is cut, a shorter one is terminated and leaves the rest of the
  buffer alone.
\<close>

definition skip_slashes :: "u8 list \<Rightarrow> u8 list" where
  "skip_slashes p = dropWhile (\<lambda>c. c = slash) p"

definition skipelem :: "u8 list \<Rightarrow> u8 list \<Rightarrow> (u8 list \<times> u8 list) option" where
  "skipelem path name =
     (let p = skip_slashes path in
      if chr p = 0 then None
      else let s = takeWhile (\<lambda>c. c \<noteq> slash \<and> c \<noteq> 0) p;
               rest = skip_slashes (dropWhile (\<lambda>c. c \<noteq> slash \<and> c \<noteq> 0) p);
               name' = (if length s \<ge> DIRSIZ then splice name 0 (take DIRSIZ s) else splice name 0 (s @ [0]))
      in Some (rest, name'))"

text \<open>The loop of \<open>namex\<close>; every round removes at least one byte of the path.\<close>

fun namex_loop :: "nat \<Rightarrow> nat \<Rightarrow> u8 list \<Rightarrow> bool \<Rightarrow> u8 list \<Rightarrow> (nat option \<times> u8 list) K" where
  "namex_loop 0 ip path parent name = kfail OutOfFuel"
| "namex_loop (Suc k) ip path parent name = (case skipelem path name of
       None \<Rightarrow> if parent then kseq (iput ip) (kret (None, name)) else kret (Some ip, name)
     | Some (path', name') \<Rightarrow>
       kseq (ilock (Some ip))
       (kbind (geti ip) (\<lambda>x.
       if ip_type x \<noteq> T_DIR then kseq (iunlockput ip) (kret (None, name'))
       else if parent \<and> chr path' = 0 then kseq (iunlock (Some ip)) (kret (Some ip, name'))
       else kbind (dirlookup ip name') (\<lambda>r. case r of
           None \<Rightarrow> kseq (iunlockput ip) (kret (None, name'))
         | Some (next, _) \<Rightarrow> kseq (iunlockput ip) (namex_loop k next path' parent name')))))"

definition namex :: "u8 list \<Rightarrow> bool \<Rightarrow> u8 list \<Rightarrow> (nat option \<times> u8 list) K" where
  "namex path parent name =
     kbind (if chr path = slash then iget ROOTDEV ROOTINO
            else kbind me (\<lambda>p. case p_cwd p of None \<Rightarrow> kfail NullDeref | Some cwd \<Rightarrow> idup cwd)) (\<lambda>ip.
     namex_loop (Suc (length path)) ip path parent name)"

definition namei :: "u8 list \<Rightarrow> nat option K" where
  "namei path = kbind (namex path False (replicate DIRSIZ 0)) (\<lambda>(ip, _). kret ip)"

text \<open>The inode of the parent directory and the last element.\<close>

definition nameiparent :: "u8 list \<Rightarrow> (nat option \<times> u8 list) K" where
  "nameiparent path = namex path True (replicate DIRSIZ 0)"

end
