(* ===== verification/File_Pipe.thy ===== *)
theory File_Pipe
  imports Fs
begin

text \<open>
  Pipes (\<open>pipe.c\<close>) and open files (\<open>file.c\<close>). A pipe is a ring buffer in a page of its own; the
  model keeps its fields in a table under the page's address.
\<close>

section \<open>Pipes\<close>

definition getpi :: "u32 \<Rightarrow> pipe K" where
  "getpi p = kget (\<lambda>s. pipes s p)"

definition modpi :: "u32 \<Rightarrow> (pipe \<Rightarrow> pipe) \<Rightarrow> unit K" where
  "modpi p f = kmod (\<lambda>s. s\<lparr>pipes := (pipes s)(p := f (pipes s p))\<rparr>)"

lemma getpi_run [simp, kmonad]: "getpi p s = Inr (pipes s p, s)"
  by (simp add: getpi_def)

lemma modpi_run [simp, kmonad]: "modpi p f s = Inr ((), s\<lparr>pipes := (pipes s)(p := f (pipes s p))\<rparr>)"
  by (simp add: modpi_def)

definition pipeclose :: "u32 \<Rightarrow> bool \<Rightarrow> unit K" where
  "pipeclose p writable =
     kseq (acquire (PipeLock p))
     (kseq (if writable then kseq (modpi p (\<lambda>x. x\<lparr>pi_writeopen := 0\<rparr>)) (wakeup (PipeReadChan p))
            else kseq (modpi p (\<lambda>x. x\<lparr>pi_readopen := 0\<rparr>)) (wakeup (PipeWriteChan p)))
     (kbind (getpi p) (\<lambda>x.
     if pi_readopen x = 0 \<and> pi_writeopen x = 0 then kseq (release (PipeLock p)) (kfree p)
     else release (PipeLock p))))"

text \<open>
  Waiting for room. The answer is \<open>False\<close> when the call must fail because the reader is gone or
  the process was killed.
\<close>

fun pipe_wait_room :: "nat \<Rightarrow> u32 \<Rightarrow> bool K" where
  "pipe_wait_room 0 p = kfail OutOfFuel"
| "pipe_wait_room (Suc n) p =
     kbind (getpi p) (\<lambda>x.
     if pi_nwrite x = pi_nread x + of_nat PIPESIZE then
       kbind (if pi_readopen x = 0 then kret True else kbind me (\<lambda>pr. kret (p_killed pr \<noteq> 0))) (\<lambda>fails.
       if fails then kret False
       else kseq (wakeup (PipeReadChan p))
       (kseq (sleep (PipeWriteChan p) (PipeLock p))
       (pipe_wait_room n p)))
     else kret True)"

definition pipe_put :: "u8 \<Rightarrow> pipe \<Rightarrow> pipe" where
  "pipe_put c x = x\<lparr>pi_data := (pi_data x)[unat (pi_nwrite x) mod PIPESIZE := c], pi_nwrite := pi_nwrite x + 1\<rparr>"

definition pipe_front :: "pipe \<Rightarrow> u8" where
  "pipe_front x = pi_data x ! (unat (pi_nread x) mod PIPESIZE)"

definition pipe_drop :: "pipe \<Rightarrow> pipe" where
  "pipe_drop x = x\<lparr>pi_nread := pi_nread x + 1\<rparr>"

fun pipewrite_loop :: "nat \<Rightarrow> u32 \<Rightarrow> u32 \<Rightarrow> bool K" where
  "pipewrite_loop 0 p addr = kret True"
| "pipewrite_loop (Suc n) p addr =
     kbind (kbind wakeups (\<lambda>m. pipe_wait_room m p)) (\<lambda>ok.
     if \<not> ok then kret False
     else kbind (uget8 addr) (\<lambda>c.
     kseq (modpi p (pipe_put c))
     (pipewrite_loop n p (addr + 1))))"

definition pipewrite :: "u32 \<Rightarrow> u32 \<Rightarrow> int \<Rightarrow> int K" where
  "pipewrite p addr n =
     kseq (acquire (PipeLock p))
     (kbind (pipewrite_loop (nat n) p addr) (\<lambda>ok.
     if \<not> ok then kseq (release (PipeLock p)) (kret (-1))
     else kseq (wakeup (PipeReadChan p))
     (kseq (release (PipeLock p))
     (kret n))))"

fun pipe_wait_data :: "nat \<Rightarrow> u32 \<Rightarrow> bool K" where
  "pipe_wait_data 0 p = kfail OutOfFuel"
| "pipe_wait_data (Suc n) p =
     kbind (getpi p) (\<lambda>x.
     if pi_nread x = pi_nwrite x \<and> pi_writeopen x \<noteq> 0 then
       kbind me (\<lambda>pr.
       if p_killed pr \<noteq> 0 then kret False
       else kseq (sleep (PipeReadChan p) (PipeLock p)) (pipe_wait_data n p))
     else kret True)"

fun piperead_loop :: "nat \<Rightarrow> u32 \<Rightarrow> u32 \<Rightarrow> int \<Rightarrow> int K" where
  "piperead_loop 0 p addr i = kret i"
| "piperead_loop (Suc n) p addr i =
     kbind (getpi p) (\<lambda>x.
     if pi_nread x = pi_nwrite x then kret i
     else kseq (modpi p pipe_drop)
     (kseq (uput8 addr (pipe_front x))
     (piperead_loop n p (addr + 1) (i + 1))))"

definition piperead :: "u32 \<Rightarrow> u32 \<Rightarrow> int \<Rightarrow> int K" where
  "piperead p addr n =
     kseq (acquire (PipeLock p))
     (kbind (kbind wakeups (\<lambda>m. pipe_wait_data m p)) (\<lambda>ok.
     if \<not> ok then kseq (release (PipeLock p)) (kret (-1))
     else kbind (piperead_loop (nat n) p addr 0) (\<lambda>i.
     kseq (wakeup (PipeWriteChan p))
     (kseq (release (PipeLock p))
     (kret i)))))"

section \<open>Open files\<close>

definition fileinit :: "unit K" where
  "fileinit = initlock FtableLock ''ftable''"

definition filealloc :: "nat option K" where
  "filealloc =
     kseq (acquire FtableLock)
     (kbind (kget ftable) (\<lambda>fs. case first_idx (\<lambda>f. f_ref f = 0) fs 0 of
       Some f \<Rightarrow> kseq (modf f (\<lambda>x. x\<lparr>f_ref := 1\<rparr>)) (kseq (release FtableLock) (kret (Some f)))
     | None \<Rightarrow> kseq (release FtableLock) (kret None)))"

definition filedup :: "nat \<Rightarrow> nat K" where
  "filedup f =
     kseq (acquire FtableLock)
     (kbind (getf f) (\<lambda>x.
     if f_ref x < 1 then panic ''filedup''
     else kseq (modf f (\<lambda>x. x\<lparr>f_ref := f_ref x + 1\<rparr>))
     (kseq (release FtableLock)
     (kret f))))"

text \<open>The inode an open file refers to.\<close>

definition file_ip :: "file_t \<Rightarrow> nat K" where
  "file_ip x = (case f_ip x of None \<Rightarrow> kfail NullDeref | Some ip \<Rightarrow> kret ip)"

definition fileclose :: "nat \<Rightarrow> unit K" where
  "fileclose f =
     kseq (acquire FtableLock)
     (kbind (getf f) (\<lambda>x.
     if f_ref x < 1 then panic ''fileclose''
     else kseq (modf f (\<lambda>x. x\<lparr>f_ref := f_ref x - 1\<rparr>))
     (if f_ref x - 1 > 0 then release FtableLock
      else kbind (getf f) (\<lambda>ff.
      kseq (modf f (\<lambda>x. x\<lparr>f_ref := 0\<rparr>))
      (kseq (modf f (\<lambda>x. x\<lparr>f_type := FD_NONE\<rparr>))
      (kseq (release FtableLock)
      (if f_type ff = FD_PIPE then pipeclose (f_pipe ff) (f_writable ff)
       else if f_type ff = FD_INODE then
         kseq begin_op
         (kseq (kbind (file_ip ff) iput)
         end_op)
       else kret ())))))))"

definition filestat :: "nat \<Rightarrow> u32 \<Rightarrow> int K" where
  "filestat f st =
     kbind (getf f) (\<lambda>x.
     if f_type x = FD_INODE then
       kseq (ilock (f_ip x))
       (kbind (file_ip x) (\<lambda>ip.
       kseq (stati ip st)
       (kseq (iunlock (f_ip x))
       (kret 0))))
     else kret (-1))"

definition fileread :: "nat \<Rightarrow> u32 \<Rightarrow> int \<Rightarrow> int K" where
  "fileread f addr n =
     kbind (getf f) (\<lambda>x.
     if \<not> f_readable x then kret (-1)
     else case f_type x of
       FD_PIPE \<Rightarrow> piperead (f_pipe x) addr n
     | FD_INODE \<Rightarrow>
       kseq (ilock (f_ip x))
       (kbind (file_ip x) (\<lambda>ip.
       kbind (getf f) (\<lambda>x.
       kbind (readi ip (user_sink addr) (f_off x) (of_int n)) (\<lambda>(r, _).
       kseq (if r > 0 then modf f (\<lambda>x. x\<lparr>f_off := f_off x + of_int r\<rparr>) else kret ())
       (kseq (iunlock (f_ip x))
       (kret r))))))
     | FD_NONE \<Rightarrow> panic ''fileread'')"

text \<open>
  The loop of \<open>filewrite\<close>: at most \<open>max\<close> bytes per transaction. Every round but a failing one
  advances \<open>i\<close>.
\<close>

definition filewrite_max :: int where
  "filewrite_max = (int MAXOPBLOCKS - 1 - 1 - 2) div 2 * 512"

fun filewrite_loop :: "nat \<Rightarrow> nat \<Rightarrow> u32 \<Rightarrow> int \<Rightarrow> int \<Rightarrow> int K" where
  "filewrite_loop 0 f addr n i = kfail OutOfFuel"
| "filewrite_loop (Suc k) f addr n i =
     (if i < n then
        let n1 = min (n - i) filewrite_max in
        kseq begin_op
        (kbind (getf f) (\<lambda>x.
        kseq (ilock (f_ip x))
        (kbind (file_ip x) (\<lambda>ip.
        kbind (getf f) (\<lambda>x.
        kbind (writei ip (user_src (addr + of_int i)) (f_off x) (of_int n1)) (\<lambda>r.
        kseq (if r > 0 then modf f (\<lambda>x. x\<lparr>f_off := f_off x + of_int r\<rparr>) else kret ())
        (kseq (iunlock (f_ip x))
        (kseq end_op
        (if r < 0 then kret (if i = n then n else -1)
         else if r \<noteq> n1 then panic ''short filewrite''
         else filewrite_loop k f addr n (i + r))))))))))
      else kret (if i = n then n else -1))"

definition filewrite :: "nat \<Rightarrow> u32 \<Rightarrow> int \<Rightarrow> int K" where
  "filewrite f addr n =
     kbind (getf f) (\<lambda>x.
     if \<not> f_writable x then kret (-1)
     else case f_type x of
       FD_PIPE \<Rightarrow> pipewrite (f_pipe x) addr n
     | FD_INODE \<Rightarrow> filewrite_loop (Suc (nat n)) f addr n 0
     | FD_NONE \<Rightarrow> panic ''filewrite'')"

section \<open>Creating pipes\<close>

definition pipealloc_bad :: "u32 \<Rightarrow> nat option \<Rightarrow> nat option \<Rightarrow> (nat \<times> nat) option K" where
  "pipealloc_bad p f0 f1 =
     kseq (if p \<noteq> 0 then kfree p else kret ())
     (kseq (case f0 of Some f \<Rightarrow> fileclose f | None \<Rightarrow> kret ())
     (kseq (case f1 of Some f \<Rightarrow> fileclose f | None \<Rightarrow> kret ())
     (kret None)))"

text \<open>The two files, or \<open>None\<close> for the return value -1.\<close>

definition pipealloc :: "(nat \<times> nat) option K" where
  "pipealloc =
     kbind filealloc (\<lambda>f0. case f0 of
       None \<Rightarrow> pipealloc_bad 0 None None
     | Some r \<Rightarrow>
     kbind filealloc (\<lambda>f1. case f1 of
       None \<Rightarrow> pipealloc_bad 0 (Some r) None
     | Some w \<Rightarrow>
     kbind kalloc (\<lambda>p.
     if p = 0 then pipealloc_bad 0 (Some r) (Some w)
     else kseq (modpi p (\<lambda>x. x\<lparr>pi_readopen := 1\<rparr>))
     (kseq (modpi p (\<lambda>x. x\<lparr>pi_writeopen := 1\<rparr>))
     (kseq (modpi p (\<lambda>x. x\<lparr>pi_nwrite := 0\<rparr>))
     (kseq (modpi p (\<lambda>x. x\<lparr>pi_nread := 0\<rparr>))
     (kseq (initlock (PipeLock p) ''pipe'')
     (kseq (modf r (\<lambda>x. x\<lparr>f_type := FD_PIPE, f_readable := True, f_writable := False, f_pipe := p\<rparr>))
     (kseq (modf w (\<lambda>x. x\<lparr>f_type := FD_PIPE, f_readable := False, f_writable := True, f_pipe := p\<rparr>))
     (kret (Some (r, w))))))))))))"

end
