(* ===== verification/Proc_Life.thy ===== *)
theory Proc_Life
  imports File_Pipe
begin

text \<open>
  Creating and ending processes: \<open>fork\<close>, \<open>exit\<close>, \<open>userinit\<close> and \<open>forkret\<close> of \<open>proc.c\<close>, which
  use the file system, and \<open>loaduvm\<close> of \<open>vm.c\<close> and \<open>exec.c\<close>.
\<close>

section \<open>fork\<close>

fun fork_files :: "nat \<Rightarrow> nat \<Rightarrow> nat \<Rightarrow> nat \<Rightarrow> unit K" where
  "fork_files 0 i cp np = kret ()"
| "fork_files (Suc n) i cp np =
     kbind (getp cp) (\<lambda>p.
     kseq (case p_ofile p ! i of
         None \<Rightarrow> kret ()
       | Some f \<Rightarrow> kbind (filedup f) (\<lambda>f'. modp np (\<lambda>x. x\<lparr>p_ofile := (p_ofile x)[i := Some f']\<rparr>)))
     (fork_files n (Suc i) cp np))"

text \<open>The copy of the parent's clock queue: the child's entries keep the parent's entry pointers.\<close>

definition fork_queue :: "nat \<Rightarrow> nat \<Rightarrow> unit K" where
  "fork_queue cp np =
     kbind (getp cp) (\<lambda>p.
     kseq (modp np (\<lambda>x. x\<lparr>p_cq := p_cq p\<rparr>))
     (modp np (\<lambda>x. x\<lparr>p_clock_hand := p_clock_hand p\<rparr>)))"

definition fork :: "int K" where
  "fork =
     kbind curproc (\<lambda>cp.
     kbind allocproc (\<lambda>r. case r of None \<Rightarrow> kret (-1) | Some np \<Rightarrow>
     kbind (getp cp) (\<lambda>p.
     kbind (copyuvm (p_pgdir p) (p_sz p)) (\<lambda>d.
     kseq (modp np (\<lambda>x. x\<lparr>p_pgdir := d\<rparr>))
     (if d = 0 then
        kbind (getp np) (\<lambda>x.
        kseq (kfree (p_kstack x))
        (kseq (modp np (\<lambda>x. x\<lparr>p_kstack := 0\<rparr>))
        (kseq (modp np (\<lambda>x. x\<lparr>p_state := UNUSED\<rparr>))
        (kret (-1)))))
      else
        kbind (getp cp) (\<lambda>p.
        kseq (modp np (\<lambda>x. x\<lparr>p_sz := p_sz p\<rparr>))
        (kseq (modp np (\<lambda>x. x\<lparr>p_parent := Some cp\<rparr>))
        (kbind (getp np) (\<lambda>x.
        kseq (kmemmove (p_tf x) (p_tf p) TF_SIZE)
        (kseq (wr32 (p_tf x + TF_eax) 0)
        (kseq (fork_files NOFILE 0 cp np)
        (kbind (case p_cwd p of None \<Rightarrow> kfail NullDeref | Some c \<Rightarrow> idup c) (\<lambda>c.
        kseq (modp np (\<lambda>x. x\<lparr>p_cwd := Some c\<rparr>))
        (kseq (modp np (\<lambda>x. x\<lparr>p_name := safestrcpy (p_name x) (p_name p) 16\<rparr>))
        (kbind (getp np) (\<lambda>x.
        kseq (acquire PtableLock)
        (kseq (modp np (\<lambda>x. x\<lparr>p_state := RUNNABLE\<rparr>))
        (kseq (release PtableLock)
        (kseq (fork_queue cp np)
        (kret (p_pid x)))))))))))))))))))))"

section \<open>exit\<close>

fun exit_files :: "nat \<Rightarrow> nat \<Rightarrow> nat \<Rightarrow> unit K" where
  "exit_files 0 fd cp = kret ()"
| "exit_files (Suc n) fd cp =
     kbind (getp cp) (\<lambda>p.
     kseq (case p_ofile p ! fd of
         None \<Rightarrow> kret ()
       | Some f \<Rightarrow> kseq (fileclose f) (modp cp (\<lambda>x. x\<lparr>p_ofile := (p_ofile x)[fd := None]\<rparr>)))
     (exit_files n (Suc fd) cp))"

text \<open>A process pointer as a sleep channel.\<close>

definition proc_chan :: "nat option \<Rightarrow> chan" where
  "proc_chan po = (case po of None \<Rightarrow> NoChan | Some p \<Rightarrow> ProcChan p)"

fun exit_reparent :: "nat \<Rightarrow> nat \<Rightarrow> nat \<Rightarrow> unit K" where
  "exit_reparent 0 i cp = kret ()"
| "exit_reparent (Suc n) i cp =
     kbind (getp i) (\<lambda>p.
     kseq (if p_parent p = Some cp then
             kbind (kget initproc) (\<lambda>ini.
             kseq (modp i (\<lambda>x. x\<lparr>p_parent := ini\<rparr>))
             (if p_state p = ZOMBIE then wakeup1 (proc_chan ini) else kret ()))
           else kret ())
     (exit_reparent n (Suc i) cp))"

definition exit :: "unit K" where
  "exit =
     kbind myproc (\<lambda>po.
     kbind (kget initproc) (\<lambda>ini.
     if po = ini then panic ''init exiting''
     else case po of None \<Rightarrow> kfail NullDeref | Some cp \<Rightarrow>
     kseq (exit_files NOFILE 0 cp)
     (kseq begin_op
     (kbind (getp cp) (\<lambda>p.
     kseq (case p_cwd p of None \<Rightarrow> kfail NullDeref | Some c \<Rightarrow> iput c)
     (kseq end_op
     (kseq (modp cp (\<lambda>x. x\<lparr>p_cwd := None\<rparr>))
     (kseq (acquire PtableLock)
     (kbind (getp cp) (\<lambda>p.
     kseq (wakeup1 (proc_chan (p_parent p)))
     (kseq (exit_reparent NPROC 0 cp)
     (kseq (modp cp (\<lambda>x. x\<lparr>p_state := ZOMBIE\<rparr>))
     (kseq sched
     (panic ''zombie exit''))))))))))))))"

section \<open>The first process\<close>

text \<open>\<open>initcode\<close> and \<open>initcode_size\<close> are the program image the linker put into the kernel.\<close>

definition userinit :: "u32 \<Rightarrow> u32 \<Rightarrow> unit K" where
  "userinit initcode initcode_size =
     kbind allocproc (\<lambda>r.
     kseq (kmod (\<lambda>s. s\<lparr>initproc := r\<rparr>))
     (case r of None \<Rightarrow> kfail NullDeref | Some p \<Rightarrow>
     kbind setupkvm (\<lambda>d.
     kseq (modp p (\<lambda>x. x\<lparr>p_pgdir := d\<rparr>))
     (if d = 0 then panic ''userinit: out of memory?''
      else kseq (inituvm d initcode initcode_size)
      (kseq (modp p (\<lambda>x. x\<lparr>p_sz := PGSIZE\<rparr>))
      (kbind (getp p) (\<lambda>x.
      let tf = p_tf x in
      kseq (kmemset tf 0 TF_SIZE)
      (kseq (wr16 (tf + TF_cs) (push_bit 3 (of_nat SEG_UCODE) OR ucast DPL_USER))
      (kseq (wr16 (tf + TF_ds) (push_bit 3 (of_nat SEG_UDATA) OR ucast DPL_USER))
      (kbind (rd16 (tf + TF_ds)) (\<lambda>ds.
      kseq (wr16 (tf + TF_es) ds)
      (kseq (wr16 (tf + TF_ss) ds)
      (kseq (wr32 (tf + TF_eflags) FL_IF)
      (kseq (wr32 (tf + TF_esp) PGSIZE)
      (kseq (wr32 (tf + TF_eip) 0)
      (kseq (modp p (\<lambda>x. x\<lparr>p_name := safestrcpy (p_name x) (str ''initcode'') 16\<rparr>))
      (kbind (namei (str ''/'')) (\<lambda>c.
      kseq (modp p (\<lambda>x. x\<lparr>p_cwd := c\<rparr>))
      (kseq (acquire PtableLock)
      (kseq (modp p (\<lambda>x. x\<lparr>p_state := RUNNABLE\<rparr>))
      (release PtableLock)))))))))))))))))))))"

definition forkret :: "unit K" where
  "forkret =
     kseq (release PtableLock)
     (kbind (kget forkret_first) (\<lambda>first.
     if first \<noteq> 0 then
       kseq (kmod (\<lambda>s. s\<lparr>forkret_first := 0\<rparr>))
       (kseq (iinit ROOTDEV)
       (initlog ROOTDEV))
     else kret ()))"

section \<open>exec\<close>

text \<open>One page per round, so the number of pages bounds the loop.\<close>

fun loaduvm_loop :: "nat \<Rightarrow> u32 \<Rightarrow> u32 \<Rightarrow> nat \<Rightarrow> u32 \<Rightarrow> u32 \<Rightarrow> u32 \<Rightarrow> int K" where
  "loaduvm_loop 0 pgdir addr ip off i sz = kfail OutOfFuel"
| "loaduvm_loop (Suc k) pgdir addr ip off i sz =
     (if i < sz then
        kbind (walkpgdir pgdir (addr + i) False) (\<lambda>pte.
        if pte = 0 then panic ''loaduvm: address should exist''
        else kbind (rd32 pte) (\<lambda>v.
        let n = (if sz - i < PGSIZE then sz - i else PGSIZE) in
        kbind (readi ip (kern_sink (P2V (PTE_ADDR v))) (off + i) n) (\<lambda>(r, _).
        if r \<noteq> sint n then kret (-1) else loaduvm_loop k pgdir addr ip off (i + PGSIZE) sz)))
      else kret 0)"

definition loaduvm :: "u32 \<Rightarrow> u32 \<Rightarrow> nat \<Rightarrow> u32 \<Rightarrow> u32 \<Rightarrow> int K" where
  "loaduvm pgdir addr ip off sz =
     (if addr mod PGSIZE \<noteq> 0 then panic ''loaduvm: addr must be page aligned''
      else loaduvm_loop 1048577 pgdir addr ip off 0 sz)"

text \<open>\<open>copyout\<close> from a kernel buffer given by its bytes.\<close>

fun copyout_bytes :: "nat \<Rightarrow> u32 \<Rightarrow> u32 \<Rightarrow> u8 list \<Rightarrow> int K" where
  "copyout_bytes 0 pgdir va bs = kfail OutOfFuel"
| "copyout_bytes (Suc k) pgdir va bs =
     (if bs = [] then kret 0
      else let va0 = PGROUNDDOWN va in
      kbind (uva2ka pgdir va0) (\<lambda>pa0.
      if pa0 = 0 then kret (-1)
      else let n = min (unat (PGSIZE - (va - va0))) (length bs) in
      kseq (kmod (\<lambda>s. s\<lparr>mem := store_bytes (mem s) (pa0 + (va - va0)) (take n bs)\<rparr>))
      (copyout_bytes k pgdir (va0 + PGSIZE) (drop n bs))))"

definition copyout_buf :: "u32 \<Rightarrow> u32 \<Rightarrow> u8 list \<Rightarrow> int K" where
  "copyout_buf pgdir va bs = copyout_bytes (Suc (length bs)) pgdir va bs"

text \<open>The fields of the ELF header (52 bytes) and of a program header (32 bytes) that \<open>exec\<close> reads.\<close>

definition ELF_MAGIC :: u32 where "ELF_MAGIC = 0x464C457F"
definition ELF_PROG_LOAD :: u32 where "ELF_PROG_LOAD = 1"

record elfhdr =
  e_magic :: u32
  e_entry :: u32
  e_phoff :: u32
  e_phnum :: u16

record proghdr =
  ph_type :: u32
  ph_off :: u32
  ph_vaddr :: u32
  ph_filesz :: u32
  ph_memsz :: u32

definition elfhdr_of :: "u8 list \<Rightarrow> elfhdr" where
  "elfhdr_of d = \<lparr>e_magic = le32 d 0, e_entry = le32 d 24, e_phoff = le32 d 28, e_phnum = le16 d 44\<rparr>"

definition proghdr_of :: "u8 list \<Rightarrow> proghdr" where
  "proghdr_of d = \<lparr>ph_type = le32 d 0, ph_off = le32 d 4, ph_vaddr = le32 d 8, ph_filesz = le32 d 16, ph_memsz = le32 d 20\<rparr>"

text \<open>Loading the segments; \<open>None\<close> is the jump to \<open>bad\<close>.\<close>

fun exec_load :: "nat \<Rightarrow> nat \<Rightarrow> u32 \<Rightarrow> u32 \<Rightarrow> u32 \<Rightarrow> u32 option K" where
  "exec_load 0 ip off pgdir sz = kret (Some sz)"
| "exec_load (Suc n) ip off pgdir sz =
     kbind (readi ip local_sink off 32) (\<lambda>(r, bs).
     if r \<noteq> 32 then kret None
     else let ph = proghdr_of bs in
     if ph_type ph \<noteq> ELF_PROG_LOAD then exec_load n ip (off + 32) pgdir sz
     else if ph_memsz ph < ph_filesz ph then kret None
     else if ph_vaddr ph + ph_memsz ph < ph_vaddr ph then kret None
     else kbind (allocuvm pgdir sz (ph_vaddr ph + ph_memsz ph)) (\<lambda>sz.
     if sz = 0 then kret None
     else if ph_vaddr ph mod PGSIZE \<noteq> 0 then kret None
     else kbind (loaduvm pgdir (ph_vaddr ph) ip (ph_off ph) (ph_filesz ph)) (\<lambda>r.
     if r < 0 then kret None else exec_load n ip (off + 32) pgdir sz)))"

text \<open>Pushing the argument strings: the new stack pointer and the addresses of the strings.\<close>

fun exec_args :: "nat \<Rightarrow> u8 list list \<Rightarrow> u32 \<Rightarrow> u32 \<Rightarrow> u32 list \<Rightarrow> (u32 \<times> u32 list) option K" where
  "exec_args argc [] pgdir sp ustack = kret (Some (sp, ustack))"
| "exec_args argc (a # as) pgdir sp ustack =
     (if argc \<ge> MAXARG then kret None
      else let sp = (sp - (of_nat (strlen a) + 1)) AND NOT 3 in
      kbind (copyout_buf pgdir sp (cstr a @ [0])) (\<lambda>r.
      if r < 0 then kret None else exec_args (Suc argc) as pgdir sp (ustack @ [sp])))"

definition exec_bad :: "u32 \<Rightarrow> nat option \<Rightarrow> int K" where
  "exec_bad pgdir ipo =
     kseq (if pgdir \<noteq> 0 then freevm pgdir else kret ())
     (kseq (case ipo of Some ip \<Rightarrow> kseq (iunlockput ip) end_op | None \<Rightarrow> kret ())
     (kret (-1)))"

text \<open>The part of a path behind its last slash.\<close>

fun last_elem :: "u8 list \<Rightarrow> u8 list \<Rightarrow> u8 list" where
  "last_elem [] la = la"
| "last_elem (c # s) la = (if c = 0 then la else if c = slash then last_elem s s else last_elem s la)"

text \<open>Encrypting the new image page by page; a failure is ignored.\<close>

fun exec_encrypt :: "nat \<Rightarrow> u32 \<Rightarrow> u32 \<Rightarrow> unit K" where
  "exec_encrypt 0 i sz = kfail OutOfFuel"
| "exec_encrypt (Suc n) i sz =
     (if i < sz then kbind (mencrypt i 1) (\<lambda>_. exec_encrypt n (i + PGSIZE) sz) else kret ())"

definition exec_commit :: "nat \<Rightarrow> u8 list \<Rightarrow> u32 \<Rightarrow> u32 \<Rightarrow> u32 \<Rightarrow> u32 \<Rightarrow> int K" where
  "exec_commit cp path pgdir sz entry sp =
     kseq (modp cp (\<lambda>x. x\<lparr>p_name := safestrcpy (p_name x) (last_elem path path) 16\<rparr>))
     (kseq (cq_init cp)
     (kbind (getp cp) (\<lambda>p.
     kseq (modp cp (\<lambda>x. x\<lparr>p_pgdir := pgdir\<rparr>))
     (kseq (modp cp (\<lambda>x. x\<lparr>p_sz := sz\<rparr>))
     (kseq (wr32 (p_tf p + TF_eip) entry)
     (kseq (wr32 (p_tf p + TF_esp) sp)
     (kseq (switchuvm (Some cp))
     (kseq (exec_encrypt 1048577 0 sz)
     (kseq (freevm (p_pgdir p))
     (kret 0))))))))))"

text \<open>The user stack: two pages, the lower one inaccessible, then strings and the argument vector.\<close>

definition exec_stack :: "nat \<Rightarrow> u8 list \<Rightarrow> u8 list list \<Rightarrow> u32 \<Rightarrow> u32 \<Rightarrow> u32 \<Rightarrow> int K" where
  "exec_stack cp path argv pgdir sz entry =
     kbind (allocuvm pgdir (PGROUNDUP sz) (PGROUNDUP sz + 2 * PGSIZE)) (\<lambda>sz.
     if sz = 0 then exec_bad pgdir None
     else kseq (clearpteu pgdir (sz - 2 * PGSIZE))
     (kbind (exec_args 0 argv pgdir sz []) (\<lambda>r. case r of
       None \<Rightarrow> exec_bad pgdir None
     | Some (sp, strs) \<Rightarrow>
       let argc = of_nat (length strs);
           ustack = [0xFFFFFFFF, argc, sp - (argc + 1) * 4] @ strs @ [0];
           sp = sp - (3 + argc + 1) * 4 in
       kbind (copyout_buf pgdir sp (concat (map bytes32 ustack))) (\<lambda>r.
       if r < 0 then exec_bad pgdir None
       else exec_commit cp path pgdir sz entry sp))))"

definition exec :: "u8 list \<Rightarrow> u8 list list \<Rightarrow> int K" where
  "exec path argv =
     kbind curproc (\<lambda>cp.
     kseq begin_op
     (kbind (namei path) (\<lambda>ipo. case ipo of
       None \<Rightarrow> kseq end_op (kret (-1))
     | Some ip \<Rightarrow>
       kseq (ilock (Some ip))
       (kbind (readi ip local_sink 0 52) (\<lambda>(r, bs).
       if r \<noteq> 52 then exec_bad 0 (Some ip)
       else let elf = elfhdr_of bs in
       if e_magic elf \<noteq> ELF_MAGIC then exec_bad 0 (Some ip)
       else kbind setupkvm (\<lambda>pgdir.
       if pgdir = 0 then exec_bad 0 (Some ip)
       else kbind (exec_load (unat (e_phnum elf)) ip (e_phoff elf) pgdir 0) (\<lambda>r. case r of
         None \<Rightarrow> exec_bad pgdir (Some ip)
       | Some sz \<Rightarrow>
         kseq (iunlockput ip)
         (kseq end_op
         (exec_stack cp path argv pgdir sz (e_entry elf))))))))))"

end
