(* ===== verification/Syscall.thy ===== *)
theory Syscall
  imports Proc_Life
begin

text \<open>
  System calls: fetching arguments (\<open>syscall.c\<close>), the process calls (\<open>sysproc.c\<close>), the file calls
  (\<open>sysfile.c\<close>), the dispatcher and the trap handler (\<open>trap.c\<close>). A fetch that fails gives \<open>None\<close>.
  Diagnostic messages are left out.
\<close>

section \<open>Arguments\<close>

definition fetchint :: "u32 \<Rightarrow> u32 option K" where
  "fetchint addr =
     kbind me (\<lambda>p.
     if addr \<ge> p_sz p \<or> addr + 4 > p_sz p then kret None
     else kbind (uget32 addr) (\<lambda>v. kret (Some v)))"

fun fetchstr_loop :: "nat \<Rightarrow> u32 \<Rightarrow> u8 list \<Rightarrow> u8 list option K" where
  "fetchstr_loop 0 s got = kret None"
| "fetchstr_loop (Suc n) s got =
     kbind (uget8 s) (\<lambda>c. if c = 0 then kret (Some got) else fetchstr_loop n (s + 1) (got @ [c]))"

text \<open>The bytes of the string at \<open>addr\<close>, without the terminator.\<close>

definition fetchstr :: "u32 \<Rightarrow> u8 list option K" where
  "fetchstr addr =
     kbind me (\<lambda>p.
     if addr \<ge> p_sz p then kret None
     else fetchstr_loop (unat (p_sz p - addr)) addr [])"

definition argint :: "nat \<Rightarrow> u32 option K" where
  "argint n =
     kbind me (\<lambda>p.
     kbind (rd32 (p_tf p + TF_esp)) (\<lambda>esp.
     fetchint (esp + 4 + 4 * of_nat n)))"

definition argptr :: "nat \<Rightarrow> int \<Rightarrow> u32 option K" where
  "argptr n sz =
     kbind me (\<lambda>p.
     kbind (argint n) (\<lambda>r. case r of None \<Rightarrow> kret None | Some i \<Rightarrow>
     if sz < 0 \<or> i \<ge> p_sz p \<or> i + of_int sz > p_sz p then kret None
     else kret (Some i)))"

definition argstr :: "nat \<Rightarrow> u8 list option K" where
  "argstr n = kbind (argint n) (\<lambda>r. case r of None \<Rightarrow> kret None | Some addr \<Rightarrow> fetchstr addr)"

text \<open>A fetch whose failure makes the call return -1.\<close>

definition need :: "'a option K \<Rightarrow> ('a \<Rightarrow> int K) \<Rightarrow> int K" where
  "need f g = kbind f (\<lambda>r. case r of None \<Rightarrow> kret (-1) | Some x \<Rightarrow> g x)"

section \<open>Process calls\<close>

definition sys_fork :: "int K" where
  "sys_fork = fork"

definition sys_exit :: "int K" where
  "sys_exit = kseq exit (kret 0)"

definition sys_wait :: "int K" where
  "sys_wait = wait"

definition sys_kill :: "int K" where
  "sys_kill = need (argint 0) (\<lambda>pid. kill (sint pid))"

definition sys_getpid :: "int K" where
  "sys_getpid = kbind me (\<lambda>p. kret (p_pid p))"

definition sys_sbrk :: "int K" where
  "sys_sbrk =
     need (argint 0) (\<lambda>n.
     kbind me (\<lambda>p.
     kbind (growproc (sint n)) (\<lambda>r.
     if r < 0 then kret (-1) else kret (sint (p_sz p)))))"

fun sys_sleep_loop :: "nat \<Rightarrow> u32 \<Rightarrow> u32 \<Rightarrow> int K" where
  "sys_sleep_loop 0 ticks0 n = kfail OutOfFuel"
| "sys_sleep_loop (Suc k) ticks0 n =
     kbind (kget ticks) (\<lambda>t.
     if t - ticks0 < n then
       kbind me (\<lambda>p.
       if p_killed p \<noteq> 0 then kseq (release TicksLock) (kret (-1))
       else kseq (sleep TicksChan TicksLock) (sys_sleep_loop k ticks0 n))
     else kseq (release TicksLock) (kret 0))"

definition sys_sleep :: "int K" where
  "sys_sleep =
     need (argint 0) (\<lambda>n.
     kseq (acquire TicksLock)
     (kbind (kget ticks) (\<lambda>ticks0.
     kbind wakeups (\<lambda>k. sys_sleep_loop k ticks0 n))))"

definition sys_uptime :: "int K" where
  "sys_uptime =
     kseq (acquire TicksLock)
     (kbind (kget ticks) (\<lambda>xticks.
     kseq (release TicksLock)
     (kret (sint xticks))))"

definition sys_mencrypt :: "int K" where
  "sys_mencrypt =
     need (argint 1) (\<lambda>len.
     if len = 0 then kret 0
     else if sint len < 0 then kret (-1)
     else need (argptr 0 1) (\<lambda>va.
     if va \<ge> KERNBASE then kret (-1)
     else mencrypt va (sint len)))"

text \<open>\<open>sizeof(struct pt_entry)\<close> is 8.\<close>

definition sys_getpgtable :: "int K" where
  "sys_getpgtable =
     need (argint 1) (\<lambda>num.
     need (argint 2) (\<lambda>wsetOnly.
     need (argptr 0 (sint (num * 8))) (\<lambda>entries.
     getpgtable entries (sint num) (sint wsetOnly))))"

definition sys_dump_rawphymem :: "int K" where
  "sys_dump_rawphymem =
     need (argptr 1 (uint PGSIZE)) (\<lambda>buffer.
     need (argint 0) (\<lambda>physical_addr.
     dump_rawphymem physical_addr buffer))"

section \<open>File calls\<close>

definition argfd :: "nat \<Rightarrow> (nat \<times> nat) option K" where
  "argfd n =
     kbind (argint n) (\<lambda>r. case r of None \<Rightarrow> kret None | Some fd \<Rightarrow>
     if sint fd < 0 \<or> sint fd \<ge> int NOFILE then kret None
     else kbind me (\<lambda>p. case p_ofile p ! unat fd of
         None \<Rightarrow> kret None
       | Some f \<Rightarrow> kret (Some (unat fd, f))))"

definition set_ofile :: "nat \<Rightarrow> nat option \<Rightarrow> unit K" where
  "set_ofile fd fo = modme (\<lambda>p. p\<lparr>p_ofile := (p_ofile p)[fd := fo]\<rparr>)"

definition fdalloc :: "nat \<Rightarrow> nat option K" where
  "fdalloc f =
     kbind curproc (\<lambda>cp.
     kbind (getp cp) (\<lambda>p. case first_idx (\<lambda>x. x = None) (take NOFILE (p_ofile p)) 0 of
       Some fd \<Rightarrow> kseq (modp cp (\<lambda>p. p\<lparr>p_ofile := (p_ofile p)[fd := Some f]\<rparr>)) (kret (Some fd))
     | None \<Rightarrow> kret None))"

definition sys_dup :: "int K" where
  "sys_dup =
     need (argfd 0) (\<lambda>(_, f).
     need (fdalloc f) (\<lambda>fd.
     kbind (filedup f) (\<lambda>_. kret (int fd))))"

definition sys_read :: "int K" where
  "sys_read =
     need (argfd 0) (\<lambda>(_, f).
     need (argint 2) (\<lambda>n.
     need (argptr 1 (sint n)) (\<lambda>p.
     fileread f p (sint n))))"

definition sys_write :: "int K" where
  "sys_write =
     need (argfd 0) (\<lambda>(_, f).
     need (argint 2) (\<lambda>n.
     need (argptr 1 (sint n)) (\<lambda>p.
     filewrite f p (sint n))))"

definition sys_close :: "int K" where
  "sys_close =
     need (argfd 0) (\<lambda>(fd, f).
     kseq (set_ofile fd None)
     (kseq (fileclose f)
     (kret 0)))"

text \<open>\<open>sizeof(struct stat)\<close> is 20.\<close>

definition sys_fstat :: "int K" where
  "sys_fstat =
     need (argfd 0) (\<lambda>(_, f).
     need (argptr 1 20) (\<lambda>st.
     filestat f st))"

definition mod_nlink :: "nat \<Rightarrow> u16 \<Rightarrow> unit K" where
  "mod_nlink ip d = kseq (modi ip (\<lambda>x. x\<lparr>ip_nlink := ip_nlink x + d\<rparr>)) (iupdate ip)"

text \<open>The label \<open>bad\<close> of \<open>sys_link\<close>.\<close>

definition sys_link_bad :: "nat \<Rightarrow> int K" where
  "sys_link_bad ip =
     kseq (ilock (Some ip))
     (kseq (mod_nlink ip (-1))
     (kseq (iunlockput ip)
     (kseq end_op
     (kret (-1)))))"

definition sys_link :: "int K" where
  "sys_link =
     need (argstr 0) (\<lambda>old.
     need (argstr 1) (\<lambda>new.
     kseq begin_op
     (kbind (namei old) (\<lambda>r. case r of
       None \<Rightarrow> kseq end_op (kret (-1))
     | Some ip \<Rightarrow>
       kseq (ilock (Some ip))
       (kbind (geti ip) (\<lambda>x.
       if ip_type x = T_DIR then kseq (iunlockput ip) (kseq end_op (kret (-1)))
       else kseq (mod_nlink ip 1)
       (kseq (iunlock (Some ip))
       (kbind (nameiparent new) (\<lambda>(dpo, name). case dpo of
         None \<Rightarrow> sys_link_bad ip
       | Some dp \<Rightarrow>
         kseq (ilock (Some dp))
         (kbind (geti dp) (\<lambda>d. kbind (geti ip) (\<lambda>x.
         kbind (if ip_dev d \<noteq> ip_dev x then kret True
                else kbind (dirlink dp name (ip_inum x)) (\<lambda>r. kret (r < 0))) (\<lambda>fails.
         if fails then kseq (iunlockput dp) (sys_link_bad ip)
         else kseq (iunlockput dp)
         (kseq (iput ip)
         (kseq end_op
         (kret 0))))))))))))))))"

fun isdirempty_loop :: "nat \<Rightarrow> nat \<Rightarrow> u32 \<Rightarrow> bool K" where
  "isdirempty_loop 0 dp off = kfail OutOfFuel"
| "isdirempty_loop (Suc k) dp off =
     kbind (geti dp) (\<lambda>x.
     if off < ip_size x then
       kbind (read_dirent ''isdirempty: readi'' dp off) (\<lambda>de.
       if de_inum de \<noteq> 0 then kret False else isdirempty_loop k dp (off + DIRENT_SIZE))
     else kret True)"

definition isdirempty :: "nat \<Rightarrow> bool K" where
  "isdirempty dp = kbind (geti dp) (\<lambda>x. isdirempty_loop (unat (ip_size x) div 16 + 2) dp (2 * DIRENT_SIZE))"

definition sys_unlink_bad :: "nat \<Rightarrow> int K" where
  "sys_unlink_bad dp = kseq (iunlockput dp) (kseq end_op (kret (-1)))"

definition sys_unlink :: "int K" where
  "sys_unlink =
     need (argstr 0) (\<lambda>path.
     kseq begin_op
     (kbind (nameiparent path) (\<lambda>(dpo, name). case dpo of
       None \<Rightarrow> kseq end_op (kret (-1))
     | Some dp \<Rightarrow>
       kseq (ilock (Some dp))
       (if namecmp name (str ''.'') = 0 \<or> namecmp name (str ''..'') = 0 then sys_unlink_bad dp
        else kbind (dirlookup dp name) (\<lambda>r. case r of
          None \<Rightarrow> sys_unlink_bad dp
        | Some (ip, off) \<Rightarrow>
          kseq (ilock (Some ip))
          (kbind (geti ip) (\<lambda>x.
          if sint (ip_nlink x) < 1 then panic ''unlink: nlink < 1''
          else kbind (if ip_type x = T_DIR then isdirempty ip else kret True) (\<lambda>empt.
          if \<not> empt then kseq (iunlockput ip) (sys_unlink_bad dp)
          else kbind (writei dp (local_src (replicate 16 0)) off DIRENT_SIZE) (\<lambda>r.
          if r \<noteq> 16 then panic ''unlink: writei''
          else kseq (if ip_type x = T_DIR then mod_nlink dp (-1) else kret ())
          (kseq (iunlockput dp)
          (kseq (mod_nlink ip (-1))
          (kseq (iunlockput ip)
          (kseq end_op
          (kret 0))))))))))))))"

definition create :: "u8 list \<Rightarrow> u16 \<Rightarrow> u16 \<Rightarrow> u16 \<Rightarrow> nat option K" where
  "create path type major minor =
     kbind (nameiparent path) (\<lambda>(dpo, name). case dpo of None \<Rightarrow> kret None | Some dp \<Rightarrow>
     kseq (ilock (Some dp))
     (kbind (dirlookup dp name) (\<lambda>r. case r of
       Some (ip, _) \<Rightarrow>
         kseq (iunlockput dp)
         (kseq (ilock (Some ip))
         (kbind (geti ip) (\<lambda>x.
         if type = T_FILE \<and> ip_type x = T_FILE then kret (Some ip)
         else kseq (iunlockput ip) (kret None))))
     | None \<Rightarrow>
       kbind (geti dp) (\<lambda>d.
       kbind (ialloc (ip_dev d) type) (\<lambda>ip.
       kseq (ilock (Some ip))
       (kseq (modi ip (\<lambda>x. x\<lparr>ip_major := major, ip_minor := minor, ip_nlink := 1\<rparr>))
       (kseq (iupdate ip)
       (kseq (if type = T_DIR then
           kseq (mod_nlink dp 1)
           (kbind (geti ip) (\<lambda>x. kbind (geti dp) (\<lambda>d.
           kbind (dirlink ip (str ''.'') (ip_inum x)) (\<lambda>r1.
           if r1 < 0 then panic ''create dots''
           else kbind (dirlink ip (str ''..'') (ip_inum d)) (\<lambda>r2.
           if r2 < 0 then panic ''create dots'' else kret ())))))
         else kret ())
       (kbind (geti ip) (\<lambda>x.
       kbind (dirlink dp name (ip_inum x)) (\<lambda>r.
       if r < 0 then panic ''create: dirlink''
       else kseq (iunlockput dp)
       (kret (Some ip)))))))))))))"

definition O_RDONLY :: u32 where "O_RDONLY = 0x000"
definition O_WRONLY :: u32 where "O_WRONLY = 0x001"
definition O_RDWR :: u32 where "O_RDWR = 0x002"
definition O_CREATE :: u32 where "O_CREATE = 0x200"

text \<open>The second half of \<open>sys_open\<close>, with the locked inode.\<close>

definition open_file :: "nat \<Rightarrow> u32 \<Rightarrow> int K" where
  "open_file ip omode =
     kbind filealloc (\<lambda>fo. case fo of
       None \<Rightarrow> kseq (iunlockput ip) (kseq end_op (kret (-1)))
     | Some f \<Rightarrow>
     kbind (fdalloc f) (\<lambda>fdo. case fdo of
       None \<Rightarrow> kseq (fileclose f) (kseq (iunlockput ip) (kseq end_op (kret (-1))))
     | Some fd \<Rightarrow>
     kseq (iunlock (Some ip))
     (kseq end_op
     (kseq (modf f (\<lambda>x. x\<lparr>f_type := FD_INODE, f_ip := Some ip, f_off := 0,
         f_readable := (omode AND O_WRONLY = 0), f_writable := (omode AND O_WRONLY \<noteq> 0 \<or> omode AND O_RDWR \<noteq> 0)\<rparr>))
     (kret (int fd))))))"

definition sys_open :: "int K" where
  "sys_open =
     need (argstr 0) (\<lambda>path.
     need (argint 1) (\<lambda>omode.
     kseq begin_op
     (if omode AND O_CREATE \<noteq> 0 then
        kbind (create path T_FILE 0 0) (\<lambda>r. case r of
          None \<Rightarrow> kseq end_op (kret (-1))
        | Some ip \<Rightarrow> open_file ip omode)
      else
        kbind (namei path) (\<lambda>r. case r of
          None \<Rightarrow> kseq end_op (kret (-1))
        | Some ip \<Rightarrow>
          kseq (ilock (Some ip))
          (kbind (geti ip) (\<lambda>x.
          if ip_type x = T_DIR \<and> omode \<noteq> O_RDONLY then kseq (iunlockput ip) (kseq end_op (kret (-1)))
          else open_file ip omode))))))"

text \<open>Closing the transaction around \<open>create\<close> in \<open>sys_mkdir\<close> and \<open>sys_mknod\<close>.\<close>

definition finish_create :: "nat option \<Rightarrow> int K" where
  "finish_create r = (case r of
     None \<Rightarrow> kseq end_op (kret (-1))
   | Some ip \<Rightarrow> kseq (iunlockput ip) (kseq end_op (kret 0)))"

definition sys_mkdir :: "int K" where
  "sys_mkdir =
     kseq begin_op
     (kbind (argstr 0) (\<lambda>r. case r of
       None \<Rightarrow> finish_create None
     | Some path \<Rightarrow> kbind (create path T_DIR 0 0) finish_create))"

definition sys_mknod :: "int K" where
  "sys_mknod =
     kseq begin_op
     (kbind (argstr 0) (\<lambda>r. case r of None \<Rightarrow> finish_create None | Some path \<Rightarrow>
     kbind (argint 1) (\<lambda>r. case r of None \<Rightarrow> finish_create None | Some major \<Rightarrow>
     kbind (argint 2) (\<lambda>r. case r of None \<Rightarrow> finish_create None | Some minor \<Rightarrow>
     kbind (create path T_DEV (ucast major) (ucast minor)) finish_create))))"

definition sys_chdir :: "int K" where
  "sys_chdir =
     kbind curproc (\<lambda>cp.
     kseq begin_op
     (kbind (kbind (argstr 0) (\<lambda>r. case r of None \<Rightarrow> kret None | Some path \<Rightarrow> namei path)) (\<lambda>r. case r of
       None \<Rightarrow> kseq end_op (kret (-1))
     | Some ip \<Rightarrow>
       kseq (ilock (Some ip))
       (kbind (geti ip) (\<lambda>x.
       if ip_type x \<noteq> T_DIR then kseq (iunlockput ip) (kseq end_op (kret (-1)))
       else kseq (iunlock (Some ip))
       (kbind (getp cp) (\<lambda>p.
       kseq (case p_cwd p of None \<Rightarrow> kfail NullDeref | Some c \<Rightarrow> iput c)
       (kseq end_op
       (kseq (modp cp (\<lambda>p. p\<lparr>p_cwd := Some ip\<rparr>))
       (kret 0))))))))))"

fun sys_exec_args :: "nat \<Rightarrow> u32 \<Rightarrow> u8 list list \<Rightarrow> u8 list list option K" where
  "sys_exec_args 0 uargv argv = kret None"
| "sys_exec_args (Suc n) uargv argv =
     kbind (fetchint uargv) (\<lambda>r. case r of None \<Rightarrow> kret None | Some uarg \<Rightarrow>
     if uarg = 0 then kret (Some argv)
     else kbind (fetchstr uarg) (\<lambda>r. case r of None \<Rightarrow> kret None | Some a \<Rightarrow>
     sys_exec_args n (uargv + 4) (argv @ [a])))"

definition sys_exec :: "int K" where
  "sys_exec =
     need (argstr 0) (\<lambda>path.
     need (argint 1) (\<lambda>uargv.
     need (sys_exec_args MAXARG uargv []) (\<lambda>argv.
     exec path argv)))"

definition sys_pipe :: "int K" where
  "sys_pipe =
     need (argptr 0 8) (\<lambda>fd.
     need pipealloc (\<lambda>(rf, wf).
     kbind (fdalloc rf) (\<lambda>r0. case r0 of
       None \<Rightarrow> kseq (fileclose rf) (kseq (fileclose wf) (kret (-1)))
     | Some fd0 \<Rightarrow>
     kbind (fdalloc wf) (\<lambda>r1. case r1 of
       None \<Rightarrow> kseq (set_ofile fd0 None) (kseq (fileclose rf) (kseq (fileclose wf) (kret (-1))))
     | Some fd1 \<Rightarrow>
       kseq (uput32 fd (of_nat fd0))
       (kseq (uput32 (fd + 4) (of_nat fd1))
       (kret 0))))))"

section \<open>Dispatch\<close>

definition syscalls :: "(int K) list" where
  "syscalls = [sys_fork, sys_exit, sys_wait, sys_pipe, sys_read, sys_kill, sys_exec, sys_fstat, sys_chdir, sys_dup,
     sys_getpid, sys_sbrk, sys_sleep, sys_uptime, sys_open, sys_write, sys_mknod, sys_unlink, sys_link, sys_mkdir,
     sys_close, sys_mencrypt, sys_getpgtable, sys_dump_rawphymem]"

definition syscall :: "unit K" where
  "syscall =
     kbind curproc (\<lambda>cp.
     kbind (getp cp) (\<lambda>p.
     kbind (rd32 (p_tf p + TF_eax)) (\<lambda>num.
     if sint num > 0 \<and> sint num < 25 then
       kbind (syscalls ! (unat num - 1)) (\<lambda>r.
       kbind (getp cp) (\<lambda>p. wr32 (p_tf p + TF_eax) (of_int r)))
     else wr32 (p_tf p + TF_eax) (-1))))"

section \<open>Traps\<close>

definition SETGATE :: "bool \<Rightarrow> u16 \<Rightarrow> u32 \<Rightarrow> 2 word \<Rightarrow> gatedesc" where
  "SETGATE istrap sel off d =
     \<lparr>off_15_0 = ucast (off AND 0xFFFF), gd_cs = sel, gd_args = 0, gd_rsv1 = 0, gd_type = (if istrap then 0xF else 0xE),
      gd_s = 0, gd_dpl = d, gd_p = 1, off_31_16 = ucast (drop_bit 16 off)\<rparr>"

definition tvinit :: "unit K" where
  "tvinit =
     kbind (kget sym_vectors) (\<lambda>vec.
     kseq (kmod (\<lambda>s. s\<lparr>idt := map (\<lambda>i. SETGATE False (of_nat SEG_KCODE * 8) (vec i) 0) [0..<256]\<rparr>))
     (kseq (kmod (\<lambda>s. s\<lparr>idt := (idt s)[unat T_SYSCALL :=
         SETGATE True (of_nat SEG_KCODE * 8) (vec (unat T_SYSCALL)) (ucast DPL_USER)]\<rparr>))
     (initlock TicksLock ''time'')))"

definition idtinit :: "unit K" where
  "idtinit = kmod (\<lambda>s. s\<lparr>idt_loaded := True\<rparr>)"

definition trap_syscall :: "u32 \<Rightarrow> unit K" where
  "trap_syscall tf =
     kbind me (\<lambda>p.
     kseq (if p_killed p \<noteq> 0 then exit else kret ())
     (kseq (modme (\<lambda>p. p\<lparr>p_tf := tf\<rparr>))
     (kseq syscall
     (kbind me (\<lambda>p. if p_killed p \<noteq> 0 then exit else kret ())))))"

text \<open>The \<open>default\<close> case.\<close>

definition trap_default :: "u32 \<Rightarrow> unit K" where
  "trap_default tf =
     kbind myproc (\<lambda>po.
     kbind (rd16 (tf + TF_cs)) (\<lambda>cs.
     if po = None \<or> cs AND 3 = 0 then panic ''trap''
     else modme (\<lambda>p. p\<lparr>p_killed := 1\<rparr>)))"

definition trap_timer :: "unit K" where
  "trap_timer =
     kbind cpuid (\<lambda>c.
     kseq (if c = 0 then
             kseq (acquire TicksLock)
             (kseq (kmod (\<lambda>s. s\<lparr>ticks := ticks s + 1\<rparr>))
             (kseq (wakeup TicksChan)
             (release TicksLock)))
           else kret ())
     lapiceoi)"

text \<open>Exit if the process was killed and the trap came from user space.\<close>

definition trap_killed :: "u32 \<Rightarrow> unit K" where
  "trap_killed tf =
     kbind myproc (\<lambda>po. case po of None \<Rightarrow> kret () | Some p \<Rightarrow>
     kbind (getp p) (\<lambda>pr.
     kbind (rd16 (tf + TF_cs)) (\<lambda>cs.
     if p_killed pr \<noteq> 0 \<and> ucast (cs AND 3) = DPL_USER then exit else kret ())))"

text \<open>\<open>n\<close> bounds the characters an input interrupt delivers.\<close>

definition trap :: "nat \<Rightarrow> u32 \<Rightarrow> unit K" where
  "trap n tf =
     kbind (rd32 (tf + TF_trapno)) (\<lambda>no.
     if no = T_SYSCALL then trap_syscall tf
     else kseq
       (if no = T_IRQ0 + IRQ_TIMER then trap_timer
        else if no = T_IRQ0 + IRQ_IDE then kseq ideintr lapiceoi
        else if no = T_IRQ0 + IRQ_IDE + 1 then kret ()
        else if no = T_IRQ0 + IRQ_KBD then kseq (kbdintr n) lapiceoi
        else if no = T_IRQ0 + IRQ_COM1 then kseq (uartintr n) lapiceoi
        else if no = T_IRQ0 + 7 \<or> no = T_IRQ0 + IRQ_SPURIOUS then lapiceoi
        else if no = T_PGFLT then
          kbind (kget cr2) (\<lambda>addr. kbind (mdecrypt addr) (\<lambda>r. if r = 0 then kret () else trap_default tf))
        else trap_default tf)
       (kseq (trap_killed tf)
       (kseq (kbind myproc (\<lambda>po. case po of None \<Rightarrow> kret () | Some p \<Rightarrow>
           kbind (getp p) (\<lambda>pr.
           if p_state pr = RUNNING \<and> no = T_IRQ0 + IRQ_TIMER then yield else kret ())))
       (trap_killed tf))))"

end
