(* ===== verification/Atomic.thy ===== *)
theory Atomic
  imports Syscall
begin

text \<open>
  Critical sections as atomic updates. Taking a spin lock changes three parts of the state: the
  interrupt flag, the nesting depth of the processor and the lock. The state inside a section is
  written as the state outside with these parts replaced, so that an update in the section
  commutes outwards and the release gives back the updated state.
\<close>

section \<open>The parts a lock changes\<close>

type_synonym lkpart = "u32 \<times> cpu list \<times> (lockref \<Rightarrow> spinlock)"

definition lk :: "kstate \<Rightarrow> lkpart" where
  "lk s = (eflags s, cpus s, locks s)"

definition lk_upd :: "lkpart \<Rightarrow> kstate \<Rightarrow> kstate" where
  "lk_upd a s = s\<lparr>eflags := fst a, cpus := fst (snd a), locks := snd (snd a)\<rparr>"

text \<open>The parts after the lock \<open>r\<close> has been taken in state \<open>s\<close>.\<close>

definition acq :: "lockref \<Rightarrow> kstate \<Rightarrow> lkpart" where
  "acq r s = lk (locked r (the (this_cpu s)) s)"

lemma lk_upd_sel [simp]:
  "mem (lk_upd a s) = mem s" "kmem_use_lock (lk_upd a s) = kmem_use_lock s"
  "kmem_freelist (lk_upd a s) = kmem_freelist s" "ncpu (lk_upd a s) = ncpu s" "lapic_id (lk_upd a s) = lapic_id s"
  "cr3 (lk_upd a s) = cr3 s" "cr2 (lk_upd a s) = cr2 s" "tr (lk_upd a s) = tr s" "gdtr (lk_upd a s) = gdtr s"
  "idt (lk_upd a s) = idt s" "idt_loaded (lk_upd a s) = idt_loaded s" "lapic (lk_upd a s) = lapic s"
  "ioapicid (lk_upd a s) = ioapicid s" "procs (lk_upd a s) = procs s" "initproc (lk_upd a s) = initproc s"
  "nextpid (lk_upd a s) = nextpid s" "forkret_first (lk_upd a s) = forkret_first s"
  "kpgdir (lk_upd a s) = kpgdir s" "ticks (lk_upd a s) = ticks s" "sym_end (lk_upd a s) = sym_end s"
  "sym_data (lk_upd a s) = sym_data s" "sym_trapret (lk_upd a s) = sym_trapret s"
  "sym_forkret (lk_upd a s) = sym_forkret s" "sym_vectors (lk_upd a s) = sym_vectors s"
  "bcache (lk_upd a s) = bcache s" "memdisk (lk_upd a s) = memdisk s" "disksize (lk_upd a s) = disksize s"
  "idequeue (lk_upd a s) = idequeue s" "havedisk1 (lk_upd a s) = havedisk1 s" "klog (lk_upd a s) = klog s"
  "sb (lk_upd a s) = sb s" "icache (lk_upd a s) = icache s" "ftable (lk_upd a s) = ftable s"
  "devsw_tab (lk_upd a s) = devsw_tab s" "pipes (lk_upd a s) = pipes s"
  "cons_locking (lk_upd a s) = cons_locking s" "panicked (lk_upd a s) = panicked s" "input (lk_upd a s) = input s"
  "crt (lk_upd a s) = crt s" "uart (lk_upd a s) = uart s" "kbd_shift (lk_upd a s) = kbd_shift s"
  "dev_reply (lk_upd a s) = dev_reply s" "reg_reply (lk_upd a s) = reg_reply s" "iolog (lk_upd a s) = iolog s"
  "resumes (lk_upd a s) = resumes s"
  by (simp_all add: lk_upd_def)

lemma lk_upd_upd [simp]:
  "(lk_upd a s)\<lparr>mem := x0\<rparr> = lk_upd a (s\<lparr>mem := x0\<rparr>)"
  "(lk_upd a s)\<lparr>kmem_use_lock := x1\<rparr> = lk_upd a (s\<lparr>kmem_use_lock := x1\<rparr>)"
  "(lk_upd a s)\<lparr>kmem_freelist := x2\<rparr> = lk_upd a (s\<lparr>kmem_freelist := x2\<rparr>)"
  "(lk_upd a s)\<lparr>cr3 := x3\<rparr> = lk_upd a (s\<lparr>cr3 := x3\<rparr>)"
  "(lk_upd a s)\<lparr>cr2 := x4\<rparr> = lk_upd a (s\<lparr>cr2 := x4\<rparr>)"
  "(lk_upd a s)\<lparr>tr := x5\<rparr> = lk_upd a (s\<lparr>tr := x5\<rparr>)"
  "(lk_upd a s)\<lparr>gdtr := x6\<rparr> = lk_upd a (s\<lparr>gdtr := x6\<rparr>)"
  "(lk_upd a s)\<lparr>idt := x7\<rparr> = lk_upd a (s\<lparr>idt := x7\<rparr>)"
  "(lk_upd a s)\<lparr>idt_loaded := x8\<rparr> = lk_upd a (s\<lparr>idt_loaded := x8\<rparr>)"
  "(lk_upd a s)\<lparr>lapic := x9\<rparr> = lk_upd a (s\<lparr>lapic := x9\<rparr>)"
  "(lk_upd a s)\<lparr>ioapicid := x10\<rparr> = lk_upd a (s\<lparr>ioapicid := x10\<rparr>)"
  "(lk_upd a s)\<lparr>procs := x11\<rparr> = lk_upd a (s\<lparr>procs := x11\<rparr>)"
  "(lk_upd a s)\<lparr>initproc := x12\<rparr> = lk_upd a (s\<lparr>initproc := x12\<rparr>)"
  "(lk_upd a s)\<lparr>nextpid := x13\<rparr> = lk_upd a (s\<lparr>nextpid := x13\<rparr>)"
  "(lk_upd a s)\<lparr>forkret_first := x14\<rparr> = lk_upd a (s\<lparr>forkret_first := x14\<rparr>)"
  "(lk_upd a s)\<lparr>kpgdir := x15\<rparr> = lk_upd a (s\<lparr>kpgdir := x15\<rparr>)"
  "(lk_upd a s)\<lparr>ticks := x16\<rparr> = lk_upd a (s\<lparr>ticks := x16\<rparr>)"
  "(lk_upd a s)\<lparr>bcache := x17\<rparr> = lk_upd a (s\<lparr>bcache := x17\<rparr>)"
  "(lk_upd a s)\<lparr>memdisk := x18\<rparr> = lk_upd a (s\<lparr>memdisk := x18\<rparr>)"
  "(lk_upd a s)\<lparr>disksize := x19\<rparr> = lk_upd a (s\<lparr>disksize := x19\<rparr>)"
  "(lk_upd a s)\<lparr>idequeue := x20\<rparr> = lk_upd a (s\<lparr>idequeue := x20\<rparr>)"
  "(lk_upd a s)\<lparr>havedisk1 := x21\<rparr> = lk_upd a (s\<lparr>havedisk1 := x21\<rparr>)"
  "(lk_upd a s)\<lparr>klog := x22\<rparr> = lk_upd a (s\<lparr>klog := x22\<rparr>)"
  "(lk_upd a s)\<lparr>sb := x23\<rparr> = lk_upd a (s\<lparr>sb := x23\<rparr>)"
  "(lk_upd a s)\<lparr>icache := x24\<rparr> = lk_upd a (s\<lparr>icache := x24\<rparr>)"
  "(lk_upd a s)\<lparr>ftable := x25\<rparr> = lk_upd a (s\<lparr>ftable := x25\<rparr>)"
  "(lk_upd a s)\<lparr>devsw_tab := x26\<rparr> = lk_upd a (s\<lparr>devsw_tab := x26\<rparr>)"
  "(lk_upd a s)\<lparr>pipes := x27\<rparr> = lk_upd a (s\<lparr>pipes := x27\<rparr>)"
  "(lk_upd a s)\<lparr>cons_locking := x28\<rparr> = lk_upd a (s\<lparr>cons_locking := x28\<rparr>)"
  "(lk_upd a s)\<lparr>panicked := x29\<rparr> = lk_upd a (s\<lparr>panicked := x29\<rparr>)"
  "(lk_upd a s)\<lparr>input := x30\<rparr> = lk_upd a (s\<lparr>input := x30\<rparr>)"
  "(lk_upd a s)\<lparr>crt := x31\<rparr> = lk_upd a (s\<lparr>crt := x31\<rparr>)"
  "(lk_upd a s)\<lparr>uart := x32\<rparr> = lk_upd a (s\<lparr>uart := x32\<rparr>)"
  "(lk_upd a s)\<lparr>kbd_shift := x33\<rparr> = lk_upd a (s\<lparr>kbd_shift := x33\<rparr>)"
  "(lk_upd a s)\<lparr>dev_reply := x34\<rparr> = lk_upd a (s\<lparr>dev_reply := x34\<rparr>)"
  "(lk_upd a s)\<lparr>reg_reply := x35\<rparr> = lk_upd a (s\<lparr>reg_reply := x35\<rparr>)"
  "(lk_upd a s)\<lparr>iolog := x36\<rparr> = lk_upd a (s\<lparr>iolog := x36\<rparr>)"
  "(lk_upd a s)\<lparr>resumes := x37\<rparr> = lk_upd a (s\<lparr>resumes := x37\<rparr>)"
  by (simp_all add: lk_upd_def)

lemma lk_fields [simp]:
  "lk (s\<lparr>mem := x0\<rparr>) = lk s" "lk (s\<lparr>kmem_use_lock := x1\<rparr>) = lk s"
  "lk (s\<lparr>kmem_freelist := x2\<rparr>) = lk s" "lk (s\<lparr>cr3 := x3\<rparr>) = lk s"
  "lk (s\<lparr>cr2 := x4\<rparr>) = lk s" "lk (s\<lparr>tr := x5\<rparr>) = lk s"
  "lk (s\<lparr>gdtr := x6\<rparr>) = lk s" "lk (s\<lparr>idt := x7\<rparr>) = lk s"
  "lk (s\<lparr>idt_loaded := x8\<rparr>) = lk s" "lk (s\<lparr>lapic := x9\<rparr>) = lk s"
  "lk (s\<lparr>ioapicid := x10\<rparr>) = lk s" "lk (s\<lparr>procs := x11\<rparr>) = lk s"
  "lk (s\<lparr>initproc := x12\<rparr>) = lk s" "lk (s\<lparr>nextpid := x13\<rparr>) = lk s"
  "lk (s\<lparr>forkret_first := x14\<rparr>) = lk s" "lk (s\<lparr>kpgdir := x15\<rparr>) = lk s"
  "lk (s\<lparr>ticks := x16\<rparr>) = lk s" "lk (s\<lparr>bcache := x17\<rparr>) = lk s"
  "lk (s\<lparr>memdisk := x18\<rparr>) = lk s" "lk (s\<lparr>disksize := x19\<rparr>) = lk s"
  "lk (s\<lparr>idequeue := x20\<rparr>) = lk s" "lk (s\<lparr>havedisk1 := x21\<rparr>) = lk s"
  "lk (s\<lparr>klog := x22\<rparr>) = lk s" "lk (s\<lparr>sb := x23\<rparr>) = lk s"
  "lk (s\<lparr>icache := x24\<rparr>) = lk s" "lk (s\<lparr>ftable := x25\<rparr>) = lk s"
  "lk (s\<lparr>devsw_tab := x26\<rparr>) = lk s" "lk (s\<lparr>pipes := x27\<rparr>) = lk s"
  "lk (s\<lparr>cons_locking := x28\<rparr>) = lk s" "lk (s\<lparr>panicked := x29\<rparr>) = lk s"
  "lk (s\<lparr>input := x30\<rparr>) = lk s" "lk (s\<lparr>crt := x31\<rparr>) = lk s"
  "lk (s\<lparr>uart := x32\<rparr>) = lk s" "lk (s\<lparr>kbd_shift := x33\<rparr>) = lk s"
  "lk (s\<lparr>dev_reply := x34\<rparr>) = lk s" "lk (s\<lparr>reg_reply := x35\<rparr>) = lk s"
  "lk (s\<lparr>iolog := x36\<rparr>) = lk s" "lk (s\<lparr>resumes := x37\<rparr>) = lk s"
  "lk (s\<lparr>ncpu := x38\<rparr>) = lk s" "lk (s\<lparr>lapic_id := x39\<rparr>) = lk s"
  by (simp_all add: lk_def)

lemma lk_upd_parts [simp]: "eflags (lk_upd a s) = fst a" "cpus (lk_upd a s) = fst (snd a)" "locks (lk_upd a s) = snd (snd a)"
  by (simp_all add: lk_upd_def)

lemma lk_lk_upd [simp]: "lk (lk_upd a s) = a"
  by (simp add: lk_def)

lemma lk_upd_lk_upd [simp]: "lk_upd a (lk_upd b s) = lk_upd a s"
  by (simp add: lk_upd_def)

lemma lk_upd_lk [simp]: "lk_upd (lk s) s = s"
  by (simp add: lk_upd_def lk_def)

lemma irq_ok_fields [simp]:
  "irq_ok (s\<lparr>mem := x0\<rparr>) = irq_ok s" "irq_ok (s\<lparr>kmem_use_lock := x1\<rparr>) = irq_ok s"
  "irq_ok (s\<lparr>kmem_freelist := x2\<rparr>) = irq_ok s" "irq_ok (s\<lparr>cr3 := x3\<rparr>) = irq_ok s"
  "irq_ok (s\<lparr>cr2 := x4\<rparr>) = irq_ok s" "irq_ok (s\<lparr>tr := x5\<rparr>) = irq_ok s"
  "irq_ok (s\<lparr>gdtr := x6\<rparr>) = irq_ok s" "irq_ok (s\<lparr>idt := x7\<rparr>) = irq_ok s"
  "irq_ok (s\<lparr>idt_loaded := x8\<rparr>) = irq_ok s" "irq_ok (s\<lparr>lapic := x9\<rparr>) = irq_ok s"
  "irq_ok (s\<lparr>ioapicid := x10\<rparr>) = irq_ok s" "irq_ok (s\<lparr>procs := x11\<rparr>) = irq_ok s"
  "irq_ok (s\<lparr>initproc := x12\<rparr>) = irq_ok s" "irq_ok (s\<lparr>nextpid := x13\<rparr>) = irq_ok s"
  "irq_ok (s\<lparr>forkret_first := x14\<rparr>) = irq_ok s" "irq_ok (s\<lparr>kpgdir := x15\<rparr>) = irq_ok s"
  "irq_ok (s\<lparr>ticks := x16\<rparr>) = irq_ok s" "irq_ok (s\<lparr>bcache := x17\<rparr>) = irq_ok s"
  "irq_ok (s\<lparr>memdisk := x18\<rparr>) = irq_ok s" "irq_ok (s\<lparr>disksize := x19\<rparr>) = irq_ok s"
  "irq_ok (s\<lparr>idequeue := x20\<rparr>) = irq_ok s" "irq_ok (s\<lparr>havedisk1 := x21\<rparr>) = irq_ok s"
  "irq_ok (s\<lparr>klog := x22\<rparr>) = irq_ok s" "irq_ok (s\<lparr>sb := x23\<rparr>) = irq_ok s"
  "irq_ok (s\<lparr>icache := x24\<rparr>) = irq_ok s" "irq_ok (s\<lparr>ftable := x25\<rparr>) = irq_ok s"
  "irq_ok (s\<lparr>devsw_tab := x26\<rparr>) = irq_ok s" "irq_ok (s\<lparr>pipes := x27\<rparr>) = irq_ok s"
  "irq_ok (s\<lparr>cons_locking := x28\<rparr>) = irq_ok s"
  "irq_ok (s\<lparr>panicked := x29\<rparr>) = irq_ok s" "irq_ok (s\<lparr>input := x30\<rparr>) = irq_ok s"
  "irq_ok (s\<lparr>crt := x31\<rparr>) = irq_ok s" "irq_ok (s\<lparr>uart := x32\<rparr>) = irq_ok s"
  "irq_ok (s\<lparr>kbd_shift := x33\<rparr>) = irq_ok s" "irq_ok (s\<lparr>dev_reply := x34\<rparr>) = irq_ok s"
  "irq_ok (s\<lparr>reg_reply := x35\<rparr>) = irq_ok s" "irq_ok (s\<lparr>iolog := x36\<rparr>) = irq_ok s"
  "irq_ok (s\<lparr>resumes := x37\<rparr>) = irq_ok s"
  by (rule irq_ok_cong; simp)+

lemma this_cpu_fields [simp]:
  "this_cpu (s\<lparr>mem := x0\<rparr>) = this_cpu s"
  "this_cpu (s\<lparr>kmem_use_lock := x1\<rparr>) = this_cpu s"
  "this_cpu (s\<lparr>kmem_freelist := x2\<rparr>) = this_cpu s"
  "this_cpu (s\<lparr>cr3 := x3\<rparr>) = this_cpu s" "this_cpu (s\<lparr>cr2 := x4\<rparr>) = this_cpu s"
  "this_cpu (s\<lparr>tr := x5\<rparr>) = this_cpu s" "this_cpu (s\<lparr>gdtr := x6\<rparr>) = this_cpu s"
  "this_cpu (s\<lparr>idt := x7\<rparr>) = this_cpu s" "this_cpu (s\<lparr>idt_loaded := x8\<rparr>) = this_cpu s"
  "this_cpu (s\<lparr>lapic := x9\<rparr>) = this_cpu s"
  "this_cpu (s\<lparr>ioapicid := x10\<rparr>) = this_cpu s"
  "this_cpu (s\<lparr>procs := x11\<rparr>) = this_cpu s"
  "this_cpu (s\<lparr>initproc := x12\<rparr>) = this_cpu s"
  "this_cpu (s\<lparr>nextpid := x13\<rparr>) = this_cpu s"
  "this_cpu (s\<lparr>forkret_first := x14\<rparr>) = this_cpu s"
  "this_cpu (s\<lparr>kpgdir := x15\<rparr>) = this_cpu s" "this_cpu (s\<lparr>ticks := x16\<rparr>) = this_cpu s"
  "this_cpu (s\<lparr>bcache := x17\<rparr>) = this_cpu s"
  "this_cpu (s\<lparr>memdisk := x18\<rparr>) = this_cpu s"
  "this_cpu (s\<lparr>disksize := x19\<rparr>) = this_cpu s"
  "this_cpu (s\<lparr>idequeue := x20\<rparr>) = this_cpu s"
  "this_cpu (s\<lparr>havedisk1 := x21\<rparr>) = this_cpu s"
  "this_cpu (s\<lparr>klog := x22\<rparr>) = this_cpu s" "this_cpu (s\<lparr>sb := x23\<rparr>) = this_cpu s"
  "this_cpu (s\<lparr>icache := x24\<rparr>) = this_cpu s"
  "this_cpu (s\<lparr>ftable := x25\<rparr>) = this_cpu s"
  "this_cpu (s\<lparr>devsw_tab := x26\<rparr>) = this_cpu s"
  "this_cpu (s\<lparr>pipes := x27\<rparr>) = this_cpu s"
  "this_cpu (s\<lparr>cons_locking := x28\<rparr>) = this_cpu s"
  "this_cpu (s\<lparr>panicked := x29\<rparr>) = this_cpu s"
  "this_cpu (s\<lparr>input := x30\<rparr>) = this_cpu s" "this_cpu (s\<lparr>crt := x31\<rparr>) = this_cpu s"
  "this_cpu (s\<lparr>uart := x32\<rparr>) = this_cpu s"
  "this_cpu (s\<lparr>kbd_shift := x33\<rparr>) = this_cpu s"
  "this_cpu (s\<lparr>dev_reply := x34\<rparr>) = this_cpu s"
  "this_cpu (s\<lparr>reg_reply := x35\<rparr>) = this_cpu s"
  "this_cpu (s\<lparr>iolog := x36\<rparr>) = this_cpu s"
  "this_cpu (s\<lparr>resumes := x37\<rparr>) = this_cpu s"
  by (rule this_cpu_cong; simp)+

lemma cur_fields [simp]:
  "cur (s\<lparr>mem := x0\<rparr>) = cur s" "cur (s\<lparr>kmem_use_lock := x1\<rparr>) = cur s"
  "cur (s\<lparr>kmem_freelist := x2\<rparr>) = cur s" "cur (s\<lparr>cr3 := x3\<rparr>) = cur s"
  "cur (s\<lparr>cr2 := x4\<rparr>) = cur s" "cur (s\<lparr>tr := x5\<rparr>) = cur s"
  "cur (s\<lparr>gdtr := x6\<rparr>) = cur s" "cur (s\<lparr>idt := x7\<rparr>) = cur s"
  "cur (s\<lparr>idt_loaded := x8\<rparr>) = cur s" "cur (s\<lparr>lapic := x9\<rparr>) = cur s"
  "cur (s\<lparr>ioapicid := x10\<rparr>) = cur s" "cur (s\<lparr>procs := x11\<rparr>) = cur s"
  "cur (s\<lparr>initproc := x12\<rparr>) = cur s" "cur (s\<lparr>nextpid := x13\<rparr>) = cur s"
  "cur (s\<lparr>forkret_first := x14\<rparr>) = cur s" "cur (s\<lparr>kpgdir := x15\<rparr>) = cur s"
  "cur (s\<lparr>ticks := x16\<rparr>) = cur s" "cur (s\<lparr>bcache := x17\<rparr>) = cur s"
  "cur (s\<lparr>memdisk := x18\<rparr>) = cur s" "cur (s\<lparr>disksize := x19\<rparr>) = cur s"
  "cur (s\<lparr>idequeue := x20\<rparr>) = cur s" "cur (s\<lparr>havedisk1 := x21\<rparr>) = cur s"
  "cur (s\<lparr>klog := x22\<rparr>) = cur s" "cur (s\<lparr>sb := x23\<rparr>) = cur s"
  "cur (s\<lparr>icache := x24\<rparr>) = cur s" "cur (s\<lparr>ftable := x25\<rparr>) = cur s"
  "cur (s\<lparr>devsw_tab := x26\<rparr>) = cur s" "cur (s\<lparr>pipes := x27\<rparr>) = cur s"
  "cur (s\<lparr>cons_locking := x28\<rparr>) = cur s" "cur (s\<lparr>panicked := x29\<rparr>) = cur s"
  "cur (s\<lparr>input := x30\<rparr>) = cur s" "cur (s\<lparr>crt := x31\<rparr>) = cur s"
  "cur (s\<lparr>uart := x32\<rparr>) = cur s" "cur (s\<lparr>kbd_shift := x33\<rparr>) = cur s"
  "cur (s\<lparr>dev_reply := x34\<rparr>) = cur s" "cur (s\<lparr>reg_reply := x35\<rparr>) = cur s"
  "cur (s\<lparr>iolog := x36\<rparr>) = cur s" "cur (s\<lparr>resumes := x37\<rparr>) = cur s"
  by (simp_all add: cur_def cong: option.case_cong)

lemma lock_free_fields [simp]:
  "lock_free r (s\<lparr>mem := x0\<rparr>) = lock_free r s"
  "lock_free r (s\<lparr>kmem_use_lock := x1\<rparr>) = lock_free r s"
  "lock_free r (s\<lparr>kmem_freelist := x2\<rparr>) = lock_free r s"
  "lock_free r (s\<lparr>cr3 := x3\<rparr>) = lock_free r s"
  "lock_free r (s\<lparr>cr2 := x4\<rparr>) = lock_free r s"
  "lock_free r (s\<lparr>tr := x5\<rparr>) = lock_free r s"
  "lock_free r (s\<lparr>gdtr := x6\<rparr>) = lock_free r s"
  "lock_free r (s\<lparr>idt := x7\<rparr>) = lock_free r s"
  "lock_free r (s\<lparr>idt_loaded := x8\<rparr>) = lock_free r s"
  "lock_free r (s\<lparr>lapic := x9\<rparr>) = lock_free r s"
  "lock_free r (s\<lparr>ioapicid := x10\<rparr>) = lock_free r s"
  "lock_free r (s\<lparr>procs := x11\<rparr>) = lock_free r s"
  "lock_free r (s\<lparr>initproc := x12\<rparr>) = lock_free r s"
  "lock_free r (s\<lparr>nextpid := x13\<rparr>) = lock_free r s"
  "lock_free r (s\<lparr>forkret_first := x14\<rparr>) = lock_free r s"
  "lock_free r (s\<lparr>kpgdir := x15\<rparr>) = lock_free r s"
  "lock_free r (s\<lparr>ticks := x16\<rparr>) = lock_free r s"
  "lock_free r (s\<lparr>bcache := x17\<rparr>) = lock_free r s"
  "lock_free r (s\<lparr>memdisk := x18\<rparr>) = lock_free r s"
  "lock_free r (s\<lparr>disksize := x19\<rparr>) = lock_free r s"
  "lock_free r (s\<lparr>idequeue := x20\<rparr>) = lock_free r s"
  "lock_free r (s\<lparr>havedisk1 := x21\<rparr>) = lock_free r s"
  "lock_free r (s\<lparr>klog := x22\<rparr>) = lock_free r s"
  "lock_free r (s\<lparr>sb := x23\<rparr>) = lock_free r s"
  "lock_free r (s\<lparr>icache := x24\<rparr>) = lock_free r s"
  "lock_free r (s\<lparr>ftable := x25\<rparr>) = lock_free r s"
  "lock_free r (s\<lparr>devsw_tab := x26\<rparr>) = lock_free r s"
  "lock_free r (s\<lparr>pipes := x27\<rparr>) = lock_free r s"
  "lock_free r (s\<lparr>cons_locking := x28\<rparr>) = lock_free r s"
  "lock_free r (s\<lparr>panicked := x29\<rparr>) = lock_free r s"
  "lock_free r (s\<lparr>input := x30\<rparr>) = lock_free r s"
  "lock_free r (s\<lparr>crt := x31\<rparr>) = lock_free r s"
  "lock_free r (s\<lparr>uart := x32\<rparr>) = lock_free r s"
  "lock_free r (s\<lparr>kbd_shift := x33\<rparr>) = lock_free r s"
  "lock_free r (s\<lparr>dev_reply := x34\<rparr>) = lock_free r s"
  "lock_free r (s\<lparr>reg_reply := x35\<rparr>) = lock_free r s"
  "lock_free r (s\<lparr>iolog := x36\<rparr>) = lock_free r s"
  "lock_free r (s\<lparr>resumes := x37\<rparr>) = lock_free r s"
  by (simp_all add: lock_free_def)

section \<open>Entering and leaving\<close>

lemma locked_upd: "this_cpu s = Some i \<Longrightarrow> locked r i s = lk_upd (acq r s) s"
  by (simp add: locked_def acq_def lk_def lk_upd_def put_lock_def pushed_def)

lemma acquire_enter:
  assumes "irq_ok s" "lock_free r s"
  shows "acquire r s = Inr ((), lk_upd (acq r s) s)"
proof -
  obtain i where i: "this_cpu s = Some i" using irq_ok_cpu [OF assms(1)] by blast
  show ?thesis using acquire_run [OF assms(1) i, of r] assms(2) locked_upd [OF i, of r] by (simp add: lock_free_def)
qed

lemma acq_parts:
  assumes "this_cpu s = Some i"
  shows "fst (acq r s) = eflags (pushed s)" "fst (snd (acq r s)) = cpus (pushed s)"
    "snd (snd (acq r s)) = (locks s)(r := (locks s r)\<lparr>sl_locked := 1, sl_cpu := Some i\<rparr>)"
  using assms by (simp_all add: acq_def lk_def locked_def)

lemma release_leave:
  assumes "irq_ok s" "lock_free r s" "ncpu u = ncpu s" "lapic_id u = lapic_id s" "lk u = lk s"
  shows "release r (lk_upd (acq r s) u) = Inr ((), u)"
proof -
  obtain i where i: "this_cpu s = Some i" using irq_ok_cpu [OF assms(1)] by blast
  have eq: "eflags u = eflags s" "cpus u = cpus s" "locks u = locks s" using assms(5) by (simp_all add: lk_def)
  have bk: "(locks s r)\<lparr>sl_cpu := None, sl_locked := 0\<rparr> = locks s r"
    using assms(2) by (cases "locks s r") (simp add: lock_free_def)
  let ?t = "lk_upd (acq r s) u"
  have "release r ?t = Inr ((), put_lock r ((locks ?t r)\<lparr>sl_cpu := None, sl_locked := 0\<rparr>)
      (?t\<lparr>eflags := eflags s, cpus := cpus s\<rparr>))"
    by (rule release_run [OF assms(1) i]) (simp_all add: acq_parts [OF i] assms)
  also have "put_lock r ((locks ?t r)\<lparr>sl_cpu := None, sl_locked := 0\<rparr>) (?t\<lparr>eflags := eflags s, cpus := cpus s\<rparr>) = u"
    using bk eq [symmetric] by (simp add: put_lock_def acq_parts [OF i] lk_upd_def)
  finally show ?thesis .
qed

lemma irq_ok_enter [simp]:
  assumes "irq_ok s" "ncpu u = ncpu s" "lapic_id u = lapic_id s"
  shows "irq_ok (lk_upd (acq r s) u)"
proof -
  obtain i where i: "this_cpu s = Some i" using irq_ok_cpu [OF assms(1)] by blast
  have "irq_ok (lk_upd (acq r s) u) = irq_ok (pushed s)"
    by (rule irq_ok_cong) (simp_all add: acq_parts [OF i] assms)
  then show ?thesis using irq_ok_pushed [OF assms(1)] by simp
qed

lemma this_cpu_enter [simp]:
  assumes "irq_ok s" "ncpu u = ncpu s" "lapic_id u = lapic_id s"
  shows "this_cpu (lk_upd (acq r s) u) = this_cpu s"
proof -
  obtain i where i: "this_cpu s = Some i" using irq_ok_cpu [OF assms(1)] by blast
  have "this_cpu (lk_upd (acq r s) u) = this_cpu (pushed s)"
    by (rule this_cpu_cong) (simp_all add: acq_parts [OF i] assms)
  then show ?thesis by simp
qed

lemma cur_enter [simp]:
  assumes "irq_ok s" "ncpu u = ncpu s" "lapic_id u = lapic_id s"
  shows "cur (lk_upd (acq r s) u) = cur s"
proof -
  obtain i where i: "this_cpu s = Some i" using irq_ok_cpu [OF assms(1)] by blast
  then show ?thesis
    using assms this_cpu_bound [OF i] by (simp add: cur_def acq_parts [OF i] pushed_def)
qed

lemma lock_free_enter [simp]:
  assumes "irq_ok s" "r' \<noteq> r"
  shows "lock_free r' (lk_upd (acq r s) u) = lock_free r' s"
proof -
  obtain i where i: "this_cpu s = Some i" using irq_ok_cpu [OF assms(1)] by blast
  then show ?thesis using assms(2) by (simp add: lock_free_def acq_parts [OF i])
qed

text \<open>A section that runs \<open>f\<close>; the body's effect is the section's effect.\<close>

lemma section_run:
  assumes "irq_ok s" "lock_free r s" "f (lk_upd (acq r s) s) = Inr (x, lk_upd (acq r s) u)"
    "ncpu u = ncpu s" "lapic_id u = lapic_id s" "lk u = lk s"
  shows "kseq (acquire r) (kseq f (release r)) s = Inr ((), u)"
    and "kseq (acquire r) (kbind f (\<lambda>x. kseq (release r) (g x))) s = g x u"
  using acquire_enter [OF assms(1,2)] release_leave [OF assms(1,2,4-6)] assms(3) by (simp_all add: kmonad)

lemma running_enter [simp]:
  "running s p \<Longrightarrow> ncpu u = ncpu s \<Longrightarrow> lapic_id u = lapic_id s \<Longrightarrow> length (procs u) = length (procs s) \<Longrightarrow>
   running (lk_upd (acq r s) u) p"
  by (simp add: running_def)

end
