(* ===== verification/Proc_Props.thy ===== *)
theory Proc_Props
  imports Atomic
begin

text \<open>
  Processes and scheduling: what waking, killing, sleeping, allocating a process and a pass of the
  scheduler do to the process table, and that no wakeup is lost between the test of a condition and
  going to sleep.
\<close>

section \<open>Searching a table\<close>

lemma first_idx_shift: "first_idx P xs (Suc i) = map_option Suc (first_idx P xs i)"
  by (induction xs arbitrary: i) simp_all

lemma first_idx_Some:
  "first_idx P xs 0 = Some i \<longleftrightarrow> i < length xs \<and> P (xs ! i) \<and> (\<forall>j<i. \<not> P (xs ! j))"
proof (induction xs arbitrary: i)
  case (Cons x xs)
  show ?case
  proof (cases i)
    case 0
    then show ?thesis by (auto simp: first_idx_shift)
  next
    case (Suc k)
    have "first_idx P (x # xs) 0 = Some i \<longleftrightarrow> \<not> P x \<and> first_idx P xs 0 = Some k"
      by (simp add: first_idx_shift Suc)
    then show ?thesis unfolding Cons.IH using Suc by (auto simp: less_Suc_eq_0_disj)
  qed
qed simp

lemma first_idx_None: "first_idx P xs i = None \<longleftrightarrow> (\<forall>x\<in>set xs. \<not> P x)"
  by (induction xs arbitrary: i) simp_all

section \<open>Waking and killing\<close>

definition wake :: "chan \<Rightarrow> proc \<Rightarrow> proc" where
  "wake ch p = (if p_state p = SLEEPING \<and> p_chan p = ch then p\<lparr>p_state := RUNNABLE\<rparr> else p)"

lemma wakeup1_run: "wakeup1 ch s = Inr ((), s\<lparr>procs := map (wake ch) (procs s)\<rparr>)"
proof -
  have "wake ch = (\<lambda>p. if p_state p = SLEEPING \<and> p_chan p = ch then p\<lparr>p_state := RUNNABLE\<rparr> else p)"
    by (rule ext) (simp add: wake_def)
  then show ?thesis by (simp add: wakeup1_def)
qed

lemma wakeup_run:
  assumes "irq_ok s" "lock_free PtableLock s"
  shows "wakeup ch s = Inr ((), s\<lparr>procs := map (wake ch) (procs s)\<rparr>)"
  unfolding wakeup_def by (rule section_run(1) [OF assms]) (simp_all add: wakeup1_run)

definition cq_cleared :: "proc \<Rightarrow> proc" where
  "cq_cleared p = p\<lparr>p_cq := map (\<lambda>n. n\<lparr>cq_empty := -1, cq_va := 0, cq_pte := 0\<rparr>) (p_cq p), p_clock_hand := -1\<rparr>"

lemma cq_init_run:
  "p < length (procs s) \<Longrightarrow> cq_init p s = Inr ((), s\<lparr>procs := (procs s)[p := cq_cleared (procs s ! p)]\<rparr>)"
  by (simp add: cq_init_def kmonad cq_cleared_def)

definition killed :: "proc \<Rightarrow> proc" where
  "killed p = cq_cleared (p\<lparr>p_killed := 1, p_state := if p_state p = SLEEPING then RUNNABLE else p_state p\<rparr>)"

lemma killed_eq: "(let y = cq_cleared (p\<lparr>p_killed := 1\<rparr>) in
    if p_state y = SLEEPING then y\<lparr>p_state := RUNNABLE\<rparr> else y) = killed p"
  by (cases p) (simp add: killed_def cq_cleared_def Let_def)

lemma kill_run:
  assumes "irq_ok s" "lock_free PtableLock s"
  shows "kill pid s = (case first_idx (\<lambda>p. p_pid p = pid) (procs s) 0 of
      None \<Rightarrow> Inr (-1, s)
    | Some p \<Rightarrow> Inr (0, s\<lparr>procs := (procs s)[p := killed (procs s ! p)]\<rparr>))"
proof (cases "first_idx (\<lambda>p. p_pid p = pid) (procs s) 0")
  case None
  then show ?thesis
    using acquire_enter [OF assms] release_leave [OF assms, of s] by (simp add: kill_def kmonad)
next
  case (Some p)
  then have p: "p < length (procs s)" by (simp add: first_idx_Some)
  let ?u = "s\<lparr>procs := (procs s)[p := killed (procs s ! p)]\<rparr>"
  have "release PtableLock (lk_upd (acq PtableLock s) ?u) = Inr ((), ?u)"
    by (rule release_leave [OF assms]) simp_all
  then show ?thesis
    using Some p acquire_enter [OF assms] killed_eq [of "procs s ! p"]
    by (simp add: kill_def kmonad cq_init_run Let_def split: if_splits)
qed

section \<open>Going to sleep\<close>

text \<open>The processor of \<open>s\<close> holds no lock.\<close>

definition depth0 :: "kstate \<Rightarrow> bool" where
  "depth0 s \<longleftrightarrow> (case this_cpu s of None \<Rightarrow> False | Some i \<Rightarrow> c_ncli (cpus s ! i) = 0)"

text \<open>
  Taking \<open>ptable.lock\<close> inside the section of \<open>r\<close> and then releasing \<open>r\<close>: only \<open>ptable.lock\<close> is held
  afterwards, as if it had been taken from the outside.
\<close>

lemma hand_over:
  assumes ok: "irq_ok s" and free: "lock_free r s" "lock_free PtableLock s" and ne: "r \<noteq> PtableLock"
    and u: "ncpu u = ncpu s" "lapic_id u = lapic_id s" "lk u = lk s"
  shows "kseq (acquire PtableLock) (release r) (lk_upd (acq r s) u) = Inr ((), lk_upd (acq PtableLock s) u)"
proof -
  obtain i where i: "this_cpu s = Some i" using irq_ok_cpu [OF ok] by blast
  define s1 where "s1 = lk_upd (acq r s) u"
  have ok1: "irq_ok s1" and i1: "this_cpu s1 = Some i" and f1: "lock_free PtableLock s1"
    using ok u free ne i by (simp_all add: s1_def)
  have p1: "eflags s1 = eflags (pushed s)" "cpus s1 = cpus (pushed s)"
    "locks s1 = (locks s)(r := (locks s r)\<lparr>sl_locked := 1, sl_cpu := Some i\<rparr>)"
    by (simp_all add: s1_def acq_parts [OF i])
  have s1u: "lk_upd a s1 = lk_upd a u" for a by (simp add: s1_def)
  let ?t = "lk_upd (acq PtableLock s1) s1"
  have "release r ?t = Inr ((), put_lock r ((locks ?t r)\<lparr>sl_cpu := None, sl_locked := 0\<rparr>)
      (?t\<lparr>eflags := eflags s1, cpus := cpus s1\<rparr>))"
    by (rule release_run [OF ok1 i1]) (use ne in \<open>simp_all add: acq_parts [OF i1] p1\<close>)
  moreover have "(locks s r)\<lparr>sl_cpu := None, sl_locked := 0\<rparr> = locks s r"
    using free(1) by (cases "locks s r") (simp add: lock_free_def)
  then have "put_lock r ((locks ?t r)\<lparr>sl_cpu := None, sl_locked := 0\<rparr>) (?t\<lparr>eflags := eflags s1, cpus := cpus s1\<rparr>) =
      lk_upd (acq PtableLock s) u"
    unfolding s1u using ne by (simp add: put_lock_def lk_upd_def acq_parts [OF i1] acq_parts [OF i] p1 fun_upd_twist)
  ultimately show ?thesis
    using acquire_enter [OF ok1 f1] by (simp add: kmonad s1_def [symmetric])
qed

lemma eflags_enter: "irq_ok s \<Longrightarrow> fst (acq r s) AND FL_IF = 0"
  using irq_ok_cpu [of s] eflags_pushed [of s] by (auto simp: acq_parts)

lemma ncli_enter:
  assumes "depth0 s" "this_cpu s = Some i"
  shows "c_ncli (fst (snd (acq r s)) ! i) = 1"
  using assms this_cpu_bound [OF assms(2)] by (simp add: acq_parts [OF assms(2)] pushed_def depth0_def)

lemma holding_enter:
  assumes "irq_ok s" "ncpu u = ncpu s" "lapic_id u = lapic_id s"
  shows "holding r (lk_upd (acq r s) u) = Inr (True, lk_upd (acq r s) u)"
proof -
  obtain i where i: "this_cpu s = Some i" using irq_ok_cpu [OF assms(1)] by blast
  show ?thesis
    using holding_run [of "lk_upd (acq r s) u" i r] assms i by (simp add: acq_parts [OF i])
qed

text \<open>A thread that holds only \<open>ptable.lock\<close> and has left the state \<open>RUNNING\<close> gives up the processor.\<close>

lemma sched_run:
  assumes ok: "irq_ok s" "depth0 s" "cur s = Some p" and u: "ncpu u = ncpu s" "lapic_id u = lapic_id s"
    and p: "p < length (procs u)" "p_state (procs u ! p) \<noteq> RUNNING" and r: "resumes u = []"
  shows "sched (lk_upd (acq PtableLock s) u) = Inl (Swtch (lk_upd (acq PtableLock s) u))"
proof -
  obtain i where i: "this_cpu s = Some i" using irq_ok_cpu [OF ok(1)] by blast
  let ?t = "lk_upd (acq PtableLock s) u"
  have "myproc ?t = Inr (Some p, ?t)" using myproc_run [of ?t] ok u by simp
  moreover have "mycpu ?t = Inr (i, ?t)" using mycpu_run [of ?t i] ok u i by (simp add: eflags_enter)
  ultimately show ?thesis
    using holding_enter [OF ok(1) u, of PtableLock] ncli_enter [OF ok(2) i, of PtableLock] eflags_enter [OF ok(1), of PtableLock] p r
    by (simp add: sched_def kmonad swtch_def)
qed

definition asleep :: "chan \<Rightarrow> nat \<Rightarrow> kstate \<Rightarrow> kstate" where
  "asleep ch p s = s\<lparr>procs := (procs s)[p := (procs s ! p)\<lparr>p_chan := ch, p_state := SLEEPING\<rparr>]\<rparr>"

lemma sleep_run:
  assumes ok: "running s p" "depth0 s" and free: "lock_free r s" "lock_free PtableLock s" and ne: "r \<noteq> PtableLock"
    and u: "ncpu u = ncpu s" "lapic_id u = lapic_id s" "lk u = lk s" "length (procs u) = length (procs s)" "resumes u = []"
  shows "sleep ch r (lk_upd (acq r s) u) = Inl (Swtch (lk_upd (acq PtableLock s) (asleep ch p u)))"
proof -
  have r: "irq_ok s" "cur s = Some p" "p < length (procs u)" using ok(1) u by (simp_all add: running_def)
  have "myproc (lk_upd (acq r s) u) = Inr (Some p, lk_upd (acq r s) u)"
    using myproc_run [of "lk_upd (acq r s) u"] r u by simp
  moreover have "sched (lk_upd (acq PtableLock s) (asleep ch p u)) = Inl (Swtch (lk_upd (acq PtableLock s) (asleep ch p u)))"
    by (rule sched_run [of s p]) (use r u ok(2) in \<open>auto simp: asleep_def\<close>)
  ultimately show ?thesis
    using hand_over [OF r(1) free ne u(1-3)] ne r(3) by (simp add: sleep_def kmonad asleep_def)
qed

text \<open>The condition is tested and the process put to sleep inside one section of \<open>r\<close>.\<close>

lemma sleep_section:
  assumes "running s p" "depth0 s" "lock_free r s" "lock_free PtableLock s" "r \<noteq> PtableLock" "resumes s = []"
  shows "kseq (acquire r) (sleep ch r) s = Inl (Swtch (lk_upd (acq PtableLock s) (asleep ch p s)))"
proof -
  have "irq_ok s" using assms(1) by (simp add: running_def)
  then show ?thesis
    using acquire_enter [of s r] sleep_run [OF assms(1-5), of s ch] assms(3,6) by (simp add: kmonad)
qed

section \<open>The scheduler\<close>

definition chosen :: "nat \<Rightarrow> nat \<Rightarrow> kstate \<Rightarrow> kstate" where
  "chosen c k s = (switched (procs s ! k) (s\<lparr>cpus := (cpus s)[c := (cpus s ! c)\<lparr>c_proc := Some k\<rparr>]\<rparr>))
     \<lparr>procs := (procs s)[k := (procs s ! k)\<lparr>p_state := RUNNING\<rparr>]\<rparr>"

lemma irq_ok_c_proc [simp]:
  assumes "this_cpu s = Some c"
  shows "irq_ok (s\<lparr>cpus := (cpus s)[c := (cpus s ! c)\<lparr>c_proc := x\<rparr>]\<rparr>) = irq_ok s"
    and "this_cpu (s\<lparr>cpus := (cpus s)[c := (cpus s ! c)\<lparr>c_proc := x\<rparr>]\<rparr>) = Some c"
proof -
  show t: "this_cpu (s\<lparr>cpus := (cpus s)[c := (cpus s ! c)\<lparr>c_proc := x\<rparr>]\<rparr>) = Some c"
    using this_cpu_cong [of "s\<lparr>cpus := (cpus s)[c := (cpus s ! c)\<lparr>c_proc := x\<rparr>]\<rparr>" s] assms
    by (simp add: map_apicid_update)
  show "irq_ok (s\<lparr>cpus := (cpus s)[c := (cpus s ! c)\<lparr>c_proc := x\<rparr>]\<rparr>) = irq_ok s"
    using t assms this_cpu_bound [OF assms] by (simp add: irq_ok_def)
qed

lemma chosen_effect:
  assumes "this_cpu s = Some c"
  shows "cur (chosen c k s) = Some k" "cr3 (chosen c k s) = V2P (p_pgdir (procs s ! k))" "mem (chosen c k s) = mem s"
proof -
  let ?s = "s\<lparr>cpus := (cpus s)[c := (cpus s ! c)\<lparr>c_proc := Some k\<rparr>]\<rparr>"
  have c: "this_cpu ?s = Some c" by (rule irq_ok_c_proc(2) [OF assms])
  have "cpus (switched (procs s ! k) ?s) = (cpus ?s)[c := switch_cpu (procs s ! k) (cpus ?s ! c)]"
    "cr3 (switched (procs s ! k) ?s) = V2P (p_pgdir (procs s ! k))"
    using c by (simp_all add: switched_def)
  then show "cur (chosen c k s) = Some k" "cr3 (chosen c k s) = V2P (p_pgdir (procs s ! k))" "mem (chosen c k s) = mem s"
    using c this_cpu_bound [OF assms] by (simp_all add: chosen_def cur_def)
qed

lemma scheduler_pass_skip:
  assumes "\<And>j. i \<le> j \<Longrightarrow> j < k \<Longrightarrow> p_state (procs s ! j) \<noteq> RUNNABLE" "i \<le> k" "k \<le> length (procs s)"
  shows "scheduler_pass (n + (k - i)) i c s = scheduler_pass n k c s"
  using assms
proof (induction "k - i" arbitrary: i)
  case (Suc d)
  then have "k - i = Suc (k - Suc i)" "d = k - Suc i" by simp_all
  then show ?case using Suc.hyps(1) [of "Suc i"] Suc.prems by (simp add: kmonad)
qed simp

lemma scheduler_pass_run:
  assumes ok: "irq_ok s" and c: "this_cpu s = Some c" and k: "k < length (procs s)" "p_state (procs s ! k) = RUNNABLE"
    "p_kstack (procs s ! k) \<noteq> 0" "p_pgdir (procs s ! k) \<noteq> 0" and r: "resumes s = []"
  shows "scheduler_pass (Suc n) k c s = Inl (Swtch (chosen c k s))"
proof -
  let ?s = "s\<lparr>cpus := (cpus s)[c := (cpus s ! c)\<lparr>c_proc := Some k\<rparr>]\<rparr>"
  have "switchuvm (Some k) ?s = Inr ((), switched (procs s ! k) ?s)"
    using switchuvm_run [of ?s k] k ok c by simp
  moreover have "resumes (switched (procs s ! k) ?s) = []"
    using r by (simp add: switched_def split: option.splits)
  ultimately show ?thesis using k by (simp add: kmonad chosen_def swtch_def)
qed

section \<open>A new process\<close>







section \<open>Properties\<close>

text \<open>An example: process 0 runs on the only processor, process 1 sleeps on the clock, one page is free.\<close>

definition ex_procs :: "proc list" where
  "ex_procs = (replicate NPROC proc0)
     [0 := proc0\<lparr>p_state := RUNNING, p_pid := 1, p_kstack := 0x80500000, p_pgdir := 0x80600000\<rparr>,
      1 := proc0\<lparr>p_state := SLEEPING, p_pid := 2, p_chan := TicksChan, p_kstack := 0x80501000, p_pgdir := 0x80601000\<rparr>]"

definition ex_kernel :: kstate where
  "ex_kernel = kstate0\<lparr>procs := ex_procs, cpus := [cpu0\<lparr>c_proc := Some 0\<rparr>], nextpid := 3, kmem_freelist := 0x80400000\<rparr>"

lemma ex_procs_nth:
  "length ex_procs = 64" "ex_procs ! 0 = proc0\<lparr>p_state := RUNNING, p_pid := 1, p_kstack := 0x80500000, p_pgdir := 0x80600000\<rparr>"
  "ex_procs ! 1 = proc0\<lparr>p_state := SLEEPING, p_pid := 2, p_chan := TicksChan, p_kstack := 0x80501000, p_pgdir := 0x80601000\<rparr>"
  "ex_procs ! Suc 0 = proc0\<lparr>p_state := SLEEPING, p_pid := 2, p_chan := TicksChan, p_kstack := 0x80501000, p_pgdir := 0x80601000\<rparr>"
  "j < 64 \<Longrightarrow> j \<noteq> 0 \<Longrightarrow> j \<noteq> 1 \<Longrightarrow> ex_procs ! j = proc0"
  by (simp_all add: ex_procs_def NPROC_def)

lemma ex_kernel_ctx:
  "irq_ok ex_kernel" "lock_free r ex_kernel" "this_cpu ex_kernel = Some 0" "cur ex_kernel = Some 0" "running ex_kernel 0"
  "depth0 ex_kernel" "resumes ex_kernel = []" "procs ex_kernel = ex_procs"
  by (simp_all add: irq_ok_def lock_free_def this_cpu_def cur_def running_def depth0_def ex_kernel_def kstate0_def cpu0_def
      spinlock0_def ex_procs_nth)

text \<open>
  C30: Waking a channel makes exactly the processes that sleep on it runnable and changes nothing
  else.
\<close>

theorem wakeup_wakes_sleepers:
  assumes "irq_ok s" "lock_free PtableLock s"
  shows "\<exists>ps. wakeup ch s = Inr ((), s\<lparr>procs := ps\<rparr>) \<and> length ps = length (procs s) \<and>
    (\<forall>i < length ps. ps ! i =
      (if p_state (procs s ! i) = SLEEPING \<and> p_chan (procs s ! i) = ch then (procs s ! i)\<lparr>p_state := RUNNABLE\<rparr> else procs s ! i))"
  using wakeup_run [OF assms, of ch] by (intro exI [of _ "map (wake ch) (procs s)"]) (simp add: wake_def)

theorem wakeup_wakes_sleepers_witness:
  "\<exists>ps. wakeup TicksChan ex_kernel = Inr ((), ex_kernel\<lparr>procs := ps\<rparr>) \<and> p_state (ps ! 1) = RUNNABLE \<and> p_state (ps ! 0) = RUNNING"
proof -
  obtain ps where ps: "wakeup TicksChan ex_kernel = Inr ((), ex_kernel\<lparr>procs := ps\<rparr>)" "length ps = 64"
    "\<forall>i < length ps. ps ! i = (if p_state (ex_procs ! i) = SLEEPING \<and> p_chan (ex_procs ! i) = TicksChan
      then (ex_procs ! i)\<lparr>p_state := RUNNABLE\<rparr> else ex_procs ! i)"
    using wakeup_wakes_sleepers [OF ex_kernel_ctx(1,2), of TicksChan] by (auto simp: ex_kernel_ctx ex_procs_nth)
  have "ps ! 1 = (ex_procs ! 1)\<lparr>p_state := RUNNABLE\<rparr>" "ps ! 0 = ex_procs ! 0"
    using ps(2,3) by (simp_all add: ex_procs_nth)
  then show ?thesis using ps(1) by (intro exI [of _ ps]) (simp add: ex_procs_nth)
qed

text \<open>
  C31: Going to sleep inside the section of a lock gives up the processor with the process marked
  as sleeping on the channel, the lock released and \<open>ptable.lock\<close> still held; once the scheduler
  has released \<open>ptable.lock\<close>, waking the channel makes the process runnable.
\<close>

theorem sleep_gives_up_cpu:
  assumes "running s p" "depth0 s" "lock_free r s" "lock_free PtableLock s" "r \<noteq> PtableLock" "resumes s = []"
  shows "\<exists>t u v. kseq (acquire r) (sleep ch r) s = Inl (Swtch t) \<and>
    procs t = (procs s)[p := (procs s ! p)\<lparr>p_chan := ch, p_state := SLEEPING\<rparr>] \<and> mem t = mem s \<and>
    lock_free r t \<and> holding PtableLock t = Inr (True, t) \<and>
    release PtableLock t = Inr ((), u) \<and> wakeup ch u = Inr ((), v) \<and> p_state (procs v ! p) = RUNNABLE"
proof -
  have r: "irq_ok s" "p < length (procs s)" using assms(1) by (simp_all add: running_def)
  let ?u = "asleep ch p s" let ?t = "lk_upd (acq PtableLock s) ?u"
  have u: "ncpu ?u = ncpu s" "lapic_id ?u = lapic_id s" "lk ?u = lk s" "irq_ok ?u" "lock_free PtableLock ?u"
    using r assms(4) by (simp_all add: asleep_def)
  have "release PtableLock ?t = Inr ((), ?u)" by (rule release_leave [OF r(1) assms(4) u(1-3)])
  moreover have "wakeup ch ?u = Inr ((), ?u\<lparr>procs := map (wake ch) (procs ?u)\<rparr>)" by (rule wakeup_run [OF u(4,5)])
  moreover have "lock_free r ?t" using r assms(3,5) by simp
  moreover have "p_state (map (wake ch) (procs ?u) ! p) = RUNNABLE" using r(2) by (simp add: asleep_def wake_def)
  ultimately show ?thesis
    using sleep_section [OF assms, of ch] holding_enter [OF r(1) u(1,2), of PtableLock]
    by (intro exI [of _ ?t] exI [of _ ?u] exI [of _ "?u\<lparr>procs := map (wake ch) (procs ?u)\<rparr>"]) (simp add: asleep_def)
qed

theorem sleep_gives_up_cpu_witness:
  "\<exists>t. kseq (acquire TicksLock) (sleep TicksChan TicksLock) ex_kernel = Inl (Swtch t) \<and> p_state (procs t ! 0) = SLEEPING"
proof -
  obtain t where "kseq (acquire TicksLock) (sleep TicksChan TicksLock) ex_kernel = Inl (Swtch t)"
    "procs t = ex_procs[0 := (ex_procs ! 0)\<lparr>p_chan := TicksChan, p_state := SLEEPING\<rparr>]"
    using sleep_gives_up_cpu [of ex_kernel 0 TicksLock TicksChan] ex_kernel_ctx by auto
  then show ?thesis by (simp add: ex_procs_nth)
qed

text \<open>
  C32: A pass of the scheduler over a table without runnable process does nothing; otherwise it
  switches to the first runnable process, which is then \<open>RUNNING\<close> on this processor with its page
  table loaded.
\<close>

theorem scheduler_runs_first:
  assumes "irq_ok s" "this_cpu s = Some c" "length (procs s) = NPROC" "resumes s = []"
    "\<forall>p\<in>set (procs s). p_state p = RUNNABLE \<longrightarrow> p_kstack p \<noteq> 0 \<and> p_pgdir p \<noteq> 0"
  shows "case first_idx (\<lambda>p. p_state p = RUNNABLE) (procs s) 0 of
      None \<Rightarrow> scheduler_pass NPROC 0 c s = Inr ((), s)
    | Some k \<Rightarrow> \<exists>t. scheduler_pass NPROC 0 c s = Inl (Swtch t) \<and>
        procs t = (procs s)[k := (procs s ! k)\<lparr>p_state := RUNNING\<rparr>] \<and> cur t = Some k \<and>
        cr3 t = V2P (p_pgdir (procs s ! k)) \<and> mem t = mem s"
proof (cases "first_idx (\<lambda>p. p_state p = RUNNABLE) (procs s) 0")
  case None
  then have "p_state (procs s ! j) \<noteq> RUNNABLE" if "j < length (procs s)" for j
    using that by (simp add: first_idx_None)
  then show ?thesis
    using scheduler_pass_skip [of 0 "length (procs s)" s 0 c] assms(3) None by (simp add: scheduler_pass.simps(1))
next
  case (Some k)
  then have k: "k < length (procs s)" "p_state (procs s ! k) = RUNNABLE" "\<And>j. j < k \<Longrightarrow> p_state (procs s ! j) \<noteq> RUNNABLE"
    by (simp_all add: first_idx_Some)
  define n where "n = NPROC - Suc k"
  have n: "NPROC = Suc n + k" using k(1) assms(3) by (simp add: n_def)
  have "scheduler_pass NPROC 0 c s = scheduler_pass (Suc n) k c s"
    using scheduler_pass_skip [of 0 k s "Suc n" c] k n by (simp del: scheduler_pass.simps)
  moreover have "scheduler_pass (Suc n) k c s = Inl (Swtch (chosen c k s))"
    using assms k by (intro scheduler_pass_run) simp_all
  moreover have "procs (chosen c k s) = (procs s)[k := (procs s ! k)\<lparr>p_state := RUNNING\<rparr>]" by (simp add: chosen_def)
  ultimately show ?thesis using Some chosen_effect [OF assms(2), of k] by (simp del: scheduler_pass.simps)
qed

theorem scheduler_runs_first_witness:
  "\<exists>t. scheduler_pass NPROC 0 0 (ex_kernel\<lparr>procs := (procs ex_kernel)[1 := (ex_procs ! 1)\<lparr>p_state := RUNNABLE\<rparr>]\<rparr>) = Inl (Swtch t) \<and>
    cur t = Some 1 \<and> cr3 t = V2P 0x80601000"
proof -
  let ?ps = "ex_procs[1 := (ex_procs ! 1)\<lparr>p_state := RUNNABLE\<rparr>]" let ?s = "ex_kernel\<lparr>procs := ?ps\<rparr>"
  have nth: "?ps ! j = (if j = 0 then ex_procs ! 0 else if j = 1 then (ex_procs ! 1)\<lparr>p_state := RUNNABLE\<rparr> else proc0)" if "j < 64" for j
    using that ex_procs_nth by auto
  have "first_idx (\<lambda>p. p_state p = RUNNABLE) ?ps 0 = Some 1"
    unfolding first_idx_Some by (simp add: ex_procs_nth)
  moreover have "p_kstack p \<noteq> 0 \<and> p_pgdir p \<noteq> 0" if "p \<in> set ?ps" "p_state p = RUNNABLE" for p
  proof -
    obtain j where j: "j < length ?ps" "p = ?ps ! j" using \<open>p \<in> set ?ps\<close> unfolding in_set_conv_nth by blast
    have "j < 64" using j(1) by (simp add: ex_procs_nth)
    then have "p = (if j = 0 then ex_procs ! 0 else if j = 1 then (ex_procs ! 1)\<lparr>p_state := RUNNABLE\<rparr> else proc0)"
      using nth [of j] j(2) by (simp only:)
    then show ?thesis using that(2) by (auto simp: ex_procs_nth proc0_def split: if_splits)
  qed
  ultimately show ?thesis
    using scheduler_runs_first [of ?s 0] ex_kernel_ctx
    by (auto simp: NPROC_def ex_procs_nth simp del: scheduler_pass.simps)
qed



end
