(* ===== verification/Sleep_Wakeup.thy ===== *)
theory Sleep_Wakeup
  imports Proc_Props
begin

text \<open>
  The protocol of \<open>sleep\<close> and \<open>wakeup\<close> as an interleaving of two threads on two processors. The
  sleeper runs the usual loop \<open>acquire(lk); while(!cond) sleep(chan, lk); release(lk)\<close> with \<open>sleep\<close>
  cut at its lock operations and stores; the waker runs \<open>acquire(lk); cond = 1; wakeup(chan);
  release(lk)\<close>. A switch to the scheduler releases \<open>ptable.lock\<close>, and the scheduler switches back
  with \<open>ptable.lock\<close> held once the process is runnable.
\<close>

section \<open>Steps\<close>

datatype thread = Sleeper | Waker

datatype spc = S_acquire | S_test | S_ptlock | S_release | S_mark | S_sched | S_asleep | S_relock | S_done

datatype wpc = W_acquire | W_set | W_ptlock | W_wake | W_ptrel | W_release | W_done

record sw =
  sw_cond :: bool
  sw_lk :: "thread option"
  sw_pt :: "thread option"
  sw_state :: procstate
  sw_s :: spc
  sw_w :: wpc

definition sw_init :: sw where
  "sw_init = \<lparr>sw_cond = False, sw_lk = None, sw_pt = None, sw_state = RUNNING, sw_s = S_acquire, sw_w = W_acquire\<rparr>"

inductive sw_step :: "sw \<Rightarrow> sw \<Rightarrow> bool" where
  s_acquire: "sw_s s = S_acquire \<Longrightarrow> sw_lk s = None \<Longrightarrow> sw_step s (s\<lparr>sw_lk := Some Sleeper, sw_s := S_test\<rparr>)"
| s_leave: "sw_s s = S_test \<Longrightarrow> sw_cond s \<Longrightarrow> sw_step s (s\<lparr>sw_lk := None, sw_s := S_done\<rparr>)"
| s_sleep: "sw_s s = S_test \<Longrightarrow> \<not> sw_cond s \<Longrightarrow> sw_step s (s\<lparr>sw_s := S_ptlock\<rparr>)"
| s_ptlock: "sw_s s = S_ptlock \<Longrightarrow> sw_pt s = None \<Longrightarrow> sw_step s (s\<lparr>sw_pt := Some Sleeper, sw_s := S_release\<rparr>)"
| s_release: "sw_s s = S_release \<Longrightarrow> sw_step s (s\<lparr>sw_lk := None, sw_s := S_mark\<rparr>)"
| s_mark: "sw_s s = S_mark \<Longrightarrow> sw_step s (s\<lparr>sw_state := SLEEPING, sw_s := S_sched\<rparr>)"
| s_sched: "sw_s s = S_sched \<Longrightarrow> sw_step s (s\<lparr>sw_pt := None, sw_s := S_asleep\<rparr>)"
| s_resume: "sw_s s = S_asleep \<Longrightarrow> sw_state s = RUNNABLE \<Longrightarrow> sw_pt s = None \<Longrightarrow>
    sw_step s (s\<lparr>sw_pt := Some Sleeper, sw_state := RUNNING, sw_s := S_relock\<rparr>)"
| s_relock: "sw_s s = S_relock \<Longrightarrow> sw_step s (s\<lparr>sw_pt := None, sw_s := S_acquire\<rparr>)"
| w_acquire: "sw_w s = W_acquire \<Longrightarrow> sw_lk s = None \<Longrightarrow> sw_step s (s\<lparr>sw_lk := Some Waker, sw_w := W_set\<rparr>)"
| w_set: "sw_w s = W_set \<Longrightarrow> sw_step s (s\<lparr>sw_cond := True, sw_w := W_ptlock\<rparr>)"
| w_ptlock: "sw_w s = W_ptlock \<Longrightarrow> sw_pt s = None \<Longrightarrow> sw_step s (s\<lparr>sw_pt := Some Waker, sw_w := W_wake\<rparr>)"
| w_wake: "sw_w s = W_wake \<Longrightarrow>
    sw_step s (s\<lparr>sw_state := if sw_state s = SLEEPING then RUNNABLE else sw_state s, sw_w := W_ptrel\<rparr>)"
| w_ptrel: "sw_w s = W_ptrel \<Longrightarrow> sw_step s (s\<lparr>sw_pt := None, sw_w := W_release\<rparr>)"
| w_release: "sw_w s = W_release \<Longrightarrow> sw_step s (s\<lparr>sw_lk := None, sw_w := W_done\<rparr>)"

inductive_cases sw_stepE: "sw_step s t"

inductive sw_reachable :: "sw \<Rightarrow> bool" where
  init: "sw_reachable sw_init"
| step: "sw_reachable s \<Longrightarrow> sw_step s t \<Longrightarrow> sw_reachable t"

section \<open>The invariant\<close>

definition sw_locks :: "sw \<Rightarrow> bool" where
  "sw_locks s \<longleftrightarrow>
     (sw_lk s = Some Sleeper \<longleftrightarrow> sw_s s \<in> {S_test, S_ptlock, S_release}) \<and>
     (sw_lk s = Some Waker \<longleftrightarrow> sw_w s \<in> {W_set, W_ptlock, W_wake, W_ptrel, W_release}) \<and>
     (sw_pt s = Some Sleeper \<longleftrightarrow> sw_s s \<in> {S_release, S_mark, S_sched, S_relock}) \<and>
     (sw_pt s = Some Waker \<longleftrightarrow> sw_w s \<in> {W_wake, W_ptrel})"

definition sw_sleep :: "sw \<Rightarrow> bool" where
  "sw_sleep s \<longleftrightarrow>
     (sw_cond s \<longleftrightarrow> sw_w s \<notin> {W_acquire, W_set}) \<and>
     (sw_s s \<in> {S_ptlock, S_release} \<longrightarrow> \<not> sw_cond s) \<and>
     (sw_s s = S_relock \<longrightarrow> sw_cond s) \<and>
     (sw_s s = S_sched \<longrightarrow> sw_state s = SLEEPING) \<and>
     (sw_s s = S_asleep \<longrightarrow> sw_state s = SLEEPING \<or> sw_state s = RUNNABLE \<and> sw_cond s) \<and>
     (sw_state s = SLEEPING \<longrightarrow> sw_s s \<in> {S_sched, S_asleep}) \<and>
     (sw_s s = S_mark \<or> sw_state s = SLEEPING \<longrightarrow> sw_w s \<in> {W_acquire, W_set, W_ptlock, W_wake})"

lemma sw_locks_step: "sw_locks s \<Longrightarrow> sw_step s t \<Longrightarrow> sw_locks t"
  by (erule sw_stepE; clarsimp simp: sw_locks_def; (simp; fail | blast | metis option.distinct(1) option.inject thread.distinct(1)))

lemma sw_sleep_step:
  assumes "sw_locks s" "sw_sleep s" "sw_step s t"
  shows "sw_sleep t"
  using assms(3)
proof cases
  case w_wake
  then show ?thesis using assms(1,2) by (cases "sw_s s"; simp add: sw_locks_def sw_sleep_def; blast?)
next
  case w_set
  then show ?thesis using assms(1,2) by (cases "sw_s s"; simp add: sw_locks_def sw_sleep_def; blast?)
next
  case s_mark
  then show ?thesis using assms(1,2) by (cases "sw_w s"; simp add: sw_locks_def sw_sleep_def; blast?)
next
  case s_release
  then show ?thesis using assms(1,2) by (cases "sw_w s"; simp add: sw_locks_def sw_sleep_def; blast?)
next
  case w_ptlock
  then show ?thesis using assms(1,2) by (cases "sw_s s"; simp add: sw_locks_def sw_sleep_def; blast?)
qed (use assms(1,2) in \<open>cases "sw_w s"; simp add: sw_locks_def sw_sleep_def; blast?\<close>)+

lemma sw_inv: "sw_reachable s \<Longrightarrow> sw_locks s \<and> sw_sleep s"
proof (induction rule: sw_reachable.induct)
  case init
  then show ?case by (simp add: sw_init_def sw_locks_def sw_sleep_def)
next
  case (step s t)
  then show ?case using sw_locks_step sw_sleep_step by blast
qed

section \<open>No wakeup is lost\<close>

text \<open>
  C9: No wakeup is lost: once the waker has passed through \<open>wakeup\<close>, the sleeper is not asleep and
  not on its way to sleep, in whatever order the two threads run.
\<close>

theorem no_lost_wakeup:
  assumes "sw_reachable s" "sw_w s \<in> {W_ptrel, W_release, W_done}"
  shows "sw_state s \<noteq> SLEEPING \<and> sw_s s \<notin> {S_ptlock, S_release, S_mark, S_sched}"
proof -
  have "sw_sleep s" using sw_inv [OF assms(1)] ..
  then show ?thesis using assms(2) unfolding sw_sleep_def by (elim conjE insertE emptyE; simp; blast)
qed

lemma sw_example: "sw_reachable (sw_init\<lparr>sw_cond := True, sw_w := W_done\<rparr>)"
proof -
  let ?i = sw_init
  note init_eq = sw_init_def
  have 1: "sw_step ?i (?i\<lparr>sw_lk := Some Waker, sw_w := W_set\<rparr>)" by (rule w_acquire) (simp_all add: init_eq)
  have 2: "sw_step (?i\<lparr>sw_lk := Some Waker, sw_w := W_set\<rparr>) (?i\<lparr>sw_lk := Some Waker, sw_cond := True, sw_w := W_ptlock\<rparr>)"
    using w_set [of "?i\<lparr>sw_lk := Some Waker, sw_w := W_set\<rparr>"] by (simp add: init_eq)
  have 3: "sw_step (?i\<lparr>sw_lk := Some Waker, sw_cond := True, sw_w := W_ptlock\<rparr>)
      (?i\<lparr>sw_lk := Some Waker, sw_cond := True, sw_pt := Some Waker, sw_w := W_wake\<rparr>)"
    using w_ptlock [of "?i\<lparr>sw_lk := Some Waker, sw_cond := True, sw_w := W_ptlock\<rparr>"] by (simp add: init_eq)
  have 4: "sw_step (?i\<lparr>sw_lk := Some Waker, sw_cond := True, sw_pt := Some Waker, sw_w := W_wake\<rparr>)
      (?i\<lparr>sw_lk := Some Waker, sw_cond := True, sw_pt := Some Waker, sw_w := W_ptrel\<rparr>)"
    using w_wake [of "?i\<lparr>sw_lk := Some Waker, sw_cond := True, sw_pt := Some Waker, sw_w := W_wake\<rparr>"] by (simp add: init_eq)
  have 5: "sw_step (?i\<lparr>sw_lk := Some Waker, sw_cond := True, sw_pt := Some Waker, sw_w := W_ptrel\<rparr>)
      (?i\<lparr>sw_lk := Some Waker, sw_cond := True, sw_w := W_release\<rparr>)"
    using w_ptrel [of "?i\<lparr>sw_lk := Some Waker, sw_cond := True, sw_pt := Some Waker, sw_w := W_ptrel\<rparr>"] by (simp add: init_eq)
  have 6: "sw_step (?i\<lparr>sw_lk := Some Waker, sw_cond := True, sw_w := W_release\<rparr>) (?i\<lparr>sw_cond := True, sw_w := W_done\<rparr>)"
    using w_release [of "?i\<lparr>sw_lk := Some Waker, sw_cond := True, sw_w := W_release\<rparr>"] by (simp add: init_eq)
  show ?thesis by (rule sw_reachable.step [OF sw_reachable.step [OF sw_reachable.step [OF sw_reachable.step [OF sw_reachable.step [OF sw_reachable.step [OF sw_reachable.init 1] 2] 3] 4] 5] 6])
qed

theorem no_lost_wakeup_witness:
  "sw_reachable (sw_init\<lparr>sw_cond := True, sw_w := W_done\<rparr>) \<and> sw_state (sw_init\<lparr>sw_cond := True, sw_w := W_done\<rparr>) \<noteq> SLEEPING"
  using sw_example no_lost_wakeup [OF sw_example] by simp

text \<open>The number of steps left at most.\<close>

definition sw_measure :: "sw \<Rightarrow> nat" where
  "sw_measure s =
     (case sw_s s of S_acquire \<Rightarrow> if sw_cond s then 2 else 10 | S_test \<Rightarrow> if sw_cond s then 1 else 9
      | S_ptlock \<Rightarrow> 8 | S_release \<Rightarrow> 7 | S_mark \<Rightarrow> 6 | S_sched \<Rightarrow> 5 | S_asleep \<Rightarrow> 4 | S_relock \<Rightarrow> 3 | S_done \<Rightarrow> 0) +
     (case sw_w s of W_acquire \<Rightarrow> 6 | W_set \<Rightarrow> 5 | W_ptlock \<Rightarrow> 4 | W_wake \<Rightarrow> 3 | W_ptrel \<Rightarrow> 2 | W_release \<Rightarrow> 1 | W_done \<Rightarrow> 0)"

lemma sw_measure_step: "sw_locks s \<Longrightarrow> sw_sleep s \<Longrightarrow> sw_step s t \<Longrightarrow> sw_measure t < sw_measure s"
  by (erule sw_stepE) (auto simp: sw_measure_def sw_sleep_def split: spc.splits wpc.splits)

lemma sw_holder: "x = None \<or> x = Some Sleeper \<or> x = Some Waker"
  by (cases x) (auto intro: thread.exhaust)

lemma sw_waker_progress:
  assumes "sw_locks s" "sw_w s \<noteq> W_done" "sw_lk s \<noteq> Some Sleeper" "sw_pt s \<noteq> Some Sleeper"
  shows "\<exists>t. sw_step s t"
proof -
  have "sw_lk s = None \<or> sw_lk s = Some Waker" "sw_pt s = None \<or> sw_pt s = Some Waker"
    using assms(3,4) sw_holder by blast+
  then show ?thesis
    using assms(1,2) sw_step.intros(10-15) [of s]
    by (cases "sw_w s") (auto simp: sw_locks_def)
qed

lemma sw_sleeper_progress:
  assumes "sw_locks s" "sw_lk s = Some Sleeper \<or> sw_pt s = Some Sleeper"
  shows "(\<exists>t. sw_step s t)"
  using assms sw_step.intros(2-7,9) [of s]
  by (cases "sw_s s"; cases "sw_pt s") (auto simp: sw_locks_def, metis thread.exhaust)

text \<open>
  C27: Sleeping and waking complete: from every reachable state some thread can take a step unless
  both are done, and every step decreases the number of steps left, so every run ends with the
  sleeper through its loop and the waker done.
\<close>

theorem sleep_wakeup_completes:
  assumes "sw_reachable s"
  shows "((\<exists>t. sw_step s t) \<or> sw_s s = S_done \<and> sw_w s = W_done) \<and> (\<forall>t. sw_step s t \<longrightarrow> sw_measure t < sw_measure s)"
proof -
  have inv: "sw_locks s" "sw_sleep s" using sw_inv [OF assms] by auto
  have "(\<exists>t. sw_step s t) \<or> sw_s s = S_done \<and> sw_w s = W_done"
  proof (cases "sw_lk s = Some Sleeper \<or> sw_pt s = Some Sleeper")
    case True
    then show ?thesis using sw_sleeper_progress inv(1) by blast
  next
    case False
    show ?thesis
    proof (cases "sw_w s = W_done")
      case True
      have lk: "sw_lk s = None" and pt: "sw_pt s = None"
        using inv(1) True False sw_holder [of "sw_lk s"] sw_holder [of "sw_pt s"] by (auto simp: sw_locks_def)
      have "sw_s s = S_acquire \<or> sw_s s = S_asleep \<or> sw_s s = S_done"
        using inv(1) lk pt by (cases "sw_s s") (simp_all add: sw_locks_def)
      moreover have "sw_s s = S_asleep \<longrightarrow> sw_state s = RUNNABLE"
        using inv(2) True unfolding sw_sleep_def by force
      ultimately show ?thesis using True lk pt s_acquire [of s] s_resume [of s] by blast
    qed (use False inv sw_waker_progress in blast)
  qed
  then show ?thesis using sw_measure_step inv by blast
qed

theorem sleep_wakeup_completes_witness: "sw_reachable sw_init \<and> (\<exists>t. sw_step sw_init t)"
  using sleep_wakeup_completes [OF sw_reachable.init] sw_reachable.init by (simp add: sw_init_def)

end
