(* ===== verification/User_Access.thy ===== *)
theory User_Access
  imports Proc_Props
begin

text \<open>
  User memory as the kernel and the process see it: a map from addresses to bytes in which
  encryption is invisible. An access to an encrypted page faults, the fault handler decrypts the
  page, possibly encrypting another one, and the access is repeated; the byte read or written is
  the plain one.
\<close>

section \<open>The view\<close>

definition user_page :: "kstate \<Rightarrow> nat \<Rightarrow> u32 \<Rightarrow> bool" where
  "user_page s p va \<longleftrightarrow> accessible (mem s) (p_pgdir (procs s ! p)) va"

definition user_map :: "kstate \<Rightarrow> nat \<Rightarrow> u32 \<Rightarrow> u8" where
  "user_map s p va = plain (mem s) (p_pgdir (procs s ! p)) va"

text \<open>Memory outside the address space of \<open>p\<close>.\<close>

definition outside :: "kstate \<Rightarrow> nat \<Rightarrow> u32 \<Rightarrow> bool" where
  "outside s p a \<longleftrightarrow> foreign (mem s) (p_pgdir (procs s ! p)) a"

text \<open>
  What every access keeps: the invariant of the working set, the pages of the process, the memory
  outside its address space, and all of the kernel state but the clock queue of the process.
\<close>

definition kept :: "kstate \<Rightarrow> nat \<Rightarrow> kstate \<Rightarrow> bool" where
  "kept s p t \<longleftrightarrow> cq_inv t p \<and> (\<forall>va. user_page t p va = user_page s p va) \<and>
     (\<forall>a. outside t p a = outside s p a \<and> (outside s p a \<longrightarrow> mem t a = mem s a)) \<and>
     (\<exists>q h. procs t = (procs s)[p := (procs s ! p)\<lparr>p_cq := q, p_clock_hand := h\<rparr>]) \<and> rest_eq s t"

lemma kept_refl: "cq_inv s p \<Longrightarrow> kept s p s"
proof -
  assume c: "cq_inv s p"
  have "procs s = (procs s)[p := (procs s ! p)\<lparr>p_cq := p_cq (procs s ! p), p_clock_hand := p_clock_hand (procs s ! p)\<rparr>]"
    by simp
  then show ?thesis using c unfolding kept_def rest_eq_def by blast
qed

lemma kept_trans: "kept s p t \<Longrightarrow> kept t p u \<Longrightarrow> kept s p u"
proof -
  assume st: "kept s p t" and tu: "kept t p u"
  obtain q h where q: "procs t = (procs s)[p := (procs s ! p)\<lparr>p_cq := q, p_clock_hand := h\<rparr>]" using st by (auto simp: kept_def)
  obtain q' h' where q': "procs u = (procs t)[p := (procs t ! p)\<lparr>p_cq := q', p_clock_hand := h'\<rparr>]" using tu by (auto simp: kept_def)
  have len: "p < length (procs t)" using st by (simp add: kept_def cq_inv_def user_ctx_def running_def)
  have "procs u = (procs s)[p := (procs s ! p)\<lparr>p_cq := q', p_clock_hand := h'\<rparr>]"
    using q q' len by simp
  then show ?thesis using st tu unfolding kept_def rest_eq_def by auto
qed

lemma kept_inv: "kept s p t \<Longrightarrow> cq_inv t p" and kept_page: "kept s p t \<Longrightarrow> user_page t p va = user_page s p va"
  by (simp_all add: kept_def)

section \<open>One access\<close>

lemma ws_inv_bits:
  assumes wf: "vm_wf m pd" and k: "vm_keep m m' pd" and ws: "ws_inv m pd q"
    and b: "\<And>va. mapped m pd va \<Longrightarrow> bit (pte_val m' pd va) 0 = bit (pte_val m pd va) 0 \<and> bit (pte_val m' pd va) 10 = bit (pte_val m pd va) 10"
  shows "ws_inv m' pd q"
proof -
  have "cq_wf m' pd q" using ws cq_wf_keep [OF k] by (simp add: ws_inv_def)
  moreover have "bit (pte_val m' pd va) 0 \<noteq> bit (pte_val m' pd va) 10" if "uva m' pd va" for va
    using that ws b uva_mapped [of m pd va] by (auto simp: ws_inv_def vm_keep_mapped(2) [OF k])
  moreover have "cq_has q va" if "accessible m' pd va" "\<not> encrypted m' pd va" for va
    using that ws b [of va] accessible_keep [OF k wf, of va] by (auto simp: ws_inv_def encrypted_def accessible_def)
  ultimately show ?thesis by (simp add: ws_inv_def)
qed

lemma mmu_access_fault:
  assumes up: "upage (mem s) pgdir va" and cr: "cr3 s = V2P pgdir" and P: "\<not> bit (pte_val (mem s) pgdir va) 0"
  shows "mmu_access wr va s = Inl (PageFault va)"
proof -
  have "P2V (PTE_ADDR (cr3 s)) = pgdir" using upage_nonzero [OF up] by (simp add: cr)
  then show ?thesis
    using up P by (simp add: mmu_access_def mmu_walk_def Let_def and_PTE_0_iff upage_def has_table_def entry_defs)
qed

lemma mmu_access_present:
  assumes inv: "cq_inv s p" and pd: "pd = p_pgdir (procs s ! p)"
    and acc: "accessible (mem s) pd va" and ne: "\<not> encrypted (mem s) pd va"
  shows "\<exists>m. mmu_access wr va s = Inr (frame m pd va + (va AND 0xFFF), s\<lparr>mem := m\<rparr>) \<and> cq_inv (s\<lparr>mem := m\<rparr>) p \<and>
    vm_keep (mem s) m pd \<and> \<not> encrypted m pd va"
proof -
  let ?m = "mem s" and ?t = "touched wr (mem s) pd va"
  have wf: "vm_wf ?m pd" and cr: "cr3 s = V2P pd" and ws: "ws_inv ?m pd (p_cq (procs s ! p))"
    using inv pd by (simp_all add: cq_inv_def user_ctx_def)
  have va: "uva ?m pd va" using wf acc by (rule accessible_uva)
  note mp = uva_mapped [OF va] and up = vm_wf_upage [OF wf va]
  have P: "bit (pte_val ?m pd va) 0" using ws va ne by (auto simp: ws_inv_def encrypted_def)
  let ?d = "pde_val ?m pd va OR PTE_A" and ?v = "pte_val ?m pd va OR PTE_A OR (if wr then PTE_D else 0)"
  have d: "entry_sim (pde_val ?m pd va) ?d" "bit ?d 0" and v: "entry_sim (pte_val ?m pd va) ?v" "bit ?v 10 = bit (pte_val ?m pd va) 10" "bit ?v 0"
    using mp P by (simp_all add: entry_sim_def mapped_def bit_simps or.assoc [symmetric] bit_PTE)
  have k: "vm_keep ?m ?t pd"
    unfolding touched_edit using d v P by (intro vm_keep_edit [OF wf mp]) (simp_all add: encrypted_def)
  have val: "pte_val ?t pd x = (if PPN x = PPN va then ?v else pte_val ?m pd x)" if "mapped ?m pd x" for x
    unfolding touched_edit by (rule edit_pte_val [OF wf mp d that])
  have "ws_inv ?t pd (p_cq (procs s ! p))"
  proof (rule ws_inv_bits [OF wf k ws])
    fix x assume "mapped ?m pd x"
    then show "bit (pte_val ?t pd x) 0 = bit (pte_val ?m pd x) 0 \<and> bit (pte_val ?t pd x) 10 = bit (pte_val ?m pd x) 10"
      using v P entries_same_page(5) [of x va ?m pd] by (simp add: val)
  qed
  then have "cq_inv (s\<lparr>mem := ?t\<rparr>) p"
    using inv pd vm_keep_wf [OF k] by (simp add: cq_inv_def user_ctx_def)
  moreover have "\<not> encrypted ?t pd va" using ne v(2) by (simp add: encrypted_def val [OF mp])
  ultimately show ?thesis
    using mmu_access_run [OF up cr P, of wr] touched_entries(5) [OF up, of wr] k by (intro exI [of _ ?t]) simp
qed

lemma kept_access:
  assumes "kept s p t" "cq_inv (t\<lparr>mem := m\<rparr>) p" "vm_keep (mem t) m (p_pgdir (procs t ! p))"
  shows "kept s p (t\<lparr>mem := m\<rparr>)"
proof -
  have c: "cq_inv t p" using assms(1) by (rule kept_inv)
  then have wf: "vm_wf (mem t) (p_pgdir (procs t ! p))" by (simp add: cq_inv_def user_ctx_def)
  have "kept t p (t\<lparr>mem := m\<rparr>)"
    using kept_refl [OF c] assms(2) vm_keep_foreign [OF assms(3)] assms(3) accessible_keep [OF assms(3) wf]
    by (simp add: kept_def user_page_def outside_def rest_eq_def vm_keep_def)
  then show ?thesis by (rule kept_trans [OF assms(1)])
qed

lemma decrypts_kept:
  assumes "cq_inv s p" "decrypts s p va t"
  shows "kept s p t" "p_pgdir (procs t ! p) = p_pgdir (procs s ! p)"
proof -
  let ?pd = "p_pgdir (procs s ! p)"
  have wf: "vm_wf (mem s) ?pd" and len: "p < length (procs s)"
    using assms(1) by (simp_all add: cq_inv_def user_ctx_def running_def)
  have d: "cq_inv t p" "vm_keep (mem s) (mem t) ?pd" "rest_eq s t"
    and pr: "procs t = (procs s)[p := (procs s ! p)\<lparr>p_cq := p_cq (procs t ! p), p_clock_hand := p_clock_hand (procs t ! p)\<rparr>]"
    using assms(2) by (simp_all add: decrypts_def Let_def)
  show pd: "p_pgdir (procs t ! p) = ?pd" by (subst pr) (simp add: len)
  show "kept s p t"
    using d pr pd accessible_keep [OF d(2) wf] vm_keep_foreign [OF d(2)]
    unfolding kept_def user_page_def outside_def by (auto simp: vm_keep_def)
qed

lemma retry_access_run:
  assumes inv: "cq_inv s p" and pd: "pd = p_pgdir (procs s ! p)" and acc: "accessible (mem s) pd va"
  shows "\<exists>t. retry_access wr va s = Inr (frame (mem t) pd va + (va AND 0xFFF), t) \<and> kept s p t \<and>
    p_pgdir (procs t ! p) = pd \<and> vm_keep (mem s) (mem t) pd \<and> \<not> encrypted (mem t) pd va"
proof (cases "encrypted (mem s) pd va")
  case False
  then obtain m where "mmu_access wr va s = Inr (frame m pd va + (va AND 0xFFF), s\<lparr>mem := m\<rparr>)" "cq_inv (s\<lparr>mem := m\<rparr>) p"
    "vm_keep (mem s) m pd" "\<not> encrypted m pd va"
    using mmu_access_present [OF inv pd acc, of wr] by blast
  then show ?thesis
    using kept_access [OF kept_refl [OF inv]] pd by (intro exI [of _ "s\<lparr>mem := m\<rparr>"]) (simp add: retry_access_def)
next
  case True
  have wf: "vm_wf (mem s) pd" and cr: "cr3 s = V2P pd" and ws: "ws_inv (mem s) pd (p_cq (procs s ! p))"
    using inv pd by (simp_all add: cq_inv_def user_ctx_def)
  have va: "uva (mem s) pd va" using wf acc by (rule accessible_uva)
  have fault: "mmu_access wr va s = Inl (PageFault va)"
    using mmu_access_fault [OF vm_wf_upage [OF wf va] cr] ws va True by (auto simp: ws_inv_def encrypted_def)
  obtain t where t: "mdecrypt va s = Inr (0, t)" "decrypts s p va t"
    using mdecrypt_decrypts [OF inv pd acc True] by blast
  note dk = decrypts_kept [OF inv t(2)]
  have td: "cq_inv t p" "vm_keep (mem s) (mem t) pd" "\<not> encrypted (mem t) pd va"
    using t(2) pd by (simp_all add: decrypts_def Let_def)
  have acct: "accessible (mem t) pd va" using acc accessible_keep [OF td(2) wf] by simp
  have pdt: "pd = p_pgdir (procs t ! p)" using dk pd by simp
  obtain m where m: "mmu_access wr va t = Inr (frame m pd va + (va AND 0xFFF), t\<lparr>mem := m\<rparr>)" "cq_inv (t\<lparr>mem := m\<rparr>) p"
    "vm_keep (mem t) m pd" "\<not> encrypted m pd va"
    using mmu_access_present [OF td(1) pdt acct td(3), of wr] by blast
  have "kept s p (t\<lparr>mem := m\<rparr>)" using kept_access [OF dk(1) m(2)] m(3) pdt by simp
  moreover have "vm_keep (mem s) m pd" using td(2) m(3) by (rule vm_keep_trans)
  ultimately show ?thesis
    using m t(1) fault pdt by (intro exI [of _ "t\<lparr>mem := m\<rparr>"]) (simp add: retry_access_def kmonad)
qed

lemma uget8_run:
  assumes inv: "cq_inv s p" and acc: "user_page s p va"
  shows "\<exists>t. uget8 va s = Inr (user_map s p va, t) \<and> kept s p t \<and> (\<forall>x. user_page s p x \<longrightarrow> user_map t p x = user_map s p x)"
proof -
  let ?pd = "p_pgdir (procs s ! p)"
  have wf: "vm_wf (mem s) ?pd" using inv by (simp add: cq_inv_def user_ctx_def)
  have a: "accessible (mem s) ?pd va" using acc by (simp add: user_page_def)
  obtain t where t: "retry_access False va s = Inr (frame (mem t) ?pd va + (va AND 0xFFF), t)" "kept s p t"
    "p_pgdir (procs t ! p) = ?pd" "vm_keep (mem s) (mem t) ?pd" "\<not> encrypted (mem t) ?pd va"
    using retry_access_run [OF inv refl a, of False] by blast
  have eq: "user_map t p x = user_map s p x" if "user_page s p x" for x
    using t(3,4) that accessible_uva [OF wf] by (simp add: vm_keep_def user_map_def user_page_def)
  moreover have "mem t (frame (mem t) ?pd va + (va AND 0xFFF)) = user_map t p va"
    using t(3,5) by (simp add: user_map_def plain_def stored_def)
  ultimately show ?thesis using t(1,2) acc by (intro exI [of _ t]) (simp add: uget8_def kmonad)
qed

text \<open>A byte stored in a frame of the address space.\<close>

lemma same_tables_byte:
  assumes wf: "vm_wf m pd" and va: "uva m pd va"
  shows "same_tables (m(frame m pd va + (va AND 0xFFF) := b)) m pd"
proof -
  have "PPN (frame m pd va) \<noteq> PPN pd" "\<And>x. mapped m pd x \<Longrightarrow> PPN (frame m pd va) \<noteq> PPN (pt_page m pd x)"
    using wf va unfolding vm_wf_def by blast+
  then show ?thesis
    unfolding same_tables_def page_eq_def using PPN_frame_offset [of m pd va] by (metis fun_upd_other)
qed

lemma page_and_offset:
  assumes "PPN x = PPN y" "x AND 0xFFF = y AND 0xFFF"
  shows "x = y"
proof -
  have o: "unat (z AND 0xFFF) = unat z mod 4096" for z :: u32
    unfolding mask12 take_bit_eq_mask [symmetric] by (simp add: take_bit_eq_mod unat_mod_distrib)
  have "unat x div 4096 = unat y div 4096" using assms(1) by (metis unat_PPN)
  moreover have "unat x mod 4096 = unat y mod 4096" using assms(2) by (metis o)
  ultimately show ?thesis by (metis div_mult_mod_eq word_unat_eq_iff)
qed

lemma frame_byte_inj:
  assumes wf: "vm_wf m pd" and va: "uva m pd va" "uva m pd x"
  shows "frame m pd x + (x AND 0xFFF) = frame m pd va + (va AND 0xFFF) \<longleftrightarrow> x = va"
proof
  assume eq: "frame m pd x + (x AND 0xFFF) = frame m pd va + (va AND 0xFFF)"
  then have "PPN (frame m pd x) = PPN (frame m pd va)" by (metis PPN_frame_offset)
  then have pp: "PPN x = PPN va" using vm_wf_frames [OF wf va(2,1)] by blast
  then have "x AND 0xFFF = va AND 0xFFF" using eq entries_same_page(6) [OF pp, of m pd] by simp
  then show "x = va" by (rule page_and_offset [OF pp])
qed simp

lemma byte_entries:
  fixes b :: u8
  assumes wf: "vm_wf m pd" and va: "uva m pd va"
  defines "m' \<equiv> m(frame m pd va + (va AND 0xFFF) := b)"
  shows "vm_wf m' pd" "accessible m' pd x = accessible m pd x" "foreign m' pd a = foreign m pd a"
    "foreign m pd a \<Longrightarrow> m' a = m a" "ws_inv m pd q \<Longrightarrow> ws_inv m' pd q"
    "encrypted m pd va = False \<Longrightarrow> uva m pd x \<Longrightarrow> plain m' pd x = (if x = va then b else plain m pd x)"
proof -
  have al: "page_aligned pd" using wf by (simp add: vm_wf_def)
  have st: "same_tables m' m pd" unfolding m'_def using wf va by (rule same_tables_byte)
  note e = same_tables_entries [OF al st]
  show "vm_wf m' pd" using wf st by (rule vm_wf_same_tables)
  show acc: "accessible m' pd x = accessible m pd x" for x using e(5) by (auto simp: accessible_def e(4))
  have enc: "mapped m pd x \<Longrightarrow> encrypted m' pd x = encrypted m pd x" for x using e(5) by (simp add: encrypted_def)
  have "uva m pd x \<Longrightarrow> frame m' pd x = frame m pd x" for x using e(6) uva_mapped by blast
  then show "foreign m' pd a = foreign m pd a" unfolding foreign_def e(2,4,7) by simp
  show "m' a = m a" if "foreign m pd a"
    using that va PPN_frame_offset [of m pd va] unfolding m'_def foreign_def by (metis fun_upd_other)
  show "ws_inv m' pd q" if ws: "ws_inv m pd q"
  proof -
    have "cq_wf m' pd q" using ws e(3,4) by (simp add: ws_inv_def cq_wf_def)
    moreover have "bit (pte_val m' pd x) 0 \<noteq> bit (pte_val m' pd x) 10" if "uva m' pd x" for x
      using that ws e(5) [of x] uva_mapped [of m pd x] by (auto simp: ws_inv_def e(7))
    moreover have "cq_has q x" if "accessible m' pd x" "\<not> encrypted m' pd x" for x
      using that ws acc [of x] enc [of x] by (auto simp: ws_inv_def accessible_def)
    ultimately show ?thesis by (simp add: ws_inv_def)
  qed
  show "plain m' pd x = (if x = va then b else plain m pd x)" if ne: "encrypted m pd va = False" and x: "uva m pd x"
    using frame_byte_inj [OF wf va x] enc [OF uva_mapped [OF x]] e(6) [OF uva_mapped [OF x]] ne
    by (auto simp: plain_def stored_def m'_def)
qed

lemma uput8_run:
  assumes inv: "cq_inv s p" and acc: "user_page s p va"
  shows "\<exists>t. uput8 va b s = Inr ((), t) \<and> kept s p t \<and>
    (\<forall>x. user_page s p x \<longrightarrow> user_map t p x = (if x = va then b else user_map s p x))"
proof -
  let ?pd = "p_pgdir (procs s ! p)"
  have wf: "vm_wf (mem s) ?pd" using inv by (simp add: cq_inv_def user_ctx_def)
  have a: "accessible (mem s) ?pd va" using acc by (simp add: user_page_def)
  obtain t where t: "retry_access True va s = Inr (frame (mem t) ?pd va + (va AND 0xFFF), t)" "kept s p t"
    "p_pgdir (procs t ! p) = ?pd" "vm_keep (mem s) (mem t) ?pd" "\<not> encrypted (mem t) ?pd va"
    using retry_access_run [OF inv refl a, of True] by blast
  have wft: "vm_wf (mem t) ?pd" using t(4) by (rule vm_keep_wf)
  have uv: "uva (mem t) ?pd x" if "user_page s p x" for x
    using that accessible_uva [OF wf] vm_keep_mapped(2) [OF t(4)] by (simp add: user_page_def)
  define m where "m = (mem t)(frame (mem t) ?pd va + (va AND 0xFFF) := b)"
  note be = byte_entries [OF wft uv [OF acc], where b = b, folded m_def]
  let ?u = "t\<lparr>mem := m\<rparr>"
  have ci: "cq_inv ?u p" using kept_inv [OF t(2)] be(1,5) t(3) by (simp add: cq_inv_def user_ctx_def)
  then have "kept t p ?u"
    using kept_refl [OF kept_inv [OF t(2)]] be(2,3,4) t(3) by (simp add: kept_def user_page_def outside_def rest_eq_def)
  then have "kept s p ?u" by (rule kept_trans [OF t(2)])
  moreover have "user_map ?u p x = (if x = va then b else user_map s p x)" if x: "user_page s p x" for x
    using be(6) [OF _ uv [OF x]] t(3,4,5) x accessible_uva [OF wf, of x]
    by (auto simp: user_map_def user_page_def vm_keep_def)
  ultimately show ?thesis using t(1) by (intro exI [of _ ?u]) (simp add: uput8_def kmonad m_def)
qed

section \<open>Ranges of bytes\<close>

definition bytes_at :: "kstate \<Rightarrow> nat \<Rightarrow> u32 \<Rightarrow> nat \<Rightarrow> u8 list" where
  "bytes_at s p va n = map (\<lambda>i. user_map s p (va + of_nat i)) [0..<n]"

definition user_range :: "kstate \<Rightarrow> nat \<Rightarrow> u32 \<Rightarrow> nat \<Rightarrow> bool" where
  "user_range s p va n \<longleftrightarrow> (\<forall>i<n. user_page s p (va + of_nat i))"

text \<open>Nothing the process can see has changed.\<close>

definition unseen :: "kstate \<Rightarrow> nat \<Rightarrow> kstate \<Rightarrow> bool" where
  "unseen s p t \<longleftrightarrow> kept s p t \<and> (\<forall>x. user_page s p x \<longrightarrow> user_map t p x = user_map s p x)"

lemma unseen_refl: "cq_inv s p \<Longrightarrow> unseen s p s"
  by (simp add: unseen_def kept_refl)

lemma unseen_trans:
  assumes "unseen s p t" "unseen t p u"
  shows "unseen s p u"
  unfolding unseen_def
proof (intro conjI allI impI)
  have k: "kept s p t" "kept t p u" using assms by (simp_all add: unseen_def)
  then show "kept s p u" by (rule kept_trans)
  show "user_map u p x = user_map s p x" if "user_page s p x" for x
    using assms that kept_page [OF k(1), of x] by (simp add: unseen_def)
qed

lemma unseen_kept: "unseen s p t \<Longrightarrow> kept s p t"
  by (simp add: unseen_def)

lemma kept_range: "kept s p t \<Longrightarrow> user_range t p va n = user_range s p va n"
  by (simp add: user_range_def kept_page)

lemma user_range_Suc: "user_range s p va (Suc n) \<longleftrightarrow> user_page s p va \<and> user_range s p (va + 1) n"
  unfolding user_range_def All_less_Suc2 by (simp add: add_ac)

lemma bytes_at_Suc: "bytes_at s p va (Suc n) = user_map s p va # bytes_at s p (va + 1) n"
  by (simp add: bytes_at_def upt_conv_Cons map_Suc_upt [symmetric] add_ac del: upt_Suc)

lemma bytes_at_unseen: "unseen s p t \<Longrightarrow> user_range s p va n \<Longrightarrow> bytes_at t p va n = bytes_at s p va n"
  by (simp add: bytes_at_def unseen_def user_range_def)

lemma bytes_at_length [simp]: "length (bytes_at s p va n) = n"
  by (simp add: bytes_at_def)

lemma bytes_at_0 [simp]: "bytes_at s p va 0 = []"
  by (simp add: bytes_at_def)

lemma uget_bytes_run:
  "cq_inv s p \<Longrightarrow> user_range s p va n \<Longrightarrow> \<exists>t. uget_bytes va n s = Inr (bytes_at s p va n, t) \<and> unseen s p t"
proof (induction n arbitrary: s va)
  case 0
  then show ?case by (simp add: kmonad unseen_refl)
next
  case (Suc n)
  obtain t where t: "uget8 va s = Inr (user_map s p va, t)" "unseen s p t"
    using uget8_run [OF Suc.prems(1), of va] Suc.prems(2) by (auto simp: user_range_Suc unseen_def)
  have r: "user_range s p (va + 1) n" using Suc.prems(2) by (simp add: user_range_Suc)
  note k = unseen_kept [OF t(2)]
  obtain u where u: "uget_bytes (va + 1) n t = Inr (bytes_at t p (va + 1) n, u)" "unseen t p u"
    using Suc.IH [OF kept_inv [OF k], of "va + 1"] r kept_range [OF k] by auto
  show ?case
    using t(1) u(1) bytes_at_unseen [OF t(2) r] unseen_trans [OF t(2) u(2)] by (simp add: kmonad bytes_at_Suc)
qed

text \<open>The view after bytes have been written from \<open>va\<close> on.\<close>

fun put_view :: "(u32 \<Rightarrow> u8) \<Rightarrow> u32 \<Rightarrow> u8 list \<Rightarrow> u32 \<Rightarrow> u8" where
  "put_view f va [] = f"
| "put_view f va (b # bs) = put_view (f(va := b)) (va + 1) bs"

lemma put_view_cong: "f x = g x \<Longrightarrow> put_view f va bs x = put_view g va bs x"
proof (induction bs arbitrary: va f g)
  case (Cons b bs)
  have "(f(va := b)) x = (g(va := b)) x" using Cons.prems by simp
  then show ?case unfolding put_view.simps by (rule Cons.IH)
qed simp

lemma put_view_nth:
  "length bs < 4294967296 \<Longrightarrow> put_view f va bs x = (if unat (x - va) < length bs then bs ! unat (x - va) else f x)"
proof (induction bs arbitrary: va f)
  case (Cons b bs)
  have m1: "x - (va + 1) = (x - va) - 1" by simp
  show ?case
  proof (cases "x = va")
    case True
    have "unat (- 1 :: u32) = 4294967295" by (simp add: unsigned_minus_1_eq_mask mask_eq_exp_minus_1)
    then show ?thesis using Cons True by simp
  next
    case False
    then have nz: "x - va \<noteq> 0" by simp
    then obtain k where k: "unat (x - va) = Suc k" by (metis not0_implies_Suc unat_eq_0)
    have k': "unat (x - (va + 1)) = k" unfolding m1 using nz k by (simp add: unat_minus_1)
    have "length bs < 4294967296" using Cons.prems by simp
    then have "put_view (f(va := b)) (va + 1) bs x = (if k < length bs then bs ! k else (f(va := b)) x)"
      unfolding k' [symmetric] by (rule Cons.IH)
    then show ?thesis using k False by simp
  qed
qed simp

lemma uput_bytes_run:
  "cq_inv s p \<Longrightarrow> user_range s p va (length bs) \<Longrightarrow>
   \<exists>t. uput_bytes va bs s = Inr ((), t) \<and> kept s p t \<and>
     (\<forall>x. user_page s p x \<longrightarrow> user_map t p x = put_view (user_map s p) va bs x)"
proof (induction bs arbitrary: s va)
  case Nil
  then show ?case by (simp add: kmonad kept_refl)
next
  case (Cons b bs)
  have pg: "user_page s p va" and r: "user_range s p (va + 1) (length bs)"
    using Cons.prems(2) by (simp_all add: user_range_Suc)
  obtain t where t: "uput8 va b s = Inr ((), t)" "kept s p t"
    "\<And>x. user_page s p x \<Longrightarrow> user_map t p x = (if x = va then b else user_map s p x)"
    using uput8_run [OF Cons.prems(1) pg, of b] by blast
  obtain u where u: "uput_bytes (va + 1) bs t = Inr ((), u)" "kept t p u"
    "\<And>x. user_page t p x \<Longrightarrow> user_map u p x = put_view (user_map t p) (va + 1) bs x"
    using Cons.IH [OF kept_inv [OF t(2)], of "va + 1"] r kept_range [OF t(2)] by auto
  have "user_map u p x = put_view ((user_map s p)(va := b)) (va + 1) bs x" if "user_page s p x" for x
  proof -
    have "user_map t p x = ((user_map s p)(va := b)) x" using t(3) [OF that] by simp
    then have "put_view (user_map t p) (va + 1) bs x = put_view ((user_map s p)(va := b)) (va + 1) bs x"
      by (rule put_view_cong)
    then show ?thesis using u(3) [of x] that kept_page [OF t(2)] by simp
  qed
  then show ?case
    using t(1) u(1) kept_trans [OF t(2) u(2)] by (simp add: kmonad)
qed

section \<open>Encryption is transparent\<close>

text \<open>
  C3: Reading user memory refines reading a plain byte map: whichever pages of the range are
  encrypted, the page faults are served and the bytes read are the plain contents; no byte the
  process can see changes, and nothing outside its address space but its clock queue.
\<close>

theorem user_read_transparent:
  assumes "cq_inv s p" "user_range s p va n"
  shows "\<exists>t. uget_bytes va n s = Inr (bytes_at s p va n, t) \<and> unseen s p t"
  using uget_bytes_run [OF assms] .

lemma ex_user_range: "user_range (ex_state 0x402406 0x403406 ex_empty (-1)) 0 0xFFE 4"
  unfolding user_range_def user_page_def
proof (intro allI impI)
  fix i :: nat assume "i < 4"
  then have "(0xFFE :: u32) + of_nat i < 8192" by (simp add: word_less_nat_alt unat_word_ariths unat_of_nat)
  then show "accessible (mem (ex_state 0x402406 0x403406 ex_empty (-1)))
      (p_pgdir (procs (ex_state 0x402406 0x403406 ex_empty (-1)) ! 0)) (0xFFE + of_nat i)"
    by (simp add: accessible_ex)
qed

theorem user_read_transparent_witness:
  "\<exists>bs t. uget_bytes 0xFFE 4 (ex_state 0x402406 0x403406 ex_empty (-1)) = Inr (bs, t) \<and> length bs = 4 \<and> cq_inv t 0"
  using user_read_transparent [OF cq_inv_ex ex_user_range] by (auto simp: unseen_def kept_def)

text \<open>
  C4: Writing user memory refines writing a plain byte map: afterwards the range holds the new
  bytes, every other byte of the process is as before, and the working-set invariant holds.
\<close>

theorem user_write_transparent:
  assumes "cq_inv s p" "user_range s p va (length bs)" "length bs < 4294967296"
  shows "\<exists>t. uput_bytes va bs s = Inr ((), t) \<and> kept s p t \<and>
    (\<forall>x. user_page s p x \<longrightarrow>
      user_map t p x = (if unat (x - va) < length bs then bs ! unat (x - va) else user_map s p x))"
  using uput_bytes_run [OF assms(1,2)] put_view_nth [OF assms(3)] by simp

theorem user_write_transparent_witness:
  "\<exists>t. uput_bytes 0xFFE [1, 2, 3, 4] (ex_state 0x402406 0x403406 ex_empty (-1)) = Inr ((), t) \<and> user_map t 0 0x1000 = 3"
proof -
  let ?s = "ex_state 0x402406 0x403406 ex_empty (-1)"
  have r: "user_range ?s 0 0xFFE (length [1, 2, 3, 4 :: u8])" using ex_user_range by (simp add: eval_nat_numeral)
  have pg: "user_page ?s 0 0x1000" using ex_user_range [unfolded user_range_def, rule_format, of 2] by simp
  obtain t where "uput_bytes 0xFFE [1, 2, 3, 4] ?s = Inr ((), t)"
    "user_map t 0 0x1000 = (if unat (0x1000 - 0xFFE :: u32) < 4 then [1, 2, 3, 4] ! unat (0x1000 - 0xFFE :: u32) else user_map ?s 0 0x1000)"
    using user_write_transparent [OF cq_inv_ex r] pg by auto
  then show ?thesis by simp
qed

end
