(* ===== verification/Locked_Access.thy ===== *)
theory Locked_Access
  imports User_Access
begin

text \<open>
  User memory accessed inside a critical section. Serving a page fault reloads the task state of
  the processor, so the processor table after the section is the one before it only up to the
  segments; this theory shows that the lock is released to the same nesting and that what the
  section did to user memory is what it does outside.
\<close>

section \<open>The same locks and nesting\<close>

definition lk_sim :: "kstate \<Rightarrow> kstate \<Rightarrow> bool" where
  "lk_sim s t \<longleftrightarrow> eflags t = eflags s \<and> map cpu_core (cpus t) = map cpu_core (cpus s) \<and> locks t = locks s \<and>
     ncpu t = ncpu s \<and> lapic_id t = lapic_id s"

lemma cpu_core_fields:
  assumes "cpu_core a = cpu_core b"
  shows "c_apicid a = c_apicid b" "c_ncli a = c_ncli b" "c_intena a = c_intena b" "c_proc a = c_proc b"
  using assms by (cases a; cases b; simp add: cpu_core_def)+

lemma lk_sim_refl [simp]: "lk_sim s s"
  by (simp add: lk_sim_def)

lemma lk_sim_trans: "lk_sim s t \<Longrightarrow> lk_sim t u \<Longrightarrow> lk_sim s u"
  by (simp add: lk_sim_def)

lemma map_core_nth:
  assumes "map cpu_core cs = map cpu_core ds" "i < length ds"
  shows "cpu_core (cs ! i) = cpu_core (ds ! i)" "length cs = length ds"
proof -
  show "length cs = length ds" using assms(1) by (rule map_eq_imp_length_eq)
  then show "cpu_core (cs ! i) = cpu_core (ds ! i)" using assms by (metis nth_map)
qed

lemma lk_sim_view:
  assumes "lk_sim s t"
  shows "this_cpu t = this_cpu s" "irq_ok t = irq_ok s" "cur t = cur s" "lock_free r t = lock_free r s"
proof -
  have core: "map cpu_core (cpus t) = map cpu_core (cpus s)" and eq: "eflags t = eflags s" "locks t = locks s" "ncpu t = ncpu s"
    "lapic_id t = lapic_id s" using assms by (simp_all add: lk_sim_def)
  have "c_apicid = c_apicid \<circ> cpu_core" by (rule ext) (simp add: cpu_core_def)
  then have "map c_apicid (cpus t) = map c_apicid (cpus s)" using core by (metis map_map)
  then show tc: "this_cpu t = this_cpu s" using eq(3,4) by (rule this_cpu_cong)
  have f: "c_ncli (cpus t ! i) = c_ncli (cpus s ! i)" "c_intena (cpus t ! i) = c_intena (cpus s ! i)"
    "c_proc (cpus t ! i) = c_proc (cpus s ! i)" if "this_cpu s = Some i" for i
    using cpu_core_fields [OF map_core_nth(1) [OF core this_cpu_bound [OF that]]] by simp_all
  show "irq_ok t = irq_ok s" "cur t = cur s"
    using f by (auto simp: irq_ok_def cur_def tc eq split: option.splits)
  show "lock_free r t = lock_free r s" by (simp add: lock_free_def eq)
qed

lemma rest_eq_fields:
  assumes "rest_eq s t"
  shows "lk_sim s t" "pipes t = pipes s" "resumes t = resumes s" "input t = input s" "iolog t = iolog s" "ticks t = ticks s"
proof -
  have "f (kbase s) = f (kbase t)" for f :: "kstate \<Rightarrow> 'a" using assms by (simp add: rest_eq_def)
  note eq = this
  show "lk_sim s t"
    using eq [of eflags] eq [of cpus] eq [of locks] eq [of ncpu] eq [of lapic_id] by (simp add: lk_sim_def kbase_def)
  show "pipes t = pipes s" "resumes t = resumes s" "input t = input s" "iolog t = iolog s" "ticks t = ticks s"
    using eq [of pipes] eq [of resumes] eq [of input] eq [of iolog] eq [of ticks] by (simp_all add: kbase_def)
qed

lemma kept_fields:
  assumes "kept s p t"
  shows "lk_sim s t" "pipes t = pipes s" "resumes t = resumes s" "input t = input s" "iolog t = iolog s" "ticks t = ticks s"
  using rest_eq_fields assms by (simp_all add: kept_def)

section \<open>Leaving a section\<close>

definition leave :: "kstate \<Rightarrow> nat \<Rightarrow> kstate \<Rightarrow> lkpart" where
  "leave s i t = (eflags s, (cpus t)[i := (cpus t ! i)\<lparr>c_ncli := c_ncli (cpus s ! i)\<rparr>], locks s)"

lemma core_ncli: "cpu_core (c\<lparr>c_ncli := n\<rparr>) = (cpu_core c)\<lparr>c_ncli := n\<rparr>"
  by (simp add: cpu_core_def)

lemma leave_sim:
  assumes ok: "irq_ok s" and i: "this_cpu s = Some i" and sim: "lk_sim (lk_upd (acq r s) s) t"
  shows "lk_sim s (lk_upd (leave s i t) t)" "acq r (lk_upd (leave s i t) t) = lk t"
proof -
  note b = this_cpu_bound [OF i] and pu = pushed_irq_ok [OF ok i]
  have core: "map cpu_core (cpus t) = map cpu_core (cpus (pushed s))" and et: "eflags t = eflags (pushed s)"
    and lt: "locks t = (locks s)(r := (locks s r)\<lparr>sl_locked := 1, sl_cpu := Some i\<rparr>)" and nt: "ncpu t = ncpu s" "lapic_id t = lapic_id s"
    using sim by (simp_all add: lk_sim_def acq_parts [OF i])
  have lb: "i < length (cpus (pushed s))" using b by (simp add: pu)
  note ci = map_core_nth [OF core lb]
  have len: "length (cpus t) = length (cpus s)" using ci(2) by (simp add: pu)
  have "c_ncli (cpus t ! i) = c_ncli (cpus s ! i) + 1" using cpu_core_fields(2) [OF ci(1)] b by (simp add: pu)
  then have nc: "(cpus t ! i)\<lparr>c_ncli := c_ncli (cpus s ! i) + 1\<rparr> = cpus t ! i" by (cases "cpus t ! i") simp
  have c1: "cpu_core (cpus t ! i) = (cpu_core (cpus s ! i))\<lparr>c_ncli := c_ncli (cpus s ! i) + 1\<rparr>"
    using ci(1) b by (simp add: pu core_ncli)
  have "map cpu_core ((cpus t)[i := (cpus t ! i)\<lparr>c_ncli := c_ncli (cpus s ! i)\<rparr>]) =
      (map cpu_core (cpus (pushed s)))[i := cpu_core (cpus s ! i)]"
    unfolding map_update core core_ncli c1 by (simp add: cpu_core_def)
  also have "\<dots> = map cpu_core (cpus s)" using b by (simp add: pu map_update) (metis list_update_id map_update nth_map)
  finally have mc: "map cpu_core ((cpus t)[i := (cpus t ! i)\<lparr>c_ncli := c_ncli (cpus s ! i)\<rparr>]) = map cpu_core (cpus s)" .
  then show sim': "lk_sim s (lk_upd (leave s i t) t)" using nt by (simp add: lk_sim_def leave_def)
  let ?u = "lk_upd (leave s i t) t"
  have iu: "this_cpu ?u = Some i" and oku: "irq_ok ?u" using lk_sim_view [OF sim'] ok i by simp_all
  have "cpus (pushed ?u) = cpus t" "eflags (pushed ?u) = eflags t"
    using pushed_irq_ok [OF oku iu] b len nc by (simp_all add: leave_def et pu(2))
  moreover have "locks ?u = locks s" by (simp add: leave_def)
  ultimately show "acq r ?u = lk t" using acq_parts [OF iu, of r] lt by (intro prod_eqI) (simp_all add: lk_def)
qed

lemma release_sim:
  assumes ok: "irq_ok s" and i: "this_cpu s = Some i" and free: "lock_free r s" and sim: "lk_sim (lk_upd (acq r s) s) t"
  shows "release r t = Inr ((), lk_upd (leave s i t) t)"
proof -
  let ?u = "lk_upd (leave s i t) t"
  note l = leave_sim [OF ok i sim] and v = lk_sim_view [OF leave_sim(1) [OF ok i sim]]
  have "release r (lk_upd (acq r ?u) ?u) = Inr ((), ?u)"
    using ok free v by (intro release_leave) simp_all
  then show ?thesis by (simp add: l(2))
qed

lemma cq_inv_enter: "cq_inv s p \<Longrightarrow> cq_inv (lk_upd (acq r s) s) p"
  by (simp add: cq_inv_def user_ctx_def)

lemma cq_inv_cong:
  assumes "cq_inv t p" "lk_sim s u" "irq_ok s" "cur s = cur t" "mem u = mem t" "procs u = procs t" "cr3 u = cr3 t"
  shows "cq_inv u p"
  using assms lk_sim_view [OF assms(2)] by (simp add: cq_inv_def user_ctx_def running_def)

text \<open>What a section did to user memory, seen after it.\<close>

lemma kept_leave:
  assumes inv: "cq_inv s p" and i: "this_cpu s = Some i" and k: "kept (lk_upd (acq r s) s) p t"
  shows "kept s p (lk_upd (leave s i t) t)"
proof -
  let ?e = "lk_upd (acq r s) s" and ?u = "lk_upd (leave s i t) t"
  have ok: "irq_ok s" "cur s = Some p" using inv by (simp_all add: cq_inv_def user_ctx_def running_def)
  have ct: "cq_inv t p" and re: "rest_eq ?e t" using k by (simp_all add: kept_def)
  note sim = leave_sim(1) [OF ok(1) i kept_fields(1) [OF k]]
  have "cur t = Some p" using ct by (simp add: cq_inv_def user_ctx_def running_def)
  then have "cq_inv ?u p" using cq_inv_cong [OF ct sim ok(1)] ok(2) by simp
  moreover have "kbase s = kbase ?u"
  proof -
    have "kbase s = (kbase ?e)\<lparr>eflags := eflags s, cpus := map cpu_core (cpus s), locks := locks s\<rparr>"
      by (simp add: kbase_def lk_upd_def)
    also have "\<dots> = (kbase t)\<lparr>eflags := eflags s, cpus := map cpu_core (cpus s), locks := locks s\<rparr>"
      using re by (simp add: rest_eq_def)
    also have "\<dots> = kbase ?u" using sim by (simp add: kbase_def lk_upd_def lk_sim_def)
    finally show ?thesis .
  qed
  ultimately show ?thesis
    using k by (simp add: kept_def user_page_def outside_def rest_eq_def)
qed

lemma unseen_leave:
  assumes "cq_inv s p" "this_cpu s = Some i" "unseen (lk_upd (acq r s) s) p t"
  shows "unseen s p (lk_upd (leave s i t) t)"
  using kept_leave [OF assms(1,2) unseen_kept [OF assms(3)]] assms(3)
  by (simp add: unseen_def user_page_def user_map_def)

end
