(* ===== verification/Pipe_Props.thy ===== *)
theory Pipe_Props
  imports Locked_Access
begin

text \<open>
  Pipes as bounded queues. The ring buffer with its two wrapping 32-bit counters implements a
  list of at most \<open>PIPESIZE\<close> bytes; \<open>pipewrite\<close> appends the bytes of the user's buffer to it and
  \<open>piperead\<close> moves bytes from its front to the user's buffer.
\<close>

section \<open>Bounded queues\<close>

locale bounded_queue =
  fixes cap :: nat
    and inv :: "'q \<Rightarrow> bool"
    and items :: "'q \<Rightarrow> 'a list"
    and full :: "'q \<Rightarrow> bool"
    and vacant :: "'q \<Rightarrow> bool"
    and put :: "'a \<Rightarrow> 'q \<Rightarrow> 'q"
    and front :: "'q \<Rightarrow> 'a"
    and drp :: "'q \<Rightarrow> 'q"
  assumes items_bound: "inv q \<Longrightarrow> length (items q) \<le> cap"
    and full_iff: "inv q \<Longrightarrow> full q = (length (items q) = cap)"
    and vacant_iff: "inv q \<Longrightarrow> vacant q = (items q = [])"
    and put_inv: "inv q \<Longrightarrow> \<not> full q \<Longrightarrow> inv (put c q)"
    and put_items: "inv q \<Longrightarrow> \<not> full q \<Longrightarrow> items (put c q) = items q @ [c]"
    and front_items: "inv q \<Longrightarrow> \<not> vacant q \<Longrightarrow> front q = hd (items q)"
    and drop_inv: "inv q \<Longrightarrow> \<not> vacant q \<Longrightarrow> inv (drp q)"
    and drop_items: "inv q \<Longrightarrow> \<not> vacant q \<Longrightarrow> items (drp q) = tl (items q)"
begin

lemma put_all:
  "inv q \<Longrightarrow> length (items q) + length cs \<le> cap \<Longrightarrow> inv (fold put cs q) \<and> items (fold put cs q) = items q @ cs"
proof (induction cs arbitrary: q)
  case (Cons c cs)
  have nf: "\<not> full q" using Cons.prems full_iff [OF Cons.prems(1)] by simp
  show ?case
    using Cons.IH [OF put_inv [OF Cons.prems(1) nf]] Cons.prems put_items [OF Cons.prems(1) nf] by simp
qed simp

lemma drop_all: "inv q \<Longrightarrow> n \<le> length (items q) \<Longrightarrow> inv ((drp ^^ n) q) \<and> items ((drp ^^ n) q) = drop n (items q)"
proof (induction n arbitrary: q)
  case (Suc n)
  have nv: "\<not> vacant q" using Suc.prems vacant_iff [OF Suc.prems(1)] by auto
  show ?case
    using Suc.IH [OF drop_inv [OF Suc.prems(1) nv]] Suc.prems drop_items [OF Suc.prems(1) nv]
    by (simp add: funpow_swap1 drop_Suc)
qed simp

end

section \<open>The ring buffer of a pipe\<close>

definition pipe_inv :: "pipe \<Rightarrow> bool" where
  "pipe_inv x \<longleftrightarrow> length (pi_data x) = PIPESIZE \<and> unat (pi_nwrite x - pi_nread x) \<le> PIPESIZE"

definition pipe_items :: "pipe \<Rightarrow> u8 list" where
  "pipe_items x = map (\<lambda>i. pi_data x ! ((unat (pi_nread x) + i) mod PIPESIZE)) [0..<unat (pi_nwrite x - pi_nread x)]"

definition pipe_full :: "pipe \<Rightarrow> bool" where
  "pipe_full x \<longleftrightarrow> pi_nwrite x = pi_nread x + of_nat PIPESIZE"

definition pipe_vacant :: "pipe \<Rightarrow> bool" where
  "pipe_vacant x \<longleftrightarrow> pi_nread x = pi_nwrite x"

lemma ring_wrap: "unat (a + b :: u32) mod 512 = (unat a + unat b) mod 512"
  by (simp add: unat_word_ariths mod_mod_cancel)

lemma unat_count_put:
  assumes "unat (w - r :: u32) < 512"
  shows "unat (w + 1 - r) = Suc (unat (w - r))"
proof -
  have "unat (x + 1) = Suc (unat x)" if "unat x < 512" for x :: u32 using that by (simp add: unat_word_ariths)
  then have "unat ((w - r) + 1) = Suc (unat (w - r))" using assms .
  moreover have "w + 1 - r = (w - r) + 1" by simp
  ultimately show ?thesis by (simp only:)
qed

lemma unat_count_drop:
  assumes "w \<noteq> (r :: u32)"
  shows "unat (w - r) = Suc (unat (w - (r + 1)))"
proof -
  have "w - r \<noteq> 0" using assms by simp
  then have "unat ((w - r) - 1) = unat (w - r) - 1" "unat (w - r) \<noteq> 0" by (simp_all only: unat_minus_1 unat_eq_0 simp_thms)
  moreover have "w - (r + 1) = (w - r) - 1" by simp
  ultimately show ?thesis by (simp only: Suc_pred neq0_conv)
qed

lemma pipe_full_iff: "pipe_inv x \<Longrightarrow> pipe_full x = (unat (pi_nwrite x - pi_nread x) = PIPESIZE)"
proof -
  have "pipe_full x \<longleftrightarrow> pi_nwrite x - pi_nread x = of_nat PIPESIZE" by (auto simp: pipe_full_def algebra_simps)
  then show ?thesis by (simp add: word_unat_eq_iff PIPESIZE_def)
qed

lemma pipe_put_inv:
  assumes "pipe_inv x" "\<not> pipe_full x"
  shows "pipe_inv (pipe_put c x)" "pipe_items (pipe_put c x) = pipe_items x @ [c]"
proof -
  let ?n = "unat (pi_nwrite x - pi_nread x)"
  have n: "?n < 512" and len: "length (pi_data x) = 512"
    using assms pipe_full_iff [OF assms(1)] by (simp_all add: pipe_inv_def PIPESIZE_def)
  have w: "unat (pi_nwrite x) mod 512 = (unat (pi_nread x) + ?n) mod 512"
    using ring_wrap [of "pi_nread x" "pi_nwrite x - pi_nread x"] by simp
  have ne: "(unat (pi_nread x) + i) mod 512 \<noteq> unat (pi_nwrite x) mod 512" if "i < ?n" for i
  proof
    assume "(unat (pi_nread x) + i) mod 512 = unat (pi_nwrite x) mod 512"
    then have "512 dvd ?n - i"
      unfolding w using that mod_eq_dvd_iff_nat [of "unat (pi_nread x) + i" "unat (pi_nread x) + ?n" 512] by simp
    then show False using that n by (auto dest!: dvd_imp_le)
  qed
  show "pipe_inv (pipe_put c x)"
    using n len unat_count_put [OF n] by (simp add: pipe_inv_def pipe_put_def PIPESIZE_def)
  show "pipe_items (pipe_put c x) = pipe_items x @ [c]"
    using n len ne unat_count_put [OF n]
    by (simp add: pipe_items_def pipe_put_def PIPESIZE_def w [symmetric]) (metis atLeastLessThan_iff nth_list_update_neq)
qed

lemma pipe_drop_inv:
  assumes "pipe_inv x" "\<not> pipe_vacant x"
  shows "pipe_inv (pipe_drop x)" "pipe_items x = pipe_front x # pipe_items (pipe_drop x)"
proof -
  have n: "unat (pi_nwrite x - pi_nread x) = Suc (unat (pi_nwrite x - (pi_nread x + 1)))"
    using assms(2) by (intro unat_count_drop) (simp add: pipe_vacant_def)
  show "pipe_inv (pipe_drop x)" using assms(1) n by (simp add: pipe_inv_def pipe_drop_def)
  have "(unat (pi_nread x) + Suc i) mod 512 = (unat (pi_nread x + 1) + i) mod 512" for i
  proof -
    have "unat (pi_nread x + 1) mod 512 = (unat (pi_nread x) + 1) mod 512" using ring_wrap [of "pi_nread x" 1] by simp
    then have "(unat (pi_nread x + 1) + i) mod 512 = (unat (pi_nread x) + 1 + i) mod 512" by (rule mod_add_cong) simp
    then show ?thesis by simp
  qed
  then show "pipe_items x = pipe_front x # pipe_items (pipe_drop x)"
    unfolding pipe_items_def n
    by (simp add: upt_conv_Cons map_Suc_upt [symmetric] pipe_front_def pipe_drop_def PIPESIZE_def del: upt_Suc)
qed

interpretation pq: bounded_queue PIPESIZE pipe_inv pipe_items pipe_full pipe_vacant pipe_put pipe_front pipe_drop
proof unfold_locales
  fix x assume inv: "pipe_inv x"
  show "length (pipe_items x) \<le> PIPESIZE" "pipe_full x = (length (pipe_items x) = PIPESIZE)"
    using inv pipe_full_iff [OF inv] by (simp_all add: pipe_items_def pipe_inv_def)
  show "pipe_vacant x = (pipe_items x = [])"
    by (auto simp: pipe_vacant_def pipe_items_def unat_eq_0)
  show "pipe_front x = hd (pipe_items x)" "pipe_inv (pipe_drop x)" "pipe_items (pipe_drop x) = tl (pipe_items x)"
    if "\<not> pipe_vacant x"
    using pipe_drop_inv [OF inv that] by simp_all
qed (simp_all add: pipe_put_inv)

section \<open>User memory and the pipe table\<close>

lemma cq_inv_pipes [simp]: "cq_inv (s\<lparr>pipes := x\<rparr>) p = cq_inv s p"
  by (simp add: cq_inv_def user_ctx_def running_def)

lemma kbase_pipes [simp]: "kbase (s\<lparr>pipes := x\<rparr>) = (kbase s)\<lparr>pipes := x\<rparr>"
  by (simp add: kbase_def)

lemma view_pipes [simp]:
  "user_page (s\<lparr>pipes := x\<rparr>) p = user_page s p" "user_map (s\<lparr>pipes := x\<rparr>) p = user_map s p"
  "outside (s\<lparr>pipes := x\<rparr>) p = outside s p" "user_range (s\<lparr>pipes := x\<rparr>) p = user_range s p"
  "bytes_at (s\<lparr>pipes := x\<rparr>) p = bytes_at s p"
  by (intro ext; simp add: user_page_def user_map_def outside_def user_range_def bytes_at_def)+

lemma kept_pipes:
  assumes "kept (s\<lparr>pipes := x\<rparr>) p t"
  shows "kept s p (t\<lparr>pipes := pipes s\<rparr>)" "t\<lparr>pipes := x\<rparr> = t"
proof -
  have k: "(kbase s)\<lparr>pipes := x\<rparr> = kbase t" using assms by (simp add: kept_def rest_eq_def)
  have "kbase s = (kbase s)\<lparr>pipes := x, pipes := pipes s\<rparr>" by (simp add: kbase_def)
  then have "rest_eq s (t\<lparr>pipes := pipes s\<rparr>)" unfolding rest_eq_def kbase_pipes k [symmetric] by simp
  then show "kept s p (t\<lparr>pipes := pipes s\<rparr>)" using assms by (simp add: kept_def)
  have "pipes t = x" using kept_fields(2) [OF assms] by simp
  then show "t\<lparr>pipes := x\<rparr> = t" by auto
qed

lemma unseen_pipes: "unseen (s\<lparr>pipes := x\<rparr>) p t \<Longrightarrow> unseen s p (t\<lparr>pipes := pipes s\<rparr>)"
  using kept_pipes(1) [of x s p t] by (simp add: unseen_def)

section \<open>Writing\<close>

lemma pipe_wait_room_run:
  "pipe_inv (pipes s q) \<Longrightarrow> \<not> pipe_full (pipes s q) \<Longrightarrow> pipe_wait_room (Suc n) q s = Inr (True, s)"
  by (simp add: pipe_full_def kmonad)

lemma pipewrite_loop_run:
  "cq_inv e p \<Longrightarrow> pipe_inv (pipes e q) \<Longrightarrow> length (pipe_items (pipes e q)) + n \<le> PIPESIZE \<Longrightarrow> user_range e p addr n \<Longrightarrow>
   \<exists>u. unseen e p u \<and> pipewrite_loop n q addr e =
     Inr (True, u\<lparr>pipes := (pipes e)(q := fold pipe_put (bytes_at e p addr n) (pipes e q))\<rparr>)"
proof (induction n arbitrary: e addr)
  case 0
  then show ?case by (intro exI [of _ e]) (simp add: kmonad unseen_refl)
next
  case (Suc n)
  let ?x = "pipes e q"
  have nf: "\<not> pipe_full ?x" using Suc.prems(2,3) pq.full_iff [of ?x] by simp
  have pg: "user_page e p addr" and r: "user_range e p (addr + 1) n" using Suc.prems(4) by (simp_all add: user_range_Suc)
  obtain t where t: "uget8 addr e = Inr (user_map e p addr, t)" "unseen e p t"
    using uget8_run [OF Suc.prems(1) pg] by (auto simp: unseen_def)
  note kt = unseen_kept [OF t(2)] and ft = kept_fields(2) [OF unseen_kept [OF t(2)]]
  let ?y = "pipe_put (user_map e p addr) ?x"
  let ?t = "t\<lparr>pipes := (pipes e)(q := ?y)\<rparr>"
  have "\<exists>u. unseen ?t p u \<and> pipewrite_loop n q (addr + 1) ?t =
      Inr (True, u\<lparr>pipes := (pipes ?t)(q := fold pipe_put (bytes_at ?t p (addr + 1) n) (pipes ?t q))\<rparr>)"
    using Suc.prems pq.put_inv [OF Suc.prems(2) nf] pq.put_items [OF Suc.prems(2) nf] kept_inv [OF kt] kept_range [OF kt] r
    by (intro Suc.IH) simp_all
  then obtain u where u: "unseen ?t p u" "pipewrite_loop n q (addr + 1) ?t =
      Inr (True, u\<lparr>pipes := (pipes e)(q := fold pipe_put (bytes_at e p (addr + 1) n) ?y)\<rparr>)"
    using bytes_at_unseen [OF t(2) r] by auto
  have "unseen e p (u\<lparr>pipes := pipes t\<rparr>)" using unseen_trans [OF t(2) unseen_pipes [OF u(1)]] .
  moreover have "pipewrite_loop (Suc n) q addr e = pipewrite_loop n q (addr + 1) ?t"
    using t(1) ft pipe_wait_room_run [OF Suc.prems(2) nf] by (simp add: kmonad wakeups_def del: pipe_wait_room.simps)
  ultimately show ?case using u(2) by (intro exI [of _ "u\<lparr>pipes := pipes t\<rparr>"]) (simp add: bytes_at_Suc fun_upd_def del: pipewrite_loop.simps)
qed

text \<open>A process with two encrypted pages and a pipe whose counters are about to wrap.\<close>

definition ex_pipe :: pipe where
  "ex_pipe = \<lparr>pi_data = replicate PIPESIZE 7, pi_nread = 0xFFFFFFFF, pi_nwrite = 1, pi_readopen = 1, pi_writeopen = 1\<rparr>"

definition ex_piped :: kstate where
  "ex_piped = (ex_state 0x402406 0x403406 ex_empty (-1))\<lparr>pipes := (\<lambda>_. ex_pipe)\<rparr>"

lemma ex_pipe_inv: "pipe_inv ex_pipe" "pipe_items ex_pipe = [7, 7]"
  by (simp_all add: pipe_inv_def ex_pipe_def PIPESIZE_def pipe_items_def upt_rec)

lemma ex_piped_ok:
  "cq_inv ex_piped 0" "lock_free r ex_piped" "user_range ex_piped 0 0xFFE 4" "pipes ex_piped q = ex_pipe"
  using cq_inv_ex ex_user_range by (simp_all add: ex_piped_def) (simp add: lock_free_def ex_state_def kstate0_def spinlock0_def)

text \<open>
  C16: A write that fits appends. When the free space of the pipe takes the whole buffer, \<open>pipewrite\<close>
  returns \<open>n\<close>; the queue has got the plain bytes of the user's buffer at its end, the sleeping
  readers are runnable, and neither user memory nor any other part of the kernel has changed.
\<close>

theorem pipewrite_appends:
  assumes "cq_inv s p" "lock_free (PipeLock q) s" "lock_free PtableLock s" "pipe_inv (pipes s q)"
    and "length (pipe_items (pipes s q)) + n \<le> PIPESIZE" "user_range s p addr n"
  shows "\<exists>u x. unseen s p u \<and> pipe_inv x \<and> pipe_items x = pipe_items (pipes s q) @ bytes_at s p addr n \<and>
    pipewrite q addr (int n) s =
      Inr (int n, u\<lparr>pipes := (pipes s)(q := x), procs := map (wake (PipeReadChan q)) (procs u)\<rparr>)"
proof -
  let ?e = "lk_upd (acq (PipeLock q) s) s" and ?x = "fold pipe_put (bytes_at s p addr n) (pipes s q)"
  have ok: "irq_ok s" using assms(1) by (simp add: cq_inv_def user_ctx_def running_def)
  obtain i where i: "this_cpu s = Some i" using irq_ok_cpu [OF ok] by blast
  have view: "bytes_at ?e p addr n = bytes_at s p addr n" "user_range ?e p addr n"
    using assms(6) by (simp_all add: bytes_at_def user_map_def user_range_def user_page_def)
  obtain u where u: "unseen ?e p u" "pipewrite_loop n q addr ?e = Inr (True, u\<lparr>pipes := (pipes s)(q := ?x)\<rparr>)"
    using pipewrite_loop_run [OF cq_inv_enter [OF assms(1)], of "PipeLock q" q n addr] assms(4,5) view by auto
  note sim = kept_fields(1) [OF unseen_kept [OF u(1)]]
  let ?v = "u\<lparr>pipes := (pipes s)(q := ?x), procs := map (wake (PipeReadChan q)) (procs u)\<rparr>"
  have "irq_ok (u\<lparr>pipes := (pipes s)(q := ?x)\<rparr>)" "lock_free PtableLock (u\<lparr>pipes := (pipes s)(q := ?x)\<rparr>)"
    using lk_sim_view [OF sim] ok assms(3) by simp_all
  then have wk: "wakeup (PipeReadChan q) (u\<lparr>pipes := (pipes s)(q := ?x)\<rparr>) = Inr ((), ?v)"
    by (simp add: wakeup_run)
  have "lk_sim ?e ?v" using sim by (simp add: lk_sim_def)
  then have rel: "release (PipeLock q) ?v = Inr ((), lk_upd (leave s i ?v) ?v)"
    by (rule release_sim [OF ok i assms(2)])
  let ?u = "lk_upd (leave s i u) u"
  have "pipewrite q addr (int n) s = Inr (int n, ?u\<lparr>pipes := (pipes s)(q := ?x), procs := map (wake (PipeReadChan q)) (procs ?u)\<rparr>)"
    using acquire_enter [OF ok assms(2)] u(2) wk rel by (simp add: pipewrite_def kmonad leave_def)
  then show ?thesis
    using unseen_leave [OF assms(1) i u(1)] pq.put_all [OF assms(4), of "bytes_at s p addr n"] assms(5)
    by (intro exI [of _ ?u] exI [of _ ?x]) simp
qed

theorem pipewrite_appends_witness:
  "\<exists>t. pipewrite 0x80600000 0xFFE 4 ex_piped = Inr (4, t) \<and> pipe_inv (pipes t 0x80600000) \<and>
    pipe_items (pipes t 0x80600000) = [7, 7] @ bytes_at ex_piped 0 0xFFE 4"
  using pipewrite_appends [of ex_piped 0 "0x80600000" 4 "0xFFE"] ex_piped_ok ex_pipe_inv by (auto simp: PIPESIZE_def)

section \<open>Reading\<close>

lemma piperead_loop_run:
  "cq_inv e p \<Longrightarrow> pipe_inv (pipes e q) \<Longrightarrow> m = min n (length (pipe_items (pipes e q))) \<Longrightarrow> user_range e p addr m \<Longrightarrow>
   \<exists>u. kept e p u \<and> (\<forall>y. user_page e p y \<longrightarrow> user_map u p y = put_view (user_map e p) addr (take m (pipe_items (pipes e q))) y) \<and>
     piperead_loop n q addr k e = Inr (k + int m, u\<lparr>pipes := (pipes e)(q := (pipe_drop ^^ m) (pipes e q))\<rparr>)"
proof (induction n arbitrary: e addr k m)
  case 0
  then show ?case by (intro exI [of _ e]) (simp add: kmonad kept_refl)
next
  case (Suc n)
  let ?x = "pipes e q"
  show ?case
  proof (cases "pipe_vacant ?x")
    case True
    then have "m = 0" "pi_nread ?x = pi_nwrite ?x"
      using Suc.prems(2,3) pq.vacant_iff [of ?x] by (simp_all add: pipe_vacant_def)
    then show ?thesis using Suc.prems(1) by (intro exI [of _ e]) (simp add: kmonad kept_refl)
  next
    case False
    note dr = pipe_drop_inv [OF Suc.prems(2) False]
    let ?m = "min n (length (pipe_items (pipe_drop ?x)))"
    have m: "m = Suc ?m" using Suc.prems(3) dr(2) by simp
    have pg: "user_page e p addr" and r: "user_range e p (addr + 1) ?m"
      using Suc.prems(4) unfolding m by (simp_all add: user_range_Suc)
    let ?e = "e\<lparr>pipes := (pipes e)(q := pipe_drop ?x)\<rparr>"
    obtain t where t: "uput8 addr (pipe_front ?x) ?e = Inr ((), t)" "kept ?e p t"
      "\<And>y. user_page e p y \<Longrightarrow> user_map t p y = (if y = addr then pipe_front ?x else user_map e p y)"
      using uput8_run [of ?e p addr "pipe_front ?x"] Suc.prems(1) pg by auto
    have pt: "pipes t q = pipe_drop ?x" "pipes t = (pipes e)(q := pipe_drop ?x)" using kept_fields(2) [OF t(2)] by simp_all
    have "\<exists>u. kept t p u \<and> (\<forall>y. user_page t p y \<longrightarrow> user_map u p y =
          put_view (user_map t p) (addr + 1) (take ?m (pipe_items (pipes t q))) y) \<and>
        piperead_loop n q (addr + 1) (k + 1) t = Inr (k + 1 + int ?m, u\<lparr>pipes := (pipes t)(q := (pipe_drop ^^ ?m) (pipes t q))\<rparr>)"
      using dr(1) kept_inv [OF t(2)] kept_range [OF t(2)] r by (intro Suc.IH) (simp_all add: pt(1))
    then obtain u where u: "kept t p u"
      "\<And>y. user_page t p y \<Longrightarrow> user_map u p y = put_view (user_map t p) (addr + 1) (take ?m (pipe_items (pipe_drop ?x))) y"
      "piperead_loop n q (addr + 1) (k + 1) t = Inr (k + 1 + int ?m, u\<lparr>pipes := (pipes t)(q := (pipe_drop ^^ ?m) (pipe_drop ?x))\<rparr>)"
      unfolding pt(1) by blast
    have "user_map u p y = put_view (user_map e p) addr (take m (pipe_items ?x)) y" if y: "user_page e p y" for y
    proof -
      have "user_page t p y" using y kept_page [OF t(2), of y] by simp
      moreover have "user_map t p y = ((user_map e p)(addr := pipe_front ?x)) y" using t(3) [OF y] by simp
      ultimately show ?thesis
        using u(2) [of y] put_view_cong [of "user_map t p" y "(user_map e p)(addr := pipe_front ?x)"]
        unfolding m dr(2) by simp
    qed
    moreover have "kept e p (u\<lparr>pipes := pipes e\<rparr>)" using kept_pipes(1) [OF kept_trans [OF t(2) u(1)]] .
    moreover have loop: "piperead_loop (Suc n) q addr k e = piperead_loop n q (addr + 1) (k + 1) t"
      using False t(1) by (simp add: kmonad pipe_vacant_def)
    have "piperead_loop (Suc n) q addr k e =
        Inr (k + int m, (u\<lparr>pipes := pipes e\<rparr>)\<lparr>pipes := (pipes e)(q := (pipe_drop ^^ m) ?x)\<rparr>)"
      unfolding loop u(3) pt(2) m by (simp add: funpow_swap1)
    ultimately show ?thesis by (intro exI [of _ "u\<lparr>pipes := pipes e\<rparr>"] conjI allI impI) (simp_all only: view_pipes simp_thms)
  qed
qed

text \<open>
  C17: A read takes from the front. When the pipe holds bytes or its write end is closed, \<open>piperead\<close>
  moves the first \<open>n\<close> bytes, or all if there are fewer, to the user's buffer and returns their
  number; the rest stays queued in order, the sleeping writers are runnable, and no other byte of
  the process changes. With the write end closed and nothing queued it returns 0.
\<close>

theorem piperead_takes:
  assumes "cq_inv s p" "lock_free (PipeLock q) s" "lock_free PtableLock s" "pipe_inv (pipes s q)"
    and "pipe_items (pipes s q) \<noteq> [] \<or> pi_writeopen (pipes s q) = 0"
    and "user_range s p addr (min n (length (pipe_items (pipes s q))))"
  shows "\<exists>u x. kept s p u \<and> pipe_inv x \<and> pipe_items x = drop n (pipe_items (pipes s q)) \<and>
    (\<forall>y. user_page s p y \<longrightarrow> user_map u p y = put_view (user_map s p) addr (take n (pipe_items (pipes s q))) y) \<and>
    piperead q addr (int n) s =
      Inr (int (min n (length (pipe_items (pipes s q)))),
        u\<lparr>pipes := (pipes s)(q := x), procs := map (wake (PipeWriteChan q)) (procs u)\<rparr>)"
proof -
  let ?e = "lk_upd (acq (PipeLock q) s) s" and ?its = "pipe_items (pipes s q)"
  let ?m = "min n (length ?its)"
  let ?x = "(pipe_drop ^^ ?m) (pipes s q)"
  have ok: "irq_ok s" using assms(1) by (simp add: cq_inv_def user_ctx_def running_def)
  obtain i where i: "this_cpu s = Some i" using irq_ok_cpu [OF ok] by blast
  have view: "user_page ?e p = user_page s p" "user_map ?e p = user_map s p" "user_range ?e p addr ?m"
    using assms(6) by (auto simp: user_map_def user_range_def user_page_def)
  have tk: "take ?m ?its = take n ?its" by (simp add: min_def)
  obtain u where u: "kept ?e p u" "\<forall>y. user_page s p y \<longrightarrow> user_map u p y = put_view (user_map s p) addr (take n ?its) y"
      "piperead_loop n q addr 0 ?e = Inr (int ?m, u\<lparr>pipes := (pipes s)(q := ?x)\<rparr>)"
    using piperead_loop_run [OF cq_inv_enter [OF assms(1)], of "PipeLock q" q ?m n addr 0] assms(4) view
    unfolding lk_upd_sel tk view by auto
  note sim = kept_fields(1) [OF u(1)]
  let ?v = "u\<lparr>pipes := (pipes s)(q := ?x), procs := map (wake (PipeWriteChan q)) (procs u)\<rparr>"
  have "irq_ok (u\<lparr>pipes := (pipes s)(q := ?x)\<rparr>)" "lock_free PtableLock (u\<lparr>pipes := (pipes s)(q := ?x)\<rparr>)"
    using lk_sim_view [OF sim] ok assms(3) by simp_all
  then have wk: "wakeup (PipeWriteChan q) (u\<lparr>pipes := (pipes s)(q := ?x)\<rparr>) = Inr ((), ?v)"
    by (simp add: wakeup_run)
  have "lk_sim ?e ?v" using sim by (simp add: lk_sim_def)
  then have rel: "release (PipeLock q) ?v = Inr ((), lk_upd (leave s i ?v) ?v)"
    by (rule release_sim [OF ok i assms(2)])
  let ?u = "lk_upd (leave s i u) u"
  have wait: "pipe_wait_data (Suc k) q ?e = Inr (True, ?e)" for k
    using assms(5) pq.vacant_iff [OF assms(4)] by (auto simp: pipe_vacant_def kmonad)
  have "piperead q addr (int n) s = Inr (int ?m, ?u\<lparr>pipes := (pipes s)(q := ?x), procs := map (wake (PipeWriteChan q)) (procs ?u)\<rparr>)"
    using acquire_enter [OF ok assms(2)] wait u(3) wk rel
    by (simp add: piperead_def kmonad leave_def wakeups_def del: pipe_wait_data.simps)
  moreover have "\<forall>y. user_page s p y \<longrightarrow> user_map ?u p y = put_view (user_map s p) addr (take n ?its) y"
    using u(2) by (simp add: user_map_def)
  ultimately show ?thesis
    using kept_leave [OF assms(1) i u(1)] pq.drop_all [OF assms(4), of ?m]
    by (intro exI [of _ ?u] exI [of _ ?x]) (simp add: min_def split: if_splits)
qed

theorem piperead_takes_witness:
  "\<exists>t. piperead 0x80600000 0xFFE 1 ex_piped = Inr (1, t) \<and> pipe_items (pipes t 0x80600000) = [7]"
proof -
  have "user_range ex_piped 0 0xFFE 1" using ex_piped_ok(3) [unfolded user_range_def, rule_format, of 0] by (simp add: user_range_def)
  then show ?thesis using piperead_takes [of ex_piped 0 "0x80600000" "0xFFE" 1] ex_piped_ok ex_pipe_inv by auto
qed

end
