(* ===== verification/Arg_Props.thy ===== *)
theory Arg_Props
  imports User_Access
begin

text \<open>
  System call arguments: the values the kernel fetches from the user's stack are the plain bytes of
  the process, and a pointer that passes the checks denotes a block inside the process.
\<close>

section \<open>Words and strings\<close>

lemma uget32_run:
  assumes "cq_inv s p" "user_range s p a 4"
  shows "\<exists>t. uget32 a s = Inr (le32 (bytes_at s p a 4) 0, t) \<and> unseen s p t"
proof -
  have eq: "uget32 a s = kbind (uget_bytes a 4) (\<lambda>bs. kret (le32 bs 0)) s" for s
    by (simp add: uget32_def eval_nat_numeral kbind_def kret_def le32_def add_ac split: sum.splits)
  show ?thesis using uget_bytes_run [OF assms] unfolding eq by (auto simp: kmonad)
qed

text \<open>The bytes up to and including the terminator determine the string.\<close>

lemma bytes_prefix_unseen:
  assumes "unseen s p t" "user_range s p a (min (Suc (length (takeWhile (\<lambda>c. c \<noteq> 0) (bytes_at s p a n)))) n)"
  shows "takeWhile (\<lambda>c. c \<noteq> 0) (bytes_at t p a n) = takeWhile (\<lambda>c. c \<noteq> 0) (bytes_at s p a n) \<and>
    (0 \<in> set (bytes_at t p a n)) = (0 \<in> set (bytes_at s p a n))"
  using assms(2)
proof (induction n arbitrary: a)
  case (Suc n)
  have "user_page s p a" using Suc.prems by (simp add: min_def user_range_Suc split: if_splits)
  then have eq: "user_map t p a = user_map s p a" using assms(1) by (simp add: unseen_def)
  show ?case
  proof (cases "user_map s p a = 0")
    case False
    then show ?thesis using Suc.IH [of "a + 1"] Suc.prems eq by (simp add: bytes_at_Suc user_range_Suc)
  qed (simp add: bytes_at_Suc eq)
qed simp

lemma fetchstr_loop_run:
  assumes "cq_inv s p" "user_range s p a (min (Suc (length (takeWhile (\<lambda>c. c \<noteq> 0) (bytes_at s p a n)))) n)"
  shows "\<exists>t. fetchstr_loop n a got s =
    Inr (if 0 \<in> set (bytes_at s p a n) then Some (got @ takeWhile (\<lambda>c. c \<noteq> 0) (bytes_at s p a n)) else None, t) \<and> unseen s p t"
  using assms
proof (induction n arbitrary: s a got)
  case 0
  then show ?case by (simp add: kmonad unseen_refl)
next
  case (Suc n)
  let ?c = "user_map s p a"
  have pg: "user_page s p a" using Suc.prems(2) by (simp add: min_def user_range_Suc split: if_splits)
  obtain t where t: "uget8 a s = Inr (?c, t)" "unseen s p t"
    using uget8_run [OF Suc.prems(1) pg] by (auto simp: unseen_def)
  note kt = unseen_kept [OF t(2)]
  show ?case
  proof (cases "?c = 0")
    case True
    then show ?thesis using t by (simp add: kmonad bytes_at_Suc)
  next
    case False
    let ?b = "bytes_at s p (a + 1) n"
    let ?k = "min (Suc (length (takeWhile (\<lambda>c. c \<noteq> 0) ?b))) n"
    have r: "user_range s p (a + 1) ?k"
      using Suc.prems(2) False by (simp add: bytes_at_Suc user_range_Suc)
    have pre: "takeWhile (\<lambda>c. c \<noteq> 0) (bytes_at t p (a + 1) n) = takeWhile (\<lambda>c. c \<noteq> 0) ?b \<and>
        (0 \<in> set (bytes_at t p (a + 1) n)) = (0 \<in> set ?b)"
      using bytes_prefix_unseen [OF t(2) r] .
    have "\<exists>u. fetchstr_loop n (a + 1) (got @ [?c]) t =
        Inr (if 0 \<in> set (bytes_at t p (a + 1) n) then Some ((got @ [?c]) @ takeWhile (\<lambda>c. c \<noteq> 0) (bytes_at t p (a + 1) n)) else None, u) \<and>
        unseen t p u"
      using r kept_range [OF kt] pre by (intro Suc.IH kept_inv [OF kt]) simp
    then obtain u where u: "fetchstr_loop n (a + 1) (got @ [?c]) t =
        Inr (if 0 \<in> set ?b then Some (got @ ?c # takeWhile (\<lambda>c. c \<noteq> 0) ?b) else None, u)" "unseen t p u"
      using pre by auto
    show ?thesis using t(1) u(1) False unseen_trans [OF t(2) u(2)] by (simp add: kmonad bytes_at_Suc)
  qed
qed

section \<open>Fetching arguments\<close>

lemma cq_inv_running: "cq_inv s p \<Longrightarrow> running s p"
  by (simp add: cq_inv_def user_ctx_def)

lemma fetchint_run:
  assumes "cq_inv s p"
  defines "sz \<equiv> p_sz (procs s ! p)"
  shows "sz \<le> a \<or> sz < a + 4 \<Longrightarrow> fetchint a s = Inr (None, s)"
    and "\<not> (sz \<le> a \<or> sz < a + 4) \<Longrightarrow> user_range s p a 4 \<Longrightarrow>
      \<exists>t. fetchint a s = Inr (Some (le32 (bytes_at s p a 4) 0), t) \<and> unseen s p t"
proof -
  note me = me_run [OF cq_inv_running [OF assms(1)]]
  show "sz \<le> a \<or> sz < a + 4 \<Longrightarrow> fetchint a s = Inr (None, s)"
    using me by (auto simp: fetchint_def kmonad sz_def)
  show "\<exists>t. fetchint a s = Inr (Some (le32 (bytes_at s p a 4) 0), t) \<and> unseen s p t"
    if "\<not> (sz \<le> a \<or> sz < a + 4)" "user_range s p a 4"
    using me uget32_run [OF assms(1) that(2)] that(1) by (auto simp: fetchint_def kmonad sz_def)
qed

lemma argint_run:
  assumes "cq_inv s p" "p_tf (procs s ! p) + TF_esp \<noteq> 0"
    and "a = load32 (mem s) (p_tf (procs s ! p) + TF_esp) + 4 + 4 * of_nat n"
  shows "argint n s = fetchint a s"
  using me_run [OF cq_inv_running [OF assms(1)]] assms(2,3) by (simp add: argint_def kmonad)

text \<open>
  C34: An integer argument is fetched from the user's stack. \<open>argint\<close> reads the plain word at
  \<open>esp + 4 + 4 n\<close> when it lies inside the process, and fails without any effect when it does not.
\<close>

theorem argint_fetches:
  assumes "cq_inv s p" "p_tf (procs s ! p) + TF_esp \<noteq> 0"
    and "a = load32 (mem s) (p_tf (procs s ! p) + TF_esp) + 4 + 4 * of_nat n"
    and "\<not> (p_sz (procs s ! p) \<le> a \<or> p_sz (procs s ! p) < a + 4) \<longrightarrow> user_range s p a 4"
  shows "if p_sz (procs s ! p) \<le> a \<or> p_sz (procs s ! p) < a + 4 then argint n s = Inr (None, s)
    else \<exists>t. argint n s = Inr (Some (le32 (bytes_at s p a 4) 0), t) \<and> unseen s p t"
  using argint_run [OF assms(1-3)] fetchint_run [OF assms(1), of a] assms(4) by auto

text \<open>A process whose first page is decrypted and holds zeros.\<close>

abbreviation ex_plain :: kstate where
  "ex_plain \<equiv> ex_state 0x402007 0x403406 ex_one 0"

lemma ex_plain_tf: "p_tf (procs ex_plain ! 0) + TF_esp \<noteq> 0" "p_sz (procs ex_plain ! 0) = 8192"
  "load32 (mem ex_plain) (p_tf (procs ex_plain ! 0) + TF_esp) = 0"
  by (simp_all add: ex_state_def proc0_def TF_esp_def ex_mem_def load32_store32_other load32_zero aligned4_def)

lemma ex_plain_range: "n \<le> 4096 \<Longrightarrow> user_range ex_plain 0 0 n"
  unfolding user_range_def user_page_def
  by (auto intro!: accessible_ex simp: word_less_nat_alt unat_of_nat)

lemma ex_plain_map:
  assumes "k < 4096"
  shows "user_map ex_plain 0 (of_nat k) = 0"
proof -
  have "unat (of_nat k :: u32) < 4096" using assms by (simp add: unat_of_nat)
  then have "(of_nat k :: u32) < 4096" "(of_nat k :: u32) < 8192" by (simp_all add: word_less_nat_alt)
  then have pd: "PDX (of_nat k) = 0" "PTX (of_nat k) = 0" using ex_small_page [of "of_nat k"] by simp_all
  have fr: "frame (ex_mem 0x402007 0x403406) ex_pd (of_nat k) = 0x80402000"
    using pd by (simp add: frame_def ex_pte_val PTE_ADDR_def P2V_def KERNBASE_def)
  have "ex_mem 0x402007 0x403406 (0x80402000 + (of_nat k AND 0xFFF)) = 0"
  proof -
    have "PPN (0x80402000 + (of_nat k AND 0xFFF)) = 0x80402"
      using PPN_frame_offset [of "ex_mem 0x402007 0x403406" ex_pd "of_nat k"] unfolding fr by (simp add: PPN_def PTXSHIFT_def)
    then have "PPN (0x80402000 + (of_nat k AND 0xFFF)) \<noteq> PPN 0x80400000" "PPN (0x80402000 + (of_nat k AND 0xFFF)) \<noteq> PPN 0x80401000"
      "PPN (0x80402000 + (of_nat k AND 0xFFF)) \<noteq> PPN 0x80401004"
      by (simp_all add: PPN_def PTXSHIFT_def)
    then show ?thesis using ex_aligned unfolding ex_mem_def by (simp add: store32_other_page)
  qed
  then show ?thesis using pd by (simp add: user_map_def plain_def stored_def encrypted_def ex_pte_val fr)
qed

lemma ex_plain_arg: "user_range ex_plain 0 4 4" "le32 (bytes_at ex_plain 0 4 4) 0 = 0"
proof -
  show "user_range ex_plain 0 4 4" using ex_plain_range [of 8] unfolding user_range_def
    by (auto dest: spec [where x = "_ + 4"] simp: add.commute)
  show "le32 (bytes_at ex_plain 0 4 4) 0 = 0"
    using ex_plain_map [of 4] ex_plain_map [of 5] ex_plain_map [of 6] ex_plain_map [of 7] by (simp add: le32_def bytes_at_def)
qed

theorem argint_fetches_witness: "\<exists>t. argint 0 ex_plain = Inr (Some 0, t) \<and> cq_inv t 0"
  using argint_fetches [OF cq_inv_ex_one ex_plain_tf(1), of 4 0] ex_plain_arg ex_plain_tf by (auto simp: unseen_def kept_def)

text \<open>
  C35: Strings. \<open>fetchstr\<close> answers the plain bytes before the first zero byte when there is one before
  the end of the process, and fails otherwise; it touches no byte behind the terminator.
\<close>

theorem fetchstr_string:
  assumes "cq_inv s p" "a < p_sz (procs s ! p)"
    and "n = unat (p_sz (procs s ! p) - a)"
    and "user_range s p a (min (Suc (length (takeWhile (\<lambda>c. c \<noteq> 0) (bytes_at s p a n)))) n)"
  shows "\<exists>t. fetchstr a s =
    Inr (if 0 \<in> set (bytes_at s p a n) then Some (takeWhile (\<lambda>c. c \<noteq> 0) (bytes_at s p a n)) else None, t) \<and> unseen s p t"
  using fetchstr_loop_run [OF assms(1,4), of "[]"] me_run [OF cq_inv_running [OF assms(1)]] assms(2,3)
  by (auto simp: fetchstr_def kmonad)

theorem fetchstr_string_witness: "\<exists>t. fetchstr 0 ex_plain = Inr (Some [], t) \<and> cq_inv t 0"
proof -
  have b: "bytes_at ex_plain 0 0 8192 = 0 # bytes_at ex_plain 0 1 8191"
    using bytes_at_Suc [of ex_plain 0 0 8191] ex_plain_map [of 0] by simp
  show ?thesis
    using fetchstr_string [OF cq_inv_ex_one, of 0 8192] ex_plain_range [of 1] ex_plain_tf(2)
    by (auto simp: b unseen_def kept_def)
qed

text \<open>
  C36: Pointer arguments are safe. When \<open>argptr\<close> accepts a pointer of a process below \<open>KERNBASE\<close>, the
  whole block of the requested size lies inside the process; in particular the sum does not wrap.
\<close>

theorem argptr_bounds:
  assumes "running s p" "p_sz (procs s ! p) \<le> KERNBASE" "len < 2147483648" "argptr n len s = Inr (Some i, t)"
  shows "0 \<le> len \<and> unat i < unat (p_sz (procs s ! p)) \<and> unat i + nat len \<le> unat (p_sz (procs s ! p))"
proof -
  let ?z = "p_sz (procs s ! p)"
  have ok: "0 \<le> len" "i < ?z" "i + of_int len \<le> ?z"
    using assms(4) me_run [OF assms(1)] by (auto simp: argptr_def kbind_def kret_def not_le not_less split: sum.splits option.splits if_splits)
  have z: "unat ?z \<le> 2147483648" using assms(2) by (simp add: word_le_nat_alt KERNBASE_def)
  obtain k where "len = int k" using ok(1) by (metis nat_0_le)
  then have s: "unat (of_int len :: u32) = nat len" using assms(3) by (simp add: unat_of_nat)
  have "unat (i + of_int len) = unat i + nat len"
    using ok z assms(3) by (simp add: unat_word_ariths s word_less_nat_alt)
  then show ?thesis using ok by (simp add: word_less_nat_alt word_le_nat_alt)
qed

theorem argptr_bounds_witness: "\<exists>t. argptr 0 4096 ex_plain = Inr (Some 0, t) \<and> unat (0 :: u32) + 4096 \<le> unat (p_sz (procs ex_plain ! 0))"
proof -
  have run: "running ex_plain 0" by (rule cq_inv_running [OF cq_inv_ex_one])
  obtain t where "fetchint 4 ex_plain = Inr (Some 0, t)"
    using fetchint_run(2) [OF cq_inv_ex_one, of 4] ex_plain_arg ex_plain_tf by auto
  then have "argptr 0 4096 ex_plain = Inr (Some 0, t)"
    using argint_run [OF cq_inv_ex_one ex_plain_tf(1), of 4 0] ex_plain_tf me_run [OF run] by (simp add: argptr_def kmonad)
  then show ?thesis using argptr_bounds [OF run, of 4096 0 0 t] ex_plain_tf(2) by (auto simp: KERNBASE_def)
qed

end
