(* ===== verification/Buffer_Ring.thy ===== *)
theory Buffer_Ring
  imports Proc_Props
begin

text \<open>
  The ring of the buffer cache. The buffers are linked through \<open>b_next\<close> and \<open>b_prev\<close>; the ring stands
  for a list of buffers, the most recently released one first. Moving a buffer behind the head is
  moving it to the front of the list, and the two searches of \<open>bget\<close> are searches of the list and
  of its reverse.
\<close>

section \<open>Doubly linked chains\<close>

fun chain :: "(nat \<Rightarrow> nat) \<Rightarrow> (nat \<Rightarrow> nat) \<Rightarrow> nat list \<Rightarrow> bool" where
  "chain nx pv (a # b # r) \<longleftrightarrow> nx a = b \<and> pv b = a \<and> chain nx pv (b # r)"
| "chain nx pv _ \<longleftrightarrow> True"

lemma chain_append: "chain nx pv (xs @ a # ys) \<longleftrightarrow> chain nx pv (xs @ [a]) \<and> chain nx pv (a # ys)"
proof (induction xs)
  case (Cons x xs)
  then show ?case by (cases xs) auto
qed simp

lemma chain_nx: "a \<notin> set (butlast xs) \<Longrightarrow> chain (nx(a := v)) pv xs = chain nx pv xs"
  by (induction nx pv xs rule: chain.induct) auto

lemma chain_pv: "b \<notin> set (tl xs) \<Longrightarrow> chain nx (pv(b := v)) xs = chain nx pv xs"
  by (induction nx pv xs rule: chain.induct) auto

lemma chain_last: "chain nx pv (h # ys @ [y]) \<Longrightarrow> pv y = last (h # ys) \<and> chain nx pv (h # ys)"
proof (cases ys rule: rev_cases)
  case (snoc zs z)
  assume "chain nx pv (h # ys @ [y])"
  then show ?thesis using snoc chain_append [of nx pv "h # zs" z "[y]"] by simp
qed simp

text \<open>Unlinking \<open>b\<close> and linking it in behind \<open>h\<close>.\<close>

lemma chain_move:
  assumes ch: "chain nx pv (h # us @ b # vs @ [h])" and d: "distinct (h # us @ b # vs)"
  defines "p \<equiv> pv b" and "n \<equiv> nx b"
  defines "nx1 \<equiv> nx(p := n)" and "pv1 \<equiv> pv(n := p)"
  defines "f \<equiv> nx1 h"
  shows "chain (nx1(b := f, h := b)) (pv1(b := h, f := b)) (h # b # us @ vs @ [h])"
proof (cases us)
  case Nil
  have p: "p = h" and n: "n = hd (vs @ [h])" and f: "f = n"
    using ch Nil by (cases vs; auto simp: p_def n_def f_def nx1_def)+
  obtain ws where ws: "vs @ [h] = n # ws" using n by (cases vs) auto
  have nb: "n \<noteq> b" "n \<notin> set ws" using ws d Nil by (cases vs; auto)+
  have c: "chain nx pv (n # ws)" using ch Nil ws by (simp add: ws)
  have bl: "butlast (n # ws) = vs" using ws by (metis butlast_snoc)
  have hb: "h \<notin> set vs" "b \<notin> set vs" "h \<noteq> b" using d Nil by auto
  have wsb: "b \<notin> set ws" using ws hb by (cases vs) auto
  have "chain (nx1(b := f, h := b)) (pv1(b := h, f := b)) (n # ws)"
    unfolding nx1_def pv1_def p f
    using c bl hb nb(2) wsb by (simp add: chain_nx chain_pv del: butlast.simps)
  then show ?thesis
    using Nil ws nb(1) hb(3) by (simp add: f)
next
  case (Cons u us')
  define q where "q = last us"
  obtain us2 where us: "us = us2 @ [q]" using Cons by (metis append_butlast_last_id list.distinct(1) q_def)
  have "chain nx pv (b # vs @ [h])" using ch chain_append [of nx pv "h # us" b "vs @ [h]"] by simp
  then obtain ws where ws: "vs @ [h] = n # ws" by (cases vs) (auto simp: n_def)
  have "chain nx pv ((h # us2) @ q # b # n # ws)" using ch us ws by simp
  then have 1: "chain nx pv (h # us2 @ [q])" and 2: "pv b = q" "chain nx pv (n # ws)"
    using chain_append [of nx pv "h # us2" q "b # n # ws"] by simp_all
  have p: "p = q" using 2 by (simp add: p_def)
  have qh: "q \<noteq> h" and qb: "q \<noteq> b" and hb: "h \<noteq> b" using d us by auto
  have f: "f = u" "pv u = h" using ch Cons qh by (simp_all add: f_def nx1_def p)
  have dis: "distinct (h # us2 @ [q])" "distinct (b # us2 @ [q])" using d us by auto
  have bl: "butlast (n # ws) = vs" using ws by (metis butlast_snoc)
  have uu: "u \<in> set us" "q \<in> set us" using Cons by simp (simp add: us)
  have vs: "h \<notin> set vs" "b \<notin> set vs" "q \<notin> set vs" "u \<notin> set vs" "distinct vs" "set us \<inter> set vs = {}" "h \<notin> set us"
    using d uu by auto
  have sub: "set ws \<subseteq> insert h (set vs)" "n \<in> insert h (set vs)" using arg_cong [OF ws, of set] by auto
  have "n \<notin> set ws" using ws vs by (cases vs) auto
  then have nd: "n \<notin> set ws" "b \<notin> set ws" "n \<noteq> b" "u \<notin> set ws" "n \<noteq> u" "n \<noteq> q" "n \<notin> set us"
    using sub vs hb uu by auto
  have cu: "chain nx pv us" using 1 us by (cases us2) auto
  have ub: "b \<notin> set us" "h \<notin> set us" using d by auto
  have tl_u: "u \<notin> set (tl us)" "distinct us" using d Cons by auto
  have bu: "q \<notin> set (butlast us)" using tl_u(2) us by simp
  have A: "chain (nx1(b := f, h := b)) (pv1(b := h, f := b)) us"
    unfolding nx1_def pv1_def p f(1)
  proof -
    have "b \<notin> set (butlast us)" "h \<notin> set (butlast us)" "b \<notin> set (tl us)" "n \<notin> set (tl us)"
      using ub nd(7) by (auto simp: Cons dest: in_set_butlastD)
    then show "chain (nx(q := n, b := u, h := b)) (pv(n := q, b := h, u := b)) us"
      using cu bu tl_u(1) by (simp add: chain_nx chain_pv)
  qed
  have B: "chain (nx1(b := f, h := b)) (pv1(b := h, f := b)) (n # ws)"
    unfolding nx1_def pv1_def p f(1)
    using 2(2) bl vs nd by (simp add: chain_nx chain_pv del: butlast.simps)
  have "chain (nx1(b := f, h := b)) (pv1(b := h, f := b)) (us2 @ q # n # ws)"
    using A B us qb qh nd hb by (simp add: chain_append [of _ _ us2 q "n # ws"] nx1_def pv1_def p f(1))
  then have "chain (nx1(b := f, h := b)) (pv1(b := h, f := b)) (us @ vs @ [h])" using us ws by simp
  then show ?thesis using Cons f(1) hb ub by auto
qed

section \<open>The ring of buffers\<close>

definition nx :: "buf list \<Rightarrow> nat \<Rightarrow> nat" where "nx bs i = b_next (bs ! i)"

definition pv :: "buf list \<Rightarrow> nat \<Rightarrow> nat" where "pv bs i = b_prev (bs ! i)"

definition set_next :: "nat \<Rightarrow> nat \<Rightarrow> buf list \<Rightarrow> buf list" where
  "set_next i v bs = bs[i := (bs ! i)\<lparr>b_next := v\<rparr>]"

definition set_prev :: "nat \<Rightarrow> nat \<Rightarrow> buf list \<Rightarrow> buf list" where
  "set_prev i v bs = bs[i := (bs ! i)\<lparr>b_prev := v\<rparr>]"

text \<open>A buffer without its links.\<close>

definition bcore :: "buf \<Rightarrow> buf" where
  "bcore x = x\<lparr>b_next := 0, b_prev := 0\<rparr>"

lemma nth_upd: "xs[i := x] ! j = (if i = j \<and> i < length xs then x else xs ! j)"
  by (cases "i < length xs") (auto simp: nth_list_update list_update_beyond)

lemma map_upd_same: "f y = f (xs ! i) \<Longrightarrow> map f (xs[i := y]) = map f xs"
  by (rule nth_equalityI) (auto simp: nth_upd)

lemma set_link [simp]:
  "length (set_next i v bs) = length bs" "length (set_prev i v bs) = length bs"
  "i < length bs \<Longrightarrow> nx (set_next i v bs) = (nx bs)(i := v)" "nx (set_prev i v bs) = nx bs"
  "i < length bs \<Longrightarrow> pv (set_prev i v bs) = (pv bs)(i := v)" "pv (set_next i v bs) = pv bs"
  "map bcore (set_next i v bs) = map bcore bs" "map bcore (set_prev i v bs) = map bcore bs"
proof -
  show "i < length bs \<Longrightarrow> nx (set_next i v bs) = (nx bs)(i := v)" "nx (set_prev i v bs) = nx bs"
    "i < length bs \<Longrightarrow> pv (set_prev i v bs) = (pv bs)(i := v)" "pv (set_next i v bs) = pv bs"
    by (auto simp: fun_eq_iff nx_def pv_def set_next_def set_prev_def nth_upd)
  show "map bcore (set_next i v bs) = map bcore bs" "map bcore (set_prev i v bs) = map bcore bs"
    unfolding set_next_def set_prev_def by (rule map_upd_same; simp add: bcore_def)+
qed (simp_all add: set_next_def set_prev_def)

definition ring :: "buf list \<Rightarrow> nat list \<Rightarrow> bool" where
  "ring bs xs \<longleftrightarrow> length bs = Suc NBUF \<and> distinct xs \<and> set xs = {..<NBUF} \<and>
     chain (nx bs) (pv bs) (head # xs @ [head]) \<and> (\<forall>i\<le>NBUF. nx bs i \<le> NBUF \<and> pv bs i \<le> NBUF)"

lemma ring_cong: "ring bs xs \<Longrightarrow> nx cs = nx bs \<Longrightarrow> pv cs = pv bs \<Longrightarrow> length cs = length bs \<Longrightarrow> ring cs xs"
  by (simp add: ring_def)

text \<open>An update of a buffer that keeps its links.\<close>

lemma ring_upd:
  assumes "ring bs xs" "b_next y = b_next (bs ! i)" "b_prev y = b_prev (bs ! i)"
  shows "ring (bs[i := y]) xs"
  using assms by (intro ring_cong [OF assms(1)]) (auto simp: nx_def pv_def fun_eq_iff nth_upd)

lemma move_front_run:
  assumes r: "ring (bcache s) (us @ b # vs)"
  shows "\<exists>bs. move_front b s = Inr ((), s\<lparr>bcache := bs\<rparr>) \<and> ring bs (b # us @ vs) \<and> map bcore bs = map bcore (bcache s)"
proof -
  let ?bs = "bcache s"
  define p n where "p = pv ?bs b" and "n = nx ?bs b"
  define bs2 where "bs2 = set_next p n (set_prev n p ?bs)"
  define f where "f = nx bs2 head"
  define bs where "bs = set_next head b (set_prev f b (set_prev b head (set_next b f bs2)))"
  have len: "length ?bs = Suc NBUF" and d: "distinct (us @ b # vs)" "set (us @ b # vs) = {..<NBUF}"
    and ch: "chain (nx ?bs) (pv ?bs) (head # us @ b # vs @ [head])"
    and bd: "\<And>i. i \<le> NBUF \<Longrightarrow> nx ?bs i \<le> NBUF \<and> pv ?bs i \<le> NBUF"
    using r by (simp_all add: ring_def)
  have b: "b < NBUF" using d(2) by auto
  have pn: "p \<le> NBUF" "n \<le> NBUF" using bd [of b] b by (simp_all add: p_def n_def)
  have nx2: "nx bs2 = (nx ?bs)(p := n)" "pv bs2 = (pv ?bs)(n := p)" "length bs2 = Suc NBUF"
    using pn len by (simp_all add: bs2_def)
  have f: "f \<le> NBUF" using bd [of head] pn by (simp add: f_def nx2)
  have links: "nx bs = (nx ?bs)(p := n, b := f, head := b)" "pv bs = (pv ?bs)(n := p, b := head, f := b)" "length bs = Suc NBUF"
    using b f nx2 by (simp_all add: bs_def)
  have "head \<notin> set (us @ b # vs)" unfolding d(2) by simp
  then have "chain (nx bs) (pv bs) (head # b # us @ vs @ [head])"
    using chain_move [OF ch] d(1) unfolding links nx2 f_def p_def n_def by simp
  moreover have "set (b # us @ vs) = {..<NBUF}" "distinct (b # us @ vs)" using d by auto
  moreover have "\<forall>i\<le>NBUF. nx bs i \<le> NBUF \<and> pv bs i \<le> NBUF" unfolding links using bd pn f b by auto
  ultimately have "ring bs (b # us @ vs)" using links(3) by (simp add: ring_def)
  moreover have "map bcore bs = map bcore ?bs" by (simp add: bs_def bs2_def)
  moreover have "move_front b s = Inr ((), s\<lparr>bcache := bs\<rparr>)"
  proof -
    have 1: "b_next (bs2 ! head) = f" "(set_prev b head (set_next b f bs2)) ! head = bs2 ! head"
      using b by (simp_all add: f_def nx_def set_prev_def set_next_def)
    show ?thesis
      using b f pn len 1 nx2(3) unfolding move_front_def link_front_def bs_def
      by (simp add: kmonad p_def [symmetric] n_def [symmetric] pv_def [symmetric] nx_def [symmetric]
          set_next_def [symmetric] set_prev_def [symmetric] bs2_def [symmetric])
  qed
  ultimately show ?thesis by blast
qed

section \<open>The searches of bget\<close>

lemma ring_length: "ring bs xs \<Longrightarrow> length xs = NBUF"
  using distinct_card [of xs] by (simp add: ring_def)

lemma cached_walk:
  "chain (nx (bcache s)) pw (ys @ [head]) \<Longrightarrow> set ys \<subseteq> {..<NBUF} \<Longrightarrow> length (bcache s) = Suc NBUF \<Longrightarrow> length ys < n \<Longrightarrow>
   bget_cached n (hd (ys @ [head])) dev bn s =
     Inr (find (\<lambda>b. b_dev (bcache s ! b) = dev \<and> b_blockno (bcache s ! b) = bn) ys, s)"
proof (induction ys arbitrary: n)
  case Nil
  then show ?case by (cases n) (simp_all add: kmonad)
next
  case (Cons y ys)
  then obtain m where m: "n = Suc m" by (cases n) auto
  have "b_next (bcache s ! y) = hd (ys @ [head])" using Cons.prems(1) by (cases ys) (auto simp: nx_def)
  moreover have "chain (nx (bcache s)) pw (ys @ [head])" using Cons.prems(1) by (cases ys) auto
  ultimately show ?case using Cons m by (auto simp: kmonad)
qed

lemma unused_walk:
  "chain nw (pv (bcache s)) (head # ys) \<Longrightarrow> set ys \<subseteq> {..<NBUF} \<Longrightarrow> length (bcache s) = Suc NBUF \<Longrightarrow> length ys < n \<Longrightarrow>
   bget_unused n (last (head # ys)) s =
     Inr (find (\<lambda>b. b_refcnt (bcache s ! b) = 0 \<and> b_flags (bcache s ! b) AND B_DIRTY = 0) (rev ys), s)"
proof (induction ys arbitrary: n rule: rev_induct)
  case Nil
  then show ?case by (cases n) (simp_all add: kmonad)
next
  case (snoc y ys)
  then obtain m where m: "n = Suc m" by (cases n) auto
  have "b_prev (bcache s ! y) = last (head # ys)" "chain nw (pv (bcache s)) (head # ys)"
    using chain_last [OF snoc.prems(1)] pv_def [of "bcache s" y] by simp_all
  then show ?case using snoc m by (auto simp: kmonad)
qed

lemma bget_searches:
  assumes "ring (bcache s) xs"
  shows "bget_cached (Suc NBUF) (b_next (bcache s ! head)) dev bn s =
      Inr (find (\<lambda>b. b_dev (bcache s ! b) = dev \<and> b_blockno (bcache s ! b) = bn) xs, s)"
    and "bget_unused (Suc NBUF) (b_prev (bcache s ! head)) s =
      Inr (find (\<lambda>b. b_refcnt (bcache s ! b) = 0 \<and> b_flags (bcache s ! b) AND B_DIRTY = 0) (rev xs), s)"
proof -
  have r: "length (bcache s) = Suc NBUF" "set xs \<subseteq> {..<NBUF}" "chain (nx (bcache s)) (pv (bcache s)) (head # xs @ [head])"
    using assms by (simp_all add: ring_def)
  have "b_next (bcache s ! head) = hd (xs @ [head])" "chain (nx (bcache s)) (pv (bcache s)) (xs @ [head])"
    using r(3) by (cases xs; auto simp: nx_def)+
  then show "bget_cached (Suc NBUF) (b_next (bcache s ! head)) dev bn s =
      Inr (find (\<lambda>b. b_dev (bcache s ! b) = dev \<and> b_blockno (bcache s ! b) = bn) xs, s)"
    using cached_walk [OF _ r(2,1), of "pv (bcache s)" "Suc NBUF"] ring_length [OF assms] by (simp del: bget_cached.simps)
  have "chain (nx (bcache s)) (pv (bcache s)) (head # xs)" "b_prev (bcache s ! head) = last (head # xs)"
    using chain_last [OF r(3)] pv_def [of "bcache s" head] by simp_all
  then show "bget_unused (Suc NBUF) (b_prev (bcache s ! head)) s =
      Inr (find (\<lambda>b. b_refcnt (bcache s ! b) = 0 \<and> b_flags (bcache s ! b) AND B_DIRTY = 0) (rev xs), s)"
    using unused_walk [OF _ r(2,1), of "nx (bcache s)" "Suc NBUF"] ring_length [OF assms] by (simp del: bget_unused.simps)
qed

end
