(* ===== verification/Buffer_Cache.thy ===== *)
theory Buffer_Cache
  imports Buffer_Ring
begin

text \<open>
  The buffer cache as a view of the disk. In a process that holds no spin lock and while nobody
  waits for a buffer, \<open>bread\<close> answers a locked buffer with the current contents of the block, which
  are those of a buffer written by a transaction in progress if there is one and those on the disk
  otherwise; \<open>bwrite\<close> brings a buffer to the disk and \<open>brelse\<close> gives it back.
\<close>

section \<open>Sleeping locks of buffers\<close>

definition kctx :: "kstate \<Rightarrow> nat \<Rightarrow> bool" where
  "kctx s p \<longleftrightarrow> running s p \<and> (\<forall>r. lock_free r s) \<and>
     (\<forall>pr\<in>set (procs s). \<forall>sr. \<not> (p_state pr = SLEEPING \<and> p_chan pr = SleepChan sr))"

lemma kctx_run: "kctx s p \<Longrightarrow> running s p" "kctx s p \<Longrightarrow> irq_ok s" "kctx s p \<Longrightarrow> lock_free r s"
  by (simp_all add: kctx_def running_def)

lemma kctx_upd [simp]:
  "kctx (s\<lparr>bcache := bs\<rparr>) p = kctx s p" "kctx (s\<lparr>memdisk := d\<rparr>) p = kctx s p" "kctx (s\<lparr>iolog := l\<rparr>) p = kctx s p"
  "kctx (s\<lparr>klog := k\<rparr>) p = kctx s p"
  by (simp_all add: kctx_def running_def)

lemma wake_idle: "kctx s p \<Longrightarrow> map (wake (SleepChan sr)) (procs s) = procs s"
  by (rule map_idI) (auto simp: kctx_def wake_def)

definition taken :: "proc \<Rightarrow> sleeplock \<Rightarrow> sleeplock" where
  "taken pr l = l\<lparr>slk_locked := 1, slk_pid := p_pid pr\<rparr>"

definition given :: "sleeplock \<Rightarrow> sleeplock" where
  "given l = l\<lparr>slk_locked := 0, slk_pid := 0\<rparr>"

lemma me_enter: "running s p \<Longrightarrow> ncpu u = ncpu s \<Longrightarrow> lapic_id u = lapic_id s \<Longrightarrow> procs u = procs s \<Longrightarrow>
    me (lk_upd (acq r s) u) = Inr (procs s ! p, lk_upd (acq r s) u)"
  by (subst me_run [of _ p]) simp_all

lemma acquiresleep_run:
  assumes "kctx s p" "b < length (bcache s)" "slk_locked (b_lock (bcache s ! b)) = 0"
  shows "acquiresleep (BufSleep b) s =
    Inr ((), s\<lparr>bcache := (bcache s)[b := (bcache s ! b)\<lparr>b_lock := taken (procs s ! p) (b_lock (bcache s ! b))\<rparr>]\<rparr>)"
proof -
  note ok = kctx_run [OF assms(1)]
  let ?u = "s\<lparr>bcache := (bcache s)[b := (bcache s ! b)\<lparr>b_lock := taken (procs s ! p) (b_lock (bcache s ! b))\<rparr>]\<rparr>"
  have "release (SleepLk (BufSleep b)) (lk_upd (acq (SleepLk (BufSleep b)) s) ?u) = Inr ((), ?u)"
    using ok by (intro release_leave) simp_all
  then show ?thesis
    using assms(2,3) acquire_enter [OF ok(2,3)] me_enter [OF ok(1)]
    by (simp add: acquiresleep_def wakeups_def kmonad taken_def)
qed

lemma holdingsleep_run:
  assumes "kctx s p" "b < length (bcache s)"
  shows "holdingsleep (BufSleep b) s =
    Inr (slk_locked (b_lock (bcache s ! b)) \<noteq> 0 \<and> slk_pid (b_lock (bcache s ! b)) = p_pid (procs s ! p), s)"
proof -
  note ok = kctx_run [OF assms(1)]
  have "release (SleepLk (BufSleep b)) (lk_upd (acq (SleepLk (BufSleep b)) s) s) = Inr ((), s)"
    using ok by (intro release_leave) simp_all
  then show ?thesis
    using assms(2) acquire_enter [OF ok(2,3)] me_enter [OF ok(1)] by (simp add: holdingsleep_def kmonad)
qed

lemma releasesleep_run:
  assumes "kctx s p" "b < length (bcache s)"
  shows "releasesleep (BufSleep b) s =
    Inr ((), s\<lparr>bcache := (bcache s)[b := (bcache s ! b)\<lparr>b_lock := given (b_lock (bcache s ! b))\<rparr>]\<rparr>)"
proof -
  note ok = kctx_run [OF assms(1)]
  let ?u = "s\<lparr>bcache := (bcache s)[b := (bcache s ! b)\<lparr>b_lock := given (b_lock (bcache s ! b))\<rparr>]\<rparr>"
  have "release (SleepLk (BufSleep b)) (lk_upd (acq (SleepLk (BufSleep b)) s) ?u) = Inr ((), ?u)"
    using ok by (intro release_leave) simp_all
  moreover have "wakeup (SleepChan (BufSleep b)) (lk_upd (acq (SleepLk (BufSleep b)) s) ?u) =
      Inr ((), lk_upd (acq (SleepLk (BufSleep b)) s) ?u)"
    using ok wake_idle [OF assms(1)] by (subst wakeup_run) simp_all
  ultimately show ?thesis
    using assms(2) acquire_enter [OF ok(2,3)] by (simp add: releasesleep_def kmonad given_def)
qed

section \<open>The disk\<close>

definition valid :: "buf \<Rightarrow> bool" where "valid x \<longleftrightarrow> bit (b_flags x) 1"

definition dirty :: "buf \<Rightarrow> bool" where "dirty x \<longleftrightarrow> bit (b_flags x) 2"

lemma flag_exp: "B_VALID = 2 ^ 1" "B_DIRTY = 2 ^ 2"
  by (simp_all add: B_VALID_def B_DIRTY_def)

lemma bit_flags [simp]: "bit B_VALID n \<longleftrightarrow> n = 1" "bit B_DIRTY n \<longleftrightarrow> n = 2"
  unfolding flag_exp bit_exp_iff by auto

lemma flag_tests:
  "b_flags x AND B_VALID = 0 \<longleftrightarrow> \<not> valid x" "b_flags x AND B_DIRTY = 0 \<longleftrightarrow> \<not> dirty x"
  "b_flags x AND (B_VALID OR B_DIRTY) = B_VALID \<longleftrightarrow> valid x \<and> \<not> dirty x"
proof -
  have "b_flags x AND B_VALID \<noteq> 0 \<longleftrightarrow> bit (b_flags x) 1" "b_flags x AND B_DIRTY \<noteq> 0 \<longleftrightarrow> bit (b_flags x) 2"
    unfolding flag_exp by (rule word_and_exp_neq_0, simp)+
  then show "b_flags x AND B_VALID = 0 \<longleftrightarrow> \<not> valid x" "b_flags x AND B_DIRTY = 0 \<longleftrightarrow> \<not> dirty x"
    by (auto simp: valid_def dirty_def)
  have "b_flags x AND (B_VALID OR B_DIRTY) = B_VALID \<longleftrightarrow> (\<forall>n<32. bit (b_flags x) n \<and> (n = 1 \<or> n = 2) \<longleftrightarrow> n = 1)"
    unfolding bit_eq_iff [of "_ AND _"] by (simp add: bit_simps)
  moreover have "(\<forall>n<32. bit (b_flags x) n \<and> (n = 1 \<or> n = 2) \<longleftrightarrow> n = 1) \<longleftrightarrow> valid x \<and> \<not> dirty x"
  proof
    assume "\<forall>n<32. bit (b_flags x) n \<and> (n = 1 \<or> n = 2) \<longleftrightarrow> n = 1"
    from this [rule_format, of 1] this [rule_format, of 2] show "valid x \<and> \<not> dirty x" by (simp add: valid_def dirty_def)
  qed (auto simp: valid_def dirty_def)
  ultimately show "b_flags x AND (B_VALID OR B_DIRTY) = B_VALID \<longleftrightarrow> valid x \<and> \<not> dirty x" by simp
qed

lemma flag_updates [simp]:
  "valid (x\<lparr>b_flags := b_flags x OR B_VALID\<rparr>)" "dirty (x\<lparr>b_flags := b_flags x OR B_VALID\<rparr>) = dirty x"
  "dirty (x\<lparr>b_flags := b_flags x OR B_DIRTY\<rparr>)" "valid (x\<lparr>b_flags := b_flags x OR B_DIRTY\<rparr>) = valid x"
  "\<not> dirty (x\<lparr>b_flags := (f AND NOT B_DIRTY) OR B_VALID\<rparr>)" "valid (x\<lparr>b_flags := (f AND NOT B_DIRTY) OR B_VALID\<rparr>)"
  "\<not> valid (x\<lparr>b_flags := 0\<rparr>)" "\<not> dirty (x\<lparr>b_flags := 0\<rparr>)"
  by (simp_all add: valid_def dirty_def bit_simps)

definition held :: "kstate \<Rightarrow> nat \<Rightarrow> nat \<Rightarrow> bool" where
  "held s p b \<longleftrightarrow> slk_locked (b_lock (bcache s ! b)) \<noteq> 0 \<and> slk_pid (b_lock (bcache s ! b)) = p_pid (procs s ! p)"

definition on_disk :: "kstate \<Rightarrow> u32 \<Rightarrow> bool" where
  "on_disk s bn \<longleftrightarrow> bn < of_int (disksize s)"

lemma iderw_read:
  assumes "kctx s p" "b < length (bcache s)" "held s p b" "\<not> valid (bcache s ! b)" "\<not> dirty (bcache s ! b)"
    "b_dev (bcache s ! b) = 1" "on_disk s (b_blockno (bcache s ! b))"
  shows "iderw b s = Inr ((), s\<lparr>bcache := (bcache s)[b := (bcache s ! b)
    \<lparr>b_data := memdisk s (b_blockno (bcache s ! b)), b_flags := b_flags (bcache s ! b) OR B_VALID\<rparr>]\<rparr>)"
  using assms holdingsleep_run [OF assms(1,2)]
  by (simp add: iderw_def kmonad held_def flag_tests on_disk_def)

lemma iderw_write:
  assumes "kctx s p" "b < length (bcache s)" "held s p b" "dirty (bcache s ! b)"
    "b_dev (bcache s ! b) = 1" "on_disk s (b_blockno (bcache s ! b))"
  shows "iderw b s = Inr ((), s\<lparr>bcache := (bcache s)[b := (bcache s ! b)
      \<lparr>b_flags := (b_flags (bcache s ! b) AND NOT B_DIRTY) OR B_VALID\<rparr>],
    memdisk := (memdisk s)(b_blockno (bcache s ! b) := b_data (bcache s ! b)),
    iolog := iolog s @ [DiskWrite (b_blockno (bcache s ! b)) (b_data (bcache s ! b))]\<rparr>)"
  using assms holdingsleep_run [OF assms(1,2)]
  by (simp add: iderw_def kmonad held_def flag_tests on_disk_def)

section \<open>The invariant of the cache\<close>

text \<open>What holds of buffer \<open>b\<close> while process \<open>p\<close> has the buffers \<open>H\<close>.\<close>

definition buf_ok :: "kstate \<Rightarrow> nat \<Rightarrow> nat set \<Rightarrow> nat \<Rightarrow> buf \<Rightarrow> bool" where
  "buf_ok s p H b x \<longleftrightarrow> length (b_data x) = BSIZE \<and> (dirty x \<longrightarrow> valid x) \<and>
     (b_dev x = 1 \<and> on_disk s (b_blockno x) \<or> b_dev x = 0 \<and> \<not> valid x) \<and>
     (if b \<in> H then slk_locked (b_lock x) \<noteq> 0 \<and> slk_pid (b_lock x) = p_pid (procs s ! p) \<and> b_refcnt x = 1
      else slk_locked (b_lock x) = 0 \<and> b_refcnt x = 0 \<and> (valid x \<and> \<not> dirty x \<longrightarrow> b_data x = memdisk s (b_blockno x)))"

definition bc_inv :: "nat \<Rightarrow> nat set \<Rightarrow> kstate \<Rightarrow> bool" where
  "bc_inv p H s \<longleftrightarrow> kctx s p \<and> (\<exists>xs. ring (bcache s) xs) \<and> (\<forall>n. length (memdisk s n) = BSIZE) \<and> H \<subseteq> {..<NBUF} \<and>
     (\<forall>b<NBUF. buf_ok s p H b (bcache s ! b)) \<and>
     (\<forall>b<NBUF. \<forall>c<NBUF. b_dev (bcache s ! b) = 1 \<and> b_dev (bcache s ! c) = 1 \<and>
        b_blockno (bcache s ! b) = b_blockno (bcache s ! c) \<longrightarrow> b = c)"

lemma bc_invD:
  assumes "bc_inv p H s"
  shows "kctx s p" "\<exists>xs. ring (bcache s) xs" "length (memdisk s n) = BSIZE" "H \<subseteq> {..<NBUF}"
    "b < NBUF \<Longrightarrow> buf_ok s p H b (bcache s ! b)" "length (bcache s) = Suc NBUF"
    "b < NBUF \<Longrightarrow> c < NBUF \<Longrightarrow> b_dev (bcache s ! b) = 1 \<Longrightarrow> b_dev (bcache s ! c) = 1 \<Longrightarrow>
      b_blockno (bcache s ! b) = b_blockno (bcache s ! c) \<Longrightarrow> b = c"
  using assms unfolding bc_inv_def ring_def by auto

definition buffer_of :: "kstate \<Rightarrow> u32 \<Rightarrow> nat option" where
  "buffer_of s bn = find (\<lambda>b. b_dev (bcache s ! b) = 1 \<and> b_blockno (bcache s ! b) = bn) [0..<NBUF]"

text \<open>The contents of a block as the file system sees them, and whether they await a commit.\<close>

definition view :: "kstate \<Rightarrow> u32 \<Rightarrow> u8 list" where
  "view s bn = (case buffer_of s bn of None \<Rightarrow> memdisk s bn
     | Some b \<Rightarrow> if valid (bcache s ! b) then b_data (bcache s ! b) else memdisk s bn)"

definition pinned :: "kstate \<Rightarrow> u32 \<Rightarrow> bool" where
  "pinned s bn = (case buffer_of s bn of None \<Rightarrow> False | Some b \<Rightarrow> dirty (bcache s ! b))"

lemma find_unique:
  assumes "\<And>b c. b \<in> set xs \<Longrightarrow> c \<in> set xs \<Longrightarrow> P b \<Longrightarrow> P c \<Longrightarrow> b = c"
  shows "find P xs = Some b \<longleftrightarrow> b \<in> set xs \<and> P b"
  using assms by (induction xs) auto

lemma buffer_of_iff:
  assumes "bc_inv p H s"
  shows "buffer_of s bn = Some b \<longleftrightarrow> b < NBUF \<and> b_dev (bcache s ! b) = 1 \<and> b_blockno (bcache s ! b) = bn"
  unfolding buffer_of_def using bc_invD(7) [OF assms] by (subst find_unique) auto

lemma ring_find:
  assumes "bc_inv p H s" "ring (bcache s) xs"
  shows "find (\<lambda>b. b_dev (bcache s ! b) = 1 \<and> b_blockno (bcache s ! b) = bn) xs = buffer_of s bn"
proof -
  let ?f = "find (\<lambda>b. b_dev (bcache s ! b) = 1 \<and> b_blockno (bcache s ! b) = bn) xs"
  have xs: "set xs = {..<NBUF}" using assms(2) by (simp add: ring_def)
  have eq: "?f = Some b \<longleftrightarrow> buffer_of s bn = Some b" for b
    unfolding buffer_of_iff [OF assms(1)] using bc_invD(7) [OF assms(1)] by (subst find_unique) (auto simp: xs)
  show ?thesis
  proof (cases ?f)
    case None
    then have "buffer_of s bn \<noteq> Some b" for b using eq [of b] by simp
    then show ?thesis using None by (cases "buffer_of s bn") auto
  next
    case (Some b)
    then show ?thesis using eq [of b] by simp
  qed
qed

lemma buf_ok_upd [simp]: "buf_ok (s\<lparr>bcache := bs\<rparr>) = buf_ok s" "on_disk (s\<lparr>bcache := bs\<rparr>) = on_disk s"
  by (intro ext; simp add: buf_ok_def on_disk_def)+

text \<open>Replacing one buffer.\<close>

lemma bc_inv_put:
  assumes inv: "bc_inv p H s" and b: "b < NBUF" and H': "H' \<subseteq> insert b H" "H \<subseteq> insert b H'"
    and links: "b_next y = b_next (bcache s ! b)" "b_prev y = b_prev (bcache s ! b)" and ok: "buf_ok s p H' b y"
    and uniq: "\<And>c. c < NBUF \<Longrightarrow> c \<noteq> b \<Longrightarrow> b_dev y = 1 \<Longrightarrow> b_dev (bcache s ! c) = 1 \<Longrightarrow> b_blockno (bcache s ! c) \<noteq> b_blockno y"
  shows "bc_inv p H' (s\<lparr>bcache := (bcache s)[b := y]\<rparr>)"
proof -
  note D = bc_invD [OF inv]
  obtain xs where "ring (bcache s) xs" using D(2) by blast
  then have r: "ring ((bcache s)[b := y]) xs" using links by (rule ring_upd)
  have nth: "(bcache s)[b := y] ! c = (if c = b then y else bcache s ! c)" for c
    using b D(6) by (simp add: nth_upd)
  have "buf_ok s p H' c ((bcache s)[b := y] ! c)" if "c < NBUF" for c
  proof (cases "c = b")
    case False
    then have "(c \<in> H') = (c \<in> H)" using H' by auto
    then show ?thesis using D(5) [OF that] False by (simp add: nth buf_ok_def)
  qed (simp add: nth ok)
  moreover have "c = d" if "c < NBUF" "d < NBUF" "b_dev ((bcache s)[b := y] ! c) = 1" "b_dev ((bcache s)[b := y] ! d) = 1"
      "b_blockno ((bcache s)[b := y] ! c) = b_blockno ((bcache s)[b := y] ! d)" for c d
    using that uniq [of c] uniq [of d] D(7) [of c d] by (auto simp: nth split: if_splits)
  moreover have "H' \<subseteq> {..<NBUF}" using H' D(4) b by auto
  ultimately show ?thesis using r D(1,3) by (auto simp: bc_inv_def)
qed

text \<open>The buffer \<open>bget\<close> answers, as a new state of buffer \<open>b\<close>.\<close>

definition got :: "kstate \<Rightarrow> nat \<Rightarrow> u32 \<Rightarrow> buf \<Rightarrow> buf" where
  "got s p bn x = (if b_dev x = 1 \<and> b_blockno x = bn then x else x\<lparr>b_dev := 1, b_blockno := bn, b_flags := 0\<rparr>)
     \<lparr>b_refcnt := 1, b_lock := taken (procs s ! p) (b_lock x)\<rparr>"

definition room :: "nat set \<Rightarrow> kstate \<Rightarrow> bool" where
  "room H s \<longleftrightarrow> (\<exists>c<NBUF. c \<notin> H \<and> \<not> dirty (bcache s ! c))"

lemma find_SomeD: "find P xs = Some x \<Longrightarrow> x \<in> set xs \<and> P x"
  by (auto simp: find_Some_iff)

lemma bget_run:
  assumes inv: "bc_inv p H s" and free: "\<And>b. buffer_of s bn = Some b \<Longrightarrow> b \<notin> H" and rm: "buffer_of s bn = None \<Longrightarrow> room H s"
  shows "\<exists>b<NBUF. b \<notin> H \<and> (case buffer_of s bn of Some c \<Rightarrow> b = c | None \<Rightarrow> \<not> dirty (bcache s ! b)) \<and>
    bget 1 bn s = Inr (b, s\<lparr>bcache := (bcache s)[b := got s p bn (bcache s ! b)]\<rparr>)"
proof -
  note D = bc_invD [OF inv] and ok = kctx_run [OF bc_invD(1) [OF inv]]
  obtain xs where r: "ring (bcache s) xs" using D(2) by blast
  have xs: "set xs = {..<NBUF}" using r by (simp add: ring_def)
  let ?L = "BcacheLock"
  let ?e = "lk_upd (acq ?L s)"
  note acq = acquire_enter [OF ok(2) ok(3) [of ?L]]
  have search: "bget_cached (Suc NBUF) (b_next (bcache s ! head)) 1 bn (?e s) = Inr (buffer_of s bn, ?e s)"
    "bget_unused (Suc NBUF) (b_prev (bcache s ! head)) (?e s) =
      Inr (find (\<lambda>b. b_refcnt (bcache s ! b) = 0 \<and> \<not> dirty (bcache s ! b)) (rev xs), ?e s)"
    using bget_searches [of "?e s" xs] r ring_find [OF inv r] by (simp_all add: flag_tests)
  have rel: "release ?L (?e (s\<lparr>bcache := bs\<rparr>)) = Inr ((), s\<lparr>bcache := bs\<rparr>)" for bs
    using ok by (intro release_leave) simp_all
  have fin: "acquiresleep (BufSleep b) (s\<lparr>bcache := (bcache s)[b := y]\<rparr>) =
      Inr ((), s\<lparr>bcache := (bcache s)[b := y\<lparr>b_lock := taken (procs s ! p) (b_lock y)\<rparr>]\<rparr>)"
    if "b < NBUF" "slk_locked (b_lock y) = 0" for b y
    using acquiresleep_run [of "s\<lparr>bcache := (bcache s)[b := y]\<rparr>" p b] D(1,6) that by simp
  show ?thesis
  proof (cases "buffer_of s bn")
    case (Some b)
    then have b: "b < NBUF" "b_dev (bcache s ! b) = 1" "b_blockno (bcache s ! b) = bn" "b \<notin> H"
      using buffer_of_iff [OF inv] free by auto
    then have "slk_locked (b_lock (bcache s ! b)) = 0" "b_refcnt (bcache s ! b) = 0" using D(5) [of b] by (simp_all add: buf_ok_def)
    then have "bget 1 bn s = Inr (b, s\<lparr>bcache := (bcache s)[b := got s p bn (bcache s ! b)]\<rparr>)"
      using acq search(1) Some b D(6) rel fin
      by (simp add: bget_def kmonad got_def del: bget_cached.simps bget_unused.simps)
    then show ?thesis using b Some by auto
  next
    case None
    let ?P = "\<lambda>b. b_refcnt (bcache s ! b) = 0 \<and> \<not> dirty (bcache s ! b)"
    obtain c where "c < NBUF" "c \<notin> H" "\<not> dirty (bcache s ! c)" using rm [OF None] by (auto simp: room_def)
    then have "\<exists>c\<in>set (rev xs). ?P c" using D(5) [of c] xs by (auto simp: buf_ok_def)
    then have "find ?P (rev xs) \<noteq> None" unfolding find_None_iff by blast
    then obtain b where fb: "find ?P (rev xs) = Some b" by blast
    then have b: "b < NBUF" "b_refcnt (bcache s ! b) = 0" "\<not> dirty (bcache s ! b)" using find_SomeD [OF fb] xs by auto
    then have l: "b \<notin> H" "slk_locked (b_lock (bcache s ! b)) = 0" using D(5) [of b] by (auto simp: buf_ok_def split: if_splits)
    have nb: "\<not> (b_dev (bcache s ! b) = 1 \<and> b_blockno (bcache s ! b) = bn)" using None buffer_of_iff [OF inv, of bn b] b(1) by auto
    have gt: "got s p bn (bcache s ! b) = (bcache s ! b)\<lparr>b_dev := 1, b_blockno := bn, b_flags := 0, b_refcnt := 1,
        b_lock := taken (procs s ! p) (b_lock (bcache s ! b))\<rparr>"
      unfolding got_def if_not_P [OF nb] by simp
    have "bget 1 bn s = Inr (b, s\<lparr>bcache := (bcache s)[b := got s p bn (bcache s ! b)]\<rparr>)"
      using acq search None fb b l D(6) rel fin
      by (simp add: bget_def kmonad gt del: bget_cached.simps bget_unused.simps)
    then show ?thesis using b l None by auto
  qed
qed

section \<open>The contract of the cache\<close>

text \<open>How one buffer determines the view of its block.\<close>

lemma view_buffer:
  assumes "bc_inv p H s" "b < NBUF" "b_dev (bcache s ! b) = 1" "b_blockno (bcache s ! b) = bn"
  shows "buffer_of s bn = Some b" "pinned s bn = dirty (bcache s ! b)"
    "view s bn = (if valid (bcache s ! b) then b_data (bcache s ! b) else memdisk s bn)"
proof -
  show "buffer_of s bn = Some b" using buffer_of_iff [OF assms(1)] assms(2-4) by simp
  then show "pinned s bn = dirty (bcache s ! b)"
    "view s bn = (if valid (bcache s ! b) then b_data (bcache s ! b) else memdisk s bn)"
    by (simp_all add: pinned_def view_def)
qed

lemma view_none: "buffer_of s bn = None \<Longrightarrow> view s bn = memdisk s bn \<and> \<not> pinned s bn"
  by (simp add: view_def pinned_def)

text \<open>The view after one buffer has been replaced.\<close>

lemma view_put:
  assumes inv: "bc_inv p H s" and inv': "bc_inv p H' t" and b: "b < NBUF" and t: "bcache t = (bcache s)[b := y]"
    and y: "b_dev y = 1" "b_blockno y = bn"
    and out: "b_dev (bcache s ! b) = 1 \<and> b_blockno (bcache s ! b) = bn \<or>
      b \<notin> H \<and> \<not> dirty (bcache s ! b) \<and> buffer_of s bn = None" and disk: "\<And>n. n \<noteq> bn \<Longrightarrow> memdisk t n = memdisk s n"
  shows "view t = (view s)(bn := if valid y then b_data y else memdisk t bn)" "pinned t = (pinned s)(bn := dirty y)"
proof -
  have nth: "bcache t ! c = (if c = b then y else bcache s ! c)" for c
    using b bc_invD(6) [OF inv] by (simp add: t nth_upd)
  have "view t n = ((view s)(bn := if valid y then b_data y else memdisk t bn)) n \<and> pinned t n = ((pinned s)(bn := dirty y)) n" for n
  proof (cases "n = bn")
    case True
    then show ?thesis using view_buffer [OF inv' b, of bn] y by (simp add: nth)
  next
    case ne: False
    show ?thesis
    proof (cases "buffer_of t n")
      case (Some c)
      then have c: "c < NBUF" "c \<noteq> b" "b_dev (bcache s ! c) = 1" "b_blockno (bcache s ! c) = n"
        using buffer_of_iff [OF inv'] ne y by (auto simp: nth split: if_splits)
      have "b_dev (bcache t ! c) = 1" "b_blockno (bcache t ! c) = n" using c by (simp_all add: nth)
      then show ?thesis
        using view_buffer [OF inv c(1,3,4)] view_buffer [OF inv' c(1)] c(2) ne disk [OF ne] by (simp add: nth)
    next
      case None
      show ?thesis
      proof (cases "buffer_of s n")
        case (Some c)
        then have c: "c < NBUF" "b_dev (bcache s ! c) = 1" "b_blockno (bcache s ! c) = n" using buffer_of_iff [OF inv] by auto
        have cb: "c = b" using None buffer_of_iff [OF inv', of n c] c by (auto simp: nth split: if_splits)
        then have "b \<notin> H" "\<not> dirty (bcache s ! b)" using out c ne by auto
        then show ?thesis
          using view_buffer [OF inv c] cb bc_invD(5) [OF inv b] view_none [OF None] ne c(3) disk [OF ne]
          by (auto simp: buf_ok_def)
      next
        case s: None
        show ?thesis using view_none [OF None] view_none [OF s] ne disk [OF ne] by simp
      qed
    qed
  qed
  then show "view t = (view s)(bn := if valid y then b_data y else memdisk t bn)" "pinned t = (pinned s)(bn := dirty y)" by blast+
qed

lemma bread_run:
  assumes inv: "bc_inv p H s" and od: "on_disk s bn" and free: "\<And>b. buffer_of s bn = Some b \<Longrightarrow> b \<notin> H"
    and rm: "buffer_of s bn = None \<Longrightarrow> room H s"
  shows "\<exists>b y. bread 1 bn s = Inr (b, s\<lparr>bcache := (bcache s)[b := y]\<rparr>) \<and> b < NBUF \<and> b \<notin> H \<and>
    bc_inv p (insert b H) (s\<lparr>bcache := (bcache s)[b := y]\<rparr>) \<and> b_dev y = 1 \<and> b_blockno y = bn \<and> valid y \<and>
    b_data y = view s bn \<and> dirty y = pinned s bn \<and>
    view (s\<lparr>bcache := (bcache s)[b := y]\<rparr>) = view s \<and> pinned (s\<lparr>bcache := (bcache s)[b := y]\<rparr>) = pinned s"
proof -
  note D = bc_invD [OF inv]
  obtain b where b: "b < NBUF" "b \<notin> H" and bc: "case buffer_of s bn of Some c \<Rightarrow> b = c | None \<Rightarrow> \<not> dirty (bcache s ! b)"
    and run: "bget 1 bn s = Inr (b, s\<lparr>bcache := (bcache s)[b := got s p bn (bcache s ! b)]\<rparr>)"
    using bget_run [OF inv free rm] by blast
  let ?x = "bcache s ! b" and ?g = "got s p bn (bcache s ! b)"
  define y where "y = (if valid ?g then ?g else ?g\<lparr>b_data := memdisk s bn, b_flags := b_flags ?g OR B_VALID\<rparr>)"
  let ?t = "s\<lparr>bcache := (bcache s)[b := y]\<rparr>"
  have xok: "buf_ok s p H b ?x" using D(5) b by simp
  have g: "b_dev ?g = 1" "b_blockno ?g = bn" "b_refcnt ?g = 1" "b_next ?g = b_next ?x" "b_prev ?g = b_prev ?x" "b_data ?g = b_data ?x"
    "slk_locked (b_lock ?g) \<noteq> 0" "slk_pid (b_lock ?g) = p_pid (procs s ! p)" by (simp_all add: got_def taken_def)
  have gf: "b_flags ?g = (if b_dev ?x = 1 \<and> b_blockno ?x = bn then b_flags ?x else 0)" by (simp add: got_def)
  have here: "(b_dev ?x = 1 \<and> b_blockno ?x = bn) = (buffer_of s bn = Some b)"
    using buffer_of_iff [OF inv, of bn b] b(1) by auto
  have gd: "dirty ?g \<longrightarrow> valid ?g" using xok gf by (simp add: buf_ok_def valid_def dirty_def)
  have y: "b_dev y = 1" "b_blockno y = bn" "valid y" "dirty y = dirty ?g" "b_next y = b_next ?x" "b_prev y = b_prev ?x"
    using g by (simp_all add: y_def valid_def dirty_def bit_simps)
  have yd: "b_data y = (if valid ?g then b_data ?x else memdisk s bn)" using g by (simp add: y_def)
  have yok: "buf_ok s p (insert b H) b y"
    using xok gd y od g D(3) by (simp add: buf_ok_def y_def)
  have other: "b_blockno (bcache s ! c) \<noteq> b_blockno y" if c: "c < NBUF" "c \<noteq> b" "b_dev (bcache s ! c) = 1" for c
    using bc buffer_of_iff [OF inv, of bn c] c y by (auto split: option.splits)
  have inv': "bc_inv p (insert b H) ?t" using yok y other b by (intro bc_inv_put [OF inv b(1)]) auto
  have out: "b_dev ?x = 1 \<and> b_blockno ?x = bn \<or> b \<notin> H \<and> \<not> dirty ?x \<and> buffer_of s bn = None"
    using bc here b(2) by (auto split: option.splits)
  have vb: "b_data y = view s bn \<and> dirty y = pinned s bn"
  proof (cases "buffer_of s bn")
    case None
    then have "b_flags ?g = 0" using here gf by auto
    then have "\<not> valid ?g" "\<not> dirty ?g" by (simp_all add: valid_def dirty_def)
    then show ?thesis using yd y(4) view_none [OF None] by simp
  next
    case (Some c)
    then have "c = b" using bc by simp
    then have "b_dev ?x = 1" "b_blockno ?x = bn" using here Some by simp_all
    then show ?thesis
      using view_buffer [OF inv b(1)] gf yd y(4) by (simp add: valid_def dirty_def)
  qed
  have "view ?t = view s" "pinned ?t = pinned s"
    using view_put [OF inv inv' b(1) _ y(1,2) out] y(3) vb by (simp_all add: fun_upd_idem_iff)
  moreover have "bread 1 bn s = Inr (b, ?t)"
  proof (cases "valid ?g")
    case True
    then show ?thesis using run b D(6) by (simp add: bread_def kmonad flag_tests y_def)
  next
    case False
    have "iderw b (s\<lparr>bcache := (bcache s)[b := ?g]\<rparr>) = Inr ((), ?t)"
      using iderw_read [of "s\<lparr>bcache := (bcache s)[b := ?g]\<rparr>" p b] D(1,6) b g False gd od by (simp add: held_def y_def)
    then show ?thesis using run b D(6) False by (simp add: bread_def kmonad flag_tests)
  qed
  ultimately show ?thesis using b inv' y vb by blast
qed

text \<open>Storing new data in a buffer that is held.\<close>

lemma store_run:
  assumes inv: "bc_inv p H s" and b: "b \<in> H" and d: "length d = BSIZE"
    and y: "y = (bcache s ! b)\<lparr>b_data := d\<rparr>" and v: "valid (bcache s ! b)"
  shows "bc_inv p H (s\<lparr>bcache := (bcache s)[b := y]\<rparr>)"
    "view (s\<lparr>bcache := (bcache s)[b := y]\<rparr>) = (view s)(b_blockno (bcache s ! b) := d)"
    "pinned (s\<lparr>bcache := (bcache s)[b := y]\<rparr>) = pinned s"
proof -
  note D = bc_invD [OF inv]
  let ?x = "bcache s ! b" and ?t = "s\<lparr>bcache := (bcache s)[b := y]\<rparr>"
  have bn: "b < NBUF" using D(4) b by auto
  have xok: "buf_ok s p H b ?x" using D(5) bn by simp
  have dev: "b_dev ?x = 1" using xok v by (auto simp: buf_ok_def)
  have vy: "valid y = valid ?x" "dirty y = dirty ?x" using y by (simp_all add: valid_def dirty_def)
  have "buf_ok s p H b y" using xok d b vy by (auto simp: buf_ok_def y)
  moreover have "b_blockno (bcache s ! c) \<noteq> b_blockno y" if "c < NBUF" "c \<noteq> b" "b_dev (bcache s ! c) = 1" for c
    using D(7) [of c b] that bn dev by (auto simp: y)
  ultimately show inv': "bc_inv p H ?t" using y by (intro bc_inv_put [OF inv bn]) auto
  have "pinned s (b_blockno ?x) = dirty ?x" using view_buffer(2) [OF inv bn dev refl] .
  then show "view ?t = (view s)(b_blockno ?x := d)" "pinned ?t = pinned s"
    using view_put [OF inv inv' bn, of y "b_blockno ?x"] y v vy dev by (simp_all add: fun_upd_idem_iff)
qed

lemma bwrite_run:
  assumes inv: "bc_inv p H s" and b: "b \<in> H" and v: "valid (bcache s ! b)"
  defines "bn \<equiv> b_blockno (bcache s ! b)" and "d \<equiv> b_data (bcache s ! b)"
  shows "\<exists>y. bwrite b s = Inr ((), s\<lparr>bcache := (bcache s)[b := y], memdisk := (memdisk s)(bn := d),
        iolog := iolog s @ [DiskWrite bn d]\<rparr>) \<and>
    bc_inv p H (s\<lparr>bcache := (bcache s)[b := y], memdisk := (memdisk s)(bn := d), iolog := iolog s @ [DiskWrite bn d]\<rparr>) \<and>
    b_dev y = 1 \<and> b_blockno y = bn \<and> valid y \<and> \<not> dirty y \<and> b_data y = d \<and>
    view (s\<lparr>bcache := (bcache s)[b := y], memdisk := (memdisk s)(bn := d), iolog := iolog s @ [DiskWrite bn d]\<rparr>) = view s \<and>
    pinned (s\<lparr>bcache := (bcache s)[b := y], memdisk := (memdisk s)(bn := d), iolog := iolog s @ [DiskWrite bn d]\<rparr>) =
      (pinned s)(bn := False)"
proof -
  note D = bc_invD [OF inv]
  let ?x = "bcache s ! b"
  let ?z = "?x\<lparr>b_flags := b_flags ?x OR B_DIRTY\<rparr>"
  let ?y = "?x\<lparr>b_flags := ((b_flags ?x OR B_DIRTY) AND NOT B_DIRTY) OR B_VALID\<rparr>"
  let ?t = "s\<lparr>bcache := (bcache s)[b := ?y], memdisk := (memdisk s)(bn := d), iolog := iolog s @ [DiskWrite bn d]\<rparr>"
  have bb: "b < NBUF" using D(4) b by auto
  have xok: "buf_ok s p H b ?x" using D(5) bb by simp
  have dev: "b_dev ?x = 1" and od: "on_disk s bn" using xok v by (auto simp: buf_ok_def bn_def)
  have hd: "held s p b" using xok b by (simp add: buf_ok_def held_def)
  have "iderw b (s\<lparr>bcache := (bcache s)[b := ?z]\<rparr>) = Inr ((), ?t)"
    using iderw_write [of "s\<lparr>bcache := (bcache s)[b := ?z]\<rparr>" p b] D(1,6) bb hd dev od by (simp add: held_def bn_def d_def)
  then have run: "bwrite b s = Inr ((), ?t)"
    using holdingsleep_run [OF D(1), of b] hd bb D(6) by (simp add: bwrite_def kmonad held_def)
  have uniq: "b_blockno (bcache s ! c) \<noteq> bn" if "c < NBUF" "c \<noteq> b" "b_dev (bcache s ! c) = 1" for c
    using D(7) [of c b] that bb dev by (auto simp: bn_def)
  have "buf_ok s p H b ?y" using xok b v by (auto simp: buf_ok_def)
  then have i1: "bc_inv p H (s\<lparr>bcache := (bcache s)[b := ?y]\<rparr>)"
    using uniq by (intro bc_inv_put [OF inv bb]) (auto simp: bn_def)
  have ld: "length d = BSIZE" using xok by (simp add: buf_ok_def d_def)
  have inv': "bc_inv p H ?t"
  proof -
    let ?u = "s\<lparr>bcache := (bcache s)[b := ?y]\<rparr>"
    have "buf_ok ?t p H c (bcache ?u ! c)" if "c < NBUF" for c
    proof (cases "c = b")
      case True
      then show ?thesis using bc_invD(5) [OF i1 that] b by (simp add: buf_ok_def on_disk_def)
    next
      case False
      then show ?thesis using bc_invD(5) [OF i1 that] uniq [OF that False] by (auto simp: buf_ok_def on_disk_def)
    qed
    then show ?thesis using i1 ld unfolding bc_inv_def by simp
  qed
  have pin: "view s bn = d" using view_buffer(3) [OF inv bb dev] v by (simp add: bn_def d_def)
  have "view ?t = view s" "pinned ?t = (pinned s)(bn := False)"
    using view_put [OF inv inv' bb, of ?y bn] dev v pin by (simp_all add: fun_upd_idem_iff bn_def d_def)
  then show ?thesis using run inv' dev by (intro exI [of _ ?y]) (simp add: bn_def d_def)
qed

text \<open>A buffer without its links, its lock and its reference count.\<close>

definition content :: "buf \<Rightarrow> buf" where
  "content x = x\<lparr>b_next := 0, b_prev := 0, b_lock := sleeplock0, b_refcnt := 0\<rparr>"

lemma content_fields:
  assumes "content x = content y"
  shows "b_dev x = b_dev y" "b_blockno x = b_blockno y" "b_flags x = b_flags y" "b_data x = b_data y" "valid x = valid y" "dirty x = dirty y"
  using assms by (cases x; cases y; simp add: content_def valid_def dirty_def)+

lemma content_view:
  assumes "\<And>c. c < NBUF \<Longrightarrow> content (bcache t ! c) = content (bcache s ! c)" "memdisk t = memdisk s"
  shows "buffer_of t = buffer_of s" "view t = view s" "pinned t = pinned s"
proof -
  note f = content_fields [OF assms(1)]
  show b: "buffer_of t = buffer_of s"
    unfolding buffer_of_def by (intro ext find_cong) (auto simp: f)
  have "c < NBUF" if "buffer_of s n = Some c" for c n using that by (auto simp: buffer_of_def dest!: find_SomeD)
  then show "view t = view s" "pinned t = pinned s"
    by (auto simp: fun_eq_iff view_def pinned_def b f assms(2) split: option.splits)
qed

lemma bcore_fields:
  assumes "bcore x = bcore y"
  shows "content x = content y" "b_lock x = b_lock y" "b_refcnt x = b_refcnt y"
  using assms by (cases x; cases y; simp add: bcore_def content_def)+

lemma bc_inv_relink:
  assumes inv: "bc_inv p H t" and r: "ring bs xs" and core: "\<And>c. c < NBUF \<Longrightarrow> bcore (bs ! c) = bcore (bcache t ! c)"
  shows "bc_inv p H (t\<lparr>bcache := bs\<rparr>)"
proof -
  note f = bcore_fields [OF core] and g = content_fields [OF bcore_fields(1) [OF core]]
  have "buf_ok t p H c (bs ! c)" if "c < NBUF" for c
    using bc_invD(5) [OF inv that] f [OF that] g [OF that] by (simp add: buf_ok_def)
  moreover have "c = d" if "c < NBUF" "d < NBUF" "b_dev (bs ! c) = 1" "b_dev (bs ! d) = 1" "b_blockno (bs ! c) = b_blockno (bs ! d)" for c d
    using bc_invD(7) [OF inv that(1,2)] that g(1,2) by simp
  ultimately show ?thesis using bc_invD(1,3,4) [OF inv] r by (auto simp: bc_inv_def)
qed

lemma brelse_run:
  assumes inv: "bc_inv p H s" and b: "b \<in> H"
    and clean: "valid (bcache s ! b) \<and> \<not> dirty (bcache s ! b) \<Longrightarrow> b_data (bcache s ! b) = memdisk s (b_blockno (bcache s ! b))"
  shows "\<exists>bs. brelse b s = Inr ((), s\<lparr>bcache := bs\<rparr>) \<and> bc_inv p (H - {b}) (s\<lparr>bcache := bs\<rparr>) \<and>
    (\<forall>c<NBUF. content (bs ! c) = content (bcache s ! c)) \<and>
    view (s\<lparr>bcache := bs\<rparr>) = view s \<and> pinned (s\<lparr>bcache := bs\<rparr>) = pinned s"
proof -
  note D = bc_invD [OF inv] and ok = kctx_run [OF bc_invD(1) [OF inv]]
  let ?x = "bcache s ! b"
  let ?y = "?x\<lparr>b_lock := given (b_lock ?x), b_refcnt := 0\<rparr>"
  let ?t = "s\<lparr>bcache := (bcache s)[b := ?y]\<rparr>"
  have bb: "b < NBUF" using D(4) b by auto
  have xok: "buf_ok s p H b ?x" using D(5) bb by simp
  have hd: "held s p b" and rc: "b_refcnt ?x = 1" using xok b by (simp_all add: buf_ok_def held_def)
  have yok: "buf_ok s p (H - {b}) b ?y" using xok clean by (auto simp: buf_ok_def given_def valid_def dirty_def)
  have i1: "bc_inv p (H - {b}) ?t"
    using yok D(7) [of _ b] bb by (intro bc_inv_put [OF inv bb]) auto
  obtain xs where xs: "ring (bcache ?t) xs" using bc_invD(2) [OF i1] by blast
  have "b \<in> set xs" using xs bb by (auto simp: ring_def)
  then obtain us vs where uv: "xs = us @ b # vs" by (metis split_list)
  let ?e = "lk_upd (acq BcacheLock ?t)"
  have kt: "kctx ?t p" using bc_invD(1) [OF i1] .
  note okt = kctx_run [OF kt]
  obtain bs where bs: "move_front b (?e ?t) = Inr ((), (?e ?t)\<lparr>bcache := bs\<rparr>)" "ring bs (b # us @ vs)" "map bcore bs = map bcore (bcache ?t)"
    using move_front_run [of "?e ?t" us b vs] xs uv by auto
  have rel: "release BcacheLock (?e (?t\<lparr>bcache := bs\<rparr>)) = Inr ((), ?t\<lparr>bcache := bs\<rparr>)"
    using okt by (intro release_leave) simp_all
  have acq: "acquire BcacheLock (s\<lparr>bcache := (bcache s)[b := ?x\<lparr>b_lock := given (b_lock ?x)\<rparr>]\<rparr>) =
      Inr ((), lk_upd (acq BcacheLock (s\<lparr>bcache := (bcache s)[b := ?x\<lparr>b_lock := given (b_lock ?x)\<rparr>]\<rparr>))
        (s\<lparr>bcache := (bcache s)[b := ?x\<lparr>b_lock := given (b_lock ?x)\<rparr>]\<rparr>))"
    using ok by (intro acquire_enter) simp_all
  have acqeq: "acq BcacheLock (s\<lparr>bcache := cs\<rparr>) = acq BcacheLock s" for cs
    by (simp add: acq_def locked_def lk_def pushed_def split: option.splits)
  have run: "brelse b s = Inr ((), s\<lparr>bcache := bs\<rparr>)"
    using holdingsleep_run [OF D(1), of b] releasesleep_run [OF D(1), of b] hd bb D(6) acq bs(1) rel rc
    by (simp add: brelse_def kmonad held_def acqeq)
  have nth: "bcore (bs ! c) = bcore (bcache ?t ! c)" if "c < NBUF" for c
    using arg_cong [OF bs(3), of "\<lambda>l. l ! c"] bs(2) that D(6) by (simp add: ring_def)
  have inv': "bc_inv p (H - {b}) (s\<lparr>bcache := bs\<rparr>)"
    using bc_inv_relink [OF i1 bs(2) nth] by simp
  have "content (bs ! c) = content (bcache s ! c)" if "c < NBUF" for c
    using bcore_fields(1) [OF nth [OF that]] that D(6) bb by (auto simp: nth_upd content_def)
  then show ?thesis using run inv' content_view [of "s\<lparr>bcache := bs\<rparr>" s] by (intro exI [of _ bs]) simp
qed

section \<open>Initialisation\<close>

lemma chain_insert:
  assumes ch: "chain n v (h # xs @ [h])" and d: "distinct (h # xs)" and b: "b \<notin> set (h # xs)"
  shows "chain (n(b := n h, h := b)) (v(b := h, n h := b)) (h # b # xs @ [h])"
proof -
  obtain ws where ws: "xs @ [h] = n h # ws" using ch by (cases xs) auto
  have bl: "butlast (n h # ws) = xs" using ws by (metis butlast_snoc)
  have sub: "set ws \<subseteq> insert h (set xs)" "n h \<in> insert h (set xs)" using arg_cong [OF ws, of set] by auto
  have nw: "n h \<notin> set ws" using ws d by (cases xs) auto
  have bw: "b \<notin> set ws" using sub b by auto
  have c: "chain n v (n h # ws)" using ch ws by (cases xs) auto
  have "chain (n(b := n h, h := b)) (v(b := h, n h := b)) (n h # ws)"
    using c bl d b nw bw by (simp add: chain_nx chain_pv del: butlast.simps)
  then show ?thesis using b sub by (auto simp: ws)
qed

definition linked :: "buf list \<Rightarrow> nat list \<Rightarrow> bool" where
  "linked bs xs \<longleftrightarrow> length bs = Suc NBUF \<and> distinct xs \<and> set xs \<subseteq> {..<NBUF} \<and>
     chain (nx bs) (pv bs) (head # xs @ [head]) \<and> (\<forall>i\<le>NBUF. nx bs i \<le> NBUF \<and> pv bs i \<le> NBUF)"

text \<open>A buffer that has never been used.\<close>

definition unused :: "buf \<Rightarrow> bool" where
  "unused x \<longleftrightarrow> b_flags x = 0 \<and> b_dev x = 0 \<and> b_blockno x = 0 \<and> b_refcnt x = 0 \<and> slk_locked (b_lock x) = 0 \<and> length (b_data x) = BSIZE"

lemma linked_insert:
  assumes l: "linked bs xs" and b: "b < NBUF" "b \<notin> set xs"
  defines "cs \<equiv> set_prev b head (set_next b (nx bs head) bs)"
  shows "linked (set_next head b (set_prev (nx bs head) b cs)) (b # xs)" "nx cs head = nx bs head"
proof -
  have L: "length bs = Suc NBUF" "distinct xs" "set xs \<subseteq> {..<NBUF}" "chain (nx bs) (pv bs) (head # xs @ [head])"
    and bd: "\<And>i. i \<le> NBUF \<Longrightarrow> nx bs i \<le> NBUF \<and> pv bs i \<le> NBUF" using l by (simp_all add: linked_def)
  have h: "nx bs head \<le> NBUF" using bd by simp
  let ?ds = "set_next head b (set_prev (nx bs head) b cs)"
  have links: "nx ?ds = (nx bs)(b := nx bs head, head := b)" "pv ?ds = (pv bs)(b := head, nx bs head := b)" "length ?ds = Suc NBUF"
    using b h L(1) by (simp_all add: cs_def)
  show "nx cs head = nx bs head" using b L(1) by (simp add: cs_def)
  have "chain (nx ?ds) (pv ?ds) (head # b # xs @ [head])"
    unfolding links using L b by (intro chain_insert) auto
  moreover have "\<forall>i\<le>NBUF. nx ?ds i \<le> NBUF \<and> pv ?ds i \<le> NBUF" unfolding links using bd h b by auto
  ultimately show "linked ?ds (b # xs)" using L b links(3) by (simp add: linked_def)
qed

lemma set_link_unused:
  "(\<forall>x\<in>set bs. unused x) \<Longrightarrow> x \<in> set (set_next i v bs) \<Longrightarrow> unused x"
  "(\<forall>x\<in>set bs. unused x) \<Longrightarrow> x \<in> set (set_prev i v bs) \<Longrightarrow> unused x"
  by (cases "i < length bs"; fastforce simp: set_next_def set_prev_def unused_def list_update_beyond dest!: set_update_subset_insert [THEN subsetD])+

definition set_block_lock :: "nat \<Rightarrow> sleeplock \<Rightarrow> buf list \<Rightarrow> buf list" where
  "set_block_lock b l bs = bs[b := (bs ! b)\<lparr>b_lock := l\<rparr>]"

lemma set_block_lock_links [simp]:
  "nx (set_block_lock b l bs) = nx bs" "pv (set_block_lock b l bs) = pv bs" "length (set_block_lock b l bs) = length bs"
  by (auto simp: set_block_lock_def nx_def pv_def fun_eq_iff nth_upd)

lemma set_block_lock_unused:
  "(\<forall>x\<in>set bs. unused x) \<Longrightarrow> slk_locked l = 0 \<Longrightarrow> x \<in> set (set_block_lock b l bs) \<Longrightarrow> unused x"
  by (cases "b < length bs"; fastforce simp: set_block_lock_def unused_def list_update_beyond dest!: set_update_subset_insert [THEN subsetD])

lemma linked_cong: "linked bs xs \<Longrightarrow> nx cs = nx bs \<Longrightarrow> pv cs = pv bs \<Longrightarrow> length cs = length bs \<Longrightarrow> linked cs xs"
  by (simp add: linked_def)

lemma initsleeplock_run:
  assumes "b < length (bcache s)"
  shows "\<exists>sl l. initsleeplock (BufSleep b) nm s = Inr ((), s\<lparr>locks := (locks s)(SleepLk (BufSleep b) := sl),
      bcache := set_block_lock b l (bcache s)\<rparr>) \<and> sl_locked sl = 0 \<and> sl_cpu sl = None \<and> slk_locked l = 0"
proof -
  let ?sl = "(locks s (SleepLk (BufSleep b)))\<lparr>sl_name := ''sleep lock'', sl_locked := 0, sl_cpu := None\<rparr>"
  let ?l = "(b_lock (bcache s ! b))\<lparr>slk_name := nm, slk_locked := 0, slk_pid := 0\<rparr>"
  have "initsleeplock (BufSleep b) nm s = Inr ((), s\<lparr>locks := (locks s)(SleepLk (BufSleep b) := ?sl), bcache := set_block_lock b ?l (bcache s)\<rparr>)"
    using assms by (simp add: initsleeplock_def initlock_def kmonad put_lock_def set_block_lock_def)
  then show ?thesis by fastforce
qed

text \<open>The tables after part of the initialisation: \<open>xs\<close> is linked in, no lock has been taken.\<close>

definition nolocks :: "kstate \<Rightarrow> kstate" where
  "nolocks s = s\<lparr>locks := (\<lambda>_. spinlock0), bcache := []\<rparr>"

definition binit_to :: "kstate \<Rightarrow> nat list \<Rightarrow> kstate \<Rightarrow> bool" where
  "binit_to s xs t \<longleftrightarrow> nolocks t = nolocks s \<and> linked (bcache t) xs \<and> (\<forall>x\<in>set (bcache t). unused x) \<and>
     (\<forall>r. lock_free r s \<longrightarrow> lock_free r t)"

lemma binit_to_trans: "binit_to s xs t \<Longrightarrow> binit_to t ys u \<Longrightarrow> binit_to s ys u"
  by (simp add: binit_to_def)

lemma binit_step:
  assumes "linked (bcache s) xs" "\<forall>x\<in>set (bcache s). unused x" "b < NBUF" "b \<notin> set xs"
  shows "\<exists>t. binit_loop (Suc n) b s = binit_loop n (Suc b) t \<and> binit_to s (b # xs) t"
proof -
  let ?bs = "bcache s"
  define cs where "cs = set_prev b head (set_next b (nx ?bs head) ?bs)"
  have len: "length ?bs = Suc NBUF" "length cs = Suc NBUF" and h: "nx ?bs head \<le> NBUF"
    using assms(1) by (simp_all add: linked_def cs_def)
  obtain sl l where il: "initsleeplock (BufSleep b) ''buffer'' (s\<lparr>bcache := cs\<rparr>) =
      Inr ((), s\<lparr>locks := (locks s)(SleepLk (BufSleep b) := sl), bcache := set_block_lock b l cs\<rparr>)"
    "sl_locked sl = 0" "sl_cpu sl = None" "slk_locked l = 0"
    using initsleeplock_run [of b "s\<lparr>bcache := cs\<rparr>" "''buffer''"] assms(3) len by auto
  define ds where "ds = set_next head b (set_prev (nx ?bs head) b (set_block_lock b l cs))"
  let ?t = "s\<lparr>locks := (locks s)(SleepLk (BufSleep b) := sl), bcache := ds\<rparr>"
  note li = linked_insert [OF assms(1,3,4), folded cs_def]
  have nh: "b_next (set_block_lock b l cs ! head) = nx ?bs head"
    using li(2) nx_def [of "set_block_lock b l cs" head] by simp
  have "linked ds (b # xs)"
    using linked_cong [OF li(1), of ds] len h assms(3) by (simp add: ds_def)
  moreover have "\<forall>x\<in>set ds. unused x"
  proof -
    have "\<forall>x\<in>set cs. unused x" unfolding cs_def using assms(2) set_link_unused by metis
    then have "\<forall>x\<in>set (set_block_lock b l cs). unused x" using set_block_lock_unused il(4) by blast
    then show ?thesis unfolding ds_def using set_link_unused by metis
  qed
  ultimately have "binit_to s (b # xs) ?t" using il by (simp add: binit_to_def lock_free_def nolocks_def)
  moreover have "binit_loop (Suc n) b s = binit_loop n (Suc b) ?t"
    using len h assms(3) il(1) nh
    by (simp add: kmonad link_front_def nx_def [symmetric] cs_def [symmetric] ds_def [symmetric]
        set_next_def [symmetric] set_prev_def [symmetric])
  ultimately show ?thesis by (intro exI [of _ ?t]) simp
qed

lemma binit_loop_run:
  "linked (bcache s) (rev [0..<b]) \<Longrightarrow> \<forall>x\<in>set (bcache s). unused x \<Longrightarrow> b + n = NBUF \<Longrightarrow>
   \<exists>t. binit_loop n b s = Inr ((), t) \<and> binit_to s (rev [0..<NBUF]) t"
proof (induction n arbitrary: b s)
  case 0
  then show ?case by (intro exI [of _ s]) (simp add: kret_def binit_to_def)
next
  case (Suc n)
  have bn: "b < NBUF" "b \<notin> set (rev [0..<b])" and sb: "Suc b + n = NBUF" using Suc.prems(3) by simp_all
  obtain t where t: "binit_loop (Suc n) b s = binit_loop n (Suc b) t" "binit_to s (b # rev [0..<b]) t"
    using binit_step [OF Suc.prems(1,2) bn, of n] by (elim exE conjE) (rule that)
  have "linked (bcache t) (rev [0..<Suc b])" "\<forall>x\<in>set (bcache t). unused x" using t(2) by (simp_all add: binit_to_def)
  then obtain u where u: "binit_loop n (Suc b) t = Inr ((), u)" "binit_to t (rev [0..<NBUF]) u"
    using Suc.IH [OF _ _ sb, of t] by blast
  show ?case unfolding t(1) u(1) using binit_to_trans [OF t(2) u(2)] by blast
qed

lemma binit_run:
  assumes "kctx s p" "bcache s = replicate (Suc NBUF) buf0" "\<And>n. length (memdisk s n) = BSIZE"
  shows "\<exists>t. binit s = Inr ((), t) \<and> ring (bcache t) (rev [0..<NBUF]) \<and> bc_inv p {} t \<and> nolocks t = nolocks s \<and>
    (\<forall>b<NBUF. unused (bcache t ! b))"
proof -
  let ?l = "(locks s BcacheLock)\<lparr>sl_name := ''bcache'', sl_locked := 0, sl_cpu := None\<rparr>"
  let ?bs = "set_next head head (set_prev head head (bcache s))"
  let ?s = "s\<lparr>locks := (locks s)(BcacheLock := ?l), bcache := ?bs\<rparr>"
  have nth: "bcache s ! i = buf0" if "i \<le> NBUF" for i using that by (simp add: assms(2) del: replicate.simps)
  have fresh: "\<forall>x\<in>set ?bs. unused x"
  proof -
    have "\<forall>x\<in>set (bcache s). unused x" by (simp add: assms(2) unused_def buf0_def sleeplock0_def)
    then show ?thesis using set_link_unused by metis
  qed
  have "linked ?bs []"
  proof -
    have "nx (bcache s) i = 0" "pv (bcache s) i = 0" if "i \<le> NBUF" for i
      using nth [OF that] by (simp_all add: nx_def pv_def buf0_def)
    moreover have "length (bcache s) = Suc NBUF" by (simp add: assms(2))
    ultimately show ?thesis by (simp add: linked_def)
  qed
  then obtain t where t: "binit_loop NBUF 0 ?s = Inr ((), t)" "binit_to ?s (rev [0..<NBUF]) t"
    using binit_loop_run [of ?s 0 NBUF] fresh by auto
  have "binit s = Inr ((), t)"
    using t(1) by (simp add: binit_def initlock_def kmonad put_lock_def set_next_def set_prev_def assms(2) del: binit_loop.simps replicate.simps)
  moreover have bt: "nolocks t = nolocks s" "linked (bcache t) (rev [0..<NBUF])" "\<forall>x\<in>set (bcache t). unused x"
    using t(2) by (simp_all add: binit_to_def nolocks_def)
  moreover have r: "ring (bcache t) (rev [0..<NBUF])" using bt(2) by (auto simp: linked_def ring_def)
  moreover have "bc_inv p {} t"
  proof -
    have fld: "f (nolocks t) = f (nolocks s)" for f :: "kstate \<Rightarrow> 'a" using bt(1) by simp
    have eq: "procs t = procs s" "memdisk t = memdisk s" "eflags t = eflags s" "cpus t = cpus s" "ncpu t = ncpu s" "lapic_id t = lapic_id s"
      using fld [of procs] fld [of memdisk] fld [of eflags] fld [of cpus] fld [of ncpu] fld [of lapic_id] by (simp_all add: nolocks_def)
    have "lock_free q ?s" for q using assms(1) by (simp add: kctx_def lock_free_def)
    then have "lock_free q t" for q using t(2) by (simp add: binit_to_def)
    moreover have "running t p" using running_cong [of s p t] assms(1) eq by (simp add: kctx_def)
    ultimately have k: "kctx t p" using assms(1) eq by (simp add: kctx_def)
    have un: "unused (bcache t ! b)" if "b < NBUF" for b using bt(3) r that by (simp add: ring_def)
    have "buf_ok t p {} b (bcache t ! b)" if "b < NBUF" for b
      using un [OF that] by (simp add: unused_def buf_ok_def valid_def dirty_def)
    moreover have "b_dev (bcache t ! b) \<noteq> 1" if "b < NBUF" for b using un [OF that] by (simp add: unused_def)
    ultimately show ?thesis using k r assms(3) eq(2) unfolding bc_inv_def by auto
  qed
  moreover have "\<forall>b<NBUF. unused (bcache t ! b)" using bt(3) r by (simp add: ring_def)
  ultimately show ?thesis by blast
qed

section \<open>Properties\<close>


definition ex_disk :: kstate where
  "ex_disk = (ex_state 0x402406 0x403406 ex_empty (-1))\<lparr>disksize := 1000\<rparr>"

lemma ex_disk_ok:
  "kctx ex_disk 0" "bcache ex_disk = replicate (Suc NBUF) buf0" "length (memdisk ex_disk n) = BSIZE" "disksize ex_disk = 1000"
proof -
  have "running (ex_state 0x402406 0x403406 ex_empty (-1)) 0" using user_ctx_ex [OF ex_values(1)] by (simp add: user_ctx_def)
  then have "running ex_disk 0" by (rule running_cong) (simp_all add: ex_disk_def)
  then show "kctx ex_disk 0" by (simp add: kctx_def ex_disk_def ex_state_def lock_free_def kstate0_def spinlock0_def)
  show "bcache ex_disk = replicate (Suc NBUF) buf0" "length (memdisk ex_disk n) = BSIZE" "disksize ex_disk = 1000"
    by (simp_all add: ex_disk_def ex_state_def kstate0_def)
qed


text \<open>
  C14: \<open>bread\<close> refines reading the block. Whether the block is cached, cached and awaiting a commit, or
  only on the disk, the answer is a buffer locked by the caller that holds the current contents of
  the block; the contents of all blocks stay as they are and the invariant holds with one more
  buffer in use.
\<close>

theorem bread_reads:
  assumes "bc_inv p H s" "on_disk s bn" "\<forall>b. buffer_of s bn = Some b \<longrightarrow> b \<notin> H" "buffer_of s bn = None \<longrightarrow> room H s"
  shows "\<exists>b t. bread 1 bn s = Inr (b, t) \<and> b \<notin> H \<and> b_blockno (bcache t ! b) = bn \<and> valid (bcache t ! b) \<and>
    b_data (bcache t ! b) = view s bn \<and> bc_inv p (insert b H) t \<and> view t = view s \<and> memdisk t = memdisk s"
proof -
  obtain b y where rd: "bread 1 bn s = Inr (b, s\<lparr>bcache := (bcache s)[b := y]\<rparr>)" "b < NBUF" "b \<notin> H"
    "bc_inv p (insert b H) (s\<lparr>bcache := (bcache s)[b := y]\<rparr>)" "b_blockno y = bn" "valid y" "b_data y = view s bn"
    "view (s\<lparr>bcache := (bcache s)[b := y]\<rparr>) = view s"
    using bread_run [OF assms(1,2)] assms(3,4) by blast
  moreover have "b < length (bcache s)" using bc_invD(6) [OF assms(1)] rd(2) by simp
  ultimately show ?thesis by (intro exI [of _ b] exI [of _ "s\<lparr>bcache := (bcache s)[b := y]\<rparr>"]) simp
qed

theorem bread_reads_witness:
  "\<exists>t b u. binit ex_disk = Inr ((), t) \<and> bread 1 5 t = Inr (b, u) \<and> bc_inv 0 {b} u \<and> b_data (bcache u ! b) = memdisk t 5"
proof -
  obtain t where t: "binit ex_disk = Inr ((), t)" "bc_inv 0 {} t" "nolocks t = nolocks ex_disk" "\<forall>b<NBUF. unused (bcache t ! b)"
    using binit_run [OF ex_disk_ok(1,2,3)] by blast
  have "disksize t = 1000" using arg_cong [OF t(3), of disksize] ex_disk_ok(4) by (simp add: nolocks_def)
  then have od: "on_disk t 5" by (simp add: on_disk_def)
  have none: "buffer_of t 5 = None" using t(4) by (auto simp: buffer_of_def find_None_iff unused_def)
  have "room {} t" using t(4) by (auto simp: room_def unused_def dirty_def NBUF_def MAXOPBLOCKS_def intro!: exI [of _ 0])
  then show ?thesis using bread_reads [OF t(2) od] none t(1) view_none [OF none] by auto
qed

end
