(* ===== verification/Log_Runs.thy ===== *)
theory Log_Runs
  imports Buffer_Cache
begin

text \<open>
  The steps of the log (\<open>log.c\<close>) as sequences of disk writes. Every loop iteration reads two blocks,
  copies one to the other and writes it; \<open>commit\<close> is the concatenation of the log writes, the
  header, the home writes and the empty header, \<open>recover_from_log\<close> that of the home writes and the
  empty header. The relation \<open>wrote\<close> carries the buffer cache's invariant, the contents of the blocks
  and the history of disk writes through them.
\<close>

section \<open>Room in the cache\<close>

definition pins :: "kstate \<Rightarrow> u32 set" where
  "pins s = {n. pinned s n}"

lemma room_if:
  assumes inv: "bc_inv p H s" and few: "card (pins s) + card H < NBUF"
  shows "room H s"
proof (rule ccontr)
  assume "\<not> room H s"
  let ?dirt = "{c. c < NBUF \<and> dirty (bcache s ! c)}"
  have all: "{..<NBUF} \<subseteq> H \<union> ?dirt" using \<open>\<not> room H s\<close> by (auto simp: room_def)
  have dv: "b_dev (bcache s ! c) = 1" if "c \<in> ?dirt" for c
    using bc_invD(5) [OF inv, of c] that by (auto simp: buf_ok_def)
  have "inj_on (\<lambda>c. b_blockno (bcache s ! c)) ?dirt"
    using bc_invD(7) [OF inv] dv by (intro inj_onI) auto
  moreover have "(\<lambda>c. b_blockno (bcache s ! c)) ` ?dirt \<subseteq> pins s"
    using dv view_buffer(2) [OF inv] by (auto simp: pins_def)
  ultimately have cd: "card ?dirt \<le> card (pins s)" by (intro card_inj_on_le) auto
  have "finite H" using bc_invD(4) [OF inv] by (rule finite_subset) simp
  then have "NBUF \<le> card H + card ?dirt"
    using card_mono [OF _ all] card_Un_le [of H ?dirt] by simp
  then show False using cd few by simp
qed

lemma pinned_cached: "pinned s n \<Longrightarrow> buffer_of s n \<noteq> None"
  by (auto simp: pinned_def split: option.splits)

lemma view_clean:
  assumes "bc_inv p {} s" "\<not> pinned s n"
  shows "view s n = memdisk s n"
proof (cases "buffer_of s n")
  case (Some b)
  then have b: "b < NBUF" "b_dev (bcache s ! b) = 1" "b_blockno (bcache s ! b) = n" using buffer_of_iff [OF assms(1)] by auto
  then show ?thesis
    using view_buffer [OF assms(1) b] assms(2) bc_invD(5) [OF assms(1) b(1)] by (auto simp: buf_ok_def)
qed (simp add: view_def)

section \<open>Copying a block\<close>

text \<open>\<open>t\<close> is \<open>s\<close> after the blocks of \<open>ws\<close> have been written to the disk, in this order.\<close>

definition writes :: "(u32 \<times> u8 list) list \<Rightarrow> (u32 \<Rightarrow> u8 list) \<Rightarrow> u32 \<Rightarrow> u8 list" where
  "writes ws D = fold (\<lambda>(c, d) D. D(c := d)) ws D"

definition wrote :: "nat \<Rightarrow> kstate \<Rightarrow> (u32 \<times> u8 list) list \<Rightarrow> kstate \<Rightarrow> bool" where
  "wrote p s ws t \<longleftrightarrow> bc_inv p {} t \<and>
     (\<exists>bs. t = s\<lparr>bcache := bs, memdisk := writes ws (memdisk s), iolog := iolog s @ map (\<lambda>(c, d). DiskWrite c d) ws\<rparr>) \<and>
     view t = writes ws (view s) \<and> pins t = pins s - fst ` set ws"

lemma writes_simps [simp]: "writes [] D = D" "writes ((c, d) # ws) D = writes ws (D(c := d))" "writes (us @ vs) D = writes vs (writes us D)"
  by (simp_all add: writes_def)

lemma writes_other: "n \<notin> fst ` set ws \<Longrightarrow> writes ws D n = D n"
  by (induction ws arbitrary: D) auto

lemma writes_nth:
  "distinct (map fst ws) \<Longrightarrow> (c, d) \<in> set ws \<Longrightarrow> writes ws D c = d"
proof (induction ws arbitrary: D)
  case (Cons w ws)
  show ?case
  proof (cases "w = (c, d)")
    case True
    then have "c \<notin> fst ` set ws" using Cons.prems(1) by simp
    then show ?thesis using True writes_other [of c ws] by simp
  next
    case False
    then show ?thesis using Cons by (cases w) auto
  qed
qed simp

lemma wrote_refl: "bc_inv p {} s \<Longrightarrow> wrote p s [] s"
  unfolding wrote_def by (intro conjI exI [of _ "bcache s"]) simp_all

lemma wrote_trans:
  assumes "wrote p s us t" "wrote p t vs u"
  shows "wrote p s (us @ vs) u"
proof -
  obtain bs where "t = s\<lparr>bcache := bs, memdisk := writes us (memdisk s), iolog := iolog s @ map (\<lambda>(c, d). DiskWrite c d) us\<rparr>"
    using assms(1) by (auto simp: wrote_def)
  moreover obtain cs where "u = t\<lparr>bcache := cs, memdisk := writes vs (memdisk t), iolog := iolog t @ map (\<lambda>(c, d). DiskWrite c d) vs\<rparr>"
    using assms(2) by (auto simp: wrote_def)
  ultimately have "u = s\<lparr>bcache := cs, memdisk := writes (us @ vs) (memdisk s), iolog := iolog s @ map (\<lambda>(c, d). DiskWrite c d) (us @ vs)\<rparr>"
    by simp
  then show ?thesis using assms unfolding wrote_def by (auto simp: Diff_Diff_Int)
qed

lemma wrote_fields:
  assumes "wrote p s ws t"
  shows "bc_inv p {} t" "klog t = klog s" "disksize t = disksize s" "on_disk t = on_disk s" "memdisk t = writes ws (memdisk s)"
    "view t = writes ws (view s)" "pins t = pins s - fst ` set ws" "iolog t = iolog s @ map (\<lambda>(c, d). DiskWrite c d) ws"
  using assms by (auto simp: wrote_def on_disk_def fun_eq_iff)

lemma pins_cong: "pinned t = pinned s \<Longrightarrow> pins t = pins s"
  by (simp add: pins_def)

text \<open>Two buffers read one after the other.\<close>

lemma pair_run:
  assumes inv: "bc_inv p {} s" and od: "on_disk s A" "on_disk s B" and ne: "A \<noteq> B"
    and few: "card (pins s) < NBUF" and few2: "B \<in> pins s \<or> card (pins s) + 1 < NBUF"
  shows "\<exists>a b bs cs. bread 1 A s = Inr (a, s\<lparr>bcache := bs\<rparr>) \<and> bread 1 B (s\<lparr>bcache := bs\<rparr>) = Inr (b, s\<lparr>bcache := cs\<rparr>) \<and>
    a \<noteq> b \<and> bc_inv p {a, b} (s\<lparr>bcache := cs\<rparr>) \<and> valid (cs ! a) \<and> valid (cs ! b) \<and> b_blockno (cs ! a) = A \<and> b_blockno (cs ! b) = B \<and>
    b_data (cs ! a) = view s A \<and> b_data (cs ! b) = view s B \<and> dirty (cs ! a) = pinned s A \<and> dirty (cs ! b) = pinned s B \<and>
    view (s\<lparr>bcache := cs\<rparr>) = view s \<and> pinned (s\<lparr>bcache := cs\<rparr>) = pinned s"
proof -
  obtain a x where a: "bread 1 A s = Inr (a, s\<lparr>bcache := (bcache s)[a := x]\<rparr>)" "a < NBUF"
    "bc_inv p {a} (s\<lparr>bcache := (bcache s)[a := x]\<rparr>)" "b_dev x = 1" "b_blockno x = A" "valid x" "b_data x = view s A" "dirty x = pinned s A"
    "view (s\<lparr>bcache := (bcache s)[a := x]\<rparr>) = view s" "pinned (s\<lparr>bcache := (bcache s)[a := x]\<rparr>) = pinned s"
    using bread_run [OF inv od(1)] room_if [OF inv] few by auto
  let ?bs = "(bcache s)[a := x]"
  let ?s = "s\<lparr>bcache := ?bs\<rparr>"
  have la: "?bs ! a = x" "length ?bs = Suc NBUF" using a(2) bc_invD(6) [OF inv] by simp_all
  have notB: "b \<notin> {a}" if "buffer_of ?s B = Some b" for b
    using that buffer_of_iff [OF a(3), of B b] a(5) la ne by auto
  have rm: "room {a} ?s" if "buffer_of ?s B = None"
    using room_if [OF a(3)] few2 pinned_cached [of ?s B] that a(10) pins_cong [OF a(10)] by (auto simp: pins_def)
  obtain b y where b: "bread 1 B ?s = Inr (b, s\<lparr>bcache := ?bs[b := y]\<rparr>)" "b < NBUF" "b \<notin> {a}"
    "bc_inv p {b, a} (s\<lparr>bcache := ?bs[b := y]\<rparr>)" "b_blockno y = B" "valid y" "b_data y = view s B" "dirty y = pinned s B"
    "view (s\<lparr>bcache := ?bs[b := y]\<rparr>) = view s" "pinned (s\<lparr>bcache := ?bs[b := y]\<rparr>) = pinned s"
    using bread_run [OF a(3), of B] notB rm od(2) a(9,10) by auto
  have "?bs[b := y] ! a = x" "?bs[b := y] ! b = y" using b(2,3) la by auto
  then show ?thesis using a b
    by (intro exI [of _ a] exI [of _ b] exI [of _ ?bs] exI [of _ "?bs[b := y]"]) (simp add: insert_commute)
qed

text \<open>New data for one of them, which is written; then both are released.\<close>

lemma finish_run:
  assumes inv: "bc_inv p {a, c} s" and ac: "a \<noteq> c" and va: "valid (bcache s ! a)" "valid (bcache s ! c)" and d: "length d = BSIZE"
    and clean: "\<not> dirty (bcache s ! a) \<Longrightarrow> b_data (bcache s ! a) = memdisk s (b_blockno (bcache s ! a))"
  defines "C \<equiv> b_blockno (bcache s ! c)"
  shows "\<exists>bs t. t = s\<lparr>bcache := bs, memdisk := (memdisk s)(C := d), iolog := iolog s @ [DiskWrite C d]\<rparr> \<and>
    kseq (modb c (\<lambda>y. y\<lparr>b_data := d\<rparr>)) (kseq (bwrite c) (kseq (brelse a) (kseq (brelse c) f))) s = f t \<and>
    bc_inv p {} t \<and> view t = (view s)(C := d) \<and> pinned t = (pinned s)(C := False)"
proof -
  have lt: "a < NBUF" "c < NBUF" "length (bcache s) = Suc NBUF" using bc_invD(4,6) [OF inv] by auto
  let ?y = "(bcache s ! c)\<lparr>b_data := d\<rparr>"
  let ?s1 = "s\<lparr>bcache := (bcache s)[c := ?y]\<rparr>"
  note st = store_run [OF inv _ d refl va(2), simplified]
  have vy: "valid (bcache ?s1 ! c)" using va(2) lt by (simp add: valid_def)
  have y: "bcache ?s1 ! c = ?y" using lt by simp
  obtain z where z: "bwrite c ?s1 = Inr ((), ?s1\<lparr>bcache := (bcache ?s1)[c := z], memdisk := (memdisk s)(C := d), iolog := iolog s @ [DiskWrite C d]\<rparr>)"
    "bc_inv p {a, c} (?s1\<lparr>bcache := (bcache ?s1)[c := z], memdisk := (memdisk s)(C := d), iolog := iolog s @ [DiskWrite C d]\<rparr>)"
    "b_blockno z = C" "valid z" "\<not> dirty z" "b_data z = d"
    "view (?s1\<lparr>bcache := (bcache ?s1)[c := z], memdisk := (memdisk s)(C := d), iolog := iolog s @ [DiskWrite C d]\<rparr>) = view ?s1"
    "pinned (?s1\<lparr>bcache := (bcache ?s1)[c := z], memdisk := (memdisk s)(C := d), iolog := iolog s @ [DiskWrite C d]\<rparr>) = (pinned ?s1)(C := False)"
    using bwrite_run [OF st(1) _ vy] unfolding y by (auto simp: C_def)
  let ?s2 = "?s1\<lparr>bcache := (bcache ?s1)[c := z], memdisk := (memdisk s)(C := d), iolog := iolog s @ [DiskWrite C d]\<rparr>"
  have nth: "bcache ?s2 ! c = z" "bcache ?s2 ! a = bcache s ! a" using lt ac by simp_all
  have dev: "b_dev (bcache s ! a) = 1" "b_dev (bcache s ! c) = 1"
    using bc_invD(5) [OF inv lt(1)] bc_invD(5) [OF inv lt(2)] va by (auto simp: buf_ok_def)
  have "b_blockno (bcache s ! a) \<noteq> C" using bc_invD(7) [OF inv lt(1,2) dev] ac by (auto simp: C_def)
  then obtain bs where b1: "brelse a ?s2 = Inr ((), ?s2\<lparr>bcache := bs\<rparr>)" "bc_inv p ({a, c} - {a}) (?s2\<lparr>bcache := bs\<rparr>)"
    "\<forall>i<NBUF. content (bs ! i) = content (bcache ?s2 ! i)" "view (?s2\<lparr>bcache := bs\<rparr>) = view ?s2" "pinned (?s2\<lparr>bcache := bs\<rparr>) = pinned ?s2"
    using brelse_run [OF z(2), of a] clean unfolding nth by auto
  let ?s3 = "?s2\<lparr>bcache := bs\<rparr>"
  have cc: "content (bs ! c) = content z" using b1(3) lt(2) nth by simp
  note cf = content_fields [OF cc]
  obtain cs where b2: "brelse c ?s3 = Inr ((), ?s3\<lparr>bcache := cs\<rparr>)" "bc_inv p {} (?s3\<lparr>bcache := cs\<rparr>)"
    "view (?s3\<lparr>bcache := cs\<rparr>) = view ?s3" "pinned (?s3\<lparr>bcache := cs\<rparr>) = pinned ?s3"
    using brelse_run [OF b1(2), of c] ac cf z(3-6) by (auto simp: insert_Diff_if)
  let ?t = "?s3\<lparr>bcache := cs\<rparr>"
  have "kseq (modb c (\<lambda>y. y\<lparr>b_data := d\<rparr>)) (kseq (bwrite c) (kseq (brelse a) (kseq (brelse c) f))) s = f ?t"
    using z(1) b1(1) b2(1) lt by (simp add: kmonad)
  moreover have "view ?t = (view s)(C := d)" "pinned ?t = (pinned s)(C := False)"
    using b2(3,4) b1(4,5) z(7,8) st(2,3) by (simp_all add: C_def)
  ultimately show ?thesis using b2(2)
    by (intro exI [of _ cs] exI [of _ ?t]) simp
qed

lemma wrote_one:
  assumes "t = s\<lparr>bcache := bs, memdisk := (memdisk s)(C := d), iolog := iolog s @ [DiskWrite C d]\<rparr>"
    "bc_inv p {} t" "view t = (view s)(C := d)" "pinned t = (pinned s)(C := False)"
  shows "wrote p s [(C, d)] t"
  unfolding wrote_def using assms by (intro conjI exI [of _ bs]) (auto simp: pins_def)

section \<open>The loops of the log\<close>

lemma klog_inv:
  "bc_inv p H (s\<lparr>klog := k\<rparr>) = bc_inv p H s" "view (s\<lparr>klog := k\<rparr>) = view s" "pinned (s\<lparr>klog := k\<rparr>) = pinned s"
  "pins (s\<lparr>klog := k\<rparr>) = pins s" "on_disk (s\<lparr>klog := k\<rparr>) = on_disk s"
  by (auto simp: bc_inv_def buf_ok_def on_disk_def view_def pinned_def buffer_of_def pins_def fun_eq_iff split: option.splits)

abbreviation log_at :: "u32 \<Rightarrow> nat \<Rightarrow> u32" where
  "log_at start i \<equiv> start + of_nat i + 1"

text \<open>
  The log in memory: it starts at block \<open>start\<close> of device 1 and its header names the home blocks
  \<open>hs\<close>, which with the log blocks are on the disk and apart from each other.
\<close>

definition log_ok :: "kstate \<Rightarrow> u32 \<Rightarrow> u32 list \<Rightarrow> bool" where
  "log_ok s start hs \<longleftrightarrow> lg_dev (klog s) = 1 \<and> lg_start (klog s) = start \<and> lg_n (klog s) = int (length hs) \<and>
     length (lg_block (klog s)) = LOGSIZE \<and> length hs \<le> LOGSIZE \<and> take (length hs) (lg_block (klog s)) = hs"

definition area_ok :: "kstate \<Rightarrow> u32 \<Rightarrow> u32 list \<Rightarrow> bool" where
  "area_ok s start hs \<longleftrightarrow> unat start + LOGSIZE < 4294967295 \<and> on_disk s start \<and> (\<forall>i<LOGSIZE. on_disk s (log_at start i)) \<and>
     (\<forall>h\<in>set hs. on_disk s h \<and> h \<noteq> start \<and> (\<forall>i<LOGSIZE. h \<noteq> log_at start i))"

lemma log_ok_block: "log_ok s start hs \<Longrightarrow> i < length hs \<Longrightarrow> i < LOGSIZE \<and> lg_block (klog s) ! i = hs ! i"
  unfolding log_ok_def by (metis nth_take order_less_le_trans)

lemma log_at_inj:
  assumes "unat start + LOGSIZE < 4294967295" "i < LOGSIZE" "j < LOGSIZE"
  shows "log_at start i = log_at start j \<longleftrightarrow> i = j" "log_at start i \<noteq> start"
proof -
  have u: "unat (log_at start k) = unat start + k + 1" if "k < LOGSIZE" for k
    using assms(1) that by (simp add: unat_word_ariths unat_of_nat LOGSIZE_def MAXOPBLOCKS_def)
  show "log_at start i = log_at start j \<longleftrightarrow> i = j" using u [OF assms(2)] u [OF assms(3)] by (metis add_left_cancel add_right_cancel)
  show "log_at start i \<noteq> start" using u [OF assms(2)] by (metis add.assoc add_eq_self_zero add_is_0 one_neq_zero)
qed

lemma write_log_step:
  assumes inv: "bc_inv p {} s" and lg: "log_ok s start hs" and ar: "area_ok s start hs" and i: "i < length hs"
    and pn: "hs ! i \<in> pins s" "card (pins s) < NBUF"
  shows "\<exists>t. write_log_loop (Suc n) i s = write_log_loop n (Suc i) t \<and> wrote p s [(log_at start i, view s (hs ! i))] t"
proof -
  note bl = log_ok_block [OF lg i]
  have od: "on_disk s (log_at start i)" "on_disk s (hs ! i)" "log_at start i \<noteq> hs ! i"
    using ar bl i by (auto simp: area_ok_def)
  obtain a b bs cs where ab: "bread 1 (log_at start i) s = Inr (a, s\<lparr>bcache := bs\<rparr>)" "bread 1 (hs ! i) (s\<lparr>bcache := bs\<rparr>) = Inr (b, s\<lparr>bcache := cs\<rparr>)"
    "a \<noteq> b" "bc_inv p {a, b} (s\<lparr>bcache := cs\<rparr>)" "valid (cs ! a)" "valid (cs ! b)" "b_blockno (cs ! a) = log_at start i"
    "b_data (cs ! b) = view s (hs ! i)" "dirty (cs ! b) = pinned s (hs ! i)"
    "view (s\<lparr>bcache := cs\<rparr>) = view s" "pinned (s\<lparr>bcache := cs\<rparr>) = pinned s"
    using pair_run [OF inv od] pn by auto
  let ?s = "s\<lparr>bcache := cs\<rparr>"
  have bb: "b < length cs" "b < NBUF" using bc_invD(4,6) [OF ab(4)] by auto
  have len: "length (view s (hs ! i)) = BSIZE" using bc_invD(5) [OF ab(4) bb(2)] ab(8) by (simp add: buf_ok_def)
  have "bc_inv p {b, a} ?s" using ab(4) by (simp add: insert_commute)
  then obtain ds t where t: "t = s\<lparr>bcache := ds, memdisk := (memdisk s)(log_at start i := view s (hs ! i)), iolog := iolog s @ [DiskWrite (log_at start i) (view s (hs ! i))]\<rparr>"
    "kseq (modb a (\<lambda>y. y\<lparr>b_data := view s (hs ! i)\<rparr>)) (kseq (bwrite a) (kseq (brelse b) (kseq (brelse a) (write_log_loop n (Suc i))))) ?s = write_log_loop n (Suc i) t"
    "bc_inv p {} t" "view t = (view s)(log_at start i := view s (hs ! i))" "pinned t = (pinned s)(log_at start i := False)"
    using finish_run [of p b a ?s "view s (hs ! i)" "write_log_loop n (Suc i)"] ab len pn(1) by (auto simp: pins_def)
  have "write_log_loop (Suc n) i s = write_log_loop n (Suc i) t"
    using ab(1,2,8) t(2) lg bl bb by (simp add: kmonad log_ok_def lh_block_def)
  then show ?thesis using wrote_one [OF t(1,3-5)] by blast
qed

lemma install_step:
  assumes inv: "bc_inv p {} s" and lg: "log_ok s start hs" and ar: "area_ok s start hs" and i: "i < length hs"
    and pn: "card (pins s) < NBUF" "hs ! i \<in> pins s \<or> card (pins s) + 1 < NBUF" "log_at start i \<notin> pins s"
  shows "\<exists>t. install_loop (Suc n) i s = install_loop n (Suc i) t \<and> wrote p s [(hs ! i, view s (log_at start i))] t"
proof -
  note bl = log_ok_block [OF lg i]
  have od: "on_disk s (log_at start i)" "on_disk s (hs ! i)" "log_at start i \<noteq> hs ! i"
    using ar bl i by (auto simp: area_ok_def)
  obtain a b bs cs where ab: "bread 1 (log_at start i) s = Inr (a, s\<lparr>bcache := bs\<rparr>)" "bread 1 (hs ! i) (s\<lparr>bcache := bs\<rparr>) = Inr (b, s\<lparr>bcache := cs\<rparr>)"
    "a \<noteq> b" "bc_inv p {a, b} (s\<lparr>bcache := cs\<rparr>)" "valid (cs ! a)" "valid (cs ! b)" "b_blockno (cs ! a) = log_at start i" "b_blockno (cs ! b) = hs ! i"
    "b_data (cs ! a) = view s (log_at start i)" "dirty (cs ! a) = pinned s (log_at start i)"
    "view (s\<lparr>bcache := cs\<rparr>) = view s" "pinned (s\<lparr>bcache := cs\<rparr>) = pinned s"
    using pair_run [OF inv od pn(1,2)] by auto
  let ?s = "s\<lparr>bcache := cs\<rparr>" and ?d = "view s (log_at start i)"
  have aa: "a < length cs" "a < NBUF" using bc_invD(4,6) [OF ab(4)] by auto
  have len: "length ?d = BSIZE" using bc_invD(5) [OF ab(4) aa(2)] ab(9) by (simp add: buf_ok_def)
  have cl: "?d = memdisk s (log_at start i)" using view_clean [OF inv] pn(3) by (simp add: pins_def)
  obtain ds t where t: "t = s\<lparr>bcache := ds, memdisk := (memdisk s)(hs ! i := ?d), iolog := iolog s @ [DiskWrite (hs ! i) ?d]\<rparr>"
    "kseq (modb b (\<lambda>y. y\<lparr>b_data := ?d\<rparr>)) (kseq (bwrite b) (kseq (brelse a) (kseq (brelse b) (install_loop n (Suc i))))) ?s = install_loop n (Suc i) t"
    "bc_inv p {} t" "view t = (view s)(hs ! i := ?d)" "pinned t = (pinned s)(hs ! i := False)"
    using finish_run [OF ab(4,3), of ?d "install_loop n (Suc i)"] ab len cl by auto
  have "install_loop (Suc n) i s = install_loop n (Suc i) t"
    using ab(1,2,9) t(2) lg bl aa by (simp add: kmonad log_ok_def lh_block_def)
  then show ?thesis using wrote_one [OF t(1,3-5)] by blast
qed

lemma finite_pins: "bc_inv p H s \<Longrightarrow> finite (pins s)"
proof (rule finite_subset)
  show "pins s \<subseteq> (\<lambda>b. b_blockno (bcache s ! b)) ` {..<NBUF}"
    by (auto simp: pins_def pinned_def buffer_of_def split: option.splits dest!: find_SomeD)
qed simp

lemma wrote_log:
  assumes "wrote p s ws t"
  shows "log_ok t start hs = log_ok s start hs" "area_ok t start hs = area_ok s start hs"
  using wrote_fields [OF assms] by (simp_all add: log_ok_def area_ok_def)

lemma wrote_card:
  assumes "wrote p s ws t" "bc_inv p {} s"
  shows "card (pins t) \<le> card (pins s)"
  unfolding wrote_fields(7) [OF assms(1)] using finite_pins [OF assms(2)] by (intro card_mono) auto

definition logging :: "u32 \<Rightarrow> u32 list \<Rightarrow> (u32 \<Rightarrow> u8 list) \<Rightarrow> nat \<Rightarrow> (u32 \<times> u8 list) list" where
  "logging start hs V i = map (\<lambda>j. (log_at start j, V (hs ! j))) [i..<length hs]"

definition installing :: "u32 \<Rightarrow> u32 list \<Rightarrow> (u32 \<Rightarrow> u8 list) \<Rightarrow> nat \<Rightarrow> (u32 \<times> u8 list) list" where
  "installing start hs V i = map (\<lambda>j. (hs ! j, V (log_at start j))) [i..<length hs]"

lemma write_log_run:
  assumes "bc_inv p {} s" "log_ok s start hs" "area_ok s start hs" "set hs \<subseteq> pins s" "card (pins s) < NBUF" "i + n = length hs"
  shows "\<exists>t. write_log_loop n i s = Inr ((), t) \<and> wrote p s (logging start hs (view s) i) t"
  using assms
proof (induction n arbitrary: i s)
  case 0
  then show ?case using wrote_refl by (auto simp: kmonad logging_def)
next
  case (Suc n)
  have i: "i < length hs" using Suc.prems(6) by simp
  obtain t where t: "write_log_loop (Suc n) i s = write_log_loop n (Suc i) t" "wrote p s [(log_at start i, view s (hs ! i))] t"
    using write_log_step [OF Suc.prems(1-3) i, of n] Suc.prems(4,5) i by (meson nth_mem subsetD)
  note f = wrote_fields [OF t(2)]
  have ne: "h \<noteq> log_at start i" if "h \<in> set hs" for h
    using Suc.prems(2,3) i that by (auto simp: area_ok_def log_ok_def)
  have "\<exists>u. write_log_loop n (Suc i) t = Inr ((), u) \<and> wrote p t (logging start hs (view t) (Suc i)) u"
    using Suc.prems ne wrote_card [OF t(2)] by (intro Suc.IH) (auto simp: f wrote_log [OF t(2)])
  then obtain u where u: "write_log_loop n (Suc i) t = Inr ((), u)" "wrote p t (logging start hs (view t) (Suc i)) u" by blast
  have "logging start hs (view t) (Suc i) = logging start hs (view s) (Suc i)"
    unfolding logging_def by (rule map_cong) (auto simp: f ne)
  moreover have "logging start hs (view s) i = (log_at start i, view s (hs ! i)) # logging start hs (view s) (Suc i)"
    using i by (simp add: logging_def upt_conv_Cons)
  ultimately show ?case using t(1) u wrote_trans [OF t(2)] by fastforce
qed

lemma install_run:
  assumes "bc_inv p {} s" "log_ok s start hs" "area_ok s start hs" "card (pins s) < NBUF" "i + n = length hs"
    "distinct hs \<and> set (drop i hs) \<subseteq> pins s \<or> card (pins s) + 1 < NBUF" "\<forall>j<LOGSIZE. log_at start j \<notin> pins s"
  shows "\<exists>t. install_loop n i s = Inr ((), t) \<and> wrote p s (installing start hs (view s) i) t"
  using assms
proof (induction n arbitrary: i s)
  case 0
  then show ?case using wrote_refl by (auto simp: kmonad installing_def)
next
  case (Suc n)
  have i: "i < length hs" using Suc.prems(5) by simp
  have dr: "drop i hs = hs ! i # drop (Suc i) hs" using i by (rule Cons_nth_drop_Suc [symmetric])
  have nd: "hs ! i \<notin> set (drop (Suc i) hs)" if "distinct hs" using that dr by (metis distinct.simps(2) distinct_drop)
  obtain t where t: "install_loop (Suc n) i s = install_loop n (Suc i) t" "wrote p s [(hs ! i, view s (log_at start i))] t"
    using install_step [OF Suc.prems(1-3) i Suc.prems(4), of n] Suc.prems(6,7) log_ok_block [OF Suc.prems(2) i] dr by auto
  note f = wrote_fields [OF t(2)]
  have ne: "hs ! i \<noteq> log_at start j" if "j < LOGSIZE" for j
    using Suc.prems(3) i that by (auto simp: area_ok_def)
  have "\<exists>u. install_loop n (Suc i) t = Inr ((), u) \<and> wrote p t (installing start hs (view t) (Suc i)) u"
    using Suc.prems nd dr wrote_card [OF t(2)] by (intro Suc.IH) (auto simp: f wrote_log [OF t(2)])
  then obtain u where u: "install_loop n (Suc i) t = Inr ((), u)" "wrote p t (installing start hs (view t) (Suc i)) u" by blast
  have le: "j < LOGSIZE" if "j < length hs" for j using log_ok_block [OF Suc.prems(2) that] by simp
  have "installing start hs (view t) (Suc i) = installing start hs (view s) (Suc i)"
    unfolding installing_def by (rule map_cong) (auto simp: f ne [OF le, symmetric])
  moreover have "installing start hs (view s) i = (hs ! i, view s (log_at start i)) # installing start hs (view s) (Suc i)"
    using i by (simp add: installing_def upt_conv_Cons)
  ultimately show ?case using t(1) u wrote_trans [OF t(2)] by fastforce
qed

section \<open>The header\<close>

definition head_names :: "u8 list \<Rightarrow> u32 list \<Rightarrow> bool" where
  "head_names d hs \<longleftrightarrow> le32 d 0 = of_nat (length hs) \<and> (\<forall>i<length hs. le32 d (4 + 4 * i) = hs ! i)"

fun head_words :: "nat \<Rightarrow> nat \<Rightarrow> u32 list \<Rightarrow> u8 list \<Rightarrow> u8 list" where
  "head_words 0 i bl d = d"
| "head_words (Suc n) i bl d = head_words n (Suc i) bl (put32 d (4 + 4 * i) (bl ! i))"

lemma head_words_nth:
  assumes "i + n \<le> LOGSIZE" "length d = BSIZE"
  shows "length (head_words n i bl d) = BSIZE \<and> (\<forall>j<LOGSIZE. le32 (head_words n i bl d) (4 + 4 * j) =
    (if i \<le> j \<and> j < i + n then bl ! j else le32 d (4 + 4 * j))) \<and> le32 (head_words n i bl d) 0 = le32 d 0"
  using assms
proof (induction n arbitrary: i d)
  case (Suc n)
  have b: "4 + 4 * j + 4 \<le> BSIZE" if "j < LOGSIZE" for j using that by (simp add: LOGSIZE_def MAXOPBLOCKS_def BSIZE_def)
  let ?d = "put32 d (4 + 4 * i) (bl ! i)"
  have i: "i < LOGSIZE" using Suc.prems by simp
  have l: "length ?d = BSIZE" "le32 ?d 0 = le32 d 0" using b [OF i] Suc.prems(2) by (simp_all add: le32_put32_other)
  have w: "le32 ?d (4 + 4 * j) = (if j = i then bl ! i else le32 d (4 + 4 * j))" if "j < LOGSIZE" for j
    using b [OF i] b [OF that] Suc.prems(2) le32_put32_other [of "4 + 4 * i" d "4 + 4 * j" "bl ! i"] by (cases "j < i") auto
  show ?case using Suc.IH [of "Suc i" ?d] l w Suc.prems(1) by (auto simp: Suc_le_eq le_less)
qed auto

lemma write_head_loop_run:
  assumes "i + n \<le> LOGSIZE" "b < length (bcache s)"
  shows "write_head_loop n i b s = Inr ((), s\<lparr>bcache := (bcache s)[b := (bcache s ! b)\<lparr>b_data :=
    head_words n i (lg_block (klog s)) (b_data (bcache s ! b))\<rparr>]\<rparr>)"
  using assms
proof (induction n arbitrary: i s)
  case (Suc n)
  then show ?case using Suc.IH [of "Suc i" "s\<lparr>bcache := (bcache s)[b := (bcache s ! b)\<lparr>b_data := put32 (b_data (bcache s ! b)) (4 + 4 * i) (lg_block (klog s) ! i)\<rparr>]\<rparr>"]
    by (simp add: kmonad lh_block_def)
qed (simp add: kmonad)

lemma write_head_run:
  assumes inv: "bc_inv p {} s" and lg: "log_ok s start hs" and od: "on_disk s start" and few: "card (pins s) < NBUF"
  shows "\<exists>d t. write_head s = Inr ((), t) \<and> wrote p s [(start, d)] t \<and> head_names d hs"
proof -
  have L: "lg_dev (klog s) = 1" "lg_start (klog s) = start" "lg_n (klog s) = int (length hs)" "length hs \<le> LOGSIZE"
    "take (length hs) (lg_block (klog s)) = hs" using lg by (simp_all add: log_ok_def)
  obtain a x where a: "bread 1 start s = Inr (a, s\<lparr>bcache := (bcache s)[a := x]\<rparr>)" "a < NBUF"
    "bc_inv p {a} (s\<lparr>bcache := (bcache s)[a := x]\<rparr>)" "b_dev x = 1" "b_blockno x = start" "valid x"
    "view (s\<lparr>bcache := (bcache s)[a := x]\<rparr>) = view s" "pinned (s\<lparr>bcache := (bcache s)[a := x]\<rparr>) = pinned s"
    using bread_run [OF inv od] room_if [OF inv] few by auto
  let ?s = "s\<lparr>bcache := (bcache s)[a := x]\<rparr>"
  have nth: "bcache ?s ! a = x" "a < length (bcache s)" using a(2) bc_invD(6) [OF inv] by simp_all
  have bx: "length (b_data x) = BSIZE" using bc_invD(5) [OF a(3,2)] nth by (simp add: buf_ok_def)
  define d where "d = head_words (length hs) 0 (lg_block (klog s)) (put32 (b_data x) 0 (of_nat (length hs)))"
  have z4: "0 + 4 \<le> length (b_data x)" using bx by (simp add: BSIZE_def)
  have d: "length d = BSIZE" "head_names d hs"
    using head_words_nth [of 0 "length hs" "put32 (b_data x) 0 (of_nat (length hs))" "lg_block (klog s)"] L(4) bx z4
      nth_take [of _ "length hs" "lg_block (klog s)"] by (auto simp: head_names_def d_def L(5))
  note st = store_run [OF a(3) _ d(1) refl, of a, unfolded nth, simplified, OF a(6)]
  let ?s1 = "s\<lparr>bcache := (bcache s)[a := x\<lparr>b_data := d\<rparr>]\<rparr>"
  have y: "bcache ?s1 ! a = x\<lparr>b_data := d\<rparr>" "valid (x\<lparr>b_data := d\<rparr>)" using nth a(6) by (simp_all add: valid_def)
  obtain z t where z: "t = ?s1\<lparr>bcache := (bcache ?s1)[a := z], memdisk := (memdisk s)(start := d), iolog := iolog s @ [DiskWrite start d]\<rparr>"
    "bwrite a ?s1 = Inr ((), t)" "bc_inv p {a} t" "b_blockno z = start" "b_data z = d" "view t = view ?s1" "pinned t = (pinned ?s1)(start := False)"
    using bwrite_run [OF st(1), of a] y a(5) by auto
  have za: "bcache t ! a = z" using nth by (simp add: z(1))
  obtain bs where bs: "brelse a t = Inr ((), t\<lparr>bcache := bs\<rparr>)" "bc_inv p {} (t\<lparr>bcache := bs\<rparr>)" "view (t\<lparr>bcache := bs\<rparr>) = view t"
    "pinned (t\<lparr>bcache := bs\<rparr>) = pinned t"
    using brelse_run [OF z(3), of a] z(4,5) unfolding za by (auto simp: z(1))
  have "write_head s = Inr ((), t\<lparr>bcache := bs\<rparr>)"
    using a(1) z(2) bs(1) L nth by (simp add: write_head_def kmonad write_head_loop_run d_def)
  moreover have "wrote p s [(start, d)] (t\<lparr>bcache := bs\<rparr>)"
    using bs z(6,7) st(2,3) a(5,7,8) by (intro wrote_one [where bs = bs]) (simp_all add: z(1))
  ultimately show ?thesis using d(2) by blast
qed

lemma read_head_loop_run:
  assumes "i + n \<le> LOGSIZE" "length (lg_block (klog s)) = LOGSIZE"
  shows "\<exists>bl. read_head_loop n i d s = Inr ((), s\<lparr>klog := (klog s)\<lparr>lg_block := bl\<rparr>\<rparr>) \<and> length bl = LOGSIZE \<and>
    (\<forall>j<LOGSIZE. bl ! j = (if i \<le> j \<and> j < i + n then le32 d (4 + 4 * j) else lg_block (klog s) ! j))"
  using assms
proof (induction n arbitrary: i s)
  case 0
  then show ?case by (intro exI [of _ "lg_block (klog s)"]) (auto simp: kmonad)
next
  case (Suc n)
  let ?bl = "(lg_block (klog s))[i := le32 d (4 + 4 * i)]"
  let ?s = "s\<lparr>klog := (klog s)\<lparr>lg_block := ?bl\<rparr>\<rparr>"
  have i: "i < LOGSIZE" using Suc.prems by simp
  obtain bl where bl: "read_head_loop n (Suc i) d ?s = Inr ((), ?s\<lparr>klog := (klog ?s)\<lparr>lg_block := bl\<rparr>\<rparr>)" "length bl = LOGSIZE"
    "\<forall>j<LOGSIZE. bl ! j = (if Suc i \<le> j \<and> j < Suc i + n then le32 d (4 + 4 * j) else lg_block (klog ?s) ! j)"
    using Suc.IH [of "Suc i" ?s] Suc.prems by auto
  have "bl ! j = (if i \<le> j \<and> j < i + Suc n then le32 d (4 + 4 * j) else lg_block (klog s) ! j)" if "j < LOGSIZE" for j
    using bl(3) that Suc.prems(2) i by (auto simp: nth_list_update)
  then show ?case using bl(1,2) i by (intro exI [of _ bl]) (simp add: kmonad set_lh_block_def)
qed

lemma sint_of_nat_small: "n < 2 ^ 31 \<Longrightarrow> sint (of_nat n :: u32) = int n"
  by (simp add: sint_uint uint_nat unat_of_nat signed_take_bit_int_eq_self)

lemma read_head_run:
  assumes inv: "bc_inv p {} s" and dev: "lg_dev (klog s) = 1" and len: "length (lg_block (klog s)) = LOGSIZE"
    and od: "on_disk s (lg_start (klog s))" and few: "card (pins s) < NBUF"
    and hd: "head_names (view s (lg_start (klog s))) hs" "length hs \<le> LOGSIZE"
    and cl: "lg_start (klog s) \<notin> pins s"
  shows "\<exists>bs bl. read_head s = Inr ((), s\<lparr>bcache := bs, klog := (klog s)\<lparr>lg_n := int (length hs), lg_block := bl\<rparr>\<rparr>) \<and>
    length bl = LOGSIZE \<and> take (length hs) bl = hs \<and> wrote p s [] (s\<lparr>bcache := bs\<rparr>)"
proof -
  let ?st = "lg_start (klog s)"
  obtain a x where a: "bread 1 ?st s = Inr (a, s\<lparr>bcache := (bcache s)[a := x]\<rparr>)" "a < NBUF"
    "bc_inv p {a} (s\<lparr>bcache := (bcache s)[a := x]\<rparr>)" "b_blockno x = ?st" "b_data x = view s ?st"
    "view (s\<lparr>bcache := (bcache s)[a := x]\<rparr>) = view s" "pinned (s\<lparr>bcache := (bcache s)[a := x]\<rparr>) = pinned s"
    using bread_run [OF inv od] room_if [OF inv] few by auto
  let ?s = "s\<lparr>bcache := (bcache s)[a := x]\<rparr>"
  have nth: "bcache ?s ! a = x" "a < length (bcache s)" using a(2) bc_invD(6) [OF inv] by simp_all
  have n: "sint (le32 (view s ?st) 0) = int (length hs)"
    using hd by (simp add: head_names_def sint_of_nat_small LOGSIZE_def MAXOPBLOCKS_def)
  let ?s1 = "?s\<lparr>klog := (klog s)\<lparr>lg_n := int (length hs)\<rparr>\<rparr>"
  obtain bl where bl: "read_head_loop (length hs) 0 (view s ?st) ?s1 = Inr ((), ?s1\<lparr>klog := (klog ?s1)\<lparr>lg_block := bl\<rparr>\<rparr>)" "length bl = LOGSIZE"
    "\<forall>j<LOGSIZE. bl ! j = (if 0 \<le> j \<and> j < 0 + length hs then le32 (view s ?st) (4 + 4 * j) else lg_block (klog ?s1) ! j)"
    using read_head_loop_run [of 0 "length hs" ?s1 "view s ?st"] hd(2) len by auto
  have tk: "take (length hs) bl = hs"
    using bl(2,3) hd by (intro nth_equalityI) (auto simp: head_names_def)
  let ?s2 = "?s\<lparr>klog := (klog s)\<lparr>lg_n := int (length hs), lg_block := bl\<rparr>\<rparr>"
  have i2: "bc_inv p {a} ?s2" "view ?s2 = view s" "pinned ?s2 = pinned s" using a(3,6,7) by (simp_all add: klog_inv)
  have cx: "b_data x = memdisk s ?st" using view_clean [OF inv] cl a(5) by (simp add: pins_def)
  obtain bs where bs: "brelse a ?s2 = Inr ((), ?s2\<lparr>bcache := bs\<rparr>)" "bc_inv p {} (?s2\<lparr>bcache := bs\<rparr>)" "view (?s2\<lparr>bcache := bs\<rparr>) = view ?s2"
    "pinned (?s2\<lparr>bcache := bs\<rparr>) = pinned ?s2"
    using brelse_run [OF i2(1), of a] cx a(4) nth by auto
  have e: "?s2\<lparr>bcache := bs\<rparr> = (s\<lparr>bcache := bs\<rparr>)\<lparr>klog := (klog s)\<lparr>lg_n := int (length hs), lg_block := bl\<rparr>\<rparr>" by simp
  have "wrote p s [] (s\<lparr>bcache := bs\<rparr>)"
    using bs(2-4) i2(2,3) unfolding e klog_inv wrote_def by (auto simp: pins_def)
  moreover have "read_head s = Inr ((), ?s2\<lparr>bcache := bs\<rparr>)"
    using a(1) bl(1) bs(1) n nth dev by (simp add: read_head_def kmonad a(5) Let_def)
  ultimately show ?thesis using bl(2) tk by (intro exI [of _ bs] exI [of _ bl]) simp
qed

section \<open>Commit and recovery\<close>

abbreviation dw :: "(u32 \<times> u8 list) list \<Rightarrow> ioevent list" where
  "dw ws \<equiv> map (\<lambda>(c, d). DiskWrite c d) ws"

definition commit_writes :: "u32 \<Rightarrow> u32 list \<Rightarrow> (u32 \<Rightarrow> u8 list) \<Rightarrow> u8 list \<Rightarrow> u8 list \<Rightarrow> (u32 \<times> u8 list) list" where
  "commit_writes start hs V d e = logging start hs V 0 @ [(start, d)] @ map (\<lambda>h. (h, V h)) hs @ [(start, e)]"

lemma logging_fst: "length hs \<le> LOGSIZE \<Longrightarrow> fst ` set (logging start hs V i) \<subseteq> log_at start ` {..<LOGSIZE}"
  by (auto simp: logging_def)

lemma logging_nth:
  assumes "unat start + LOGSIZE < 4294967295" "length hs \<le> LOGSIZE" "j < length hs"
  shows "writes (logging start hs V 0) D (log_at start j) = V (hs ! j)"
proof (rule writes_nth)
  show "distinct (map fst (logging start hs V 0))"
    using log_at_inj(1) [OF assms(1)] assms(2) by (auto simp: logging_def distinct_map intro!: inj_onI)
  show "(log_at start j, V (hs ! j)) \<in> set (logging start hs V 0)" using assms(3) by (auto simp: logging_def)
qed

lemma wrote_klog:
  assumes "wrote p (s\<lparr>klog := k\<rparr>) ws t"
  shows "wrote p s ws (t\<lparr>klog := klog s\<rparr>)"
proof -
  note f = wrote_fields [OF assms]
  obtain bs where "t = (s\<lparr>klog := k\<rparr>)\<lparr>bcache := bs, memdisk := writes ws (memdisk s), iolog := iolog s @ dw ws\<rparr>"
    using assms by (auto simp: wrote_def)
  then have "t\<lparr>klog := klog s\<rparr> = s\<lparr>bcache := bs, memdisk := writes ws (memdisk s), iolog := iolog s @ dw ws\<rparr>" by simp
  then show ?thesis unfolding wrote_def klog_inv using f(1,6,7) by (auto simp: klog_inv)
qed

lemma commit_run:
  assumes inv: "bc_inv p {} s" and lg: "log_ok s start hs" and ar: "area_ok s start hs" and hs: "hs \<noteq> []" "distinct hs" "set hs = pins s" "length hs < NBUF"
  shows "\<exists>d e t. commit s = Inr ((), t) \<and> head_names d hs \<and> head_names e [] \<and> bc_inv p {} t \<and> pins t = {} \<and>
    klog t = (klog s)\<lparr>lg_n := 0\<rparr> \<and> disksize t = disksize s \<and> iolog t = iolog s @ dw (commit_writes start hs (view s) d e) \<and>
    memdisk t = writes (commit_writes start hs (view s) d e) (memdisk s) \<and> length (lg_block (klog t)) = LOGSIZE"
proof -
  have L: "lg_n (klog s) = int (length hs)" "length hs \<le> LOGSIZE" using lg by (simp_all add: log_ok_def)
  have c: "card (pins s) < NBUF" using hs distinct_card [of hs] by simp
  obtain s1 where s1: "write_log_loop (length hs) 0 s = Inr ((), s1)" "wrote p s (logging start hs (view s) 0) s1"
    using write_log_run [OF inv lg ar _ c, of 0 "length hs"] hs(3) by auto
  note f1 = wrote_fields [OF s1(2)] and g1 = wrote_log [OF s1(2)]
  have outs: "h \<notin> log_at start ` {..<LOGSIZE}" "h \<noteq> start" if "h \<in> set hs" for h using ar that by (auto simp: area_ok_def)
  have p1: "pins s1 = set hs" using f1(7) logging_fst [OF L(2), of start "view s" 0] outs hs(3) by auto
  have od: "on_disk s start" using ar by (simp add: area_ok_def)
  obtain d s2 where s2: "write_head s1 = Inr ((), s2)" "wrote p s1 [(start, d)] s2" "head_names d hs"
    using write_head_run [OF f1(1), of start hs] lg od p1 c hs(3) by (auto simp: g1 f1(4))
  note f2 = wrote_fields [OF s2(2)] and g2 = wrote_log [OF s2(2)]
  have p2: "pins s2 = set hs" using f2(7) p1 outs(2) [of start] by auto
  have nl: "\<forall>j<LOGSIZE. log_at start j \<notin> pins s2" using outs(1) by (auto simp: p2)
  obtain s3 where s3: "install_loop (length hs) 0 s2 = Inr ((), s3)" "wrote p s2 (installing start hs (view s2) 0) s3"
    using install_run [OF f2(1), of start hs 0 "length hs"] lg ar p2 c hs nl by (auto simp: g1 g2)
  note f3 = wrote_fields [OF s3(2)] and g3 = wrote_log [OF s3(2)]
  have in3: "installing start hs (view s2) 0 = map (\<lambda>h. (h, view s h)) hs"
  proof (rule nth_equalityI)
    fix j assume "j < length (installing start hs (view s2) 0)"
    then have j: "j < length hs" by (simp add: installing_def)
    have "unat start + LOGSIZE < 4294967295" using ar by (simp add: area_ok_def)
    then have "view s2 (log_at start j) = view s (hs ! j)"
      using logging_nth [OF _ L(2) j] log_at_inj(2) [of start j j] j L(2) by (simp add: f2 f1)
    then show "installing start hs (view s2) 0 ! j = map (\<lambda>h. (h, view s h)) hs ! j" using j by (simp add: installing_def)
  qed (simp add: installing_def)
  have p3: "pins s3 = {}" using f3(7) p2 in3 by (auto simp: image_image)
  let ?s4 = "s3\<lparr>klog := (klog s3)\<lparr>lg_n := 0\<rparr>\<rparr>"
  have k3: "klog s3 = klog s" "on_disk s3 = on_disk s" by (simp_all only: f3(2,4) f2(2,4) f1(2,4))
  have l4: "bc_inv p {} ?s4" "log_ok ?s4 start []" "on_disk ?s4 start" "card (pins ?s4) < NBUF"
    using f3(1) k3 lg od p3 hs(4) by (simp_all add: klog_inv log_ok_def)
  obtain e t where t: "write_head ?s4 = Inr ((), t)" "wrote p ?s4 [(start, e)] t" "head_names e []"
    using write_head_run [of p ?s4 start "[]"] l4 by blast
  note f4 = wrote_fields [OF t(2)]
  have "wrote p s3 [(start, e)] (t\<lparr>klog := klog s\<rparr>)"
    using wrote_klog [OF t(2)] f3(2) f2(2) f1(2) by simp
  then have "wrote p s (commit_writes start hs (view s) d e) (t\<lparr>klog := klog s\<rparr>)"
    using wrote_trans [OF s1(2) wrote_trans [OF s2(2) wrote_trans [OF s3(2)]]] by (simp add: commit_writes_def in3)
  moreover have "commit s = Inr ((), t)"
    using s1(1) s2(1) s3(1) t(1) hs(1) L(1) f1(2) f2(2) by (simp add: commit_def write_log_def install_trans_def kmonad)
  moreover have "pins t = {}" "klog t = (klog s)\<lparr>lg_n := 0\<rparr>" using f4(2,7) p3 k3 by (simp_all add: klog_inv)
  ultimately show ?thesis using s2(3) t(3) f4(1) wrote_fields(3,5,8) [of p s "commit_writes start hs (view s) d e" "t\<lparr>klog := klog s\<rparr>"] lg
    by (intro exI [of _ d] exI [of _ e] exI [of _ t]) (simp add: log_ok_def)
qed

lemma recover_run:
  assumes inv: "bc_inv p {} r" and dev: "lg_dev (klog r) = 1" "lg_start (klog r) = start" "length (lg_block (klog r)) = LOGSIZE"
    and hd: "head_names (memdisk r start) hs" "length hs \<le> LOGSIZE" and ar: "area_ok r start hs" and pn: "pins r = {}"
  shows "\<exists>e t ws. recover_from_log r = Inr ((), t) \<and> head_names e [] \<and> bc_inv p {} t \<and> pins t = {} \<and> length (lg_block (klog t)) = LOGSIZE \<and>
    ws = installing start hs (memdisk r) 0 @ [(start, e)] \<and> memdisk t = writes ws (memdisk r) \<and> iolog t = iolog r @ dw ws"
proof -
  have v: "view r = memdisk r" using view_clean [OF inv] pn by (auto simp: pins_def)
  have nb: "1 < NBUF" by (simp add: NBUF_def MAXOPBLOCKS_def)
  have od: "on_disk r start" using ar by (simp add: area_ok_def)
  obtain bs bl where h: "read_head r = Inr ((), r\<lparr>bcache := bs, klog := (klog r)\<lparr>lg_n := int (length hs), lg_block := bl\<rparr>\<rparr>)"
    "length bl = LOGSIZE" "take (length hs) bl = hs" "wrote p r [] (r\<lparr>bcache := bs\<rparr>)"
    using read_head_run [OF inv dev(1,3), of hs] od pn hd v dev(2) nb by auto
  note f0 = wrote_fields [OF h(4)]
  let ?r = "(r\<lparr>bcache := bs\<rparr>)\<lparr>klog := (klog r)\<lparr>lg_n := int (length hs), lg_block := bl\<rparr>\<rparr>"
  have r1: "bc_inv p {} ?r" "log_ok ?r start hs" "area_ok ?r start hs" "pins ?r = {}" "view ?r = memdisk r"
    using f0 h(2,3) dev ar hd(2) pn v by (simp_all add: klog_inv log_ok_def area_ok_def on_disk_def)
  obtain s3 where s3: "install_loop (length hs) 0 ?r = Inr ((), s3)" "wrote p ?r (installing start hs (memdisk r) 0) s3"
    using install_run [OF r1(1-3), of 0 "length hs"] r1(4,5) nb by auto
  note f3 = wrote_fields [OF s3(2)]
  have p3: "pins s3 = {}" using f3(7) r1(4) by auto
  let ?s4 = "s3\<lparr>klog := (klog s3)\<lparr>lg_n := 0\<rparr>\<rparr>"
  have l4: "bc_inv p {} ?s4" "log_ok ?s4 start []" "on_disk ?s4 start" "card (pins ?s4) < NBUF"
    using f3(1,2,4) r1(2) od p3 by (simp_all add: klog_inv log_ok_def NBUF_def MAXOPBLOCKS_def)
  obtain e t where t: "write_head ?s4 = Inr ((), t)" "wrote p ?s4 [(start, e)] t" "head_names e []"
    using write_head_run [of p ?s4 start "[]"] l4 by blast
  note f4 = wrote_fields [OF t(2)]
  have "recover_from_log r = Inr ((), t)"
    using h(1) s3(1) t(1) by (simp add: recover_from_log_def install_trans_def kmonad)
  moreover have "pins t = {}" using f4(7) p3 by (simp add: klog_inv)
  moreover have "length (lg_block (klog t)) = LOGSIZE" using f4(2) f3(2) h(2) by simp
  ultimately show ?thesis using t(3) f4(1,5,8) f3(5,8)
    by (intro exI [of _ e] exI [of _ t] exI [of _ "installing start hs (memdisk r) 0 @ [(start, e)]"]) simp
qed

end
