(* ===== verification/Transactions.thy ===== *)
theory Transactions
  imports Log_Runs
begin

text \<open>
  Blocks inside a transaction. The header in memory names exactly the blocks whose contents await
  the commit (\<open>logged\<close>), and \<open>log_write\<close> keeps it so. On top of that, reading a block, changing its
  contents and recording the change is one update of the contents of the blocks (\<open>open_run\<close>,
  \<open>save_run\<close>, \<open>close_run\<close>), which is how the operations of \<open>fs.c\<close> use the buffer cache.
\<close>

section \<open>Recording a block\<close>

lemma log_absorb_run:
  assumes "i + n = length hs" "log_ok s start hs"
  shows "log_absorb n i v s = Inr ((case find (\<lambda>j. hs ! j = v) [i..<length hs] of Some j \<Rightarrow> j | None \<Rightarrow> length hs), s)"
  using assms(1)
proof (induction n arbitrary: i)
  case 0
  then show ?case by (simp add: kmonad)
next
  case (Suc n)
  then have i: "i < length hs" by simp
  then show ?case using Suc.IH [of "Suc i"] Suc.prems log_ok_block [OF assms(2) i]
    by (simp add: kmonad lh_block_def upt_conv_Cons)
qed

lemma absorb_index:
  assumes "case find (\<lambda>j. hs ! j = v) [0..<length hs] of Some j \<Rightarrow> j = i | None \<Rightarrow> i = length hs"
  shows "if v \<in> set hs then i < length hs \<and> hs ! i = v else i = length hs"
  using assms by (auto split: option.splits simp: find_None_iff find_Some_iff in_set_conv_nth)

definition logged :: "nat \<Rightarrow> nat set \<Rightarrow> u32 \<Rightarrow> u32 list \<Rightarrow> kstate \<Rightarrow> bool" where
  "logged p H start hs s \<longleftrightarrow> bc_inv p H s \<and> log_ok s start hs \<and> distinct hs \<and> set hs = pins s"

lemma log_ok_enter:
  "log_ok (lk_upd l s) start hs = log_ok s start hs"
  by (simp add: log_ok_def)

lemma log_write_run:
  assumes "logged p H start hs s" "b \<in> H" "valid (bcache s ! b)" "lg_outstanding (klog s) \<ge> 1"
    "length hs < LOGSIZE" "int (length hs) < lg_size (klog s) - 1"
  defines "hs' \<equiv> if b_blockno (bcache s ! b) \<in> set hs then hs else hs @ [b_blockno (bcache s ! b)]"
  shows "\<exists>bs k. log_write b s = Inr ((), s\<lparr>bcache := bs, klog := k\<rparr>) \<and> logged p H start hs' (s\<lparr>bcache := bs, klog := k\<rparr>) \<and>
    view (s\<lparr>bcache := bs, klog := k\<rparr>) = view s \<and> dirty (bs ! b) \<and>
    lg_outstanding k = lg_outstanding (klog s) \<and> lg_size k = lg_size (klog s)"
proof -
  let ?x = "bcache s ! b" and ?e = "lk_upd (acq LogLock s)"
  let ?v = "b_blockno ?x" and ?y = "?x\<lparr>b_flags := b_flags ?x OR B_DIRTY\<rparr>"
  have inv: "bc_inv p H s" and lg: "log_ok s start hs" and ds: "distinct hs" "set hs = pins s" using assms(1) by (simp_all add: logged_def)
  note ok = kctx_run [OF bc_invD(1) [OF inv]]
  have b: "b < NBUF" "b < length (bcache s)" using bc_invD(4,6) [OF inv] assms(2) by auto
  have n: "lg_n (klog s) = int (length hs)" "length (lg_block (klog s)) = LOGSIZE" "take (length hs) (lg_block (klog s)) = hs"
    using lg by (simp_all add: log_ok_def)
  define i where "i = (case find (\<lambda>j. hs ! j = ?v) [0..<length hs] of Some j \<Rightarrow> j | None \<Rightarrow> length hs)"
  have i: "if ?v \<in> set hs then i < length hs \<and> hs ! i = ?v else i = length hs"
    by (rule absorb_index) (simp add: i_def split: option.splits)
  have il: "i < LOGSIZE" using i assms(5) by (auto split: if_splits)
  let ?hs = "if ?v \<in> set hs then hs else hs @ [?v]"
  define l where "l = (klog s)\<lparr>lg_block := (lg_block (klog s))[i := ?v]\<rparr>"
  define k where "k = (if ?v \<in> set hs then l else l\<lparr>lg_n := lg_n l + 1\<rparr>)"
  let ?u = "(s\<lparr>bcache := (bcache s)[b := ?y]\<rparr>)\<lparr>klog := k\<rparr>"
  have ab: "log_absorb (length hs) 0 ?v (?e s) = Inr (i, ?e s)"
    using log_absorb_run [of 0 "length hs" hs "?e s" start ?v] lg by (simp add: log_ok_enter i_def)
  have uw: "?u = s\<lparr>klog := k, bcache := (bcache s)[b := ?y]\<rparr>" by simp
  have rl: "release LogLock (lk_upd (acq LogLock s) ?u) = Inr ((), ?u)"
    using ok by (intro release_leave) simp_all
  have run: "log_write b s = Inr ((), ?u)"
    using acquire_enter [OF ok(2,3)] ab rl i il b n(1) assms(4-6) unfolding uw
    by (cases "?v \<in> set hs") (simp_all add: log_write_def kmonad set_lh_block_def k_def l_def)
  have sb: "bc_inv p H (s\<lparr>bcache := (bcache s)[b := ?y]\<rparr>)"
    using bc_invD(5) [OF inv b(1)] bc_invD(7) [OF inv _ b(1)] assms(2,3)
    by (intro bc_inv_put [OF inv b(1)]) (auto simp: buf_ok_def)
  have dev: "b_dev ?x = 1" using bc_invD(5) [OF inv b(1)] assms(3) by (auto simp: buf_ok_def)
  note vp = view_put [OF inv sb b(1), of ?y ?v, simplified]
  have vw: "view ?u = view s" "pins ?u = insert ?v (pins s)"
    unfolding klog_inv using vp dev assms(3) view_buffer [OF inv b(1) dev] by (auto simp: pins_def fun_eq_iff)
  have "log_ok ?u start ?hs"
    using lg i il assms(5) n list_update_id [of hs i]
    by (cases "?v \<in> set hs") (simp_all add: log_ok_def k_def l_def take_update_swap take_Suc_conv_app_nth)
  moreover have "bc_inv p H ?u" unfolding klog_inv by (rule sb)
  ultimately have "logged p H start hs' ?u" using ds vw(2) by (simp add: logged_def hs'_def insert_absorb)
  moreover have "dirty ((bcache s)[b := ?y] ! b)" using b(2) by simp
  moreover have "lg_outstanding k = lg_outstanding (klog s)" "lg_size k = lg_size (klog s)" by (simp_all add: k_def l_def)
  ultimately show ?thesis using run vw(1) by blast
qed

text \<open>
  C15: \<open>log_write\<close> records the block in the transaction. In the states of a transaction the header in
  memory names, once each, exactly the blocks whose contents await the commit; \<open>log_write\<close> on a
  buffer the caller holds keeps it so, adds the buffer's block if the header does not name it yet,
  and changes neither the contents of any block nor the disk.
\<close>

theorem log_write_records:
  assumes "logged p H start hs s" "b \<in> H" "valid (bcache s ! b)" "lg_outstanding (klog s) \<ge> 1"
    "length hs < LOGSIZE" "int (length hs) < lg_size (klog s) - 1"
  shows "\<exists>t. log_write b s = Inr ((), t) \<and>
    logged p H start (if b_blockno (bcache s ! b) \<in> set hs then hs else hs @ [b_blockno (bcache s ! b)]) t \<and> view t = view s \<and> memdisk t = memdisk s"
  using log_write_run [OF assms] by force

section \<open>Updating a block inside a transaction\<close>

text \<open>Room for \<open>c\<close> more blocks in the transaction.\<close>

definition txn :: "nat \<Rightarrow> u32 \<Rightarrow> u32 list \<Rightarrow> nat \<Rightarrow> kstate \<Rightarrow> bool" where
  "txn p start hs c s \<longleftrightarrow> logged p {} start hs s \<and> lg_outstanding (klog s) \<ge> 1 \<and> length hs + c \<le> LOGSIZE \<and>
     int (length hs + c) \<le> lg_size (klog s) - 1"

definition opened :: "nat \<Rightarrow> u32 \<Rightarrow> u32 list \<Rightarrow> kstate \<Rightarrow> u32 \<Rightarrow> nat \<Rightarrow> kstate \<Rightarrow> bool" where
  "opened p start hs s n b u \<longleftrightarrow> logged p {b} start hs u \<and> (\<exists>bs. u = s\<lparr>bcache := bs\<rparr>) \<and> b < length (bcache u) \<and> valid (bcache u ! b) \<and>
     b_blockno (bcache u ! b) = n \<and> b_data (bcache u ! b) = view s n \<and> view u = view s"

definition add_block :: "u32 \<Rightarrow> u32 list \<Rightarrow> u32 list" where
  "add_block n hs = (if n \<in> set hs then hs else hs @ [n])"

text \<open>\<open>t\<close> is \<open>s\<close> except that the blocks have the contents \<open>V\<close>.\<close>

definition shows_blocks :: "(u32 \<Rightarrow> u8 list) \<Rightarrow> kstate \<Rightarrow> kstate \<Rightarrow> bool" where
  "shows_blocks V s t \<longleftrightarrow> (\<exists>bs k. t = s\<lparr>bcache := bs, klog := k\<rparr>) \<and> view t = V"

lemma shows_trans: "shows_blocks V s t \<Longrightarrow> shows_blocks W t u \<Longrightarrow> shows_blocks W s u"
  by (auto simp: shows_blocks_def; blast)

lemma shows_fields:
  assumes "shows_blocks V s t"
  shows "view t = V" "sb t = sb s" "disksize t = disksize s" "on_disk t = on_disk s" "icache t = icache s" "memdisk t = memdisk s" "iolog t = iolog s"
    "procs t = procs s"
  using assms by (auto simp: shows_blocks_def on_disk_def fun_eq_iff)

lemma txn_pins: "txn p start hs c s \<Longrightarrow> card (pins s) + c \<le> NBUF"
  unfolding txn_def logged_def by (metis LOGSIZE_def NBUF_def distinct_card)

lemma open_run:
  assumes "txn p start hs c s" "0 < c" "on_disk s n"
  shows "\<exists>b u. bread 1 n s = Inr (b, u) \<and> opened p start hs s n b u"
proof -
  have inv: "bc_inv p {} s" and lg: "log_ok s start hs" "distinct hs" "set hs = pins s" using assms(1) by (simp_all add: txn_def logged_def)
  obtain b y where b: "bread 1 n s = Inr (b, s\<lparr>bcache := (bcache s)[b := y]\<rparr>)" "b < NBUF" "bc_inv p {b} (s\<lparr>bcache := (bcache s)[b := y]\<rparr>)"
    "b_blockno y = n" "valid y" "b_data y = view s n" "view (s\<lparr>bcache := (bcache s)[b := y]\<rparr>) = view s"
    "pinned (s\<lparr>bcache := (bcache s)[b := y]\<rparr>) = pinned s"
    using bread_run [OF inv assms(3)] room_if [OF inv] txn_pins [OF assms(1)] assms(2) by auto
  have "b < length (bcache s)" using bc_invD(6) [OF inv] b(2) by simp
  then have "opened p start hs s n b (s\<lparr>bcache := (bcache s)[b := y]\<rparr>)"
    using b(3-8) lg pins_cong [OF b(8)] by (auto simp: opened_def logged_def log_ok_def)
  then show ?thesis using b(1) by blast
qed

lemma release_clean:
  assumes "logged p {b} start hs s" "valid (bcache s ! b)" "\<not> dirty (bcache s ! b) \<Longrightarrow> b_data (bcache s ! b) = memdisk s (b_blockno (bcache s ! b))"
  shows "\<exists>bs. brelse b s = Inr ((), s\<lparr>bcache := bs\<rparr>) \<and> logged p {} start hs (s\<lparr>bcache := bs\<rparr>) \<and> view (s\<lparr>bcache := bs\<rparr>) = view s"
proof -
  have inv: "bc_inv p {b} s" and lg: "log_ok s start hs" "distinct hs" "set hs = pins s" using assms(1) by (simp_all add: logged_def)
  obtain bs where "brelse b s = Inr ((), s\<lparr>bcache := bs\<rparr>)" "bc_inv p {} (s\<lparr>bcache := bs\<rparr>)" "view (s\<lparr>bcache := bs\<rparr>) = view s"
    "pinned (s\<lparr>bcache := bs\<rparr>) = pinned s" using brelse_run [OF inv, of b] assms(3) by auto
  then show ?thesis using lg by (auto simp: logged_def log_ok_def pins_def)
qed

lemma opened_dirty:
  assumes "opened p start hs s n b u"
  shows "dirty (bcache u ! b) \<longleftrightarrow> n \<in> set hs"
proof -
  have inv: "bc_inv p {b} u" and hs: "set hs = pins u" using assms by (simp_all add: opened_def logged_def)
  have b: "b < NBUF" using bc_invD(4) [OF inv] by simp
  have v: "valid (bcache u ! b)" "b_blockno (bcache u ! b) = n" using assms by (simp_all add: opened_def)
  then have "b_dev (bcache u ! b) = 1" using bc_invD(5) [OF inv b] by (auto simp: buf_ok_def)
  then show ?thesis using view_buffer(2) [OF inv b _ v(2)] hs by (simp add: pins_def)
qed

lemma close_run:
  assumes "txn p start hs c s" "opened p start hs s n b u"
  shows "\<exists>t. brelse b u = Inr ((), t) \<and> txn p start hs c t \<and> shows_blocks (view s) s t"
proof -
  have inv: "bc_inv p {} s" "set hs = pins s" using assms(1) by (simp_all add: txn_def logged_def)
  obtain bs where u: "u = s\<lparr>bcache := bs\<rparr>" and o: "logged p {b} start hs u" "valid (bcache u ! b)" "b_blockno (bcache u ! b) = n"
    "b_data (bcache u ! b) = view s n" "view u = view s"
    using assms(2) unfolding opened_def by blast
  have "b_data (bcache u ! b) = memdisk u (b_blockno (bcache u ! b))" if "\<not> dirty (bcache u ! b)"
    using that opened_dirty [OF assms(2)] view_clean [OF inv(1), of n] inv(2) o(3,4) by (simp add: pins_def u)
  then obtain cs where t: "brelse b u = Inr ((), s\<lparr>bcache := cs\<rparr>)" "logged p {} start hs (s\<lparr>bcache := cs\<rparr>)" "view (s\<lparr>bcache := cs\<rparr>) = view s"
    using release_clean [OF o(1,2)] o(5) unfolding u by auto
  have "shows_blocks (view s) s (s\<lparr>bcache := cs\<rparr>)"
    unfolding shows_blocks_def using t(3) by (intro conjI exI [of _ cs] exI [of _ "klog s"]) simp_all
  moreover have "txn p start hs c (s\<lparr>bcache := cs\<rparr>)" using assms(1) t(2) by (simp add: txn_def)
  ultimately show ?thesis using t(1) by blast
qed

lemma save_run:
  assumes "txn p start hs (Suc c) s" "opened p start hs s n b u" "length d = BSIZE" "g (view s n) = d"
  shows "\<exists>t. kseq (modb b (\<lambda>x. x\<lparr>b_data := g (b_data x)\<rparr>)) (kseq (log_write b) (kseq (brelse b) f)) u = f t \<and>
    txn p start (add_block n hs) c t \<and> shows_blocks ((view s)(n := d)) s t"
proof -
  have cap: "length hs < LOGSIZE" "length hs + Suc c \<le> LOGSIZE" "lg_outstanding (klog s) \<ge> 1" "int (length hs + Suc c) \<le> lg_size (klog s) - 1"
    using assms(1) by (simp_all add: txn_def)
  obtain bs where u: "u = s\<lparr>bcache := bs\<rparr>" and o: "logged p {b} start hs u" "b < length (bcache u)" "valid (bcache u ! b)" "b_blockno (bcache u ! b) = n"
    "b_data (bcache u ! b) = view s n" "view u = view s"
    using assms(2) unfolding opened_def by blast
  define y where "y = (bcache u ! b)\<lparr>b_data := d\<rparr>"
  have inv: "bc_inv p {b} u" using o(1) by (simp add: logged_def)
  note st = store_run [OF inv _ assms(3) y_def o(3), simplified]
  let ?v = "u\<lparr>bcache := (bcache u)[b := y]\<rparr>"
  have lv: "logged p {b} start hs ?v" using o(1) st(1,3) by (auto simp: logged_def log_ok_def pins_def)
  have vb: "bcache ?v ! b = y" "b_blockno y = n" "valid y" using o(2,3,4) by (simp_all add: y_def valid_def)
  obtain cs k where w: "log_write b ?v = Inr ((), ?v\<lparr>bcache := cs, klog := k\<rparr>)" "logged p {b} start (add_block n hs) (?v\<lparr>bcache := cs, klog := k\<rparr>)"
    "view (?v\<lparr>bcache := cs, klog := k\<rparr>) = view ?v" "dirty (cs ! b)" "lg_outstanding k = lg_outstanding (klog s)" "lg_size k = lg_size (klog s)"
    using log_write_run [OF lv, of b] cap vb(3) unfolding vb(1,2) by (auto simp: u add_block_def)
  have inv2: "bc_inv p {b} (?v\<lparr>bcache := cs, klog := k\<rparr>)" using w(2) by (simp add: logged_def)
  have "b < NBUF" using bc_invD(4) [OF inv2] by simp
  then have "valid (cs ! b)" using bc_invD(5) [OF inv2, of b] w(4) by (auto simp: buf_ok_def)
  then obtain ds where x: "brelse b (?v\<lparr>bcache := cs, klog := k\<rparr>) = Inr ((), s\<lparr>klog := k, bcache := ds\<rparr>)"
    "logged p {} start (add_block n hs) (s\<lparr>klog := k, bcache := ds\<rparr>)" "view (s\<lparr>klog := k, bcache := ds\<rparr>) = (view s)(n := d)"
    using release_clean [OF w(2)] w(3,4) st(2) o(4,6) by (auto simp: u)
  have "modb b (\<lambda>x. x\<lparr>b_data := g (b_data x)\<rparr>) u = Inr ((), ?v)" using o(2,5) assms(4) by (simp add: kmonad y_def)
  then have "kseq (modb b (\<lambda>x. x\<lparr>b_data := g (b_data x)\<rparr>)) (kseq (log_write b) (kseq (brelse b) f)) u = f (s\<lparr>klog := k, bcache := ds\<rparr>)"
    using w(1) x(1) by (simp add: kmonad)
  moreover have "txn p start (add_block n hs) c (s\<lparr>klog := k, bcache := ds\<rparr>)"
    using x(2) w(5,6) cap by (auto simp: txn_def add_block_def)
  moreover have "shows_blocks ((view s)(n := d)) s (s\<lparr>klog := k, bcache := ds\<rparr>)"
    unfolding shows_blocks_def using x(3) by (intro conjI exI [of _ ds] exI [of _ k]) simp_all
  ultimately show ?thesis by blast
qed

section \<open>An example\<close>

definition ex_fs :: "u32 \<Rightarrow> u32 \<Rightarrow> kstate" where
  "ex_fs sz bm = ex_disk\<lparr>memdisk := (memdisk ex_disk)(1 := put32 (replicate BSIZE 0) 16 2, 46 := replicate BSIZE 255),
     klog := log0\<lparr>lg_start := 2, lg_size := 30, lg_dev := 1, lg_outstanding := 1\<rparr>,
     sb := superblock0\<lparr>sb_size := sz, sb_bmapstart := bm\<rparr>\<rparr>"

lemma ex_fs_boot:
  "\<exists>t. binit (ex_fs sz bm) = Inr ((), t) \<and> txn 0 2 [] 29 t \<and> memdisk t = memdisk (ex_fs sz bm) \<and>
    view t = memdisk (ex_fs sz bm) \<and> disksize t = 1000 \<and> sb t = superblock0\<lparr>sb_size := sz, sb_bmapstart := bm\<rparr>"
proof -
  let ?s = "ex_fs sz bm"
  have "running ?s 0" by (rule running_cong [OF kctx_run(1) [OF ex_disk_ok(1)]]) (simp_all add: ex_fs_def)
  then have k: "kctx ?s 0" using ex_disk_ok(1) by (simp add: kctx_def lock_free_def ex_fs_def)
  have len: "length (memdisk ?s n) = BSIZE" for n using ex_disk_ok(3) [of n] by (simp add: ex_fs_def BSIZE_def)
  obtain t where t: "binit ?s = Inr ((), t)" "bc_inv 0 {} t" "nolocks t = nolocks ?s" "\<forall>b<NBUF. unused (bcache t ! b)"
    using binit_run [OF k _ len] ex_disk_ok(2) by (auto simp: ex_fs_def)
  have f: "memdisk t = memdisk ?s" "klog t = klog ?s" "disksize t = 1000" "sb t = sb ?s"
    using arg_cong [OF t(3), of memdisk] arg_cong [OF t(3), of klog] arg_cong [OF t(3), of disksize] arg_cong [OF t(3), of sb] ex_disk_ok(4)
    by (simp_all add: nolocks_def ex_fs_def)
  have np: "\<not> pinned t n" for n using t(4) by (auto simp: pinned_def unused_def dirty_def split: option.splits dest!: buffer_of_iff [OF t(2), THEN iffD1])
  then have "txn 0 2 [] 29 t"
    using t(2) f(2) by (simp add: txn_def logged_def log_ok_def pins_def ex_fs_def log0_def LOGSIZE_def MAXOPBLOCKS_def)
  moreover have "view t = memdisk ?s" using view_clean [OF t(2) np] f(1) by auto
  ultimately show ?thesis using t(1) f by (simp add: ex_fs_def)
qed

theorem log_write_records_witness:
  "\<exists>t b u v. binit (ex_fs 0 0) = Inr ((), t) \<and> bread 1 46 t = Inr (b, u) \<and> log_write b u = Inr ((), v) \<and> logged 0 {b} 2 [46] v \<and> pins v = {46}"
proof -
  obtain t where t: "binit (ex_fs 0 0) = Inr ((), t)" "txn 0 2 [] 29 t" "disksize t = 1000" using ex_fs_boot by blast
  obtain b u where b: "bread 1 46 t = Inr (b, u)" "opened 0 2 [] t 46 b u" using open_run [OF t(2), of 46] t(3) by (auto simp: on_disk_def)
  have o: "logged 0 {b} 2 [] u" "valid (bcache u ! b)" "b_blockno (bcache u ! b) = 46" "klog u = klog t" using b(2) by (auto simp: opened_def)
  have "lg_outstanding (klog u) \<ge> 1" "int (length []) < lg_size (klog u) - 1" using t(2) o(4) by (simp_all add: txn_def)
  then obtain v where "log_write b u = Inr ((), v)" "logged 0 {b} 2 [46] v"
    using log_write_records [OF o(1) _ o(2)] o(3) by (auto simp: LOGSIZE_def MAXOPBLOCKS_def)
  then show ?thesis using t(1) b(1) by (auto simp: logged_def)
qed

end
