(* ===== verification/Block_Alloc.thy ===== *)
theory Block_Alloc
  imports Transactions
begin

text \<open>
  The free map (\<open>balloc\<close>, \<open>bfree\<close> and \<open>bzero\<close> of \<open>fs.c\<close>) inside a transaction: \<open>balloc\<close> takes the
  first free block, \<open>bfree\<close> gives one back, and both refuse what would corrupt the map.
\<close>

section \<open>Bits of the map\<close>

lemma bm_bound: "i < BPB \<Longrightarrow> i div 8 < BSIZE"
  by (simp add: BPB_def BSIZE_def)

lemma bm_get_bit: "bm_get d i \<longleftrightarrow> bit (d ! (i div 8)) (i mod 8)"
proof -
  have "d ! (i div 8) AND push_bit (i mod 8) 1 \<noteq> 0 \<longleftrightarrow> bit (d ! (i div 8)) (i mod 8)"
    unfolding push_bit_eq_mult mult_1 by (rule word_and_exp_neq_0) simp
  then show ?thesis by (simp add: bm_get_def)
qed

lemma div_mod_eq: "i div 8 = j div 8 \<Longrightarrow> i mod 8 = j mod 8 \<Longrightarrow> i = (j :: nat)"
  by (metis div_mult_mod_eq)

lemma bit_byte:
  fixes x :: u8
  assumes "r < 8" "r' < 8"
  shows "bit (x OR push_bit r 1) r' \<longleftrightarrow> r' = r \<or> bit x r'" "bit (x AND NOT (push_bit r 1)) r' \<longleftrightarrow> r' \<noteq> r \<and> bit x r'"
  using assms by (auto simp: bit_simps)

lemma bm_set_clear:
  assumes "i < BPB" "length d = BSIZE"
  shows "bm_get (bm_set d i) j \<longleftrightarrow> j = i \<or> bm_get d j" "bm_get (bm_clear d i) j \<longleftrightarrow> j \<noteq> i \<and> bm_get d j"
proof -
  have ij: "j = i \<longleftrightarrow> j div 8 = i div 8 \<and> j mod 8 = i mod 8" using div_mod_eq [of i j] by metis
  have m: "i mod 8 < 8" "j mod 8 < 8" by simp_all
  have l: "i div 8 < length d" using bm_bound [OF assms(1)] assms(2) by simp
  show "bm_get (bm_set d i) j \<longleftrightarrow> j = i \<or> bm_get d j" "bm_get (bm_clear d i) j \<longleftrightarrow> j \<noteq> i \<and> bm_get d j"
    unfolding bm_get_bit bm_set_def bm_clear_def ij using bit_byte [OF m] l
    by (cases "j div 8 = i div 8"; simp)+
qed

lemma bm_length [simp]: "length (bm_set d i) = length d" "length (bm_clear d i) = length d"
  by (simp_all add: bm_set_def bm_clear_def)

lemma bm_clear_set:
  assumes "\<not> bm_get d i" "i < BPB" "length d = BSIZE"
  shows "bm_clear (bm_set d i) i = d"
proof -
  have b: "i div 8 < length d" using bm_bound [OF assms(2)] assms(3) by simp
  have "(d ! (i div 8) OR push_bit (i mod 8) 1) AND NOT (push_bit (i mod 8) 1) = d ! (i div 8)"
    using assms(1) by (intro bit_eqI) (auto simp: bm_get_bit bit_simps)
  then show ?thesis using b by (simp add: bm_clear_def bm_set_def)
qed

section \<open>Allocation\<close>

lemma kseq_unit: "kseq m (kret ()) = m"
  by (auto simp: fun_eq_iff kseq_def kbind_def kret_def split: sum.splits)

lemma bzero_run:
  assumes "txn p start hs (Suc c) s" "on_disk s n"
  shows "\<exists>t. bzero 1 n s = Inr ((), t) \<and> txn p start (add_block n hs) c t \<and> shows_blocks ((view s)(n := replicate BSIZE 0)) s t"
proof -
  obtain b u where b: "bread 1 n s = Inr (b, u)" "opened p start hs s n b u" using open_run [OF assms(1) _ assms(2)] by auto
  show ?thesis
    using save_run [OF assms(1) b(2), where g = "\<lambda>_. replicate BSIZE 0" and f = "kret ()"] b(1)
    by (simp add: bzero_def kmonad kseq_unit)
qed

text \<open>The map of the blocks in use, as the file system sees it.\<close>

definition used :: "kstate \<Rightarrow> nat \<Rightarrow> bool" where
  "used s n = bm_get (view s (BBLOCK (of_nat n) (sb s))) (n mod BPB)"

definition first_free :: "kstate \<Rightarrow> nat \<Rightarrow> bool" where
  "first_free s n \<longleftrightarrow> n < unat (sb_size (sb s)) \<and> \<not> used s n \<and> (\<forall>m<n. used s m)"

definition sized :: "kstate \<Rightarrow> bool" where
  "sized s \<longleftrightarrow> unat (sb_size (sb s)) + BPB \<le> 4294967296 \<and>
     (\<forall>n<unat (sb_size (sb s)). on_disk s (of_nat n) \<and> on_disk s (BBLOCK (of_nat n) (sb s)))"

lemma balloc_bit_find:
  assumes "unat b + BPB \<le> 4294967296" "bi + n \<le> BPB"
  shows "balloc_bit n bi b sz d = find (\<lambda>i. \<not> bm_get d i) [bi..<min (bi + n) (unat sz - unat b)]"
  using assms(2)
proof (induction n arbitrary: bi)
  case (Suc n)
  have "unat (b + of_nat bi) = unat b + bi" using assms(1) Suc.prems by (simp add: unat_word_ariths unat_of_nat)
  then have "b + of_nat bi < sz \<longleftrightarrow> bi < unat sz - unat b" by (auto simp: word_less_nat_alt)
  then show ?case using Suc.IH [of "Suc bi"] Suc.prems by (simp add: upt_conv_Cons)
qed simp

lemma bblock_round:
  assumes "n < 4294967296"
  shows "BBLOCK (of_nat n) p = of_nat (n div BPB) + sb_bmapstart p"
proof -
  have u: "unat (of_nat n :: u32) = n" "unat (of_nat (n div BPB) :: u32) = n div BPB" "unat (of_nat BPB :: u32) = BPB"
    using assms div_le_dividend [of n BPB] by (simp_all add: unat_of_nat BPB_def BSIZE_def)
  have "unat ((of_nat n :: u32) div of_nat BPB) = unat (of_nat (n div BPB) :: u32)" unfolding unat_div u ..
  then have "(of_nat n :: u32) div of_nat BPB = of_nat (n div BPB)" by (rule unsigned_word_eqI)
  then show ?thesis by (simp add: BBLOCK_def)
qed

lemma used_round:
  assumes "k * BPB + i < 4294967296" "i < BPB"
  shows "BBLOCK (of_nat (k * BPB + i)) (sb s) = of_nat k + sb_bmapstart (sb s)"
    "used s (k * BPB + i) = bm_get (view s (of_nat k + sb_bmapstart (sb s))) i"
proof -
  have "(k * BPB + i) div BPB = k" "(k * BPB + i) mod BPB = i" using assms(2) by simp_all
  then show "BBLOCK (of_nat (k * BPB + i)) (sb s) = of_nat k + sb_bmapstart (sb s)"
    "used s (k * BPB + i) = bm_get (view s (of_nat k + sb_bmapstart (sb s))) i"
    using bblock_round [OF assms(1), of "sb s"] by (simp_all add: used_def)
qed

lemma find_upt: "find P [0..<n] = Some i \<longleftrightarrow> i < n \<and> P i \<and> (\<forall>j<i. \<not> P j)"
  by (auto simp: find_Some_iff)

lemma round_bit:
  assumes "first_free s n" "sized s" "k \<le> n div BPB"
  shows "balloc_bit BPB 0 (of_nat (k * BPB)) (sb_size (sb s)) (view s (of_nat k + sb_bmapstart (sb s))) =
    (if k = n div BPB then Some (n mod BPB) else None)"
    "k * BPB < unat (sb_size (sb s))" "unat (of_nat (k * BPB) :: u32) = k * BPB"
proof -
  let ?z = "unat (sb_size (sb s))"
  have n: "n < ?z" "\<not> used s n" "\<forall>m<n. used s m" and z: "?z + BPB \<le> 4294967296"
    using assms(1,2) by (simp_all add: first_free_def sized_def)
  have bp: "0 < BPB" by (simp add: BPB_def BSIZE_def)
  have nd: "n = n div BPB * BPB + n mod BPB" "n mod BPB < BPB" using bp by simp_all
  have kb: "k * BPB \<le> n" using assms(3) nd by (metis le_add1 le_trans mult_le_mono1)
  then show kz: "k * BPB < ?z" using n(1) by simp
  show u: "unat (of_nat (k * BPB) :: u32) = k * BPB" using kz z by (simp only: unat_of_nat) simp
  have us: "used s (k * BPB + i) = bm_get (view s (of_nat k + sb_bmapstart (sb s))) i" if "i < BPB" for i
    using used_round(2) [of k i s] that kz z by simp
  let ?F = "find (\<lambda>i. \<not> bm_get (view s (of_nat k + sb_bmapstart (sb s))) i) [0..<min BPB (?z - k * BPB)]"
  have F: "?F = (if k = n div BPB then Some (n mod BPB) else None)"
  proof (cases "k = n div BPB")
    case True
    then obtain r where r: "n = k * BPB + r" "r < BPB" "n mod BPB = r" using nd by blast
    have "\<not> bm_get (view s (of_nat k + sb_bmapstart (sb s))) r" using n(2) us [OF r(2)] unfolding r(1) [symmetric] by blast
    moreover have "bm_get (view s (of_nat k + sb_bmapstart (sb s))) j" if "j < r" for j
      using us [of j] n(3) that r(1,2) by (metis add_strict_left_mono order.strict_trans)
    moreover have "r < ?z - k * BPB" using n(1) r(1) by linarith
    ultimately have "?F = Some r" using r(2) by (simp add: find_upt)
    then show ?thesis using True r(3) by simp
  next
    case False
    then have "Suc k \<le> n div BPB" using assms(3) by simp
    then have "k * BPB + i < n" if "i < BPB" for i
      using that div_times_less_eq_dividend [of n BPB] mult_le_mono1 [of "Suc k" "n div BPB" BPB] by (simp del: div_times_less_eq_dividend)
    then show ?thesis using us n(3) False by (auto simp: find_None_iff)
  qed
  show "balloc_bit BPB 0 (of_nat (k * BPB)) (sb_size (sb s)) (view s (of_nat k + sb_bmapstart (sb s))) =
    (if k = n div BPB then Some (n mod BPB) else None)"
    using balloc_bit_find [of "of_nat (k * BPB)" 0 BPB] kz z F unfolding u by simp
qed

definition balloc_view :: "kstate \<Rightarrow> nat \<Rightarrow> u32 \<Rightarrow> u8 list" where
  "balloc_view s n = (let m = BBLOCK (of_nat n) (sb s) in
     (view s)(m := bm_set (view s m) (n mod BPB), of_nat n := replicate BSIZE 0))"

lemma view_length:
  assumes "bc_inv p H s"
  shows "length (view s n) = BSIZE"
proof (cases "buffer_of s n")
  case (Some b)
  then have "b < NBUF" using buffer_of_iff [OF assms] by simp
  then show ?thesis using bc_invD(3,5) [OF assms] Some by (simp add: view_def buf_ok_def)
qed (simp add: view_def bc_invD(3) [OF assms])

text \<open>One round of the outer loop: the block of the map is read and searched.\<close>

lemma balloc_open:
  assumes "sized s" "k * BPB < unat (sb_size (sb s))" "txn p start hs (Suc c) s"
  defines "bm \<equiv> of_nat k + sb_bmapstart (sb s)" and "B \<equiv> of_nat (k * BPB)"
  shows "\<exists>b u. opened p start hs s bm b u \<and>
    balloc_loop (Suc m) 1 B s = (case balloc_bit BPB 0 B (sb_size (sb s)) (view s bm) of
      Some bi \<Rightarrow> kseq (modb b (\<lambda>y. y\<lparr>b_data := bm_set (b_data y) bi\<rparr>)) (kseq (log_write b) (kseq (brelse b)
        (kseq (bzero 1 (B + of_nat bi)) (kret (B + of_nat bi))))) u
    | None \<Rightarrow> kseq (brelse b) (balloc_loop m 1 (of_nat (Suc k * BPB))) u)"
proof -
  have z: "unat (sb_size (sb s)) + BPB \<le> 4294967296" and bp: "0 < BPB" using assms(1) by (simp_all add: sized_def BPB_def BSIZE_def)
  have bm: "BBLOCK B (sb s) = bm" using used_round(1) [of k 0 s] assms(2) z bp by (simp add: bm_def B_def)
  have uB: "unat B = k * BPB" unfolding B_def using assms(2) z by (simp only: unat_of_nat) simp
  have lt: "B < sb_size (sb s)" unfolding word_less_nat_alt uB by (rule assms(2))
  have "on_disk s bm" using assms(1,2) unfolding bm [symmetric] sized_def B_def by blast
  then obtain b u where b: "bread 1 bm s = Inr (b, u)" "opened p start hs s bm b u" using open_run [OF assms(3)] by blast
  have u: "b < length (bcache u)" "b_data (bcache u ! b) = view s bm" using b(2) by (simp_all add: opened_def)
  have nk: "of_nat (Suc k * BPB) = B + of_nat BPB" by (simp add: B_def)
  show ?thesis unfolding nk using b u lt bm
    by (intro exI [of _ b] exI [of _ u]) (simp add: kmonad split: option.splits)
qed

lemma balloc_reads:
  assumes "first_free s n" "sized s" "k \<le> n div BPB" "txn p start hs (Suc c) s"
  shows "\<exists>b u. opened p start hs s (of_nat k + sb_bmapstart (sb s)) b u \<and>
    balloc_loop (Suc m) 1 (of_nat (k * BPB)) s = (if k = n div BPB then
      kseq (modb b (\<lambda>y. y\<lparr>b_data := bm_set (b_data y) (n mod BPB)\<rparr>)) (kseq (log_write b) (kseq (brelse b)
        (kseq (bzero 1 (of_nat n)) (kret (of_nat n :: u32))))) u
      else kseq (brelse b) (balloc_loop m 1 (of_nat (Suc k * BPB))) u)"
proof -
  note rb = round_bit [OF assms(1-3)]
  have nn: "of_nat (k * BPB) + of_nat (n mod BPB) = (of_nat n :: u32)" if "k = n div BPB"
    using that by (metis div_mult_mod_eq of_nat_add)
  show ?thesis using balloc_open [OF assms(2) rb(2) assms(4), of m] rb(1) nn by (auto split: if_splits simp del: balloc_loop.simps of_nat_mult mult_Suc)
qed

lemma balloc_found:
  assumes "first_free s n" "sized s" "txn p start hs (Suc (Suc c)) s" "opened p start hs s (BBLOCK (of_nat n) (sb s)) b u"
  shows "\<exists>t. kseq (modb b (\<lambda>y. y\<lparr>b_data := bm_set (b_data y) (n mod BPB)\<rparr>)) (kseq (log_write b) (kseq (brelse b)
        (kseq (bzero 1 (of_nat n)) (kret (of_nat n :: u32))))) u = Inr (of_nat n, t) \<and> shows_blocks (balloc_view s n) s t \<and>
    txn p start (add_block (of_nat n) (add_block (BBLOCK (of_nat n) (sb s)) hs)) c t"
proof -
  let ?m = "BBLOCK (of_nat n) (sb s)"
  have inv: "bc_inv p {} s" using assms(3) by (simp add: txn_def logged_def)
  obtain t where t: "kseq (modb b (\<lambda>y. y\<lparr>b_data := bm_set (b_data y) (n mod BPB)\<rparr>)) (kseq (log_write b) (kseq (brelse b)
        (kseq (bzero 1 (of_nat n)) (kret (of_nat n :: u32))))) u = kseq (bzero 1 (of_nat n)) (kret (of_nat n :: u32)) t"
    "txn p start (add_block ?m hs) (Suc c) t" "shows_blocks ((view s)(?m := bm_set (view s ?m) (n mod BPB))) s t"
    using save_run [OF assms(3,4), of "bm_set (view s ?m) (n mod BPB)" "\<lambda>d. bm_set d (n mod BPB)"] view_length [OF inv] by (auto simp: bm_length)
  note f = shows_fields [OF t(3)]
  have "on_disk t (of_nat n)" using assms(1,2) f(4) by (simp add: sized_def first_free_def)
  then obtain v where v: "bzero 1 (of_nat n) t = Inr ((), v)" "txn p start (add_block (of_nat n) (add_block ?m hs)) c v"
    "shows_blocks ((view t)(of_nat n := replicate BSIZE 0)) t v"
    using bzero_run [OF t(2)] by blast
  have "shows_blocks (balloc_view s n) s v" using shows_trans [OF t(3) v(3)] by (simp add: f(1) balloc_view_def Let_def)
  moreover have "kseq (bzero 1 (of_nat n)) (kret (of_nat n :: u32)) t = Inr (of_nat n, v)" using v(1) by (simp add: kmonad)
  ultimately show ?thesis using t(1) v(2) by (intro exI [of _ v]) simp
qed

lemma shows_same:
  assumes "shows_blocks (view s) s t"
  shows "first_free t = first_free s" "sized t = sized s" "balloc_view t = balloc_view s" "used t = used s"
  using shows_fields(1,2,4) [OF assms] by (intro ext, simp add: first_free_def balloc_view_def used_def, simp add: sized_def,
    (intro ext, simp add: balloc_view_def used_def)+)

lemma balloc_loop_run:
  assumes "first_free s n" "sized s" "k \<le> n div BPB" "n div BPB - k \<le> m" "txn p start hs (Suc (Suc c)) s"
  shows "\<exists>t. balloc_loop (Suc m) 1 (of_nat (k * BPB)) s = Inr (of_nat n, t) \<and> shows_blocks (balloc_view s n) s t \<and>
    txn p start (add_block (of_nat n) (add_block (BBLOCK (of_nat n) (sb s)) hs)) c t"
  using assms
proof (induction m arbitrary: k s)
  case 0
  have n: "n < 4294967296" using 0(1,2) by (simp add: first_free_def sized_def)
  show ?case using balloc_reads [OF 0(1-3,5), of 0] balloc_found [OF 0(1,2,5)] 0(3,4) bblock_round [OF n, of "sb s"] by force
next
  case (Suc m)
  have n: "n < 4294967296" using Suc.prems(1,2) by (simp add: first_free_def sized_def)
  obtain b u where b: "opened p start hs s (of_nat k + sb_bmapstart (sb s)) b u"
    "balloc_loop (Suc (Suc m)) 1 (of_nat (k * BPB)) s = (if k = n div BPB then
      kseq (modb b (\<lambda>y. y\<lparr>b_data := bm_set (b_data y) (n mod BPB)\<rparr>)) (kseq (log_write b) (kseq (brelse b)
        (kseq (bzero 1 (of_nat n)) (kret (of_nat n :: u32))))) u
      else kseq (brelse b) (balloc_loop (Suc m) 1 (of_nat (Suc k * BPB))) u)"
    using balloc_reads [OF Suc.prems(1-3,5), of "Suc m"] by blast
  show ?case
  proof (cases "k = n div BPB")
    case True
    then show ?thesis using b balloc_found [OF Suc.prems(1,2,5), of b u] bblock_round [OF n, of "sb s"] by simp
  next
    case False
    obtain v where v: "brelse b u = Inr ((), v)" "txn p start hs (Suc (Suc c)) v" "shows_blocks (view s) s v"
      using close_run [OF Suc.prems(5) b(1)] by blast
    have pre: "first_free v n" "sized v" "Suc k \<le> n div BPB" "n div BPB - Suc k \<le> m"
      using Suc.prems(1-4) False shows_same(1,2) [OF v(3)] by simp_all
    obtain t where t: "balloc_loop (Suc m) 1 (of_nat (Suc k * BPB)) v = Inr (of_nat n, t)" "shows_blocks (balloc_view v n) v t"
      "txn p start (add_block (of_nat n) (add_block (BBLOCK (of_nat n) (sb v)) hs)) c t"
      using Suc.IH [OF pre v(2)] by blast
    have sq: "kseq (brelse b) f u = f v" for f :: "u32 K" using v(1) by (simp add: kmonad)
    have "balloc_loop (Suc (Suc m)) 1 (of_nat (k * BPB)) s = Inr (of_nat n, t)" unfolding b(2) if_not_P [OF False] sq by (rule t(1))
    moreover have "shows_blocks (balloc_view s n) s t" using shows_trans [OF v(3) t(2)] shows_same(3) [OF v(3)] by simp
    ultimately show ?thesis using t(3) shows_fields(2) [OF v(3)] by auto
  qed
qed

lemma balloc_full_loop:
  assumes "\<forall>n<unat (sb_size (sb s)). used s n" "sized s" "txn p start hs (Suc c) s" "unat (sb_size (sb s)) \<le> (k + m) * BPB"
    "k * BPB < 4294967296"
  shows "balloc_loop (Suc m) 1 (of_nat (k * BPB)) s = Inl (Panic ''balloc: out of blocks'')"
  using assms
proof (induction m arbitrary: k s)
  case 0
  let ?B = "of_nat (k * BPB) :: u32"
  have "unat ?B = k * BPB" using 0(5) by (simp only: unat_of_nat) simp
  then have "\<not> ?B < sb_size (sb s)" using 0(4) by (simp only: word_less_nat_alt) simp
  then show ?case by (simp add: kmonad panic_def del: of_nat_mult)
next
  case (Suc m)
  let ?B = "of_nat (k * BPB) :: u32" and ?z = "unat (sb_size (sb s))"
  have uB: "unat ?B = k * BPB" using Suc.prems(5) by (simp only: unat_of_nat) simp
  show ?case
  proof (cases "k * BPB < ?z")
    case True
    have z: "?z + BPB \<le> 4294967296" using Suc.prems(2) by (simp add: sized_def)
    have "bm_get (view s (of_nat k + sb_bmapstart (sb s))) i" if "i < min BPB (?z - k * BPB)" for i
      using used_round(2) [of k i s] that z Suc.prems(1) True by auto
    then have none: "balloc_bit BPB 0 ?B (sb_size (sb s)) (view s (of_nat k + sb_bmapstart (sb s))) = None"
      using balloc_bit_find [of ?B 0 BPB] True z unfolding uB by (simp add: find_None_iff)
    obtain b u where b: "opened p start hs s (of_nat k + sb_bmapstart (sb s)) b u"
      "balloc_loop (Suc (Suc m)) 1 ?B s = kseq (brelse b) (balloc_loop (Suc m) 1 (of_nat (Suc k * BPB))) u"
      using balloc_open [OF Suc.prems(2) True Suc.prems(3), of "Suc m"] unfolding none option.case by blast
    obtain v where v: "brelse b u = Inr ((), v)" "txn p start hs (Suc c) v" "shows_blocks (view s) s v"
      using close_run [OF Suc.prems(3) b(1)] by blast
    have sv: "sb v = sb s" "used v = used s" "sized v" using shows_fields(2) [OF v(3)] shows_same(2,4) [OF v(3)] Suc.prems(2) by simp_all
    have "balloc_loop (Suc m) 1 (of_nat (Suc k * BPB)) v = Inl (Panic ''balloc: out of blocks'')"
      using Suc.prems(1,4) True z v(2) sv(3) by (intro Suc.IH) (simp_all add: sv(1,2))
    moreover have "kseq (brelse b) f u = f v" for f :: "u32 K" using v(1) by (simp add: kmonad)
    ultimately show ?thesis unfolding b(2) by (simp del: balloc_loop.simps)
  next
    case False
    then have "\<not> ?B < sb_size (sb s)" unfolding word_less_nat_alt uB .
    then show ?thesis by (simp add: kmonad panic_def del: of_nat_mult)
  qed
qed

lemma bfree_run:
  assumes "sized s" "n < unat (sb_size (sb s))" "used s n" "txn p start hs (Suc c) s"
  defines "m \<equiv> BBLOCK (of_nat n) (sb s)"
  shows "\<exists>t. bfree 1 (of_nat n) s = Inr ((), t) \<and> txn p start (add_block m hs) c t \<and>
    shows_blocks ((view s)(m := bm_clear (view s m) (n mod BPB))) s t"
proof -
  have inv: "bc_inv p {} s" using assms(4) by (simp add: txn_def logged_def)
  have n: "unat (of_nat n :: u32) = n" using assms(1,2) by (simp add: sized_def unat_of_nat)
  have "on_disk s m" using assms(1,2) by (simp add: sized_def m_def)
  then obtain b u where b: "bread 1 m s = Inr (b, u)" "opened p start hs s m b u" using open_run [OF assms(4)] by blast
  have u: "b < length (bcache u)" "b_data (bcache u ! b) = view s m" using b(2) by (simp_all add: opened_def)
  obtain t where t: "kseq (modb b (\<lambda>x. x\<lparr>b_data := bm_clear (b_data x) (n mod BPB)\<rparr>)) (kseq (log_write b) (kseq (brelse b) (kret ()))) u = kret () t"
    "txn p start (add_block m hs) c t" "shows_blocks ((view s)(m := bm_clear (view s m) (n mod BPB))) s t"
    using save_run [OF assms(4) b(2), of "bm_clear (view s m) (n mod BPB)" "\<lambda>d. bm_clear d (n mod BPB)" "kret ()"] view_length [OF inv] by auto
  have "bfree 1 (of_nat n) s = Inr ((), t)"
    using b(1) u t(1) assms(3) unfolding kseq_unit bfree_def m_def [symmetric]
    by (simp add: kmonad n used_def Let_def m_def [symmetric])
  then show ?thesis using t(2,3) by blast
qed

section \<open>Properties\<close>

lemma same_map_block:
  assumes "n < unat (sb_size (sb s))" "m < unat (sb_size (sb s))" "sized s" "BBLOCK (of_nat m) (sb s) = BBLOCK (of_nat n) (sb s)"
  shows "m mod BPB = n mod BPB \<longleftrightarrow> m = n"
proof -
  have lt: "n < 4294967296" "m < 4294967296" using assms(1-3) by (simp_all add: sized_def)
  have "(of_nat (m div BPB) :: u32) = of_nat (n div BPB)" using assms(4) bblock_round [OF lt(1), of "sb s"] bblock_round [OF lt(2), of "sb s"] by simp
  moreover have "m div BPB < 4294967296" "n div BPB < 4294967296" using lt div_le_dividend le_less_trans by blast+
  moreover have "unat (of_nat k :: u32) = k" if "k < 4294967296" for k using that by (simp add: unat_of_nat)
  ultimately have "m div BPB = n div BPB" by metis
  then show ?thesis by (metis div_mult_mod_eq)
qed

text \<open>A change to one bit of the map, in terms of the blocks in use.\<close>

lemma used_after:
  assumes "n < unat (sb_size (sb s))" "m < unat (sb_size (sb s))" "sized s" "sb t = sb s" "bc_inv p {} s"
    and v: "view t (BBLOCK (of_nat m) (sb s)) =
      (if BBLOCK (of_nat m) (sb s) = BBLOCK (of_nat n) (sb s) then f (view s (BBLOCK (of_nat n) (sb s))) (n mod BPB) else view s (BBLOCK (of_nat m) (sb s)))"
    and f: "f = bm_set \<and> new = (m = n \<or> used s m) \<or> f = bm_clear \<and> new = (m \<noteq> n \<and> used s m)"
  shows "used t m = new"
proof -
  have "n mod BPB < BPB" by (simp add: BPB_def BSIZE_def)
  note sc = bm_set_clear [OF this view_length [OF assms(5)]]
  show ?thesis
    using f v sc same_map_block [OF assms(1-3)] by (auto simp: used_def assms(4))
qed

lemma ex_sized:
  assumes "sb t = superblock0\<lparr>sb_size := 100, sb_bmapstart := bm\<rparr>" "disksize t = 1000" "bm < 1000"
  shows "sized t" "n < 100 \<Longrightarrow> BBLOCK (of_nat n) (sb t) = bm"
proof -
  show b: "BBLOCK (of_nat n) (sb t) = bm" if "n < 100" for n
    using bblock_round [of n "sb t"] that by (simp add: assms(1) BPB_def BSIZE_def)
  have "(of_nat n :: u32) < 1000" if "n < 100" for n using that by (simp add: word_less_nat_alt unat_of_nat)
  then show "sized t" using assms b by (simp add: sized_def on_disk_def BPB_def BSIZE_def)
qed

text \<open>
  C18: \<open>balloc\<close> takes the first free block. Inside a transaction with room for two more blocks, and
  when some block of the file system is free, it returns the lowest such block, marks it and no
  other block as in use, fills it with zeros and leaves the contents of all blocks but this one and
  its block of the map as they were; nothing reaches the disk before the commit.
\<close>

theorem balloc_first_free:
  assumes "txn p start hs (Suc (Suc c)) s" "sized s" "first_free s n"
    "\<forall>m<unat (sb_size (sb s)). BBLOCK (of_nat m) (sb s) \<noteq> of_nat n"
  shows "\<exists>t hs'. balloc 1 s = Inr (of_nat n, t) \<and> txn p start hs' c t \<and> memdisk t = memdisk s \<and>
    (\<forall>m<unat (sb_size (sb s)). used t m \<longleftrightarrow> m = n \<or> used s m) \<and> view t (of_nat n) = replicate BSIZE 0 \<and>
    (\<forall>x. x \<noteq> of_nat n \<and> x \<noteq> BBLOCK (of_nat n) (sb s) \<longrightarrow> view t x = view s x)"
proof -
  let ?m = "BBLOCK (of_nat n) (sb s)"
  have n: "n < unat (sb_size (sb s))" "n < 4294967296" using assms(2,3) by (simp_all add: first_free_def sized_def)
  have inv: "bc_inv p {} s" using assms(1) by (simp add: txn_def logged_def)
  have "n div BPB - 0 \<le> 1048576" using n(2) by (simp add: BPB_def BSIZE_def)
  then obtain t where t: "balloc 1 s = Inr (of_nat n, t)" "shows_blocks (balloc_view s n) s t" "txn p start (add_block (of_nat n) (add_block ?m hs)) c t"
    using balloc_loop_run [OF assms(3,2) _ _ assms(1), of 0 1048576] by (auto simp: balloc_def simp del: balloc_loop.simps)
  note f = shows_fields [OF t(2)]
  have v: "view t x = (if x = of_nat n then replicate BSIZE 0 else if x = ?m then bm_set (view s ?m) (n mod BPB) else view s x)" for x
    by (simp add: f(1) balloc_view_def Let_def)
  have "used t m \<longleftrightarrow> m = n \<or> used s m" if "m < unat (sb_size (sb s))" for m
    using assms(4) that by (intro used_after [OF n(1) that assms(2) f(2) inv, of bm_set]) (auto simp: v)
  then show ?thesis using t(1,3) f(6) v by auto
qed

theorem balloc_first_free_witness:
  "\<exists>s t. binit (ex_fs 100 45) = Inr ((), s) \<and> balloc 1 s = Inr (0, t) \<and> used t 0 \<and> \<not> used t 1 \<and> view t 0 = replicate BSIZE 0"
proof -
  obtain s where s: "binit (ex_fs 100 45) = Inr ((), s)" "txn 0 2 [] 29 s" "view s = memdisk (ex_fs 100 45)" "disksize s = 1000"
    "sb s = superblock0\<lparr>sb_size := 100, sb_bmapstart := 45\<rparr>"
    using ex_fs_boot by blast
  note ex = ex_sized [OF s(5,4)]
  have u: "\<not> used s n" if "n < 8" for n
    using ex(2) [of n] that s(3) bm_bound [of n]
    by (simp add: used_def bm_get_bit ex_fs_def ex_disk_def ex_state_def kstate0_def BPB_def BSIZE_def)
  have tx: "txn 0 2 [] (Suc (Suc 27)) s" using s(2) by (simp add: eval_nat_numeral)
  have "first_free s 0" using u [of 0] by (simp add: first_free_def s(5))
  then obtain t where "balloc 1 s = Inr (of_nat 0, t)" "\<forall>m<unat (sb_size (sb s)). used t m \<longleftrightarrow> m = 0 \<or> used s m" "view t (of_nat 0) = replicate BSIZE 0"
    using balloc_first_free [OF tx ex(1), of 0] ex(2) by (auto simp: s(5))
  then show ?thesis using s(1) u [of 1] by (auto simp: s(5))
qed

text \<open>
  C38: a full disk is an error. When every block of the file system is in use, \<open>balloc\<close> panics instead of
  handing out a block.
\<close>

theorem balloc_out_of_blocks:
  assumes "txn p start hs (Suc c) s" "sized s" "\<forall>n<unat (sb_size (sb s)). used s n"
  shows "balloc 1 s = Inl (Panic ''balloc: out of blocks'')"
proof -
  have "unat (sb_size (sb s)) \<le> (0 + 1048576) * BPB" using assms(2) by (simp add: sized_def BPB_def BSIZE_def)
  then show ?thesis using balloc_full_loop [OF assms(3,2,1), of 0 1048576] by (simp add: balloc_def del: balloc_loop.simps)
qed

theorem balloc_out_of_blocks_witness:
  "\<exists>s. binit (ex_fs 100 46) = Inr ((), s) \<and> balloc 1 s = Inl (Panic ''balloc: out of blocks'')"
proof -
  obtain s where s: "binit (ex_fs 100 46) = Inr ((), s)" "txn 0 2 [] 29 s" "view s = memdisk (ex_fs 100 46)" "disksize s = 1000"
    "sb s = superblock0\<lparr>sb_size := 100, sb_bmapstart := 46\<rparr>"
    using ex_fs_boot by blast
  note ex = ex_sized [OF s(5,4)]
  have "bit (255 :: u8) k" if "k < 8" for k
  proof -
    have "(255 :: u8) = mask 8" by (simp add: mask_eq_exp_minus_1)
    then show ?thesis using that by (simp only: bit_mask_iff) simp
  qed
  then have "used s n" if "n < 100" for n
    using ex(2) [OF _ that] that s(3) bm_bound [of n] by (simp add: used_def bm_get_bit ex_fs_def BPB_def BSIZE_def)
  moreover have "txn 0 2 [] (Suc 28) s" using s(2) by (simp add: eval_nat_numeral)
  ultimately show ?thesis using balloc_out_of_blocks [of 0 2 "[]" 28 s] ex(1) s(1) by (simp add: s(5))
qed

text \<open>
  C19: allocating a block and freeing it again restores the map. \<open>balloc\<close> followed by \<open>bfree\<close> of its
  result returns, with the same blocks in use as before and every other block's contents unchanged.
\<close>

theorem balloc_bfree_restores:
  assumes "txn p start hs (Suc (Suc (Suc c))) s" "sized s" "first_free s n"
    "\<forall>m<unat (sb_size (sb s)). BBLOCK (of_nat m) (sb s) \<noteq> of_nat n"
  shows "\<exists>t hs'. kbind (balloc 1) (bfree 1) s = Inr ((), t) \<and> txn p start hs' c t \<and>
    (\<forall>x. x \<noteq> of_nat n \<longrightarrow> view t x = view s x) \<and> used t n = used s n"
proof -
  let ?m = "BBLOCK (of_nat n) (sb s)"
  have n: "n < unat (sb_size (sb s))" "n < 4294967296" "\<not> used s n" using assms(2,3) by (simp_all add: first_free_def sized_def)
  have inv: "bc_inv p {} s" using assms(1) by (simp add: txn_def logged_def)
  have b: "n mod BPB < BPB" by (simp add: BPB_def BSIZE_def)
  have "n div BPB - 0 \<le> 1048576" using n(2) by (simp add: BPB_def BSIZE_def)
  then obtain t where t: "balloc 1 s = Inr (of_nat n, t)" "shows_blocks (balloc_view s n) s t" "txn p start (add_block (of_nat n) (add_block ?m hs)) (Suc c) t"
    using balloc_loop_run [OF assms(3,2) _ _ assms(1), of 0 1048576] by (auto simp: balloc_def simp del: balloc_loop.simps)
  note f = shows_fields [OF t(2)]
  have mn: "?m \<noteq> of_nat n" using assms(4) n(1) by blast
  have v: "view t ?m = bm_set (view s ?m) (n mod BPB)" "view t x = view s x" if "x \<noteq> of_nat n" "x \<noteq> ?m" for x
    using mn that by (simp_all add: f(1) balloc_view_def Let_def)
  have vm: "view t ?m = bm_set (view s ?m) (n mod BPB)" using mn by (simp add: f(1) balloc_view_def Let_def)
  have ut: "used t n" using bm_set_clear(1) [OF b view_length [OF inv]] by (simp add: used_def f(2) vm)
  have st: "sized t" using assms(2) f(2,4) by (simp add: sized_def)
  obtain w where w: "bfree 1 (of_nat n) t = Inr ((), w)" "txn p start (add_block ?m (add_block (of_nat n) (add_block ?m hs))) c w"
    "shows_blocks ((view t)(?m := bm_clear (view t ?m) (n mod BPB))) t w"
    using bfree_run [OF st _ ut t(3)] n(1) by (auto simp: f(2))
  have "bm_clear (bm_set (view s ?m) (n mod BPB)) (n mod BPB) = view s ?m"
    using bm_clear_set [OF _ b view_length [OF inv]] n(3) by (simp add: used_def)
  then have vw: "view w x = view s x" if "x \<noteq> of_nat n" for x
    using shows_fields(1) [OF w(3)] v(2) [of x] that vm by simp
  moreover have "used w n = used s n" using vw [OF mn] shows_fields(2) [OF w(3)] f(2) by (simp add: used_def)
  ultimately show ?thesis using t(1) w(1,2) by (auto simp: kmonad)
qed

theorem balloc_bfree_restores_witness:
  "\<exists>s t. binit (ex_fs 100 45) = Inr ((), s) \<and> kbind (balloc 1) (bfree 1) s = Inr ((), t) \<and> view t 45 = view s 45"
proof -
  obtain s where s: "binit (ex_fs 100 45) = Inr ((), s)" "txn 0 2 [] 29 s" "view s = memdisk (ex_fs 100 45)" "disksize s = 1000"
    "sb s = superblock0\<lparr>sb_size := 100, sb_bmapstart := 45\<rparr>"
    using ex_fs_boot by blast
  note ex = ex_sized [OF s(5,4)]
  have "\<not> used s 0" using ex(2) [of 0] s(3) by (simp add: used_def bm_get_bit ex_fs_def ex_disk_def ex_state_def kstate0_def BSIZE_def)
  then have "first_free s 0" by (simp add: first_free_def s(5))
  moreover have "txn 0 2 [] (Suc (Suc (Suc 26))) s" using s(2) by (simp add: eval_nat_numeral)
  ultimately show ?thesis using balloc_bfree_restores [of 0 2 "[]" 26 s 0] ex s(1) by (auto simp: s(5))
qed

end
