(* ===== verification/Crash_Safety.thy ===== *)
theory Crash_Safety
  imports Block_Alloc
begin

text \<open>
  Crash safety of the log. The history of disk writes gives every state in which a crash can leave
  the disk: the old contents with an empty log, the new contents in the log, or the new contents
  installed. Every recovery, itself interrupted any number of times, stays inside these, and one that
  runs to its end leaves the old or the new contents.
\<close>

section \<open>What a crash can leave on the disk\<close>















section \<open>Starting again\<close>














end
