(* ===== verification/Clock_Sim.thy ===== *)
theory Clock_Sim
  imports Mencrypt
begin

text \<open>
  The stand-alone simulator of the clock queue, \<open>src/clock.c\<close>. Its global ring buffer, the hand
  and the page table that \<open>main\<close> passes in are the state; a pointer into the page table is an index;
  the output is the list of things printed. The simulator is the reference for the queue the
  kernel keeps per process.
\<close>

section \<open>State\<close>

definition SIM_CLOCKSIZE :: nat where "SIM_CLOCKSIZE = 8"

definition SIM_PTE_P :: u32 where "SIM_PTE_P = 0x001"
definition SIM_PTE_A :: u32 where "SIM_PTE_A = 0x020"
definition SIM_PTE_E :: u32 where "SIM_PTE_E = 0x200"

record clk_node =
  nd_vpn :: int
  nd_pte :: "nat option"

datatype sim_out = RefPage int | RemovePage int | QueueStart | QueueSlot int bool | QueueEnd | HitEnter

record clk_state =
  clk_queue :: "clk_node list"
  clk_hand :: int
  pgtable :: "u32 list"
  clk_out :: "sim_out list"

datatype sim_error = NullPte | QueueBounds | ScanFuel

type_synonym 'a S = "(clk_state, sim_error, 'a) kcomp"

text \<open>Array and pointer accesses; outside the arrays the behaviour of the C program is undefined.\<close>

definition slot :: "int \<Rightarrow> clk_node S" where
  "slot i = kbind (kget clk_queue) (\<lambda>q.
     if 0 \<le> i \<and> i < int (length q) then kret (q ! nat i) else kfail QueueBounds)"

definition set_slot :: "int \<Rightarrow> (clk_node \<Rightarrow> clk_node) \<Rightarrow> unit S" where
  "set_slot i f = kbind (slot i) (\<lambda>n. kmod (\<lambda>s. s\<lparr>clk_queue := (clk_queue s)[nat i := f n]\<rparr>))"

definition get_pte :: "nat option \<Rightarrow> u32 S" where
  "get_pte p = kbind (kget pgtable) (\<lambda>t. case p of None \<Rightarrow> kfail NullPte
     | Some i \<Rightarrow> if i < length t then kret (t ! i) else kfail NullPte)"

definition put_pte :: "nat option \<Rightarrow> u32 \<Rightarrow> unit S" where
  "put_pte p v = kbind (get_pte p) (\<lambda>_. kmod (\<lambda>s. s\<lparr>pgtable := (pgtable s)[the p := v]\<rparr>))"

definition say :: "sim_out \<Rightarrow> unit S" where
  "say e = kmod (\<lambda>s. s\<lparr>clk_out := clk_out s @ [e]\<rparr>)"

section \<open>Encryption stand-ins\<close>

definition sim_mencrypt :: "int \<Rightarrow> nat option \<Rightarrow> unit S" where
  "sim_mencrypt vpn pte =
     kbind (get_pte pte) (\<lambda>v.
     if v AND SIM_PTE_E \<noteq> 0 then kret ()
     else kseq (put_pte pte (v OR SIM_PTE_E))
     (kbind (get_pte pte) (\<lambda>v. put_pte pte (v AND NOT SIM_PTE_P))))"

definition sim_mdecrypt :: "int \<Rightarrow> nat option \<Rightarrow> unit S" where
  "sim_mdecrypt vpn pte =
     kbind (get_pte pte) (\<lambda>v.
     if v AND SIM_PTE_E = 0 then kret ()
     else kseq (put_pte pte (v AND NOT SIM_PTE_E))
     (kbind (get_pte pte) (\<lambda>v. put_pte pte (v OR SIM_PTE_P))))"

section \<open>Operations of the queue\<close>

fun clk_insert_loop :: "nat \<Rightarrow> int \<Rightarrow> nat option \<Rightarrow> unit S" where
  "clk_insert_loop 0 vpn pte = kfail ScanFuel"
| "clk_insert_loop (Suc n) vpn pte =
     kseq (kmod (\<lambda>s. s\<lparr>clk_hand := crem (clk_hand s + 1) (int SIM_CLOCKSIZE)\<rparr>))
     (kbind (kget clk_hand) (\<lambda>h.
     kbind (slot h) (\<lambda>x.
     if nd_vpn x = -1 then
       kseq (set_slot h (\<lambda>x. x\<lparr>nd_vpn := vpn\<rparr>))
       (set_slot h (\<lambda>x. x\<lparr>nd_pte := pte\<rparr>))
     else kbind (get_pte (nd_pte x)) (\<lambda>v.
     if v AND SIM_PTE_A = 0 then
       kseq (sim_mencrypt (nd_vpn x) (nd_pte x))
       (kseq (set_slot h (\<lambda>x. x\<lparr>nd_vpn := vpn\<rparr>))
       (set_slot h (\<lambda>x. x\<lparr>nd_pte := pte\<rparr>)))
     else kseq (put_pte (nd_pte x) (v AND NOT SIM_PTE_A))
       (clk_insert_loop n vpn pte)))))"

text \<open>The loop of \<open>clk_insert\<close> has no bound; after one round all reference bits are clear.\<close>

definition clk_insert :: "int \<Rightarrow> nat option \<Rightarrow> unit S" where
  "clk_insert vpn pte = kseq (clk_insert_loop (Suc SIM_CLOCKSIZE) vpn pte) (sim_mdecrypt vpn pte)"

fun clk_search :: "nat \<Rightarrow> int \<Rightarrow> int \<Rightarrow> int S" where
  "clk_search 0 i vpn = kret (-1)"
| "clk_search (Suc n) i vpn =
     kbind (kget clk_hand) (\<lambda>h.
     let idx = crem (h + i) (int SIM_CLOCKSIZE) in
     kbind (slot idx) (\<lambda>x.
     if nd_vpn x = vpn then kret idx else clk_search n (i + 1) vpn))"

fun clk_shift :: "nat \<Rightarrow> int \<Rightarrow> int \<Rightarrow> unit S" where
  "clk_shift 0 idx prev_tail = (if idx = prev_tail then kret () else kfail ScanFuel)"
| "clk_shift (Suc n) idx prev_tail =
     (if idx = prev_tail then kret ()
      else let next_idx = crem (idx + 1) (int SIM_CLOCKSIZE) in
      kbind (slot next_idx) (\<lambda>y.
      kseq (set_slot idx (\<lambda>x. x\<lparr>nd_vpn := nd_vpn y\<rparr>))
      (kseq (set_slot idx (\<lambda>x. x\<lparr>nd_pte := nd_pte y\<rparr>))
      (clk_shift n next_idx prev_tail))))"

definition clk_remove :: "int \<Rightarrow> unit S" where
  "clk_remove vpn =
     kbind (kget clk_hand) (\<lambda>prev_tail.
     kbind (clk_search SIM_CLOCKSIZE 0 vpn) (\<lambda>match_idx.
     if match_idx = -1 then kret ()
     else kseq (clk_shift SIM_CLOCKSIZE match_idx prev_tail)
     (kseq (set_slot prev_tail (\<lambda>x. x\<lparr>nd_vpn := -1\<rparr>))
     (kmod (\<lambda>s. s\<lparr>clk_hand := (if clk_hand s = 0 then int SIM_CLOCKSIZE - 1 else clk_hand s - 1)\<rparr>)))))"

definition clk_clear :: "unit S" where
  "clk_clear = kmod (\<lambda>s. s\<lparr>clk_queue := map (\<lambda>x. x\<lparr>nd_vpn := -1\<rparr>) (clk_queue s), clk_hand := -1\<rparr>)"

fun clk_print_loop :: "nat \<Rightarrow> int \<Rightarrow> unit S" where
  "clk_print_loop 0 i = kret ()"
| "clk_print_loop (Suc n) i =
     (let print_idx = crem (i + 1) (int SIM_CLOCKSIZE) in
      kbind (slot print_idx) (\<lambda>x.
      kseq (if nd_vpn x \<noteq> -1 then kbind (get_pte (nd_pte x)) (\<lambda>v. say (QueueSlot (nd_vpn x) (v AND SIM_PTE_A > 0)))
            else kret ())
      (clk_print_loop n print_idx)))"

definition clk_print :: "unit S" where
  "clk_print = kbind (kget clk_hand) (\<lambda>h. kseq (say QueueStart) (kseq (clk_print_loop SIM_CLOCKSIZE h) (say QueueEnd)))"

section \<open>References and removals\<close>

definition do_ref_page :: "int \<Rightarrow> nat option \<Rightarrow> unit S" where
  "do_ref_page vpn pte =
     kseq (say (RefPage vpn))
     (kbind (get_pte pte) (\<lambda>v.
     if v AND SIM_PTE_P \<noteq> 0 then put_pte pte (v OR SIM_PTE_A)
     else kseq (clk_insert vpn pte)
     (kbind (get_pte pte) (\<lambda>v. put_pte pte (v OR SIM_PTE_A)))))"

definition do_remove_page :: "int \<Rightarrow> unit S" where
  "do_remove_page vpn = kseq (say (RemovePage vpn)) (clk_remove vpn)"

text \<open>The prompt; the character read is not used.\<close>

definition wait_for_enter :: "unit S" where
  "wait_for_enter = say HitEnter"

text \<open>The program: the entries start encrypted, and the queue empty.\<close>

definition clk_start :: clk_state where
  "clk_start = \<lparr>clk_queue = replicate SIM_CLOCKSIZE \<lparr>nd_vpn = 0, nd_pte = None\<rparr>, clk_hand = -1,
     pgtable = replicate 12 (0 OR SIM_PTE_E), clk_out = []\<rparr>"

fun refs :: "nat list \<Rightarrow> unit S" where
  "refs [] = kret ()"
| "refs (i # is) = kseq (do_ref_page (int i) (Some i)) (refs is)"

definition clock_main :: "unit S" where
  "clock_main =
     kseq clk_clear
     (kseq (refs [0, 3, 1, 2])
     (kseq clk_print
     (kseq (refs [9, 7, 4, 6])
     (kseq wait_for_enter
     (kseq clk_print
     (kseq (refs [2])
     (kseq wait_for_enter
     (kseq clk_print
     (kseq (refs [10])
     (kseq wait_for_enter
     (kseq clk_print
     (kseq (refs [1, 2, 3])
     (kseq wait_for_enter
     (kseq clk_print
     (kseq (refs [11])
     (kseq wait_for_enter
     (kseq clk_print
     (kseq (do_remove_page 10)
     (kseq (do_remove_page 11)
     (kseq wait_for_enter
     clk_print))))))))))))))))))))"

section \<open>The queue in order\<close>

text \<open>The slots from the one after the hand, the oldest, to the one at the hand.\<close>

definition in_order :: "clk_state \<Rightarrow> clk_node list" where
  "in_order s = rotate (nat (clk_hand s + 1)) (clk_queue s)"

definition hand_ok :: "clk_state \<Rightarrow> bool" where
  "hand_ok s \<longleftrightarrow> length (clk_queue s) = SIM_CLOCKSIZE \<and> -1 \<le> clk_hand s \<and> clk_hand s < int SIM_CLOCKSIZE"

lemma length_in_order: "hand_ok s \<Longrightarrow> length (in_order s) = SIM_CLOCKSIZE"
  by (simp add: in_order_def hand_ok_def)

lemma wrap_index:
  assumes "i < Suc m" "k < Suc m"
  shows "(Suc i + k) mod Suc m = i \<longleftrightarrow> k = m"
proof (cases "Suc i + k < Suc m")
  case False
  then have "(Suc i + k) mod Suc m = Suc i + k - Suc m" using assms by (intro mod_nat_eqI) auto
  then show ?thesis using False assms by linarith
qed (use assms in auto)

lemma rotate_next:
  assumes "length q = Suc m" "h \<le> Suc m" "rotate h q = x # xs"
  shows "q ! (h mod Suc m) = x" "rotate (Suc (h mod Suc m)) (q[h mod Suc m := y]) = xs @ [y]"
proof -
  let ?i = "h mod Suc m"
  have r: "rotate ?i q = x # xs" using assms(1,3) rotate_conv_mod [of h q] by simp
  then show x: "q ! ?i = x" using nth_rotate [of 0 q ?i] assms(1) by simp
  show "rotate (Suc ?i) (q[?i := y]) = xs @ [y]"
  proof (rule nth_equalityI)
    have l: "length xs = m" using arg_cong [OF assms(3), of length] assms(1) by simp
    then show "length (rotate (Suc ?i) (q[?i := y])) = length (xs @ [y])" using assms(1) by simp
    fix k assume "k < length (rotate (Suc ?i) (q[?i := y]))"
    then have k: "k < Suc m" using assms(1) by simp
    have "rotate (Suc ?i) (q[?i := y]) ! k = q[?i := y] ! ((Suc ?i + k) mod Suc m)" using nth_rotate [of k "q[?i := y]" "Suc ?i"] k assms(1) by simp
    moreover have "(Suc ?i + k) mod Suc m = ?i \<longleftrightarrow> k = m" by (rule wrap_index) (use k in simp_all)
    moreover have "xs ! k = q ! ((Suc ?i + k) mod Suc m)" if "k < m"
      using nth_rotate [of "Suc k" q ?i] r that assms(1) by simp
    ultimately show "rotate (Suc ?i) (q[?i := y]) ! k = (xs @ [y]) ! k" using k l assms(1) by (auto simp: nth_append nth_list_update)
  qed
qed

text \<open>Advancing the hand and storing into the slot it reaches.\<close>

lemma advance:
  assumes "hand_ok s" "in_order s = x # xs"
  defines "h \<equiv> crem (clk_hand s + 1) (int SIM_CLOCKSIZE)"
  shows "0 \<le> h" "h < int SIM_CLOCKSIZE" "clk_queue s ! nat h = x"
    "in_order (s\<lparr>clk_hand := h, clk_queue := (clk_queue s)[nat h := y], pgtable := pt\<rparr>) = xs @ [y]"
    "hand_ok (s\<lparr>clk_hand := h, clk_queue := (clk_queue s)[nat h := y], pgtable := pt\<rparr>)"
proof -
  define n where "n = nat (clk_hand s + 1)"
  have q: "length (clk_queue s) = Suc 7" "n \<le> Suc 7" "rotate n (clk_queue s) = x # xs" and H: "clk_hand s + 1 = int n"
    using assms(1,2) by (auto simp: hand_ok_def in_order_def SIM_CLOCKSIZE_def n_def)
  have h: "h = int (n mod Suc 7)" unfolding h_def H by (simp add: crem_def SIM_CLOCKSIZE_def zmod_int)
  have "n mod Suc 7 < Suc 7" by simp
  then show "0 \<le> h" "h < int SIM_CLOCKSIZE" by (simp_all add: h SIM_CLOCKSIZE_def)
  have nh: "nat h = n mod Suc 7" "nat (h + 1) = Suc (n mod Suc 7)" by (simp_all add: h nat_add_distrib)
  show "clk_queue s ! nat h = x" unfolding nh by (rule rotate_next(1) [OF q])
  show "in_order (s\<lparr>clk_hand := h, clk_queue := (clk_queue s)[nat h := y], pgtable := pt\<rparr>) = xs @ [y]"
    using rotate_next(2) [OF q, of y] by (simp add: in_order_def nh)
  show "hand_ok (s\<lparr>clk_hand := h, clk_queue := (clk_queue s)[nat h := y], pgtable := pt\<rparr>)"
    using \<open>0 \<le> h\<close> \<open>h < int SIM_CLOCKSIZE\<close> q(1) by (simp add: hand_ok_def SIM_CLOCKSIZE_def)
qed

section \<open>Second chance\<close>

definition flag :: "u32 \<Rightarrow> u32 list \<Rightarrow> clk_node \<Rightarrow> bool" where
  "flag f pt x \<longleftrightarrow> pt ! the (nd_pte x) AND f \<noteq> 0"

definition upd_pte :: "(u32 \<Rightarrow> u32) \<Rightarrow> nat \<Rightarrow> u32 list \<Rightarrow> u32 list" where
  "upd_pte f i pt = pt[i := f (pt ! i)]"

definition enc_bits :: "u32 \<Rightarrow> u32" where
  "enc_bits v = (if v AND SIM_PTE_E \<noteq> 0 then v else (v OR SIM_PTE_E) AND NOT SIM_PTE_P)"

definition dec_bits :: "u32 \<Rightarrow> u32" where
  "dec_bits v = (if v AND SIM_PTE_E = 0 then v else (v AND NOT SIM_PTE_E) OR SIM_PTE_P)"

definition unref :: "clk_node \<Rightarrow> u32 list \<Rightarrow> u32 list" where
  "unref x = upd_pte (\<lambda>v. v AND NOT SIM_PTE_A) (the (nd_pte x))"

definition clk_evict :: "clk_node \<Rightarrow> u32 list \<Rightarrow> u32 list" where
  "clk_evict x pt = (if nd_vpn x = -1 then pt else upd_pte enc_bits (the (nd_pte x)) pt)"

definition evictable :: "u32 list \<Rightarrow> clk_node \<Rightarrow> bool" where
  "evictable pt x \<longleftrightarrow> nd_vpn x = -1 \<or> \<not> flag SIM_PTE_A pt x"

text \<open>A page in a slot has an entry in the table, and no two slots hold the same one.\<close>

definition slots_ok :: "clk_node list \<Rightarrow> nat \<Rightarrow> bool" where
  "slots_ok r n \<longleftrightarrow> (\<forall>x\<in>set r. nd_vpn x \<noteq> -1 \<longrightarrow> (\<exists>p<n. nd_pte x = Some p)) \<and>
     distinct (map nd_pte (filter (\<lambda>x. nd_vpn x \<noteq> -1) r))"

lemma get_pte_run [simp]: "i < length (pgtable s) \<Longrightarrow> get_pte (Some i) s = Inr (pgtable s ! i, s)"
  by (simp add: get_pte_def kmonad)

lemma put_pte_run [simp]: "i < length (pgtable s) \<Longrightarrow> put_pte (Some i) v s = Inr ((), s\<lparr>pgtable := (pgtable s)[i := v]\<rparr>)"
  by (simp add: put_pte_def kmonad)

lemma slot_run [simp]: "0 \<le> i \<Longrightarrow> i < int (length (clk_queue s)) \<Longrightarrow> slot i s = Inr (clk_queue s ! nat i, s)"
  by (simp add: slot_def kmonad)

lemma set_slot_run [simp]:
  "0 \<le> i \<Longrightarrow> i < int (length (clk_queue s)) \<Longrightarrow> set_slot i f s = Inr ((), s\<lparr>clk_queue := (clk_queue s)[nat i := f (clk_queue s ! nat i)]\<rparr>)"
  by (simp add: set_slot_def kmonad)

lemma sim_mencrypt_run:
  "i < length (pgtable s) \<Longrightarrow> sim_mencrypt v (Some i) s = Inr ((), s\<lparr>pgtable := upd_pte enc_bits i (pgtable s)\<rparr>)"
  by (simp add: sim_mencrypt_def kmonad upd_pte_def enc_bits_def)

lemma sim_mdecrypt_run:
  "i < length (pgtable s) \<Longrightarrow> sim_mdecrypt v (Some i) s = Inr ((), s\<lparr>pgtable := upd_pte dec_bits i (pgtable s)\<rparr>)"
  by (simp add: sim_mdecrypt_def kmonad upd_pte_def dec_bits_def)

text \<open>One round of the scan.\<close>

lemma scan_miss:
  assumes "hand_ok s" "in_order s = x # xs" "\<not> evictable (pgtable s) x" "slots_ok (x # xs) (length (pgtable s))"
  shows "\<exists>t. clk_insert_loop (Suc n) v p s = clk_insert_loop n v p t \<and> hand_ok t \<and> in_order t = xs @ [x] \<and>
    pgtable t = unref x (pgtable s) \<and> clk_out t = clk_out s"
proof -
  define h where "h = crem (clk_hand s + 1) (int SIM_CLOCKSIZE)"
  obtain i where i: "nd_pte x = Some i" "i < length (pgtable s)" "nd_vpn x \<noteq> -1" "pgtable s ! i AND SIM_PTE_A \<noteq> 0"
    using assms(3,4) by (auto simp: evictable_def slots_ok_def flag_def)
  note ad = advance [OF assms(1,2), folded h_def]
  have l: "h < int (length (clk_queue s))" using ad(2) assms(1) by (simp add: hand_ok_def)
  let ?t = "s\<lparr>clk_hand := h, clk_queue := (clk_queue s)[nat h := x], pgtable := unref x (pgtable s)\<rparr>"
  have q: "(clk_queue s)[nat h := x] = clk_queue s" using ad(3) list_update_id by metis
  have "clk_insert_loop (Suc n) v p s = clk_insert_loop n v p ?t"
    using i l ad(1,3) unfolding q by (simp add: kmonad h_def [symmetric] unref_def upd_pte_def)
  then show ?thesis using ad(4,5) by (intro exI [of _ ?t]) simp
qed

lemma scan_hit:
  assumes "hand_ok s" "in_order s = x # xs" "evictable (pgtable s) x" "slots_ok (x # xs) (length (pgtable s))"
  shows "\<exists>t. clk_insert_loop (Suc n) v p s = Inr ((), t) \<and> hand_ok t \<and> in_order t = xs @ [\<lparr>nd_vpn = v, nd_pte = p\<rparr>] \<and>
    pgtable t = clk_evict x (pgtable s) \<and> clk_out t = clk_out s"
proof -
  define h where "h = crem (clk_hand s + 1) (int SIM_CLOCKSIZE)"
  note ad = advance [OF assms(1,2), folded h_def]
  have l: "h < int (length (clk_queue s))" "nat h < length (clk_queue s)" using ad(1,2) assms(1) by (simp_all add: hand_ok_def)
  let ?n = "x\<lparr>nd_vpn := v, nd_pte := p\<rparr>"
  let ?t = "s\<lparr>clk_hand := h, clk_queue := (clk_queue s)[nat h := ?n], pgtable := clk_evict x (pgtable s)\<rparr>"
  have x: "?n = \<lparr>nd_vpn = v, nd_pte = p\<rparr>" by (cases x) simp
  have "clk_insert_loop (Suc n) v p s = Inr ((), ?t)"
  proof (cases "nd_vpn x = -1")
    case True
    then show ?thesis using l ad(1,3) by (simp add: kmonad h_def [symmetric] clk_evict_def)
  next
    case False
    then obtain i where "nd_pte x = Some i" "i < length (pgtable s)" "pgtable s ! i AND SIM_PTE_A = 0"
      using assms(3,4) by (auto simp: evictable_def slots_ok_def flag_def)
    then show ?thesis using False l ad(1,3) by (simp add: kmonad h_def [symmetric] clk_evict_def sim_mencrypt_run)
  qed
  then show ?thesis using ad(4) [where y = ?n and pt = "clk_evict x (pgtable s)"] ad(5) [where y = ?n and pt = "clk_evict x (pgtable s)"] unfolding x by (intro exI [of _ ?t]) (simp add: x)
qed

definition unrefs :: "clk_node list \<Rightarrow> u32 list \<Rightarrow> u32 list" where
  "unrefs xs pt = fold unref xs pt"

lemma unref_simps [simp]: "length (unref x pt) = length pt" "length (unrefs xs pt) = length pt" "unrefs [] pt = pt"
  "unrefs (x # xs) pt = unrefs xs (unref x pt)" "unrefs (xs @ ys) pt = unrefs ys (unrefs xs pt)"
proof -
  show l: "length (unref x pt) = length pt" for x pt by (simp add: unref_def upd_pte_def)
  show "length (unrefs xs pt) = length pt" by (induction xs arbitrary: pt) (simp_all add: unrefs_def l)
qed (simp_all add: unrefs_def)

lemma slots_ok_rotate: "slots_ok (xs @ ys) n = slots_ok (ys @ xs) n"
  by (auto simp: slots_ok_def)

lemma slots_ok_Cons:
  "slots_ok (x # xs) n \<longleftrightarrow> slots_ok xs n \<and> (nd_vpn x \<noteq> -1 \<longrightarrow> (\<exists>p<n. nd_pte x = Some p) \<and> (\<forall>y\<in>set xs. nd_vpn y \<noteq> -1 \<longrightarrow> nd_pte y \<noteq> nd_pte x))"
  by (auto simp: slots_ok_def image_iff)

lemma unref_other:
  assumes "slots_ok (x # xs) (length pt)" "nd_vpn x \<noteq> -1" "y \<in> set xs"
  shows "evictable (unref x pt) y = evictable pt y"
proof -
  obtain i where i: "nd_pte x = Some i" using assms(1,2) by (auto simp: slots_ok_Cons)
  have "the (nd_pte y) \<noteq> i" if "nd_vpn y \<noteq> -1"
    using assms that i unfolding slots_ok_def by (force simp: image_iff)
  then show ?thesis by (cases "nd_vpn y = -1") (simp_all add: evictable_def flag_def unref_def upd_pte_def i)
qed

lemma unref_same:
  assumes "slots_ok (x # xs) (length pt)"
  shows "evictable (unref x pt) x"
proof (cases "nd_vpn x = -1")
  case False
  then obtain i where "nd_pte x = Some i" "i < length pt" using assms by (auto simp: slots_ok_Cons)
  then show ?thesis by (simp add: evictable_def flag_def unref_def upd_pte_def and.assoc)
qed (simp add: evictable_def)

text \<open>The scan passes over \<open>zs\<close>, none of which can be evicted.\<close>

lemma scan_over:
  assumes "hand_ok s" "in_order s = zs @ ys" "\<forall>z\<in>set zs. \<not> evictable (pgtable s) z" "slots_ok (zs @ ys) (length (pgtable s))"
  shows "\<exists>t. clk_insert_loop (length zs + n) v p s = clk_insert_loop n v p t \<and> hand_ok t \<and> in_order t = ys @ zs \<and>
    pgtable t = unrefs zs (pgtable s) \<and> clk_out t = clk_out s \<and>
    (\<forall>y\<in>set ys. evictable (pgtable t) y = evictable (pgtable s) y) \<and> (\<forall>z\<in>set zs. evictable (pgtable t) z)"
  using assms
proof (induction zs arbitrary: s ys)
  case Nil
  then show ?case by (intro exI [of _ s]) simp
next
  case (Cons z zs)
  have z: "nd_vpn z \<noteq> -1" using Cons.prems(3) by (auto simp: evictable_def)
  obtain t where t: "clk_insert_loop (Suc (length zs + n)) v p s = clk_insert_loop (length zs + n) v p t" "hand_ok t"
    "in_order t = zs @ (ys @ [z])" "pgtable t = unref z (pgtable s)" "clk_out t = clk_out s"
    using scan_miss [OF Cons.prems(1), of z "zs @ ys" "length zs + n" v p] Cons.prems(2-4) by auto
  have ok: "slots_ok (zs @ ys @ [z]) (length (pgtable t))" using Cons.prems(4) slots_ok_rotate [of "[z]" "zs @ ys"] t(4) by simp
  have same: "evictable (pgtable t) y = evictable (pgtable s) y" if "y \<in> set (zs @ ys)" for y
    using unref_other [OF _ z, of "zs @ ys" "pgtable s" y] Cons.prems(4) that by (simp add: t(4))
  have "\<forall>z\<in>set zs. \<not> evictable (pgtable t) z" using same Cons.prems(3) by simp
  then obtain u where u: "clk_insert_loop (length zs + n) v p t = clk_insert_loop n v p u" "hand_ok u" "in_order u = (ys @ [z]) @ zs"
    "pgtable u = unrefs zs (pgtable t)" "clk_out u = clk_out t" "\<forall>y\<in>set (ys @ [z]). evictable (pgtable u) y = evictable (pgtable t) y"
    "\<forall>z\<in>set zs. evictable (pgtable u) z"
    using Cons.IH [OF t(2,3) _ ok] by blast
  have "evictable (pgtable t) z" unfolding t(4) using unref_same Cons.prems(4) by simp
  then show ?case using u t same by (intro exI [of _ u]) (simp del: clk_insert_loop.simps)
qed

section \<open>Removal\<close>

abbreviation ix :: "nat \<Rightarrow> nat" where
  "ix n \<equiv> n mod SIM_CLOCKSIZE"

lemma crem_ix: "crem (int a) (int SIM_CLOCKSIZE) = int (ix a)"
  by (simp add: crem_def zmod_int)

lemma ix_lt [simp]: "ix a < SIM_CLOCKSIZE"
  by (simp add: SIM_CLOCKSIZE_def)

lemma ix_ne:
  assumes "m < SIM_CLOCKSIZE" "0 < e" "e < SIM_CLOCKSIZE"
  shows "ix (m + e) \<noteq> m"
proof (cases "m + e < SIM_CLOCKSIZE")
  case False
  then have "ix (m + e) = m + e - SIM_CLOCKSIZE" using assms by (intro mod_nat_eqI) auto
  then show ?thesis using False assms by linarith
qed (use assms in simp)

lemma ix_reach:
  assumes "m < SIM_CLOCKSIZE"
  obtains j where "j < SIM_CLOCKSIZE" "ix (h + j) = m"
proof
  let ?j = "if ix h \<le> m then m - ix h else m + SIM_CLOCKSIZE - ix h"
  show "?j < SIM_CLOCKSIZE" using assms ix_lt [of h] by auto
  have "ix h + ?j = m \<or> ix h + ?j = m + SIM_CLOCKSIZE" using less_imp_le [OF ix_lt, of h] by (cases "ix h \<le> m") (simp_all del: ix_lt)
  then have "ix (ix h + ?j) = m" using assms by (metis mod_add_self2 mod_less)
  then show "ix (h + ?j) = m" by (simp only: mod_add_left_eq)
qed

lemma ix_inj:
  assumes "j < SIM_CLOCKSIZE" "k < SIM_CLOCKSIZE"
  shows "ix (a + j) = ix (a + k) \<longleftrightarrow> j = k"
proof -
  have ne: "ix (a + j) \<noteq> ix (a + k)" if "j < k" "k < SIM_CLOCKSIZE" for j k
  proof -
    have "ix (ix (a + j) + (k - j)) \<noteq> ix (a + j)" using ix_ne [of "ix (a + j)" "k - j"] that by simp
    moreover have "a + j + (k - j) = a + k" using that by simp
    ultimately show ?thesis unfolding mod_add_left_eq by metis
  qed
  show ?thesis using ne [of j k] ne [of k j] assms by (metis linorder_neqE_nat)
qed

lemma search_run:
  assumes "length (clk_queue s) = SIM_CLOCKSIZE" "clk_hand s = int h"
  shows "clk_search n (int i) v s = Inr (case find (\<lambda>j. nd_vpn (clk_queue s ! ix (h + j)) = v) [i..<i + n] of None \<Rightarrow> -1 | Some j \<Rightarrow> int (ix (h + j)), s)"
proof (induction n arbitrary: i)
  case (Suc n)
  have c: "crem (clk_hand s + int i) (int SIM_CLOCKSIZE) = int (ix (h + i))" using crem_ix [of "h + i"] assms(2) by simp
  have sl: "slot (int (ix (h + i))) s = Inr (clk_queue s ! ix (h + i), s)" using assms(1) by simp
  have up: "[i..<i + Suc n] = i # [Suc i..<Suc i + n]" by (simp add: upt_conv_Cons del: upt_Suc)
  have "int (Suc i) = int i + 1" by simp
  note ih = Suc.IH [of "Suc i", unfolded this]
  show ?case unfolding up using ih sl by (simp add: kmonad c Let_def del: upt_Suc)
qed (simp add: kmonad)

lemma shift_run:
  assumes "length (clk_queue s) = SIM_CLOCKSIZE" "m < SIM_CLOCKSIZE" "d < SIM_CLOCKSIZE" "d \<le> n"
  shows "\<exists>q. clk_shift n (int m) (int (ix (m + d))) s = Inr ((), s\<lparr>clk_queue := q\<rparr>) \<and> length q = SIM_CLOCKSIZE \<and>
    (\<forall>e<SIM_CLOCKSIZE. q ! ix (m + e) = (if e < d then clk_queue s ! ix (m + e + 1) else clk_queue s ! ix (m + e)))"
  using assms
proof (induction d arbitrary: m s n)
  case 0
  then show ?case by (intro exI [of _ "clk_queue s"], cases n) (simp_all add: kmonad)
next
  case (Suc d)
  obtain k where k: "n = Suc k" "d \<le> k" using Suc.prems(4) by (cases n) auto
  have ne: "m \<noteq> ix (m + Suc d)" using ix_ne [OF Suc.prems(2), of "Suc d"] Suc.prems(3) by simp
  let ?y = "clk_queue s ! ix (m + 1)"
  let ?s = "s\<lparr>clk_queue := (clk_queue s)[m := (clk_queue s ! m)\<lparr>nd_vpn := nd_vpn ?y, nd_pte := nd_pte ?y\<rparr>]\<rparr>"
  have y: "(clk_queue s ! m)\<lparr>nd_vpn := nd_vpn ?y, nd_pte := nd_pte ?y\<rparr> = ?y" by (cases "clk_queue s ! m"; cases ?y) simp
  have tl: "ix (m + Suc d) = ix (ix (m + 1) + d)" by (simp add: mod_add_left_eq)
  obtain q where q: "clk_shift k (int (ix (m + 1))) (int (ix (m + Suc d))) ?s = Inr ((), s\<lparr>clk_queue := q\<rparr>)" "length q = SIM_CLOCKSIZE"
    "\<forall>e<SIM_CLOCKSIZE. q ! ix (ix (m + 1) + e) = (if e < d then (clk_queue s)[m := ?y] ! ix (ix (m + 1) + e + 1) else (clk_queue s)[m := ?y] ! ix (ix (m + 1) + e))"
    using Suc.IH [of ?s "ix (m + 1)" k] Suc.prems(1,3) k(2) unfolding tl y by auto
  have "clk_shift n (int m) (int (ix (m + Suc d))) s = Inr ((), s\<lparr>clk_queue := q\<rparr>)"
    using q(1) ne Suc.prems(1,2) crem_ix [of "m + 1"] by (simp add: k(1) kmonad Let_def add.commute)
  moreover have "q ! ix (m + e) = (if e < Suc d then clk_queue s ! ix (m + e + 1) else clk_queue s ! ix (m + e))" if e: "e < SIM_CLOCKSIZE" for e
  proof (cases e)
    case 0
    have "ix (ix (m + 1) + 7) = m" using Suc.prems(2) unfolding SIM_CLOCKSIZE_def by presburger
    then have "q ! m = ?y" using q(3) [rule_format, of 7] Suc.prems(1-3) by (simp add: SIM_CLOCKSIZE_def)
    then show ?thesis using 0 Suc.prems(2) by simp
  next
    case (Suc e')
    have i1: "ix (ix (m + 1) + e') = ix (m + e)" "ix (ix (m + 1) + e' + 1) = ix (m + e + 1)" 
      using mod_add_left_eq [of "m + 1" SIM_CLOCKSIZE e'] mod_add_left_eq [of "m + 1" SIM_CLOCKSIZE "e' + 1"] by (simp_all add: Suc)
    have i2: "ix (m + e) \<noteq> m" "e < Suc d \<Longrightarrow> ix (m + (e + 1)) \<noteq> m"
      using ix_ne [OF Suc.prems(2), of e] ix_ne [OF Suc.prems(2), of "e + 1"] Suc e Suc.prems(3) by auto
    show ?thesis using q(3) [rule_format, of e'] i2 Suc e unfolding i1 by (auto simp: add.assoc)
  qed
  ultimately show ?case using q(2) by blast
qed

lemma in_order_nth:
  assumes "length (clk_queue s) = SIM_CLOCKSIZE" "clk_hand s = int h" "j < SIM_CLOCKSIZE"
  shows "in_order s ! j = clk_queue s ! ix (h + 1 + j)"
proof -
  have "nat (int h + 1) = h + 1" by simp
  then show ?thesis using nth_rotate [of j "clk_queue s" "h + 1"] assms by (simp add: in_order_def)
qed

text \<open>The slots after the hand has moved one step back.\<close>

lemma in_order_back:
  assumes "length q = SIM_CLOCKSIZE" "h < SIM_CLOCKSIZE" "j < SIM_CLOCKSIZE"
  defines "h' \<equiv> if int h = 0 then int SIM_CLOCKSIZE - 1 else int h - 1"
  shows "in_order (s\<lparr>clk_queue := q, clk_hand := h'\<rparr>) ! j = q ! ix (h + j)" "hand_ok (s\<lparr>clk_queue := q, clk_hand := h'\<rparr>)"
proof -
  have "nat (h' + 1) = (if h = 0 then SIM_CLOCKSIZE else h)" using assms(2) by (simp add: h'_def)
  moreover have "rotate SIM_CLOCKSIZE q ! j = q ! ix j" using nth_rotate [of j q SIM_CLOCKSIZE] assms(1,3) by simp
  ultimately show "in_order (s\<lparr>clk_queue := q, clk_hand := h'\<rparr>) ! j = q ! ix (h + j)"
    using nth_rotate [of j q h] assms(1,3) by (simp add: in_order_def)
  show "hand_ok (s\<lparr>clk_queue := q, clk_hand := h'\<rparr>)" using assms(1,2) by (simp add: hand_ok_def h'_def SIM_CLOCKSIZE_def)
qed

lemma search_finds:
  assumes "length (clk_queue s) = SIM_CLOCKSIZE" "clk_hand s = int h" "m < SIM_CLOCKSIZE"
    "\<And>k. k < SIM_CLOCKSIZE \<Longrightarrow> nd_vpn (clk_queue s ! k) = v \<longleftrightarrow> k = m"
  shows "clk_search SIM_CLOCKSIZE 0 v s = Inr (int m, s)"
proof -
  let ?P = "\<lambda>j. nd_vpn (clk_queue s ! ix (h + j)) = v"
  have P: "?P j \<longleftrightarrow> ix (h + j) = m" for j using assms(4) by simp
  obtain j where "j < SIM_CLOCKSIZE" "ix (h + j) = m" using ix_reach [OF assms(3)] .
  then have "find ?P [0..<0 + SIM_CLOCKSIZE] \<noteq> None" by (auto simp: find_None_iff P)
  then obtain j where "find ?P [0..<0 + SIM_CLOCKSIZE] = Some j" by blast
  moreover from this have "ix (h + j) = m" using P by (auto simp: find_Some_iff)
  ultimately show ?thesis using search_run [OF assms(1,2), of SIM_CLOCKSIZE 0 v] by simp
qed

lemma at_unique:
  assumes "nd_vpn x = v" "v \<notin> nd_vpn ` set (ys @ zs)" "j < length (ys @ x # zs)"
  shows "nd_vpn ((ys @ x # zs) ! j) = v \<longleftrightarrow> j = length ys"
proof (cases "j < length ys \<or> j = length ys")
  case True
  moreover have "nd_vpn (ys ! j) \<noteq> v" if "j < length ys" using assms(2) that by (metis UnCI imageI nth_mem set_append)
  ultimately show ?thesis using assms(1) by (auto simp: nth_append)
next
  case False
  then obtain i where i: "j = length ys + Suc i" using less_imp_Suc_add [of "length ys" j] by auto
  then have "zs ! i \<in> set zs" using assms(3) by simp
  then show ?thesis using assms(2) i by (auto simp: nth_append)
qed

lemma remove_run:
  assumes "hand_ok s" "0 \<le> clk_hand s" "in_order s = ys @ x # zs" "nd_vpn x = v" "v \<notin> nd_vpn ` set (ys @ zs)"
  shows "\<exists>t e. clk_remove v s = Inr ((), t) \<and> hand_ok t \<and> in_order t = e # ys @ zs \<and> nd_vpn e = -1 \<and> pgtable t = pgtable s \<and> clk_out t = clk_out s"
proof -
  let ?q = "clk_queue s" and ?p = "length ys"
  obtain h where h: "clk_hand s = int h" "h < SIM_CLOCKSIZE" using assms(1,2) by (metis hand_ok_def nonneg_int_cases of_nat_less_iff)
  have l: "length ?q = SIM_CLOCKSIZE" "length (ys @ x # zs) = SIM_CLOCKSIZE" using assms(1) length_in_order [OF assms(1)] by (simp_all add: hand_ok_def assms(3))
  have p: "?p < SIM_CLOCKSIZE" using l(2) by simp
  define m where "m = ix (h + 1 + ?p)"
  define d where "d = SIM_CLOCKSIZE - 1 - ?p"
  have r: "(ys @ x # zs) ! j = ?q ! ix (h + 1 + j)" if "j < SIM_CLOCKSIZE" for j using in_order_nth [OF l(1) h(1) that] by (simp add: assms(3))
  have uniq: "nd_vpn (?q ! k) = v \<longleftrightarrow> k = m" if k: "k < SIM_CLOCKSIZE" for k
  proof -
    obtain j where j: "j < SIM_CLOCKSIZE" "ix (h + 1 + j) = k" using ix_reach [OF k] .
    have "nd_vpn ((ys @ x # zs) ! j) = v \<longleftrightarrow> j = ?p"
      using at_unique [OF assms(4,5)] j(1) l(2) by simp
    moreover have "k = m \<longleftrightarrow> j = ?p" using j ix_inj [OF j(1) p, of "h + 1"] by (simp add: m_def)
    ultimately show ?thesis using r [OF j(1)] j(2) by simp
  qed
  have ml: "m < SIM_CLOCKSIZE" "d < SIM_CLOCKSIZE" "ix (m + d) = h"
    using p h(2) mod_add_left_eq [of "h + 1 + ?p" SIM_CLOCKSIZE d] by (simp_all add: m_def d_def)
  have ms: "clk_search SIM_CLOCKSIZE 0 v s = Inr (int m, s)" by (rule search_finds [OF l(1) h(1) ml(1) uniq])
  obtain q where q: "clk_shift SIM_CLOCKSIZE (int m) (int h) s = Inr ((), s\<lparr>clk_queue := q\<rparr>)" "length q = SIM_CLOCKSIZE"
    "\<forall>e<SIM_CLOCKSIZE. q ! ix (m + e) = (if e < d then ?q ! ix (m + e + 1) else ?q ! ix (m + e))"
    using shift_run [OF l(1) ml(1,2), of SIM_CLOCKSIZE] ml(2) unfolding ml(3) by auto
  let ?e = "(q ! h)\<lparr>nd_vpn := -1\<rparr>" and ?h = "if int h = 0 then int SIM_CLOCKSIZE - 1 else int h - 1"
  let ?t = "s\<lparr>clk_queue := q[h := ?e], clk_hand := ?h\<rparr>"
  have run: "clk_remove v s = Inr ((), ?t)"
    using ms q(1,2) h by (simp add: clk_remove_def kmonad)
  have bk: "in_order ?t ! j = q[h := ?e] ! ix (h + j)" if "j < SIM_CLOCKSIZE" for j
    by (rule in_order_back(1) [OF _ h(2) that]) (simp add: q(2))
  have ok: "hand_ok ?t" by (rule in_order_back(2) [OF _ h(2) h(2)]) (simp add: q(2))
  have "in_order ?t = ?e # ys @ zs"
  proof (rule nth_equalityI)
    show "length (in_order ?t) = length (?e # ys @ zs)" using length_in_order [OF ok] l(2) by simp
    fix j assume "j < length (in_order ?t)"
    then have j: "j < SIM_CLOCKSIZE" using length_in_order [OF ok] by simp
    show "in_order ?t ! j = (?e # ys @ zs) ! j"
    proof (cases j)
      case 0
      then show ?thesis using bk [OF j] h(2) q(2) by simp
    next
      case (Suc i)
      have jh: "ix (h + j) \<noteq> h" using ix_ne [OF h(2) _ j] Suc by simp
      have "q ! ix (h + j) = (ys @ zs) ! i"
      proof (cases "i < ?p")
        case True
        then have "h + 1 + ?p + (SIM_CLOCKSIZE + i - ?p) = h + 1 + i + SIM_CLOCKSIZE" using p by simp
        then have "ix (m + (SIM_CLOCKSIZE + i - ?p)) = ix (h + 1 + i)" by (simp only: m_def mod_add_left_eq mod_add_self2)
        then show ?thesis using q(3) [rule_format, of "SIM_CLOCKSIZE + i - ?p"] r [of i] True p Suc by (simp add: d_def nth_append)
      next
        case False
        then have e: "ix (m + (i - ?p)) = ix (h + 1 + i)" "ix (m + (i - ?p) + 1) = ix (h + 1 + (i + 1))"
          using mod_add_left_eq [of "h + 1 + ?p" SIM_CLOCKSIZE "i - ?p"] mod_add_left_eq [of "h + 1 + ?p" SIM_CLOCKSIZE "i - ?p + 1"]
          by (simp_all add: m_def)
        have "q ! ix (h + 1 + i) = ?q ! ix (h + 1 + (i + 1))"
          using q(3) [rule_format, of "i - ?p"] False j Suc unfolding e by (simp add: d_def)
        then show ?thesis using r [of "i + 1"] False j Suc by (simp add: nth_append Suc_diff_le)
      qed
      then show ?thesis using bk [OF j] jh Suc by simp
    qed
  qed
  then show ?thesis using run ok by (intro exI [of _ ?t] exI [of _ ?e]) simp
qed

section \<open>Insertion\<close>

lemma length_clk_evict [simp]: "length (clk_evict x pt) = length pt" "length (upd_pte f i pt) = length pt"
  by (simp_all add: clk_evict_def upd_pte_def)

lemma insert_run:
  assumes "hand_ok s" "slots_ok (in_order s) (length (pgtable s))" "p < length (pgtable s)"
  defines "zs \<equiv> takeWhile (\<lambda>x. \<not> evictable (pgtable s) x) (in_order s)"
    and "r \<equiv> dropWhile (\<lambda>x. \<not> evictable (pgtable s) x) (in_order s)"
  shows "\<exists>t. clk_insert v (Some p) s = Inr ((), t) \<and> hand_ok t \<and> in_order t = tl (r @ zs) @ [\<lparr>nd_vpn = v, nd_pte = Some p\<rparr>] \<and>
    pgtable t = upd_pte dec_bits p (clk_evict (hd (r @ zs)) (unrefs zs (pgtable s))) \<and> clk_out t = clk_out s"
proof -
  have l: "length zs + length r = SIM_CLOCKSIZE"
    using length_in_order [OF assms(1)] unfolding zs_def r_def length_append [symmetric] takeWhile_dropWhile_id .
  obtain n where n: "Suc SIM_CLOCKSIZE = length zs + Suc n" using l by (metis add_Suc_right)
  have zr: "in_order s = zs @ r" by (simp add: zs_def r_def)
  have "\<forall>z\<in>set zs. \<not> evictable (pgtable s) z" unfolding zs_def by (blast dest: set_takeWhileD)
  then obtain t where t: "clk_insert_loop (length zs + Suc n) v (Some p) s = clk_insert_loop (Suc n) v (Some p) t" "hand_ok t"
    "in_order t = r @ zs" "pgtable t = unrefs zs (pgtable s)" "clk_out t = clk_out s"
    "\<forall>y\<in>set r. evictable (pgtable t) y = evictable (pgtable s) y" "\<forall>z\<in>set zs. evictable (pgtable t) z"
    using scan_over [OF assms(1) zr, of "Suc n" v "Some p"] assms(2) unfolding zr by blast
  obtain x xs where x: "r @ zs = x # xs" using l by (cases "r @ zs") (auto simp: SIM_CLOCKSIZE_def)
  have "evictable (pgtable t) x"
  proof (cases r)
    case (Cons y ys)
    then have "evictable (pgtable s) y" using hd_dropWhile [of "\<lambda>x. \<not> evictable (pgtable s) x" "in_order s"] by (simp add: r_def)
    then show ?thesis using t(6) x Cons by simp
  qed (use t(7) x in simp)
  moreover have "slots_ok (x # xs) (length (pgtable t))" using assms(2) slots_ok_rotate [of zs r] t(4) by (simp add: zr x)
  ultimately obtain u where u: "clk_insert_loop (Suc n) v (Some p) t = Inr ((), u)" "hand_ok u"
    "in_order u = xs @ [\<lparr>nd_vpn = v, nd_pte = Some p\<rparr>]" "pgtable u = clk_evict x (pgtable t)" "clk_out u = clk_out t"
    using scan_hit [OF t(2), of x xs n v "Some p"] t(3) x by auto
  have "clk_insert v (Some p) s = Inr ((), u\<lparr>pgtable := upd_pte dec_bits p (pgtable u)\<rparr>)"
    using t(1) u(1,4) t(4) assms(3) unfolding clk_insert_def n by (simp add: kseq_run sim_mdecrypt_run del: clk_insert_loop.simps)
  then show ?thesis using u t(4,5) x by (intro exI [of _ "u\<lparr>pgtable := upd_pte dec_bits p (pgtable u)\<rparr>"]) (simp add: in_order_def hand_ok_def)
qed

section \<open>Properties\<close>

text \<open>A full queue whose pages have all been referenced.\<close>

definition ex_clock :: clk_state where
  "ex_clock = \<lparr>clk_queue = map (\<lambda>i. \<lparr>nd_vpn = int i, nd_pte = Some i\<rparr>) [0, 1, 2, 3, 4, 5, 6, 7], clk_hand = 7,
     pgtable = [0x21, 0x21, 0x21, 0x21, 0x21, 0x21, 0x21, 0x21, 0x200, 0x200, 0x200, 0x200], clk_out = []\<rparr>"

lemma ex_clock_ok:
  "hand_ok ex_clock" "slots_ok (in_order ex_clock) (length (pgtable ex_clock))" "length (pgtable ex_clock) = 12"
  "in_order ex_clock = map (\<lambda>i. \<lparr>nd_vpn = int i, nd_pte = Some i\<rparr>) [0, 1, 2, 3, 4, 5, 6, 7]"
  "takeWhile (\<lambda>x. \<not> evictable (pgtable ex_clock) x) (in_order ex_clock) = in_order ex_clock"
  by code_simp+

text \<open>
  C13: \<open>clk_insert\<close> is the second-chance algorithm on the queue in order. It ends for every state of the
  ring buffer: the pages from the oldest one on whose reference bit is set lose it and move to the
  end, the first page found unreferenced (or the first empty slot, or the oldest page when all were
  referenced) leaves the queue and is encrypted, and the new page enters at the end, decrypted.
\<close>

theorem clk_insert_second_chance:
  assumes "hand_ok s" "slots_ok (in_order s) (length (pgtable s))" "p < length (pgtable s)"
    "zs = takeWhile (\<lambda>x. \<not> evictable (pgtable s) x) (in_order s)" "in_order s = zs @ r"
  shows "\<exists>t. clk_insert v (Some p) s = Inr ((), t) \<and> hand_ok t \<and> in_order t = tl (r @ zs) @ [\<lparr>nd_vpn = v, nd_pte = Some p\<rparr>] \<and>
    pgtable t = upd_pte dec_bits p (clk_evict (hd (r @ zs)) (unrefs zs (pgtable s))) \<and> clk_out t = clk_out s"
proof -
  have "r = dropWhile (\<lambda>x. \<not> evictable (pgtable s) x) (in_order s)" using assms(4,5) by (metis same_append_eq takeWhile_dropWhile_id)
  then show ?thesis using insert_run [OF assms(1-3), of v] assms(4) by simp
qed

theorem clk_insert_second_chance_witness:
  "\<exists>t. clk_insert 8 (Some 8) ex_clock = Inr ((), t) \<and> map nd_vpn (in_order t) = [1, 2, 3, 4, 5, 6, 7, 8] \<and> pgtable t ! 0 AND SIM_PTE_E \<noteq> 0"
proof -
  obtain t where t: "clk_insert 8 (Some 8) ex_clock = Inr ((), t)"
    "in_order t = tl ([] @ in_order ex_clock) @ [\<lparr>nd_vpn = 8, nd_pte = Some 8\<rparr>]"
    "pgtable t = upd_pte dec_bits 8 (clk_evict (hd ([] @ in_order ex_clock)) (unrefs (in_order ex_clock) (pgtable ex_clock)))"
    using clk_insert_second_chance [OF ex_clock_ok(1,2), of 8 "in_order ex_clock" "[]" 8] ex_clock_ok(3,5) by auto
  moreover have "upd_pte dec_bits 8 (clk_evict (hd ([] @ in_order ex_clock)) (unrefs (in_order ex_clock) (pgtable ex_clock))) ! 0 AND SIM_PTE_E \<noteq> 0"
    by code_simp
  ultimately show ?thesis by (simp add: ex_clock_ok(4))
qed

text \<open>
  C39: \<open>clk_remove\<close> takes the page out of the queue and keeps the order of the others; the free slot
  becomes the next one to be filled. A page that is not in the queue is left alone.
\<close>

theorem clk_remove_order:
  assumes "hand_ok s" "0 \<le> clk_hand s" "distinct (map nd_vpn (filter (\<lambda>x. nd_vpn x \<noteq> -1) (in_order s)))" "v \<noteq> -1"
  shows "\<exists>t. clk_remove v s = Inr ((), t) \<and> hand_ok t \<and> pgtable t = pgtable s \<and> clk_out t = clk_out s \<and>
    map nd_vpn (in_order t) = (if v \<in> nd_vpn ` set (in_order s) then -1 # remove1 v (map nd_vpn (in_order s)) else map nd_vpn (in_order s))"
proof (cases "v \<in> nd_vpn ` set (in_order s)")
  case True
  then obtain ys x zs where x: "in_order s = ys @ x # zs" "nd_vpn x = v" by (metis image_iff split_list)
  then have nin: "v \<notin> nd_vpn ` set (ys @ zs)" using assms(3,4) by (auto simp: image_iff)
  then have "remove1 v (map nd_vpn (in_order s)) = map nd_vpn (ys @ zs)" by (auto simp: x remove1_append)
  then show ?thesis using remove_run [OF assms(1,2) x nin] True by fastforce
next
  case False
  have l: "length (clk_queue s) = SIM_CLOCKSIZE" using assms(1) by (simp add: hand_ok_def)
  obtain h where h: "clk_hand s = int h" using assms(2) nonneg_int_cases by blast
  have "nd_vpn (clk_queue s ! ix (h + j)) \<noteq> v" for j
  proof -
    have "clk_queue s ! ix (h + j) \<in> set (clk_queue s)" using l by simp
    then show ?thesis using False by (auto simp: in_order_def)
  qed
  then have "clk_search SIM_CLOCKSIZE 0 v s = Inr (-1, s)"
    using search_run [OF l h, of SIM_CLOCKSIZE 0 v] by (simp add: find_None_iff [THEN iffD2])
  then show ?thesis using assms(1) False by (intro exI [of _ s]) (simp add: clk_remove_def kmonad)
qed

theorem clk_remove_order_witness:
  "\<exists>t. clk_remove 3 ex_clock = Inr ((), t) \<and> map nd_vpn (in_order t) = [-1, 0, 1, 2, 4, 5, 6, 7]"
proof -
  have "0 \<le> clk_hand ex_clock" "distinct (map nd_vpn (filter (\<lambda>x. nd_vpn x \<noteq> -1) (in_order ex_clock)))" "3 \<in> nd_vpn ` set (in_order ex_clock)"
    by code_simp+
  then show ?thesis using clk_remove_order [OF ex_clock_ok(1), of 3] by (auto simp: ex_clock_ok(4))
qed

text \<open>
  On a queue that has been cleared the hand is -1, the first index of the search is -1, and the
  program reads before the array.
\<close>

lemma clk_remove_cleared: "clk_hand s = -1 \<Longrightarrow> clk_remove v s = Inl QueueBounds"
  by (simp add: clk_remove_def kmonad SIM_CLOCKSIZE_def eval_nat_numeral crem_def slot_def Let_def)




lemma sim_flags: "SIM_PTE_P = 2 ^ 0" "SIM_PTE_A = 2 ^ 5" "SIM_PTE_E = 2 ^ 9"
  by (simp_all add: SIM_PTE_P_def SIM_PTE_A_def SIM_PTE_E_def)

lemma flag_test: "v AND SIM_PTE_P = 0 \<longleftrightarrow> \<not> bit v 0" "v AND SIM_PTE_E = 0 \<longleftrightarrow> \<not> bit v 9"
proof -
  have "v AND SIM_PTE_P \<noteq> 0 \<longleftrightarrow> bit v 0" "v AND SIM_PTE_E \<noteq> 0 \<longleftrightarrow> bit v 9"
    unfolding sim_flags by (rule word_and_exp_neq_0, simp)+
  then show "v AND SIM_PTE_P = 0 \<longleftrightarrow> \<not> bit v 0" "v AND SIM_PTE_E = 0 \<longleftrightarrow> \<not> bit v 9" by blast+
qed

lemma bit_flags_sim [simp]: "bit SIM_PTE_P n \<longleftrightarrow> n = 0" "bit SIM_PTE_A n \<longleftrightarrow> n = 5" "bit SIM_PTE_E n \<longleftrightarrow> n = 9"
  unfolding sim_flags bit_exp_iff by auto

lemma enc_dec_bits [simp]:
  "bit (enc_bits v) 9" "bit (enc_bits v) 0 \<longleftrightarrow> bit v 9 \<and> bit v 0" "\<not> bit (dec_bits v) 9" "bit (dec_bits v) 0 \<longleftrightarrow> bit v 0 \<or> bit v 9"
  by (auto simp: enc_bits_def dec_bits_def flag_test bit_simps)






end
