(* ===== verification/Ide.thy ===== *)
theory Ide
  imports Proc_Props
begin

text \<open>
  The programmed-I/O disk driver (\<open>ide.c\<close>), which a kernel built without the in-memory disk uses.
  Requests wait in a queue linked through the buffers' \<open>qnext\<close> fields; the first one is active. The
  device is known only through its replies to port reads, a parameter of the state.
\<close>

section \<open>The driver\<close>

definition SECTOR_SIZE :: nat where "SECTOR_SIZE = 512"
definition IDE_BSY :: u8 where "IDE_BSY = 0x80"
definition IDE_DRDY :: u8 where "IDE_DRDY = 0x40"
definition IDE_DF :: u8 where "IDE_DF = 0x20"
definition IDE_ERR :: u8 where "IDE_ERR = 0x01"
definition IDE_CMD_READ :: u8 where "IDE_CMD_READ = 0x20"
definition IDE_CMD_WRITE :: u8 where "IDE_CMD_WRITE = 0x30"
definition IDE_CMD_RDMUL :: u8 where "IDE_CMD_RDMUL = 0xC4"
definition IDE_CMD_WRMUL :: u8 where "IDE_CMD_WRMUL = 0xC5"

text \<open>Polling the status register; \<open>polls\<close> bounds how often.\<close>

fun idewait :: "nat \<Rightarrow> bool \<Rightarrow> int K" where
  "idewait 0 checkerr = kfail Spin"
| "idewait (Suc polls) checkerr =
     kbind (inb 0x1F7) (\<lambda>r.
     if r AND (IDE_BSY OR IDE_DRDY) \<noteq> IDE_DRDY then idewait polls checkerr
     else if checkerr \<and> r AND (IDE_DF OR IDE_ERR) \<noteq> 0 then kret (-1)
     else kret 0)"

fun probe_disk1 :: "nat \<Rightarrow> unit K" where
  "probe_disk1 0 = kret ()"
| "probe_disk1 (Suc n) =
     kbind (inb 0x1F7) (\<lambda>r.
     if r \<noteq> 0 then kmod (\<lambda>s. s\<lparr>havedisk1 := 1\<rparr>) else probe_disk1 n)"

definition pio_ideinit :: "nat \<Rightarrow> unit K" where
  "pio_ideinit polls =
     kseq (initlock IdeLock ''ide'')
     (kbind (kget ncpu) (\<lambda>n.
     kseq (ioapicenable IRQ_IDE (of_nat n - 1))
     (kseq (idewait polls False)
     (kseq (outb 0x1F6 (0xE0 OR push_bit 4 1))
     (kseq (probe_disk1 1000)
     (outb 0x1F6 (0xE0 OR push_bit 4 0)))))))"

definition idestart :: "nat \<Rightarrow> nat option \<Rightarrow> unit K" where
  "idestart polls bo =
     (case bo of None \<Rightarrow> panic ''idestart''
      | Some b \<Rightarrow> kbind (getb b) (\<lambda>x.
        if b_blockno x \<ge> FSSIZE then panic ''incorrect blockno''
        else let sector_per_block = BSIZE div SECTOR_SIZE;
                 sector = b_blockno x * of_nat sector_per_block;
                 read_cmd = (if sector_per_block = 1 then IDE_CMD_READ else IDE_CMD_RDMUL);
                 write_cmd = (if sector_per_block = 1 then IDE_CMD_WRITE else IDE_CMD_WRMUL) in
        if sector_per_block > 7 then panic ''idestart''
        else kseq (idewait polls False)
        (kseq (outb 0x3F6 0)
        (kseq (outb 0x1F2 (of_nat sector_per_block))
        (kseq (outb 0x1F3 (ucast (sector AND 0xFF)))
        (kseq (outb 0x1F4 (ucast (drop_bit 8 sector AND 0xFF)))
        (kseq (outb 0x1F5 (ucast (drop_bit 16 sector AND 0xFF)))
        (kseq (outb 0x1F6 (0xE0 OR ucast (push_bit 4 (b_dev x AND 1)) OR ucast (drop_bit 24 sector AND 0x0F)))
        (if b_flags x AND B_DIRTY \<noteq> 0 then
           kseq (outb 0x1F7 write_cmd)
           (outsl 0x1F0 (b_data x))
         else outb 0x1F7 read_cmd)))))))))"

definition pio_ideintr :: "nat \<Rightarrow> unit K" where
  "pio_ideintr polls =
     kseq (acquire IdeLock)
     (kbind (kget idequeue) (\<lambda>bo. case bo of
       None \<Rightarrow> release IdeLock
     | Some b \<Rightarrow>
         kbind (getb b) (\<lambda>x.
         kseq (kmod (\<lambda>s. s\<lparr>idequeue := b_qnext x\<rparr>))
         (kseq (if b_flags x AND B_DIRTY = 0 then
                  kbind (idewait polls True) (\<lambda>r.
                  if r \<ge> 0 then kbind (insl 0x1F0 (BSIZE div 4)) (\<lambda>d. modb b (\<lambda>y. y\<lparr>b_data := d\<rparr>)) else kret ())
                else kret ())
         (kseq (modb b (\<lambda>y. y\<lparr>b_flags := b_flags y OR B_VALID\<rparr>))
         (kseq (modb b (\<lambda>y. y\<lparr>b_flags := b_flags y AND NOT B_DIRTY\<rparr>))
         (kseq (wakeup (BufChan b))
         (kbind (kget idequeue) (\<lambda>next.
         kseq (if next \<noteq> None then idestart polls next else kret ())
         (release IdeLock))))))))))"

text \<open>The end of the queue is found by following \<open>qnext\<close>; it has at most as many entries as there are buffers.\<close>

fun ide_append :: "nat \<Rightarrow> nat \<Rightarrow> nat \<Rightarrow> unit K" where
  "ide_append 0 c b = kfail OutOfFuel"
| "ide_append (Suc n) c b =
     kbind (getb c) (\<lambda>x. case b_qnext x of
       None \<Rightarrow> modb c (\<lambda>y. y\<lparr>b_qnext := Some b\<rparr>)
     | Some c' \<Rightarrow> ide_append n c' b)"

fun ide_sleep :: "nat \<Rightarrow> nat \<Rightarrow> unit K" where
  "ide_sleep 0 b = kfail OutOfFuel"
| "ide_sleep (Suc n) b =
     kbind (getb b) (\<lambda>x.
     if b_flags x AND (B_VALID OR B_DIRTY) \<noteq> B_VALID then kseq (sleep (BufChan b) IdeLock) (ide_sleep n b)
     else kret ())"

definition pio_iderw :: "nat \<Rightarrow> nat \<Rightarrow> unit K" where
  "pio_iderw polls b =
     kbind (holdingsleep (BufSleep b)) (\<lambda>h.
     if \<not> h then panic ''iderw: buf not locked''
     else kbind (getb b) (\<lambda>x.
     if b_flags x AND (B_VALID OR B_DIRTY) = B_VALID then panic ''iderw: nothing to do''
     else kbind (kget havedisk1) (\<lambda>d1.
     if b_dev x \<noteq> 0 \<and> d1 = 0 then panic ''iderw: ide disk 1 not present''
     else kseq (acquire IdeLock)
     (kseq (modb b (\<lambda>y. y\<lparr>b_qnext := None\<rparr>))
     (kseq (kbind (kget idequeue) (\<lambda>q. case q of
              None \<Rightarrow> kmod (\<lambda>s. s\<lparr>idequeue := Some b\<rparr>)
            | Some c \<Rightarrow> ide_append (Suc NBUF) c b))
     (kbind (kget idequeue) (\<lambda>q.
     kseq (if q = Some b then idestart polls (Some b) else kret ())
     (kseq (kbind wakeups (\<lambda>n. ide_sleep n b))
     (release IdeLock)))))))))"

section \<open>The queue\<close>

fun qchain :: "buf list \<Rightarrow> nat option \<Rightarrow> nat list \<Rightarrow> bool" where
  "qchain bs None xs \<longleftrightarrow> xs = []"
| "qchain bs (Some b) [] \<longleftrightarrow> False"
| "qchain bs (Some b) (c # xs) \<longleftrightarrow> b = c \<and> b < length bs \<and> qchain bs (b_qnext (bs ! b)) xs"

lemma qchain_other:
  "b \<notin> set xs \<Longrightarrow> qchain (bs[b := y]) q xs = qchain bs q xs"
  by (induction bs q xs rule: qchain.induct) auto

lemma qchain_lt: "qchain bs q xs \<Longrightarrow> c \<in> set xs \<Longrightarrow> c < length bs"
  by (induction bs q xs rule: qchain.induct) auto

text \<open>A device that is ready and reports no error, whatever has been sent to it.\<close>

definition ide_ready :: "kstate \<Rightarrow> bool" where
  "ide_ready s \<longleftrightarrow> (\<forall>l. dev_reply s l 0x1F7 0 AND (IDE_BSY OR IDE_DRDY) = IDE_DRDY \<and> dev_reply s l 0x1F7 0 AND (IDE_DF OR IDE_ERR) = 0)"

lemma idewait_ready:
  "ide_ready s \<Longrightarrow> 0 < polls \<Longrightarrow> idewait polls e s = Inr (0, s\<lparr>iolog := iolog s @ [PortIn 0x1F7 (dev_reply s (iolog s) 0x1F7 0)]\<rparr>)"
  by (cases polls) (simp_all add: kmonad ide_ready_def)

text \<open>What the driver sends for a request.\<close>

definition ide_request :: "buf \<Rightarrow> ioevent list" where
  "ide_request x = [PortOut 0x3F6 0, PortOut 0x1F2 1, PortOut 0x1F3 (ucast (b_blockno x AND 0xFF)),
     PortOut 0x1F4 (ucast (drop_bit 8 (b_blockno x) AND 0xFF)), PortOut 0x1F5 (ucast (drop_bit 16 (b_blockno x) AND 0xFF)),
     PortOut 0x1F6 (0xE0 OR ucast (push_bit 4 (b_dev x AND 1)) OR ucast (drop_bit 24 (b_blockno x) AND 0x0F))] @
     (if b_flags x AND B_DIRTY \<noteq> 0 then [PortOut 0x1F7 IDE_CMD_WRITE, PortOuts 0x1F0 (b_data x)] else [PortOut 0x1F7 IDE_CMD_READ])"

lemma idestart_run:
  assumes "ide_ready s" "0 < polls" "c < length (bcache s)" "b_blockno (bcache s ! c) < FSSIZE"
  shows "idestart polls (Some c) s =
    Inr ((), s\<lparr>iolog := iolog s @ PortIn 0x1F7 (dev_reply s (iolog s) 0x1F7 0) # ide_request (bcache s ! c)\<rparr>)"
  using assms idewait_ready [OF assms(1,2), of False]
  by (simp add: idestart_def kmonad ide_request_def BSIZE_def SECTOR_SIZE_def Let_def outb_def outsl_def not_le)

lemma ide_append_run:
  assumes "qchain (bcache s) (Some c) xs" "length xs \<le> n"
  shows "ide_append n c b s = Inr ((), s\<lparr>bcache := (bcache s)[last xs := (bcache s ! last xs)\<lparr>b_qnext := Some b\<rparr>]\<rparr>)"
  using assms
proof (induction n arbitrary: c xs)
  case 0
  then show ?case by (cases xs) auto
next
  case (Suc n)
  then obtain ys where xs: "xs = c # ys" "c < length (bcache s)" "qchain (bcache s) (b_qnext (bcache s ! c)) ys" by (cases xs) auto
  then show ?case
  proof (cases "b_qnext (bcache s ! c)")
    case (Some d)
    then have "ys \<noteq> []" using xs(3) by (cases ys) auto
    then show ?thesis using Suc.IH [of d ys] xs Some Suc.prems(2) by (simp add: kmonad)
  qed (auto simp: kmonad)
qed

lemma qchain_snoc:
  assumes "qchain bs q xs" "distinct xs" "xs \<noteq> []" "b < length bs" "b \<notin> set xs" "b_qnext (bs ! b) = None"
  shows "qchain (bs[last xs := (bs ! last xs)\<lparr>b_qnext := Some b\<rparr>]) q (xs @ [b])"
  using assms
proof (induction bs q xs rule: qchain.induct)
  case (3 bs c d xs)
  show ?case
  proof (cases "xs = []")
    case False
    then have "last xs \<noteq> c" using 3(2,3) by (metis distinct.simps(2) last_in_set qchain.simps(3))
    then show ?thesis using 3 False by auto
  qed (use 3 in auto)
qed auto

section \<open>Properties\<close>

text \<open>The buffer after its request: read data if it was clean, and the flags.\<close>

definition ide_done :: "kstate \<Rightarrow> ioevent list \<Rightarrow> buf \<Rightarrow> buf" where
  "ide_done s l x = (if b_flags x AND B_DIRTY = 0 then x\<lparr>b_data := map (dev_reply s l 0x1F0) [0..<BSIZE]\<rparr> else x)
     \<lparr>b_flags := (b_flags x OR B_VALID) AND NOT B_DIRTY\<rparr>"

lemma ide_finish:
  assumes "ide_ready s" "0 < polls" "b < length (bcache s)" "x = bcache s ! b"
  shows "\<exists>l m. kseq (if b_flags x AND B_DIRTY = 0 then
                  kbind (idewait polls True) (\<lambda>r.
                  if r \<ge> 0 then kbind (insl 0x1F0 (BSIZE div 4)) (\<lambda>d. modb b (\<lambda>y. y\<lparr>b_data := d\<rparr>)) else kret ())
                else kret ())
         (kseq (modb b (\<lambda>y. y\<lparr>b_flags := b_flags y OR B_VALID\<rparr>))
         (kseq (modb b (\<lambda>y. y\<lparr>b_flags := b_flags y AND NOT B_DIRTY\<rparr>)) f)) s =
    f (s\<lparr>iolog := iolog s @ m, bcache := (bcache s)[b := ide_done s l x]\<rparr>)"
proof (cases "b_flags x AND B_DIRTY = 0")
  case True
  let ?e = "PortIn 0x1F7 (dev_reply s (iolog s) 0x1F7 0)"
  have "4 * (BSIZE div 4) = BSIZE" by (simp add: BSIZE_def)
  then show ?thesis using True assms idewait_ready [OF assms(1,2), of True]
    by (intro exI [of _ "iolog s @ [?e]"] exI [of _ "[?e, PortIns 0x1F0 (map (dev_reply s (iolog s @ [?e]) 0x1F0) [0..<BSIZE])]"])
      (simp add: kmonad insl_def ide_done_def)
next
  case False
  then show ?thesis using assms by (intro exI [of _ "[]"] exI [of _ "[]"]) (simp add: kmonad ide_done_def)
qed

text \<open>
  C20: the disk interrupt completes the oldest request. With a device that is ready, \<open>ideintr\<close> takes the
  first buffer from the queue, leaves it valid and clean (with the data the device delivered if it
  was a read), makes the processes waiting for it runnable, and sends the next request of the queue,
  if there is one, to the device; the other buffers and the rest of the queue stay as they are.
\<close>

theorem ideintr_completes:
  assumes "irq_ok s" "\<forall>r. lock_free r s" "qchain (bcache s) (idequeue s) (b # xs)" "distinct (b # xs)" "ide_ready s" "0 < polls"
    "\<forall>c\<in>set xs. b_blockno (bcache s ! c) < FSSIZE"
  shows "\<exists>t l m. pio_ideintr polls s = Inr ((), t) \<and> qchain (bcache t) (idequeue t) xs \<and>
    bcache t = (bcache s)[b := ide_done s l (bcache s ! b)] \<and> procs t = map (wake (BufChan b)) (procs s) \<and>
    iolog t = iolog s @ m @ (case xs of [] \<Rightarrow> [] | c # _ \<Rightarrow> ide_request (bcache s ! c))"
proof -
  let ?e = "lk_upd (acq IdeLock s)" and ?x = "bcache s ! b"
  have q: "idequeue s = Some b" "b < length (bcache s)" "qchain (bcache s) (b_qnext ?x) xs" using assms(3) by (cases "idequeue s"; auto)+
  let ?s1 = "s\<lparr>idequeue := b_qnext ?x\<rparr>"
  let ?f = "kseq (wakeup (BufChan b)) (kbind (kget idequeue) (\<lambda>next. kseq (if next \<noteq> None then idestart polls next else kret ()) (release IdeLock)))"
  have rd: "ide_ready (?e ?s1)" using assms(5) by (simp add: ide_ready_def)
  define F where "F = ?f"
  have x: "?x = bcache (?e ?s1) ! b" "b < length (bcache (?e ?s1))" using q(2) by simp_all
  obtain l m where "pio_ideintr polls s = F ((?e ?s1)\<lparr>iolog := iolog (?e ?s1) @ m, bcache := (bcache (?e ?s1))[b := ide_done (?e ?s1) l ?x]\<rparr>)"
    using ide_finish [OF rd assms(6) x(2,1), of F] q(1,2) acquire_enter [OF assms(1), of IdeLock] assms(2) unfolding F_def
    by (auto simp: pio_ideintr_def kseq_run kbind_run)
  moreover have "ide_done (?e ?s1) l ?x = ide_done s l ?x" by (simp add: ide_done_def)
  ultimately have lm: "pio_ideintr polls s = ?f (?e (?s1\<lparr>iolog := iolog s @ m, bcache := (bcache s)[b := ide_done s l ?x]\<rparr>))"
    by (simp add: F_def)
  define u where "u = ?s1\<lparr>iolog := iolog s @ m, bcache := (bcache s)[b := ide_done s l ?x], procs := map (wake (BufChan b)) (procs s)\<rparr>"
  have w: "wakeup (BufChan b) (?e (?s1\<lparr>iolog := iolog s @ m, bcache := (bcache s)[b := ide_done s l ?x]\<rparr>)) = Inr ((), ?e u)"
    using assms(1,2) by (subst wakeup_run) (simp_all add: u_def)
  have uf: "idequeue u = b_qnext ?x" "bcache u = (bcache s)[b := ide_done s l ?x]" "procs u = map (wake (BufChan b)) (procs s)" "iolog u = iolog s @ m"
    "ncpu u = ncpu s" "lapic_id u = lapic_id s" "lk u = lk s" by (simp_all add: u_def)
  have ch: "qchain (bcache u) (idequeue u) xs" using q(3) qchain_other [of b xs] assms(4) by (simp add: uf)
  show ?thesis
  proof (cases xs)
    case Nil
    then have "idequeue u = None" using ch by (cases "idequeue u") auto
    then have "pio_ideintr polls s = Inr ((), u)" using lm w release_leave [OF assms(1) _ uf(5-7)] assms(2) by (simp add: kmonad)
    then show ?thesis using ch uf Nil by (intro exI [of _ u] exI [of _ l] exI [of _ m]) simp
  next
    case (Cons c ys)
    then have c: "idequeue u = Some c" "c < length (bcache u)" "bcache u ! c = bcache s ! c" using ch assms(4) by (cases "idequeue u"; auto simp: uf)+
    let ?r = "PortIn 0x1F7 (dev_reply s (iolog s @ m) 0x1F7 0)"
    let ?v = "u\<lparr>iolog := iolog u @ ?r # ide_request (bcache s ! c)\<rparr>"
    have "ide_ready (?e u)" using assms(5) by (simp add: ide_ready_def u_def)
    then have "idestart polls (Some c) (?e u) = Inr ((), ?e ?v)"
      using idestart_run [of "?e u" polls c] assms(6,7) c Cons by (simp add: uf(4)) (simp add: u_def)
    then have "pio_ideintr polls s = Inr ((), ?v)" using lm w c release_leave [OF assms(1) _, of IdeLock ?v] assms(2) uf by (simp add: kmonad)
    then show ?thesis using ch uf Cons by (intro exI [of _ ?v] exI [of _ l] exI [of _ "m @ [?r]"]) simp
  qed
qed

definition ex_ide :: kstate where
  "ex_ide = ex_kernel\<lparr>bcache := [buf0\<lparr>b_blockno := 5, b_qnext := Some 1\<rparr>, buf0\<lparr>b_blockno := 9\<rparr>], idequeue := Some 0,
     dev_reply := (\<lambda>l p i. if p = 0x1F7 then 0x40 else 7)\<rparr>"

lemma ex_ide_ok: "irq_ok ex_ide" "\<forall>r. lock_free r ex_ide" "qchain (bcache ex_ide) (idequeue ex_ide) [0, 1]" "ide_ready ex_ide"
proof -
  show "irq_ok ex_ide" using ex_kernel_ctx(1) irq_ok_cong [of ex_ide ex_kernel] by (simp add: ex_ide_def)
  show "\<forall>r. lock_free r ex_ide" using ex_kernel_ctx(2) by (simp add: ex_ide_def)
qed (simp_all add: ex_ide_def buf0_def ide_ready_def IDE_BSY_def IDE_DRDY_def IDE_DF_def IDE_ERR_def)

theorem ideintr_completes_witness:
  "\<exists>t. pio_ideintr 1 ex_ide = Inr ((), t) \<and> idequeue t = Some 1 \<and> b_data (bcache t ! 0) = replicate BSIZE 7 \<and>
     PortOut 0x1F3 9 \<in> set (iolog t)"
proof -
  have bl: "\<forall>c\<in>set [1]. b_blockno (bcache ex_ide ! c) < FSSIZE" by (simp add: ex_ide_def FSSIZE_def)
  obtain t l m where t: "pio_ideintr 1 ex_ide = Inr ((), t)" "qchain (bcache t) (idequeue t) [1]"
    "bcache t = (bcache ex_ide)[0 := ide_done ex_ide l (bcache ex_ide ! 0)]" "iolog t = iolog ex_ide @ m @ ide_request (bcache ex_ide ! 1)"
    using ideintr_completes [OF ex_ide_ok(1-3) _ ex_ide_ok(4) _ bl, of 1] by auto
  have "idequeue t = Some 1" using t(2) by (cases "idequeue t") auto
  moreover have "b_data (bcache t ! 0) = replicate BSIZE 7"
    by (simp add: t(3) ex_ide_def ide_done_def buf0_def map_replicate_const)
  moreover have "PortOut 0x1F3 9 \<in> set (ide_request (bcache ex_ide ! 1))" by (simp add: ex_ide_def ide_request_def)
  ultimately show ?thesis using t(1,4) by auto
qed

end
