(* ===== verification/Boot.thy ===== *)
theory Boot
  imports Ide
begin

text \<open>
  Starting the machine (\<open>main.c\<close>) and stopping it (\<open>panic\<close> of \<open>console.c\<close>). Code outside the C files
  appears as parameters: the image of \<open>entryother.S\<close>, the addresses the linker assigns, what the
  other processors do while one of them waits, and how often a device is polled. Elsewhere in the
  development a call of \<open>panic\<close> is the error value \<open>Panic\<close>; \<open>console_panic\<close> is what the call does
  before the processor stops.
\<close>

section \<open>Stopping\<close>

definition lapicid :: "u32 K" where
  "lapicid = kbind (kget lapic) (\<lambda>l. if l = 0 then kret 0 else kbind (reg_in (l + LAPIC_ID)) (\<lambda>v. kret (drop_bit 24 v)))"

fun panic_pcs :: "u32 list \<Rightarrow> unit K" where
  "panic_pcs [] = kret ()"
| "panic_pcs (pc # pcs) = kseq (cprintf (str '' %p'') [ArgInt pc]) (panic_pcs pcs)"

text \<open>\<open>ebp\<close> is the frame pointer that \<open>getcallerpcs\<close> derives from the address of the argument.\<close>

definition console_panic :: "u8 list \<Rightarrow> u32 \<Rightarrow> unit K" where
  "console_panic s ebp =
     kseq cli
     (kseq (kmod (\<lambda>t. t\<lparr>cons_locking := 0\<rparr>))
     (kbind lapicid (\<lambda>i.
     kseq (cprintf (str ''lapicid %d: panic: '') [ArgInt i])
     (kseq (cprintf s [])
     (kseq (cprintf [10] [])
     (kbind (getcallerpcs 10 ebp) (\<lambda>pcs.
     kseq (panic_pcs pcs)
     (kseq (kmod (\<lambda>t. t\<lparr>panicked := 1\<rparr>))
     (kfail Spin)))))))))"

section \<open>The page directory of the boot code\<close>

definition PTE_PS :: u32 where "PTE_PS = 0x080"

definition entrypgdir :: "u32 list" where
  "entrypgdir = (replicate NPDENTRIES 0)
     [0 := 0 OR PTE_P OR PTE_W OR PTE_PS,
      unat (drop_bit PDXSHIFT KERNBASE) := 0 OR PTE_P OR PTE_W OR PTE_PS]"

lemma entrypgdir_maps:
  "length entrypgdir = NPDENTRIES"
  "i < NPDENTRIES \<Longrightarrow> entrypgdir ! i = (if i = 0 \<or> i = 512 then PTE_P OR PTE_W OR PTE_PS else 0)"
  by (simp_all add: entrypgdir_def NPDENTRIES_def PDXSHIFT_def KERNBASE_def nth_list_update)

section \<open>The processors\<close>

record boot_env =
  be_polls :: nat
  be_rounds :: nat
  be_mpfuel :: nat
  be_entryother :: u32
  be_entryother_size :: u32
  be_mpenter :: u32
  be_entrypgdir :: u32
  be_initcode :: u32
  be_initcode_size :: u32
  be_others :: "nat \<Rightarrow> kstate \<Rightarrow> kstate"

text \<open>Common set-up; \<open>scheduler\<close> does not return, \<open>be_rounds\<close> says how much of it is run.\<close>

definition mpmain :: "boot_env \<Rightarrow> unit K" where
  "mpmain e =
     kbind cpuid (\<lambda>a.
     kbind cpuid (\<lambda>b.
     kseq (cprintf (str ''cpu%d: starting %d'' @ [10]) [ArgInt (of_nat a), ArgInt (of_nat b)])
     (kseq idtinit
     (kbind mycpu (\<lambda>c.
     kseq (modc c (\<lambda>x. x\<lparr>c_started := 1\<rparr>))
     (scheduler (be_rounds e)))))))"

definition mpenter :: "boot_env \<Rightarrow> unit K" where
  "mpenter e =
     kseq switchkvm
     (kseq seginit
     (kseq (lapicinit (be_polls e))
     (mpmain e)))"

text \<open>Waiting for processor \<open>c\<close>; between two looks at its flag the others run.\<close>

fun wait_started :: "nat \<Rightarrow> boot_env \<Rightarrow> nat \<Rightarrow> unit K" where
  "wait_started 0 e c = kfail Spin"
| "wait_started (Suc n) e c =
     kbind (kget (\<lambda>s. c_started (cpus s ! c))) (\<lambda>v.
     if v = 0 then kseq (kmod (be_others e c)) (wait_started n e c) else kret ())"

fun start_cpus :: "nat \<Rightarrow> boot_env \<Rightarrow> nat \<Rightarrow> unit K" where
  "start_cpus 0 e c = kret ()"
| "start_cpus (Suc n) e c =
     kbind mycpu (\<lambda>m.
     if c = m then start_cpus n e (Suc c)
     else let code = P2V 0x7000 in
     kbind kalloc (\<lambda>stack.
     kseq (wr32 (code - 4) (stack + KSTACKSIZE))
     (kseq (wr32 (code - 8) (be_mpenter e))
     (kseq (wr32 (code - 12) (V2P (be_entrypgdir e)))
     (kbind (kget (\<lambda>s. c_apicid (cpus s ! c))) (\<lambda>apicid.
     kseq (lapicstartap apicid (V2P code))
     (kseq (wait_started (be_polls e) e c)
     (start_cpus n e (Suc c)))))))))"

definition startothers :: "boot_env \<Rightarrow> unit K" where
  "startothers e =
     kseq (kmemmove (P2V 0x7000) (be_entryother e) (be_entryother_size e))
     (kbind (kget ncpu) (\<lambda>n. start_cpus n e 0))"

definition kernel_main :: "boot_env \<Rightarrow> unit K" where
  "kernel_main e =
     kbind (kget sym_end) (\<lambda>kend.
     kseq (kinit1 kend (P2V (4 * 1024 * 1024)))
     (kseq kvmalloc
     (kseq (mpinit (be_mpfuel e))
     (kseq (lapicinit (be_polls e))
     (kseq seginit
     (kseq picinit
     (kseq ioapicinit
     (kseq consoleinit
     (kseq uartinit
     (kseq pinit
     (kseq tvinit
     (kseq binit
     (kseq fileinit
     (kseq (pio_ideinit (be_polls e))
     (kseq (startothers e)
     (kseq (kinit2 (P2V (4 * 1024 * 1024)) (P2V PHYSTOP))
     (kseq (userinit (be_initcode e) (be_initcode_size e))
     (mpmain e))))))))))))))))))"

section \<open>Facts\<close>

text \<open>A waiting processor goes on once the other one has set its flag, within as many looks as that takes.\<close>

lemma wait_started_ends:
  assumes "c_started (cpus ((be_others e c ^^ k) s) ! c) \<noteq> 0" "k < n"
  shows "\<exists>j\<le>k. wait_started n e c s = Inr ((), (be_others e c ^^ j) s)"
  using assms
proof (induction n arbitrary: s k)
  case (Suc n)
  show ?case
  proof (cases "c_started (cpus s ! c) = 0")
    case True
    then obtain i where i: "k = Suc i" using Suc.prems(1) by (cases k) auto
    then obtain j where "j \<le> i" "wait_started n e c (be_others e c s) = Inr ((), (be_others e c ^^ j) (be_others e c s))"
      using Suc.IH [of i "be_others e c s"] Suc.prems by (auto simp: funpow_swap1)
    then show ?thesis using True i by (intro exI [of _ "Suc j"]) (simp add: kmonad funpow_swap1)
  qed (auto simp: kmonad)
qed simp

text \<open>\<open>panic\<close> does not return; whatever it prints, the processor stops.\<close>

lemma console_panic_stops: "console_panic m ebp s \<noteq> Inr r"
  by (auto simp: console_panic_def kseq_eq_Inr kbind_eq_Inr)

end
