(* ===== verification/Boot_Loader.thy ===== *)
theory Boot_Loader
  imports Boot
begin

text \<open>
  The boot loader (\<open>bootmain.c\<close>): it reads the kernel's ELF image from the disk, sector by sector, to
  the addresses of its segments. The state has its memory and the device; \<open>polls\<close> bounds how often
  the disk is polled.
\<close>

section \<open>The loader\<close>

definition SECTSIZE :: u32 where "SECTSIZE = 512"

fun waitdisk :: "nat \<Rightarrow> unit K" where
  "waitdisk 0 = kfail Spin"
| "waitdisk (Suc polls) = kbind (inb 0x1F7) (\<lambda>v. if v AND 0xC0 \<noteq> 0x40 then waitdisk polls else kret ())"

definition readsect :: "nat \<Rightarrow> u32 \<Rightarrow> u32 \<Rightarrow> unit K" where
  "readsect polls dst offset =
     kseq (waitdisk polls)
     (kseq (outb 0x1F2 1)
     (kseq (outb 0x1F3 (ucast offset))
     (kseq (outb 0x1F4 (ucast (drop_bit 8 offset)))
     (kseq (outb 0x1F5 (ucast (drop_bit 16 offset)))
     (kseq (outb 0x1F6 (ucast (drop_bit 24 offset OR 0xE0)))
     (kseq (outb 0x1F7 0x20)
     (kseq (waitdisk polls)
     (kbind (insl 0x1F0 (unat SECTSIZE div 4)) (\<lambda>bs.
     kmod (\<lambda>s. s\<lparr>mem := store_bytes (mem s) dst bs\<rparr>))))))))))"

fun readseg_loop :: "nat \<Rightarrow> nat \<Rightarrow> u32 \<Rightarrow> u32 \<Rightarrow> u32 \<Rightarrow> unit K" where
  "readseg_loop 0 polls pa epa offset = kfail OutOfFuel"
| "readseg_loop (Suc n) polls pa epa offset =
     (if pa < epa then kseq (readsect polls pa offset) (readseg_loop n polls (pa + SECTSIZE) epa (offset + 1))
      else kret ())"

text \<open>The number of sectors is bounded by the bytes asked for, and one more at each end.\<close>

definition readseg :: "nat \<Rightarrow> u32 \<Rightarrow> u32 \<Rightarrow> u32 \<Rightarrow> unit K" where
  "readseg polls pa count offset =
     (let epa = pa + count; pa = pa - offset mod SECTSIZE; offset = offset div SECTSIZE + 1 in
      readseg_loop (unat count div 512 + 3) polls pa epa offset)"

record boot_proghdr =
  bp_off :: u32
  bp_paddr :: u32
  bp_filesz :: u32
  bp_memsz :: u32

definition boot_proghdr_of :: "u8 list \<Rightarrow> boot_proghdr" where
  "boot_proghdr_of d = \<lparr>bp_off = le32 d 4, bp_paddr = le32 d 12, bp_filesz = le32 d 16, bp_memsz = le32 d 20\<rparr>"

fun load_segments :: "nat \<Rightarrow> nat \<Rightarrow> u32 \<Rightarrow> unit K" where
  "load_segments 0 polls ph = kret ()"
| "load_segments (Suc n) polls ph =
     kbind (kget (\<lambda>s. boot_proghdr_of (mem_bytes (mem s) ph 32))) (\<lambda>h.
     let pa = bp_paddr h in
     kseq (readseg polls pa (bp_filesz h) (bp_off h))
     (kseq (if bp_memsz h > bp_filesz h then
              kmod (\<lambda>s. s\<lparr>mem := stosb (unat (bp_memsz h - bp_filesz h)) 0 (pa + bp_filesz h) (mem s)\<rparr>)
            else kret ())
     (load_segments n polls (ph + 32))))"

text \<open>Answers the entry point that is called, or \<open>None\<close> if the image is not an ELF file.\<close>

definition bootmain :: "nat \<Rightarrow> u32 option K" where
  "bootmain polls =
     (let elf = 0x10000 in
      kseq (readseg polls elf 4096 0)
      (kbind (kget (\<lambda>s. elfhdr_of (mem_bytes (mem s) elf 52))) (\<lambda>h.
      if e_magic h \<noteq> ELF_MAGIC then kret None
      else kseq (load_segments (unat (e_phnum h)) polls (elf + e_phoff h))
      (kbind (kget (\<lambda>s. elfhdr_of (mem_bytes (mem s) elf 52))) (\<lambda>h. kret (Some (e_entry h)))))))"

section \<open>What is loaded\<close>

text \<open>
  A disk with the contents \<open>img\<close>: it is ready, and after the command to read a sector it delivers
  the bytes of that sector.
\<close>

definition read_command :: "u32 \<Rightarrow> ioevent list" where
  "read_command offset = [PortOut 0x1F2 1, PortOut 0x1F3 (ucast offset), PortOut 0x1F4 (ucast (drop_bit 8 offset)),
     PortOut 0x1F5 (ucast (drop_bit 16 offset)), PortOut 0x1F6 (ucast (drop_bit 24 offset OR 0xE0)), PortOut 0x1F7 0x20]"

definition boot_disk :: "(nat \<Rightarrow> u8) \<Rightarrow> kstate \<Rightarrow> bool" where
  "boot_disk img s \<longleftrightarrow> (\<forall>l. dev_reply s l 0x1F7 0 AND 0xC0 = 0x40) \<and>
     (\<forall>l k v i. k < 268435456 \<longrightarrow> i < 512 \<longrightarrow>
        dev_reply s (l @ read_command (of_nat k) @ [PortIn 0x1F7 v]) 0x1F0 i = img (512 * k + i))"

lemma waitdisk_run:
  assumes "boot_disk img s" "0 < polls"
  shows "waitdisk polls s = Inr ((), s\<lparr>iolog := iolog s @ [PortIn 0x1F7 (dev_reply s (iolog s) 0x1F7 0)]\<rparr>)"
  using assms by (cases polls) (simp_all add: boot_disk_def kmonad inb_def io_def)

definition sector :: "(nat \<Rightarrow> u8) \<Rightarrow> nat \<Rightarrow> u8 list" where
  "sector img k = map (\<lambda>i. img (512 * k + i)) [0..<512]"

lemma boot_disk_cong: "dev_reply t = dev_reply s \<Longrightarrow> boot_disk img t = boot_disk img s"
  by (simp add: boot_disk_def)

lemma readsect_run:
  assumes "boot_disk img s" "0 < polls" "k < 268435456"
  shows "\<exists>l. readsect polls dst (of_nat k) s = Inr ((), s\<lparr>iolog := l, mem := store_bytes (mem s) dst (sector img k)\<rparr>)"
proof -
  let ?w = "\<lambda>t. t\<lparr>iolog := iolog t @ [PortIn 0x1F7 (dev_reply t (iolog t) 0x1F7 0)]\<rparr>"
  define u where "u = (?w s)\<lparr>iolog := iolog (?w s) @ read_command (of_nat k)\<rparr>"
  have u: "boot_disk img u" "dev_reply u = dev_reply s" "mem u = mem s" using assms(1) boot_disk_cong [of u s img] by (simp_all add: u_def)
  have "readsect polls dst (of_nat k) s = kseq (waitdisk polls)
     (kbind (insl 0x1F0 (unat SECTSIZE div 4)) (\<lambda>bs. kmod (\<lambda>s. s\<lparr>mem := store_bytes (mem s) dst bs\<rparr>))) u"
    using waitdisk_run [OF assms(1,2)] by (simp add: readsect_def kseq_run outb_def io_def u_def read_command_def kmod_run del: waitdisk.simps)
  moreover have "map (dev_reply u (iolog (?w u)) 0x1F0) [0..<512] = sector img k"
  proof -
    have "dev_reply s (iolog (?w s) @ read_command (of_nat k) @ [PortIn 0x1F7 v]) 0x1F0 i = img (512 * k + i)" if "i < 512" for v i
      using assms(1,3) that unfolding boot_disk_def by blast
    then show ?thesis unfolding sector_def u(2) by (simp add: u_def)
  qed
  ultimately have "readsect polls dst (of_nat k) s = Inr ((), u\<lparr>iolog := iolog (?w u) @ [PortIns 0x1F0 (sector img k)],
      mem := store_bytes (mem u) dst (sector img k)\<rparr>)"
    using waitdisk_run [OF u(1) assms(2)] by (simp add: kseq_run kbind_run insl_def io_def kmonad SECTSIZE_def del: waitdisk.simps)
  moreover have "u\<lparr>iolog := x, mem := y\<rparr> = s\<lparr>iolog := x, mem := y\<rparr>" for x y by (simp add: u_def)
  ultimately show ?thesis using u(3) by (metis (no_types))
qed

lemma unat_of_nat32: "n < 4294967296 \<Longrightarrow> unat (of_nat n :: u32) = n"
  by (simp add: unat_of_nat take_bit_nat_eq_self)

lemma unat_of_nat_self: "of_nat (unat x) = (x :: u32)"
  by simp

lemma store_bytes_get:
  assumes "length bs \<le> 4294967296"
  shows "store_bytes m a bs x = (if unat (x - a) < length bs then bs ! unat (x - a) else m x)"
  using assms
proof (induction bs arbitrary: m a)
  case (Cons b bs)
  have l: "length bs < 4294967296" using Cons.prems by simp
  show ?case
  proof (cases "x = a")
    case True
    have "unat (a - (a + 1)) = unat (4294967295 :: u32)" by (rule arg_cong [where f = unat]) simp
    also have "\<dots> = 4294967295" by simp
    finally have "\<not> unat (x - (a + 1)) < length bs" unfolding True using l by linarith
    then have "store_bytes (m(a := b)) (a + 1) bs x = (m(a := b)) x" using l by (subst Cons.IH) simp_all
    then show ?thesis using True by simp
  next
    case False
    then have "unat (x - a) \<noteq> 0" by (simp add: unat_eq_zero)
    have "x - (a + 1) = (x - a) - 1" by simp
    then have "unat (x - (a + 1)) = unat (x - a) - 1" using unat_minus_one [of "x - a"] False by (metis right_minus_eq)
    moreover have "store_bytes (m(a := b)) (a + 1) bs x = (if unat (x - (a + 1)) < length bs then bs ! unat (x - (a + 1)) else m x)"
      using l False by (subst Cons.IH) simp_all
    ultimately show ?thesis using \<open>unat (x - a) \<noteq> 0\<close> by (auto simp: nth_Cons')
  qed
qed simp

text \<open>Each round of the loop adds the bytes of one sector behind those that are already in place.\<close>

lemma readseg_loop_run:
  assumes "boot_disk img s" "0 < polls" "k + n < 268435456" "unat epa \<le> a + 512 * n" "a + 512 * n \<le> 4294967295" "n < fuel"
  shows "\<exists>t. readseg_loop fuel polls (of_nat a) epa (of_nat k) s = Inr ((), t) \<and>
    (\<forall>i. a + i < unat epa \<longrightarrow> mem t (of_nat (a + i)) = img (512 * k + i)) \<and> (\<forall>x. unat x < a \<longrightarrow> mem t x = mem s x)"
  using assms
proof (induction n arbitrary: s a k fuel)
  case 0
  then have "\<not> of_nat a < epa" by (simp add: word_less_nat_alt unat_of_nat32)
  then show ?case using 0 by (cases fuel) (auto simp: kmonad)
next
  case (Suc n)
  obtain f where f: "fuel = Suc f" "n < f" using Suc.prems(6) by (cases fuel) auto
  have ua: "unat (of_nat a :: u32) = a" using Suc.prems(5) by (simp add: unat_of_nat32)
  show ?case
  proof (cases "(of_nat a :: u32) < epa")
    case False
    then have "unat epa \<le> a" using ua by (simp add: word_less_nat_alt)
    then show ?thesis using False f by (auto simp: kmonad)
  next
    case True
    obtain l where l: "readsect polls (of_nat a) (of_nat k) s = Inr ((), s\<lparr>iolog := l, mem := store_bytes (mem s) (of_nat a) (sector img k)\<rparr>)"
      using readsect_run [OF Suc.prems(1,2)] Suc.prems(3) by fastforce
    define u where "u = s\<lparr>iolog := l, mem := store_bytes (mem s) (of_nat a) (sector img k)\<rparr>"
    have bu: "boot_disk img u" using Suc.prems(1) boot_disk_cong [of u s img] by (simp add: u_def)
    have st: "(of_nat a :: u32) + SECTSIZE = of_nat (a + 512)" "(of_nat k :: u32) + 1 = of_nat (k + 1)" by (simp_all add: SECTSIZE_def)
    obtain t where t: "readseg_loop f polls (of_nat (a + 512)) epa (of_nat (k + 1)) u = Inr ((), t)"
      "\<forall>i. a + 512 + i < unat epa \<longrightarrow> mem t (of_nat (a + 512 + i)) = img (512 * (k + 1) + i)" "\<forall>x. unat x < a + 512 \<longrightarrow> mem t x = mem u x"
      using Suc.IH [OF bu Suc.prems(2), of "k + 1" "a + 512" f] Suc.prems(3-5) f(2) by (auto simp del: of_nat_add)
    have mu: "mem u x = (if unat (x - of_nat a) < 512 then img (512 * k + unat (x - of_nat a)) else mem s x)" for x
      by (simp add: u_def store_bytes_get sector_def)
    have "mem t (of_nat (a + i)) = img (512 * k + i)" if i: "a + i < unat epa" for i
    proof (cases "i < 512")
      case True
      have "unat (of_nat (a + i) :: u32) = a + i" using i unat_lt_u32 [of epa] by (intro unat_of_nat32) linarith
      moreover have "(of_nat (a + i) :: u32) - of_nat a = of_nat i" by simp
      ultimately show ?thesis using t(3) mu [of "of_nat (a + i)"] True by (simp add: unat_of_nat32 del: of_nat_add)
    next
      case False
      then obtain j where "i = 512 + j" by (metis le_add_diff_inverse linorder_not_less)
      then show ?thesis using t(2) [rule_format, of j] i by (simp add: ac_simps)
    qed
    moreover have "mem t x = mem s x" if "unat x < a" for x
    proof -
      have "\<not> unat (x - of_nat a) < 512"
        using that ua Suc.prems(5) by (simp add: unat_sub_if_size word_size)
      then show ?thesis using t(3) mu [of x] that by simp
    qed
    ultimately show ?thesis using t(1) l True unfolding f(1) by (intro exI [of _ t]) (simp add: kseq_run u_def st del: of_nat_add)
  qed
qed

text \<open>
  The bytes that were asked for are in memory: byte \<open>i\<close> of the segment comes from byte \<open>offset + i\<close> of
  the kernel image, which starts at sector 1.
\<close>

lemma readseg_loads:
  assumes "boot_disk img s" "0 < polls" "unat (offset mod SECTSIZE) \<le> unat pa" "unat pa + unat count + 1024 \<le> 4294967295"
    "unat offset + unat count + 2048 < 137438953472"
  shows "\<exists>t. readseg polls pa count offset s = Inr ((), t) \<and> (\<forall>i<unat count. mem t (pa + of_nat i) = img (512 + unat offset + i))"
proof -
  let ?r = "unat offset mod 512" and ?k = "unat offset div 512 + 1" and ?n = "unat count div 512 + 2"
  have r: "unat (offset mod SECTSIZE) = ?r" "unat (offset div SECTSIZE) = unat offset div 512" by (simp_all add: SECTSIZE_def unat_mod unat_div)
  let ?a = "unat pa - ?r"
  have a: "pa - offset mod SECTSIZE = of_nat ?a" using assms(3) r(1) by (metis of_nat_diff unat_of_nat_self)
  have k: "offset div SECTSIZE + 1 = of_nat ?k" using r(2) by (metis of_nat_1 of_nat_add unat_of_nat_self)
  have e: "unat (pa + count) = unat pa + unat count" using assms(4) by (simp add: unat_word_ariths)
  have n: "unat count < 512 * (unat count div 512) + 512" by linarith
  have rl: "?r < 512" by simp
  have ra: "?r \<le> unat pa" using assms(3) r(1) by simp
  have c: "?k + ?n < 268435456" "unat (pa + count) \<le> ?a + 512 * ?n" "?a + 512 * ?n \<le> 4294967295"
  proof -
    have A: "?a + ?r = unat pa" "512 * (unat count div 512) \<le> unat count" using ra by simp_all
    show "?k + ?n < 268435456" using assms(5) by linarith
    show "unat (pa + count) \<le> ?a + 512 * ?n" unfolding e using A n rl by (simp del: add_diff_assoc2 add_diff_assoc)
    show "?a + 512 * ?n \<le> 4294967295" using assms(4) A by (simp del: add_diff_assoc2 add_diff_assoc)
  qed
  obtain t where t: "readseg_loop (unat count div 512 + 3) polls (of_nat ?a) (pa + count) (of_nat ?k) s = Inr ((), t)"
    "\<forall>i. ?a + i < unat (pa + count) \<longrightarrow> mem t (of_nat (?a + i)) = img (512 * ?k + i)"
    using readseg_loop_run [OF assms(1,2) c(1-3), of "unat count div 512 + 3"] by auto
  have "mem t (pa + of_nat i) = img (512 + unat offset + i)" if "i < unat count" for i
  proof -
    have "?a + (?r + i) = unat pa + i" using assms(3) r(1) by simp
    moreover have "512 * ?k + (?r + i) = 512 + unat offset + i" by simp
    moreover have "of_nat (unat pa + i) = pa + of_nat i" by simp
    ultimately show ?thesis using t(2) [rule_format, of "?r + i"] that e by (simp add: ac_simps del: of_nat_add)
  qed
  then show ?thesis using t(1) unfolding readseg_def Let_def a k by blast
qed

end
