(* ===== verification/User_Lib.thy ===== *)
theory User_Lib
  imports Syscall
begin

text \<open>
  The library of the user programs: \<open>ulib.c\<close> and \<open>printf.c\<close>. A user program is a computation over
  the state \<open>'w\<close> of the system outside the process, which it reaches only through system calls; the
  calls (\<open>user.h\<close>) are the fields of a record, an argument of everything that uses them. \<open>exit\<close>
  ends a program with the state reached, a successful \<open>exec\<close> with the image that replaces it. What
  \<open>fork\<close> answers is up to the system, so that one computation describes parent and child. Strings are byte lists as in the kernel's string routines.
\<close>

section \<open>User computations\<close>

datatype 'w uerr = Exited 'w | Replaced "u8 list" "u8 list list" 'w | UFault | UFuel

type_synonym ('w, 'a) U = "('w, 'w uerr, 'a) kcomp"

record ustat_t =
  st_utype :: u16
  st_uino :: u32
  st_usize :: u32

text \<open>A read answers its return value and the bytes stored; the other calls their return values.\<close>

record 'w usys =
  uc_read :: "int \<Rightarrow> nat \<Rightarrow> 'w \<Rightarrow> (int \<times> u8 list) \<times> 'w"
  uc_write :: "int \<Rightarrow> u8 list \<Rightarrow> 'w \<Rightarrow> int \<times> 'w"
  uc_open :: "u8 list \<Rightarrow> u32 \<Rightarrow> 'w \<Rightarrow> int \<times> 'w"
  uc_close :: "int \<Rightarrow> 'w \<Rightarrow> int \<times> 'w"
  uc_fstat :: "int \<Rightarrow> 'w \<Rightarrow> (int \<times> ustat_t) \<times> 'w"
  uc_kill :: "u32 \<Rightarrow> 'w \<Rightarrow> int \<times> 'w"
  uc_link :: "u8 list \<Rightarrow> u8 list \<Rightarrow> 'w \<Rightarrow> int \<times> 'w"
  uc_unlink :: "u8 list \<Rightarrow> 'w \<Rightarrow> int \<times> 'w"
  uc_mkdir :: "u8 list \<Rightarrow> 'w \<Rightarrow> int \<times> 'w"
  uc_chdir :: "u8 list \<Rightarrow> 'w \<Rightarrow> int \<times> 'w"
  uc_mknod :: "u8 list \<Rightarrow> int \<Rightarrow> int \<Rightarrow> 'w \<Rightarrow> int \<times> 'w"
  uc_dup :: "int \<Rightarrow> 'w \<Rightarrow> int \<times> 'w"
  uc_pipe :: "'w \<Rightarrow> (int \<times> int \<times> int) \<times> 'w"
  uc_fork :: "'w \<Rightarrow> int \<times> 'w"
  uc_wait :: "'w \<Rightarrow> int \<times> 'w"
  uc_sleep :: "int \<Rightarrow> 'w \<Rightarrow> int \<times> 'w"
  uc_exec :: "u8 list \<Rightarrow> u8 list list \<Rightarrow> 'w \<Rightarrow> bool \<times> 'w"

definition ucall :: "('w \<Rightarrow> 'a \<times> 'w) \<Rightarrow> ('w, 'a) U" where
  "ucall f = (\<lambda>w. Inr (f w))"

definition uexit :: "('w, 'a) U" where
  "uexit = (\<lambda>w. Inl (Exited w))"

definition uexec :: "'w usys \<Rightarrow> u8 list \<Rightarrow> u8 list list \<Rightarrow> ('w, unit) U" where
  "uexec sys path argv = (\<lambda>w. case uc_exec sys path argv w of
     (True, w') \<Rightarrow> Inl (Replaced path argv w') | (False, w') \<Rightarrow> Inr ((), w'))"

lemma ucall_run [simp, kmonad]: "ucall f w = Inr (f w)" "uexit w = Inl (Exited w)"
  by (simp_all add: ucall_def uexit_def)

section \<open>Strings and memory (\<open>ulib.c\<close>)\<close>

text \<open>\<open>None\<close> stands for a store past the end of the destination.\<close>

fun ustrcpy :: "u8 list \<Rightarrow> u8 list \<Rightarrow> u8 list option" where
  "ustrcpy [] t = None"
| "ustrcpy (x # s) t =
     (if chr t = 0 then Some (0 # s) else map_option ((#) (chr t)) (ustrcpy s (tl t)))"

fun ustrcmp :: "u8 list \<Rightarrow> u8 list \<Rightarrow> int" where
  "ustrcmp [] q = - uint (chr q)"
| "ustrcmp (c # p) q = (if c \<noteq> 0 \<and> c = chr q then ustrcmp p (tl q) else uint c - uint (chr q))"

fun ustrlen_loop :: "nat \<Rightarrow> u8 list \<Rightarrow> nat" where
  "ustrlen_loop n [] = n"
| "ustrlen_loop n (c # s) = (if c \<noteq> 0 then ustrlen_loop (n + 1) s else n)"

definition ustrlen :: "u8 list \<Rightarrow> nat" where
  "ustrlen s = ustrlen_loop 0 s"

definition umemset :: "u8 list \<Rightarrow> u8 \<Rightarrow> nat \<Rightarrow> u8 list option" where
  "umemset dst c n = (if n \<le> length dst then Some (replicate n c @ drop n dst) else None)"

fun ustrchr :: "u8 list \<Rightarrow> u8 \<Rightarrow> u8 list option" where
  "ustrchr [] c = None"
| "ustrchr (x # s) c = (if x = 0 then None else if x = c then Some (x # s) else ustrchr s c)"

text \<open>The buffer is filled from index \<open>i\<close>; at most \<open>lim - 1\<close> characters are read.\<close>

fun ugets_loop :: "nat \<Rightarrow> 'w usys \<Rightarrow> u8 list \<Rightarrow> ('w, u8 list) U" where
  "ugets_loop 0 sys acc = kret acc"
| "ugets_loop (Suc n) sys acc =
     kbind (ucall (uc_read sys 0 1)) (\<lambda>(cc, bs).
     if cc < 1 then kret acc
     else let c = chr bs in
       if c = 10 \<or> c = 13 then kret (acc @ [c]) else ugets_loop n sys (acc @ [c]))"

definition ugets :: "'w usys \<Rightarrow> u8 list \<Rightarrow> nat \<Rightarrow> ('w, u8 list) U" where
  "ugets sys buf lim =
     kbind (ugets_loop (lim - 1) sys []) (\<lambda>acc.
     if length acc < length buf then kret (acc @ [0] @ drop (length acc + 1) buf) else kfail UFault)"

definition ustat :: "'w usys \<Rightarrow> u8 list \<Rightarrow> ('w, int \<times> ustat_t option) U" where
  "ustat sys n =
     kbind (ucall (uc_open sys n O_RDONLY)) (\<lambda>fd.
     if fd < 0 then kret (-1, None)
     else kbind (ucall (uc_fstat sys fd)) (\<lambda>(r, st).
     kseq (ucall (uc_close sys fd))
     (kret (r, Some st))))"

text \<open>The value wraps like the machine's.\<close>

fun uatoi_loop :: "u32 \<Rightarrow> u8 list \<Rightarrow> u32" where
  "uatoi_loop n [] = n"
| "uatoi_loop n (c # s) = (if 48 \<le> c \<and> c \<le> 57 then uatoi_loop (n * 10 + ucast c - 48) s else n)"

definition uatoi :: "u8 list \<Rightarrow> u32" where
  "uatoi s = uatoi_loop 0 s"

text \<open>Copying upwards inside one array, from index \<open>src\<close> to index \<open>dst\<close>.\<close>

fun umemmove :: "nat \<Rightarrow> u8 list \<Rightarrow> nat \<Rightarrow> nat \<Rightarrow> u8 list" where
  "umemmove 0 a dst src = a"
| "umemmove (Suc n) a dst src = umemmove n (a[dst := a ! src]) (dst + 1) (src + 1)"

section \<open>Formatted output (\<open>printf.c\<close>)\<close>

definition uputc :: "'w usys \<Rightarrow> int \<Rightarrow> u8 \<Rightarrow> ('w, unit) U" where
  "uputc sys fd c = kseq (ucall (uc_write sys fd [c])) (kret ())"

fun uputs :: "'w usys \<Rightarrow> int \<Rightarrow> u8 list \<Rightarrow> ('w, unit) U" where
  "uputs sys fd [] = kret ()"
| "uputs sys fd (c # s) = kseq (uputc sys fd c) (uputs sys fd s)"

definition udigit :: "nat \<Rightarrow> u8" where
  "udigit d = (if d < 10 then 48 + of_nat d else 55 + of_nat d)"

fun udigits :: "nat \<Rightarrow> nat \<Rightarrow> nat \<Rightarrow> u8 list" where
  "udigits 0 x base = []"
| "udigits (Suc n) x base = udigit (x mod base) # (if x div base \<noteq> 0 then udigits n (x div base) base else [])"

text \<open>The digits come last first and are written in reverse; 16 places are enough for base 10 and 16.\<close>

definition uprintint :: "'w usys \<Rightarrow> int \<Rightarrow> u32 \<Rightarrow> nat \<Rightarrow> bool \<Rightarrow> ('w, unit) U" where
  "uprintint sys fd xx base sg =
     (let neg = sg \<and> sint xx < 0; x = (if neg then - xx else xx);
          buf = udigits 16 (unat x) base @ (if neg then [45] else []) in
      uputs sys fd (rev buf))"

fun uprintf_loop :: "'w usys \<Rightarrow> int \<Rightarrow> bool \<Rightarrow> u8 list \<Rightarrow> fmt_arg list \<Rightarrow> ('w, unit) U" where
  "uprintf_loop sys fd percent [] as = kret ()"
| "uprintf_loop sys fd percent (c # fmt) as =
     (if c = 0 then kret ()
      else if \<not> percent then
        if c = 37 then uprintf_loop sys fd True fmt as
        else kseq (uputc sys fd c) (uprintf_loop sys fd False fmt as)
      else if c = 100 then
        (case as of ArgInt v # as' \<Rightarrow> kseq (uprintint sys fd v 10 True) (uprintf_loop sys fd False fmt as') | _ \<Rightarrow> kfail UFault)
      else if c = 120 \<or> c = 112 then
        (case as of ArgInt v # as' \<Rightarrow> kseq (uprintint sys fd v 16 False) (uprintf_loop sys fd False fmt as') | _ \<Rightarrow> kfail UFault)
      else if c = 115 then
        (case as of
           ArgStr so # as' \<Rightarrow> kseq (uputs sys fd (cstr (case so of None \<Rightarrow> str ''(null)'' | Some t \<Rightarrow> t))) (uprintf_loop sys fd False fmt as')
         | _ \<Rightarrow> kfail UFault)
      else if c = 99 then
        (case as of ArgInt v # as' \<Rightarrow> kseq (uputc sys fd (ucast v)) (uprintf_loop sys fd False fmt as') | _ \<Rightarrow> kfail UFault)
      else if c = 37 then kseq (uputc sys fd c) (uprintf_loop sys fd False fmt as)
      else kseq (uputc sys fd 37) (kseq (uputc sys fd c) (uprintf_loop sys fd False fmt as)))"

definition uprintf :: "'w usys \<Rightarrow> int \<Rightarrow> u8 list \<Rightarrow> fmt_arg list \<Rightarrow> ('w, unit) U" where
  "uprintf sys fd fmt as = uprintf_loop sys fd False fmt as"

section \<open>Facts\<close>

lemma ustrlen_strlen: "ustrlen s = strlen s"
proof -
  have "ustrlen_loop n s = n + strlen s" for n by (induction s arbitrary: n) auto
  then show ?thesis by (simp add: ustrlen_def)
qed

lemma ustrcpy_copies:
  assumes "length (cstr t) < length s"
  shows "ustrcpy s t = Some (cstr t @ [0] @ drop (length (cstr t) + 1) s)"
  using assms
proof (induction s arbitrary: t)
  case (Cons x s)
  then show ?case by (cases t) auto
qed simp

lemma ustrcpy_overruns: "length s \<le> length (cstr t) \<Longrightarrow> ustrcpy s t = None"
proof (induction s arbitrary: t)
  case (Cons x s)
  then show ?case by (cases t) (auto split: if_splits)
qed simp

lemma ustrcmp_0_iff: "ustrcmp p q = 0 \<longleftrightarrow> cstr p = cstr q"
proof (induction p arbitrary: q)
  case Nil
  then show ?case by (cases q) (auto simp: word_uint_eq_iff)
next
  case (Cons c p)
  then show ?case by (cases q) (auto simp: word_uint_eq_iff)
qed

lemma ustrchr_None_iff: "ustrchr s c = None \<longleftrightarrow> c \<notin> set (cstr s)"
  by (induction s) auto

lemma ustrchr_Some_iff: "ustrchr s c = Some t \<longleftrightarrow> (\<exists>u. s = u @ t \<and> chr t = c \<and> t \<noteq> [] \<and> c \<noteq> 0 \<and> 0 \<notin> set u \<and> c \<notin> set u)"
proof (induction s)
  case (Cons x s)
  show ?case
  proof (cases "x = 0 \<or> x = c")
    case True
    then show ?thesis by (auto simp: Cons_eq_append_conv)
  next
    case False
    then show ?thesis using Cons by (auto simp: Cons_eq_append_conv)
  qed
qed simp

lemma udigit_decimal: "d < 10 \<Longrightarrow> 48 \<le> udigit d \<and> udigit d \<le> 57 \<and> ucast (udigit d) = (of_nat d + 48 :: u32)"
proof -
  assume "d < 10"
  then have "d \<in> {0, 1, 2, 3, 4, 5, 6, 7, 8, 9}" by auto
  then show ?thesis by (elim insertE) (simp_all add: udigit_def)
qed

text \<open>\<open>atoi\<close> reads back the decimal digits that \<open>printint\<close> produces.\<close>

lemma uatoi_digits:
  assumes "0 < n" "x < 10 ^ n"
  shows "uatoi_loop 0 (rev (udigits n x 10) @ r) = uatoi_loop (of_nat x) r"
  using assms
proof (induction n arbitrary: x r)
  case (Suc n)
  have d: "48 \<le> udigit (x mod 10)" "udigit (x mod 10) \<le> 57" "ucast (udigit (x mod 10)) = (of_nat (x mod 10) + 48 :: u32)"
    using udigit_decimal [of "x mod 10"] by auto
  have m: "(of_nat (x div 10) * 10 + of_nat (x mod 10) :: u32) = of_nat x"
    by (metis div_mult_mod_eq of_nat_add of_nat_mult of_nat_numeral)
  show ?case
  proof (cases "x div 10 = 0")
    case True
    then show ?thesis using d m by simp
  next
    case False
    then have "0 < n" using Suc.prems by (cases n) auto
    then have "uatoi_loop 0 (rev (udigits n (x div 10) 10) @ udigit (x mod 10) # r) = uatoi_loop (of_nat (x div 10)) (udigit (x mod 10) # r)"
      using Suc.prems by (intro Suc.IH) auto
    then show ?thesis using False d m by (simp add: algebra_simps)
  qed
qed simp

lemma umemmove_down:
  assumes "dst \<le> src" "src + n \<le> length a"
  shows "umemmove n a dst src = take dst a @ take n (drop src a) @ drop (dst + n) a"
  using assms
proof (induction n arbitrary: a dst src)
  case (Suc n)
  have "umemmove n (a[dst := a ! src]) (dst + 1) (src + 1) =
    take (dst + 1) (a[dst := a ! src]) @ take n (drop (src + 1) (a[dst := a ! src])) @ drop (dst + 1 + n) (a[dst := a ! src])"
    using Suc.prems by (intro Suc.IH) auto
  moreover have "take (dst + 1) (a[dst := a ! src]) = take dst a @ [a ! src]" using Suc.prems by (simp add: take_Suc_conv_app_nth)
  moreover have "take (Suc n) (drop src a) = a ! src # take n (drop (src + 1) a)" using Suc.prems by (simp add: Cons_nth_drop_Suc [symmetric])
  ultimately show ?case using Suc.prems by simp
qed simp

end
