(* ===== verification/User_Programs.thy ===== *)
theory User_Programs
  imports User_Lib
begin

text \<open>
  The small user programs: \<open>cat.c\<close>, \<open>echo.c\<close>, \<open>kill.c\<close>, \<open>ln.c\<close>, \<open>ls.c\<close>, \<open>mkdir.c\<close>, \<open>rm.c\<close>, \<open>wc.c\<close>, \<open>zombie.c\<close>,
  \<open>init.c\<close>, \<open>forktest.c\<close> and \<open>stressfs.c\<close>. The list \<open>argv\<close> has \<open>argc\<close> entries. Loops that end only when the system says so
  carry a bound \<open>k\<close>.
\<close>

section \<open>cat\<close>

definition CAT_BUF :: nat where "CAT_BUF = 512"

fun cat :: "nat \<Rightarrow> 'w usys \<Rightarrow> int \<Rightarrow> ('w, unit) U" where
  "cat 0 sys fd = kfail UFuel"
| "cat (Suc k) sys fd =
     kbind (ucall (uc_read sys fd CAT_BUF)) (\<lambda>(n, bs).
     if n > 0 then
       kbind (ucall (uc_write sys 1 bs)) (\<lambda>m.
       if m \<noteq> n then kseq (uprintf sys 1 (str ''cat: write error'' @ [10]) []) uexit
       else cat k sys fd)
     else if n < 0 then kseq (uprintf sys 1 (str ''cat: read error'' @ [10]) []) uexit
     else kret ())"

fun cat_files :: "nat \<Rightarrow> 'w usys \<Rightarrow> u8 list list \<Rightarrow> ('w, unit) U" where
  "cat_files k sys [] = uexit"
| "cat_files k sys (f # fs) =
     kbind (ucall (uc_open sys f 0)) (\<lambda>fd.
     if fd < 0 then kseq (uprintf sys 1 (str ''cat: cannot open %s'' @ [10]) [ArgStr (Some f)]) uexit
     else kseq (cat k sys fd)
     (kseq (ucall (uc_close sys fd))
     (cat_files k sys fs)))"

definition cat_main :: "nat \<Rightarrow> 'w usys \<Rightarrow> u8 list list \<Rightarrow> ('w, unit) U" where
  "cat_main k sys argv =
     (if length argv \<le> 1 then kseq (cat k sys 0) uexit else cat_files k sys (tl argv))"

section \<open>echo, kill, ln, mkdir, rm\<close>

fun echo_args :: "'w usys \<Rightarrow> u8 list list \<Rightarrow> ('w, unit) U" where
  "echo_args sys [] = uexit"
| "echo_args sys (a # as) =
     kseq (uprintf sys 1 (str ''%s%s'') [ArgStr (Some a), ArgStr (Some (if as \<noteq> [] then [32] else [10]))])
     (echo_args sys as)"

definition echo_main :: "'w usys \<Rightarrow> u8 list list \<Rightarrow> ('w, unit) U" where
  "echo_main sys argv = echo_args sys (tl argv)"

fun kill_args :: "'w usys \<Rightarrow> u8 list list \<Rightarrow> ('w, unit) U" where
  "kill_args sys [] = uexit"
| "kill_args sys (a # as) = kseq (ucall (uc_kill sys (uatoi a))) (kill_args sys as)"

definition kill_main :: "'w usys \<Rightarrow> u8 list list \<Rightarrow> ('w, unit) U" where
  "kill_main sys argv =
     (if length argv < 2 then kseq (uprintf sys 2 (str ''usage: kill pid...'' @ [10]) []) uexit
      else kill_args sys (tl argv))"

definition ln_main :: "'w usys \<Rightarrow> u8 list list \<Rightarrow> ('w, unit) U" where
  "ln_main sys argv =
     (if length argv \<noteq> 3 then kseq (uprintf sys 2 (str ''Usage: ln old new'' @ [10]) []) uexit
      else kbind (ucall (uc_link sys (argv ! 1) (argv ! 2))) (\<lambda>r.
      kseq (if r < 0 then uprintf sys 2 (str ''link %s %s: failed'' @ [10]) [ArgStr (Some (argv ! 1)), ArgStr (Some (argv ! 2))]
            else kret ())
      uexit))"

fun mkdir_args :: "'w usys \<Rightarrow> u8 list list \<Rightarrow> ('w, unit) U" where
  "mkdir_args sys [] = uexit"
| "mkdir_args sys (a # as) =
     kbind (ucall (uc_mkdir sys a)) (\<lambda>r.
     if r < 0 then kseq (uprintf sys 2 (str ''mkdir: %s failed to create'' @ [10]) [ArgStr (Some a)]) uexit
     else mkdir_args sys as)"

definition mkdir_main :: "'w usys \<Rightarrow> u8 list list \<Rightarrow> ('w, unit) U" where
  "mkdir_main sys argv =
     (if length argv < 2 then kseq (uprintf sys 2 (str ''Usage: mkdir files...'' @ [10]) []) uexit
      else mkdir_args sys (tl argv))"

fun rm_args :: "'w usys \<Rightarrow> u8 list list \<Rightarrow> ('w, unit) U" where
  "rm_args sys [] = uexit"
| "rm_args sys (a # as) =
     kbind (ucall (uc_unlink sys a)) (\<lambda>r.
     if r < 0 then kseq (uprintf sys 2 (str ''rm: %s failed to delete'' @ [10]) [ArgStr (Some a)]) uexit
     else rm_args sys as)"

definition rm_main :: "'w usys \<Rightarrow> u8 list list \<Rightarrow> ('w, unit) U" where
  "rm_main sys argv =
     (if length argv < 2 then kseq (uprintf sys 2 (str ''Usage: rm files...'' @ [10]) []) uexit
      else rm_args sys (tl argv))"

section \<open>ls\<close>

text \<open>What follows the last slash, padded with blanks to \<open>DIRSIZ\<close> characters.\<close>

definition fmtname :: "u8 list \<Rightarrow> u8 list" where
  "fmtname path =
     (let s = cstr path; p = rev (takeWhile (\<lambda>c. c \<noteq> 47) (rev s)) in
      if ustrlen p \<ge> DIRSIZ then p else p @ replicate (DIRSIZ - ustrlen p) 32)"

definition LS_BUF :: nat where "LS_BUF = 512"

definition ls_line :: "'w usys \<Rightarrow> u8 list \<Rightarrow> ustat_t \<Rightarrow> ('w, unit) U" where
  "ls_line sys path st =
     uprintf sys 1 (str ''%s %d %d %d'' @ [10])
       [ArgStr (Some (fmtname path)), ArgInt (scast (st_utype st)), ArgInt (st_uino st), ArgInt (st_usize st)]"

text \<open>One round per directory entry; an entry is 16 bytes, the inode number before the name.\<close>

fun ls_entries :: "nat \<Rightarrow> 'w usys \<Rightarrow> int \<Rightarrow> u8 list \<Rightarrow> ('w, unit) U" where
  "ls_entries 0 sys fd path = kfail UFuel"
| "ls_entries (Suc k) sys fd path =
     kbind (ucall (uc_read sys fd 16)) (\<lambda>(n, de).
     if n \<noteq> 16 then kret ()
     else if take 2 de = [0, 0] then ls_entries k sys fd path
     else let buf = cstr path @ [47] @ take DIRSIZ (drop 2 de) @ [0] in
     kbind (ustat sys buf) (\<lambda>(r, st). case st of
       Some st' \<Rightarrow>
         if r < 0 then kseq (uprintf sys 1 (str ''ls: cannot stat %s'' @ [10]) [ArgStr (Some buf)]) (ls_entries k sys fd path)
         else kseq (ls_line sys buf st') (ls_entries k sys fd path)
     | None \<Rightarrow> kseq (uprintf sys 1 (str ''ls: cannot stat %s'' @ [10]) [ArgStr (Some buf)]) (ls_entries k sys fd path)))"

definition ls :: "nat \<Rightarrow> 'w usys \<Rightarrow> u8 list \<Rightarrow> ('w, unit) U" where
  "ls k sys path =
     kbind (ucall (uc_open sys path 0)) (\<lambda>fd.
     if fd < 0 then uprintf sys 2 (str ''ls: cannot open %s'' @ [10]) [ArgStr (Some path)]
     else kbind (ucall (uc_fstat sys fd)) (\<lambda>(r, st).
     if r < 0 then
       kseq (uprintf sys 2 (str ''ls: cannot stat %s'' @ [10]) [ArgStr (Some path)])
       (kseq (ucall (uc_close sys fd)) (kret ()))
     else kseq
       (if st_utype st = T_FILE then ls_line sys path st
        else if st_utype st = T_DIR then
          if ustrlen path + 1 + DIRSIZ + 1 > LS_BUF then uprintf sys 1 (str ''ls: path too long'' @ [10]) []
          else ls_entries k sys fd path
        else kret ())
       (kseq (ucall (uc_close sys fd)) (kret ()))))"

fun ls_args :: "nat \<Rightarrow> 'w usys \<Rightarrow> u8 list list \<Rightarrow> ('w, unit) U" where
  "ls_args k sys [] = uexit"
| "ls_args k sys (a # as) = kseq (ls k sys a) (ls_args k sys as)"

definition ls_main :: "nat \<Rightarrow> 'w usys \<Rightarrow> u8 list list \<Rightarrow> ('w, unit) U" where
  "ls_main k sys argv =
     (if length argv < 2 then kseq (ls k sys (str ''.'')) uexit else ls_args k sys (tl argv))"

section \<open>wc\<close>

record wc_counts =
  wc_l :: u32
  wc_w :: u32
  wc_c :: u32
  wc_inword :: bool

definition wc_byte :: "u8 \<Rightarrow> wc_counts \<Rightarrow> wc_counts" where
  "wc_byte b x =
     (let x = x\<lparr>wc_c := wc_c x + 1\<rparr>; x = (if b = 10 then x\<lparr>wc_l := wc_l x + 1\<rparr> else x) in
      if ustrchr [32, 13, 9, 10, 11] b \<noteq> None then x\<lparr>wc_inword := False\<rparr>
      else if \<not> wc_inword x then x\<lparr>wc_w := wc_w x + 1, wc_inword := True\<rparr>
      else x)"

fun wc_loop :: "nat \<Rightarrow> 'w usys \<Rightarrow> int \<Rightarrow> wc_counts \<Rightarrow> ('w, wc_counts) U" where
  "wc_loop 0 sys fd x = kfail UFuel"
| "wc_loop (Suc k) sys fd x =
     kbind (ucall (uc_read sys fd 512)) (\<lambda>(n, bs).
     if n > 0 then wc_loop k sys fd (fold wc_byte bs x)
     else if n < 0 then kseq (uprintf sys 1 (str ''wc: read error'' @ [10]) []) uexit
     else kret x)"

definition wc0 :: wc_counts where
  "wc0 = \<lparr>wc_l = 0, wc_w = 0, wc_c = 0, wc_inword = False\<rparr>"

definition wc :: "nat \<Rightarrow> 'w usys \<Rightarrow> int \<Rightarrow> u8 list \<Rightarrow> ('w, unit) U" where
  "wc k sys fd name =
     kbind (wc_loop k sys fd wc0) (\<lambda>x.
     uprintf sys 1 (str ''%d %d %d %s'' @ [10]) [ArgInt (wc_l x), ArgInt (wc_w x), ArgInt (wc_c x), ArgStr (Some name)])"

fun wc_files :: "nat \<Rightarrow> 'w usys \<Rightarrow> u8 list list \<Rightarrow> ('w, unit) U" where
  "wc_files k sys [] = uexit"
| "wc_files k sys (f # fs) =
     kbind (ucall (uc_open sys f 0)) (\<lambda>fd.
     if fd < 0 then kseq (uprintf sys 1 (str ''wc: cannot open %s'' @ [10]) [ArgStr (Some f)]) uexit
     else kseq (wc k sys fd f)
     (kseq (ucall (uc_close sys fd))
     (wc_files k sys fs)))"

definition wc_main :: "nat \<Rightarrow> 'w usys \<Rightarrow> u8 list list \<Rightarrow> ('w, unit) U" where
  "wc_main k sys argv =
     (if length argv \<le> 1 then kseq (wc k sys 0 []) uexit else wc_files k sys (tl argv))"

section \<open>zombie and init\<close>

definition zombie_main :: "'w usys \<Rightarrow> ('w, unit) U" where
  "zombie_main sys =
     kbind (ucall (uc_fork sys)) (\<lambda>pid.
     kseq (if pid > 0 then kseq (ucall (uc_sleep sys 5)) (kret ()) else kret ())
     uexit)"

fun init_wait :: "nat \<Rightarrow> 'w usys \<Rightarrow> int \<Rightarrow> ('w, unit) U" where
  "init_wait 0 sys pid = kfail UFuel"
| "init_wait (Suc k) sys pid =
     kbind (ucall (uc_wait sys)) (\<lambda>wpid.
     if wpid \<ge> 0 \<and> wpid \<noteq> pid then kseq (uprintf sys 1 (str ''zombie!'' @ [10]) []) (init_wait k sys pid)
     else kret ())"

fun init_loop :: "nat \<Rightarrow> 'w usys \<Rightarrow> ('w, unit) U" where
  "init_loop 0 sys = kfail UFuel"
| "init_loop (Suc k) sys =
     kseq (uprintf sys 1 (str ''init: starting sh'' @ [10]) [])
     (kbind (ucall (uc_fork sys)) (\<lambda>pid.
     if pid < 0 then kseq (uprintf sys 1 (str ''init: fork failed'' @ [10]) []) uexit
     else if pid = 0 then
       kseq (uexec sys (str ''sh'') [str ''sh''])
       (kseq (uprintf sys 1 (str ''init: exec sh failed'' @ [10]) []) uexit)
     else kseq (init_wait k sys pid) (init_loop k sys)))"

definition init_main :: "nat \<Rightarrow> 'w usys \<Rightarrow> ('w, unit) U" where
  "init_main k sys =
     kbind (ucall (uc_open sys (str ''console'') O_RDWR)) (\<lambda>fd.
     kseq (if fd < 0 then
             kseq (ucall (uc_mknod sys (str ''console'') 1 1))
             (kseq (ucall (uc_open sys (str ''console'') O_RDWR)) (kret ()))
           else kret ())
     (kseq (ucall (uc_dup sys 0))
     (kseq (ucall (uc_dup sys 0))
     (init_loop k sys))))"

section \<open>forktest and stressfs\<close>

text \<open>\<open>forktest.c\<close> has a \<open>printf\<close> of its own, which writes its format.\<close>

definition ft_printf :: "'w usys \<Rightarrow> int \<Rightarrow> u8 list \<Rightarrow> ('w, unit) U" where
  "ft_printf sys fd s = kseq (ucall (uc_write sys fd (take (ustrlen s) s))) (kret ())"

definition FT_N :: nat where "FT_N = 1000"

text \<open>Answers how many of \<open>k\<close> further forks worked, counted from \<open>n\<close>; a child exits.\<close>

fun ft_forks :: "nat \<Rightarrow> 'w usys \<Rightarrow> nat \<Rightarrow> ('w, nat) U" where
  "ft_forks 0 sys n = kret n"
| "ft_forks (Suc k) sys n =
     kbind (ucall (uc_fork sys)) (\<lambda>pid.
     if pid < 0 then kret n else if pid = 0 then uexit else ft_forks k sys (n + 1))"

fun ft_waits :: "nat \<Rightarrow> 'w usys \<Rightarrow> ('w, unit) U" where
  "ft_waits 0 sys = kret ()"
| "ft_waits (Suc n) sys =
     kbind (ucall (uc_wait sys)) (\<lambda>r.
     if r < 0 then kseq (ft_printf sys 1 (str ''wait stopped early'' @ [10])) uexit else ft_waits n sys)"

definition forktest :: "'w usys \<Rightarrow> ('w, unit) U" where
  "forktest sys =
     kseq (ft_printf sys 1 (str ''fork test'' @ [10]))
     (kbind (ft_forks FT_N sys 0) (\<lambda>n.
     if n = FT_N then kseq (ft_printf sys 1 (str ''fork claimed to work N times!'' @ [10])) uexit
     else kseq (ft_waits n sys)
     (kbind (ucall (uc_wait sys)) (\<lambda>r.
     if r \<noteq> -1 then kseq (ft_printf sys 1 (str ''wait got too many'' @ [10])) uexit
     else ft_printf sys 1 (str ''fork test OK'' @ [10])))))"

definition forktest_main :: "'w usys \<Rightarrow> ('w, unit) U" where
  "forktest_main sys = kseq (forktest sys) uexit"

text \<open>The number of the round in which the process is a parent, 4 if in none.\<close>

fun stress_forks :: "nat \<Rightarrow> 'w usys \<Rightarrow> nat \<Rightarrow> ('w, nat) U" where
  "stress_forks 0 sys i = kret i"
| "stress_forks (Suc k) sys i =
     kbind (ucall (uc_fork sys)) (\<lambda>pid. if pid > 0 then kret i else stress_forks k sys (i + 1))"

fun stress_writes :: "nat \<Rightarrow> 'w usys \<Rightarrow> int \<Rightarrow> u8 list \<Rightarrow> ('w, unit) U" where
  "stress_writes 0 sys fd data = kret ()"
| "stress_writes (Suc k) sys fd data = kseq (ucall (uc_write sys fd data)) (stress_writes k sys fd data)"

fun stress_reads :: "nat \<Rightarrow> 'w usys \<Rightarrow> int \<Rightarrow> ('w, unit) U" where
  "stress_reads 0 sys fd = kret ()"
| "stress_reads (Suc k) sys fd = kseq (ucall (uc_read sys fd 512)) (stress_reads k sys fd)"

definition stressfs_main :: "'w usys \<Rightarrow> ('w, unit) U" where
  "stressfs_main sys =
     kseq (uprintf sys 1 (str ''stressfs starting'' @ [10]) [])
     (let data = replicate 512 97 in
     kbind (stress_forks 4 sys 0) (\<lambda>i.
     kseq (uprintf sys 1 (str ''write %d'' @ [10]) [ArgInt (of_nat i)])
     (let path = (str ''stressfs0'')[8 := str ''stressfs0'' ! 8 + of_nat i] in
     kbind (ucall (uc_open sys path (O_CREATE OR O_RDWR))) (\<lambda>fd.
     kseq (stress_writes 20 sys fd data)
     (kseq (ucall (uc_close sys fd))
     (kseq (uprintf sys 1 (str ''read'' @ [10]) [])
     (kbind (ucall (uc_open sys path O_RDONLY)) (\<lambda>fd.
     kseq (stress_reads 20 sys fd)
     (kseq (ucall (uc_close sys fd))
     (kseq (ucall (uc_wait sys))
     uexit))))))))))"

section \<open>What \<open>wc\<close> counts\<close>

definition blank :: "u8 \<Rightarrow> bool" where
  "blank b \<longleftrightarrow> b \<in> {32, 13, 9, 10, 11}"

text \<open>The words of a text: its maximal blank-free parts.\<close>

fun word_starts :: "bool \<Rightarrow> u8 list \<Rightarrow> nat" where
  "word_starts i [] = 0"
| "word_starts i (b # bs) = (if blank b then word_starts False bs else (if i then 0 else 1) + word_starts True bs)"

lemma wc_byte_blank: "ustrchr [32, 13, 9, 10, 11] b \<noteq> None \<longleftrightarrow> blank b"
  by (simp add: blank_def)

lemma wc_byte_fields:
  "wc_c (wc_byte b x) = wc_c x + 1"
  "wc_l (wc_byte b x) = wc_l x + (if b = 10 then 1 else 0)"
  "wc_w (wc_byte b x) = wc_w x + (if blank b \<or> wc_inword x then 0 else 1)"
  "wc_inword (wc_byte b x) = (\<not> blank b)"
  unfolding wc_byte_def wc_byte_blank by (simp_all add: Let_def)

lemma wc_fold:
  "wc_c (fold wc_byte bs x) = wc_c x + of_nat (length bs)"
  "wc_l (fold wc_byte bs x) = wc_l x + of_nat (count_list bs 10)"
  "wc_w (fold wc_byte bs x) = wc_w x + of_nat (word_starts (wc_inword x) bs)"
  by (induction bs arbitrary: x) (simp_all add: wc_byte_fields)

end
