(* ===== verification/User_Malloc.thy ===== *)
theory User_Malloc
  imports User_Lib
begin

text \<open>
  The memory allocator of the user programs (\<open>umalloc.c\<close>): a circular list of free blocks in order of
  their addresses. A block begins with a header of 8 bytes, the address of the next free block and
  the size in units of a header. \<open>sbrk\<close> is a parameter; the word -1 is its failure. \<open>base\<close> is the address
  of the static header.
\<close>

section \<open>The allocator\<close>

record 'w umem =
  um_ptr :: "u32 \<Rightarrow> u32"
  um_size :: "u32 \<Rightarrow> u32"
  um_freep :: u32
  um_world :: 'w

datatype um_err = UmFuel

type_synonym ('w, 'a) UM = "('w umem, um_err, 'a) kcomp"

definition HEADER :: u32 where "HEADER = 8"

definition set_ptr :: "u32 \<Rightarrow> u32 \<Rightarrow> ('w, unit) UM" where
  "set_ptr p v = kmod (\<lambda>s. s\<lparr>um_ptr := (um_ptr s)(p := v)\<rparr>)"

definition set_size :: "u32 \<Rightarrow> u32 \<Rightarrow> ('w, unit) UM" where
  "set_size p v = kmod (\<lambda>s. s\<lparr>um_size := (um_size s)(p := v)\<rparr>)"

text \<open>The search for the place of \<open>bp\<close>: between two blocks, or at the end of the list.\<close>

fun free_place :: "nat \<Rightarrow> u32 \<Rightarrow> u32 \<Rightarrow> ('w, u32) UM" where
  "free_place 0 bp p = kfail UmFuel"
| "free_place (Suc n) bp p =
     kbind (kget (\<lambda>s. um_ptr s p)) (\<lambda>q.
     if bp > p \<and> bp < q then kret p
     else if p \<ge> q \<and> (bp > p \<or> bp < q) then kret p
     else free_place n bp q)"

definition ufree :: "nat \<Rightarrow> u32 \<Rightarrow> ('w, unit) UM" where
  "ufree n ap =
     (let bp = ap - HEADER in
      kbind (kget um_freep) (\<lambda>f.
      kbind (free_place n bp f) (\<lambda>p.
      kbind (kget (\<lambda>s. (um_ptr s p, um_size s bp))) (\<lambda>(q, sz).
      kseq (if bp + HEADER * sz = q then
              kbind (kget (\<lambda>s. (um_size s q, um_ptr s q))) (\<lambda>(qs, qp).
              kseq (set_size bp (sz + qs)) (set_ptr bp qp))
            else set_ptr bp q)
      (kbind (kget (\<lambda>s. (um_size s p, um_size s bp, um_ptr s bp))) (\<lambda>(ps, bs, bn).
      kseq (if p + HEADER * ps = bp then kseq (set_size p (ps + bs)) (set_ptr p bn)
            else set_ptr p bp)
      (kmod (\<lambda>s. s\<lparr>um_freep := p\<rparr>))))))))"

definition morecore :: "nat \<Rightarrow> (u32 \<Rightarrow> 'w \<Rightarrow> u32 \<times> 'w) \<Rightarrow> u32 \<Rightarrow> ('w, u32) UM" where
  "morecore n sbrk nu =
     (let nu = (if nu < 4096 then 4096 else nu) in
      kbind (kget (\<lambda>s. sbrk (nu * HEADER) (um_world s))) (\<lambda>(p, w).
      kseq (kmod (\<lambda>s. s\<lparr>um_world := w\<rparr>))
      (if p = -1 then kret 0
       else kseq (set_size p nu)
       (kseq (ufree n (p + HEADER))
       (kget um_freep)))))"

fun malloc_loop :: "nat \<Rightarrow> (u32 \<Rightarrow> 'w \<Rightarrow> u32 \<times> 'w) \<Rightarrow> u32 \<Rightarrow> u32 \<Rightarrow> u32 \<Rightarrow> ('w, u32) UM" where
  "malloc_loop 0 sbrk nunits prevp p = kfail UmFuel"
| "malloc_loop (Suc n) sbrk nunits prevp p =
     kbind (kget (\<lambda>s. (um_size s p, um_ptr s p, um_freep s))) (\<lambda>(sz, q, f).
     if sz \<ge> nunits then
       kbind (if sz = nunits then kseq (set_ptr prevp q) (kret p)
              else kseq (set_size p (sz - nunits))
                (let r = p + HEADER * (sz - nunits) in kseq (set_size r nunits) (kret r))) (\<lambda>p.
       kseq (kmod (\<lambda>s. s\<lparr>um_freep := prevp\<rparr>))
       (kret (p + HEADER)))
     else if p = f then
       kbind (morecore n sbrk nunits) (\<lambda>p.
       if p = 0 then kret 0
       else kbind (kget (\<lambda>s. um_ptr s p)) (\<lambda>q. malloc_loop n sbrk nunits p q))
     else malloc_loop n sbrk nunits p q)"

definition malloc :: "nat \<Rightarrow> u32 \<Rightarrow> (u32 \<Rightarrow> 'w \<Rightarrow> u32 \<times> 'w) \<Rightarrow> u32 \<Rightarrow> ('w, u32) UM" where
  "malloc n base sbrk nbytes =
     (let nunits = (nbytes + HEADER - 1) div HEADER + 1 in
      kbind (kget um_freep) (\<lambda>f.
      kseq (if f = 0 then
              kseq (set_ptr base base)
              (kseq (kmod (\<lambda>s. s\<lparr>um_freep := base\<rparr>))
              (set_size base 0))
            else kret ())
      (kbind (kget um_freep) (\<lambda>prevp.
      kbind (kget (\<lambda>s. um_ptr s prevp)) (\<lambda>p.
      malloc_loop n sbrk nunits prevp p)))))"

section \<open>First fit\<close>

text \<open>The free blocks after \<open>freep\<close> in list order, \<open>freep\<close> itself last.\<close>

fun ring_from :: "(u32 \<Rightarrow> u32) \<Rightarrow> u32 \<Rightarrow> u32 list \<Rightarrow> bool" where
  "ring_from nxt p [] \<longleftrightarrow> True"
| "ring_from nxt p (q # qs) \<longleftrightarrow> nxt p = q \<and> ring_from nxt q qs"

text \<open>What taking \<open>nunits\<close> from the block \<open>p\<close> after \<open>prevp\<close> does: a block that fits exactly leaves the list, from a larger one the end is cut off.\<close>

definition take_block :: "u32 \<Rightarrow> u32 \<Rightarrow> u32 \<Rightarrow> 'w umem \<Rightarrow> u32 \<times> 'w umem" where
  "take_block nunits prevp p s =
     (if um_size s p = nunits then (p + HEADER, s\<lparr>um_ptr := (um_ptr s)(prevp := um_ptr s p), um_freep := prevp\<rparr>)
      else let r = p + HEADER * (um_size s p - nunits) in
        (r + HEADER, s\<lparr>um_size := (um_size s)(p := um_size s p - nunits, r := nunits), um_freep := prevp\<rparr>))"

lemma malloc_loop_fit:
  assumes "ring_from (um_ptr s) prevp (qs @ [p])" "\<forall>q\<in>set qs. um_size s q < nunits \<and> q \<noteq> um_freep s" "nunits \<le> um_size s p" "length qs < n"
  shows "malloc_loop n sbrk nunits prevp (hd (qs @ [p])) s = Inr (take_block nunits (last (prevp # qs)) p s)"
  using assms
proof (induction qs arbitrary: prevp n)
  case Nil
  then obtain k where "n = Suc k" by (cases n) auto
  then show ?case using Nil by (auto simp: kmonad set_ptr_def set_size_def take_block_def Let_def)
next
  case (Cons q qs)
  then obtain k where n: "n = Suc k" "length qs < k" by (cases n) auto
  have "malloc_loop n sbrk nunits prevp q s = malloc_loop k sbrk nunits q (um_ptr s q) s"
  proof -
    have "\<not> nunits \<le> um_size s q" "q \<noteq> um_freep s" using Cons.prems(2) by auto
    then show ?thesis unfolding n(1) by (simp add: kmonad)
  qed
  moreover have "um_ptr s q = hd (qs @ [p])" "ring_from (um_ptr s) q (qs @ [p])" using Cons.prems(1) by (cases qs; simp)+
  ultimately show ?case using Cons.IH [of q k] Cons.prems n(2) by simp
qed

text \<open>The block taken is the first one after \<open>freep\<close> that is large enough.\<close>

lemma malloc_first_fit:
  assumes "um_freep s \<noteq> 0" "ring_from (um_ptr s) (um_freep s) (qs @ [p])" "nunits = (nbytes + HEADER - 1) div HEADER + 1"
    "\<forall>q\<in>set qs. um_size s q < nunits \<and> q \<noteq> um_freep s" "nunits \<le> um_size s p" "length qs < n"
  shows "malloc n base sbrk nbytes s = Inr (take_block nunits (last (um_freep s # qs)) p s)"
proof -
  have "um_ptr s (um_freep s) = hd (qs @ [p])" using assms(2) by (cases qs) auto
  then show ?thesis using malloc_loop_fit [OF assms(2,4,5,6), of sbrk] assms(1,3)
    by (simp add: malloc_def kmonad Let_def del: malloc_loop.simps)
qed

text \<open>Freeing a block between two others that touch neither of them links it in between.\<close>

lemma ufree_between:
  assumes "bp = ap - HEADER" "p = um_freep s" "q = um_ptr s p" "p < bp" "bp < q" "bp + HEADER * um_size s bp \<noteq> q" "p + HEADER * um_size s p \<noteq> bp" "0 < n"
  shows "ufree n ap s = Inr ((), s\<lparr>um_ptr := (um_ptr s)(bp := q, p := bp)\<rparr>)"
proof -
  obtain k where "n = Suc k" using assms(8) by (cases n) auto
  then show ?thesis using assms by (simp add: ufree_def kmonad set_ptr_def Let_def)
qed

end
