(* ===== verification/Grep.thy ===== *)
theory Grep
  imports User_Lib
begin

text \<open>
  The pattern search program (\<open>grep.c\<close>): its matcher for the operators \<open>^ . * $\<close>, the loop over the
  input and \<open>main\<close>. The meaning of a pattern is the regular language of the texts that match; the
  matcher decides it.
\<close>

section \<open>The matcher\<close>

lemma chr_nonempty: "chr t \<noteq> 0 \<Longrightarrow> t \<noteq> []"
  by auto

function (sequential) matchhere :: "u8 list \<Rightarrow> u8 list \<Rightarrow> bool"
  and matchstar :: "u8 \<Rightarrow> u8 list \<Rightarrow> u8 list \<Rightarrow> bool" where
  "matchhere re tx =
     (if chr re = 0 then True
      else if chr (tl re) = 42 then matchstar (chr re) (tl (tl re)) tx
      else if chr re = 36 \<and> chr (tl re) = 0 then chr tx = 0
      else if chr tx \<noteq> 0 \<and> (chr re = 46 \<or> chr re = chr tx) then matchhere (tl re) (tl tx)
      else False)"
| "matchstar c re tx =
     (if matchhere re tx then True
      else if chr tx \<noteq> 0 \<and> (chr tx = c \<or> c = 46) then matchstar c re (tl tx)
      else False)"
  by pat_completeness auto

termination
  by (relation "inv_image (less_than <*lex*> less_than <*lex*> less_than)
        (\<lambda>x. case x of Inl (re, tx) \<Rightarrow> (length re, length tx, 0 :: nat) | Inr (c, re, tx) \<Rightarrow> (length re, length tx, 1))")
    (auto dest!: chr_nonempty simp: length_greater_0_conv [symmetric] simp del: length_greater_0_conv)

declare matchhere.simps [simp del] matchstar.simps [simp del]

fun match_loop :: "u8 list \<Rightarrow> u8 list \<Rightarrow> bool" where
  "match_loop re [] = matchhere re []"
| "match_loop re (c # tx) = (if matchhere re (c # tx) then True else if c \<noteq> 0 then match_loop re tx else False)"

definition re_match :: "u8 list \<Rightarrow> u8 list \<Rightarrow> bool" where
  "re_match re tx = (if chr re = 94 then matchhere (tl re) tx else match_loop re tx)"

section \<open>The program\<close>

text \<open>
  The scan of the lines in the buffer, from index \<open>p\<close>: a newline is replaced by a terminator for the
  match and put back when the line is written. Answers where the scan ends, with the buffer.
\<close>

fun grep_lines :: "nat \<Rightarrow> 'w usys \<Rightarrow> u8 list \<Rightarrow> u8 list \<Rightarrow> nat \<Rightarrow> ('w, nat \<times> u8 list) U" where
  "grep_lines 0 sys pattern buf p = kfail UFuel"
| "grep_lines (Suc n) sys pattern buf p =
     (case ustrchr (drop p buf) 10 of
        None \<Rightarrow> kret (p, buf)
      | Some rest \<Rightarrow>
          let q = length buf - length rest; buf0 = buf[q := 0] in
          if re_match pattern (drop p buf0) then
            let buf1 = buf0[q := 10] in
            kseq (ucall (uc_write sys 1 (take (q + 1 - p) (drop p buf1))))
            (grep_lines n sys pattern buf1 (q + 1))
          else grep_lines n sys pattern buf0 (q + 1))"

definition GREP_BUF :: nat where "GREP_BUF = 1024"

text \<open>\<open>m\<close> bytes of the buffer are in use; a read stores at most what fits before the last byte.\<close>

fun grep_loop :: "nat \<Rightarrow> 'w usys \<Rightarrow> u8 list \<Rightarrow> int \<Rightarrow> u8 list \<Rightarrow> nat \<Rightarrow> ('w, unit) U" where
  "grep_loop 0 sys pattern fd buf m = kfail UFuel"
| "grep_loop (Suc k) sys pattern fd buf m =
     kbind (ucall (uc_read sys fd (GREP_BUF - m - 1))) (\<lambda>(n, bs).
     if n \<le> 0 then kret ()
     else if length bs \<noteq> nat n \<or> GREP_BUF - m - 1 < nat n then kfail UFault
     else let m1 = m + nat n; buf1 = (take m buf @ bs @ drop m1 buf)[m1 := 0] in
     kbind (grep_lines (Suc GREP_BUF) sys pattern buf1 0) (\<lambda>(p, buf2).
     let m2 = (if p = 0 then 0 else m1) in
     if m2 > 0 then grep_loop k sys pattern fd (umemmove (m2 - p) buf2 0 p) (m2 - p)
     else grep_loop k sys pattern fd buf2 m2))"

definition grep :: "nat \<Rightarrow> 'w usys \<Rightarrow> u8 list \<Rightarrow> int \<Rightarrow> ('w, unit) U" where
  "grep k sys pattern fd = grep_loop k sys pattern fd (replicate GREP_BUF 0) 0"

fun grep_files :: "nat \<Rightarrow> 'w usys \<Rightarrow> u8 list \<Rightarrow> u8 list list \<Rightarrow> ('w, unit) U" where
  "grep_files k sys pattern [] = uexit"
| "grep_files k sys pattern (f # fs) =
     kbind (ucall (uc_open sys f 0)) (\<lambda>fd.
     if fd < 0 then kseq (uprintf sys 1 (str ''grep: cannot open %s'' @ [10]) [ArgStr (Some f)]) uexit
     else kseq (grep k sys pattern fd)
     (kseq (ucall (uc_close sys fd))
     (grep_files k sys pattern fs)))"

definition grep_main :: "nat \<Rightarrow> 'w usys \<Rightarrow> u8 list list \<Rightarrow> ('w, unit) U" where
  "grep_main k sys argv =
     (if length argv \<le> 1 then kseq (uprintf sys 2 (str ''usage: grep pattern [file ...]'' @ [10]) []) uexit
      else let pattern = argv ! 1 in
      if length argv \<le> 2 then kseq (grep k sys pattern 0) uexit
      else grep_files k sys pattern (drop 2 argv))"

section \<open>The language of a pattern\<close>

datatype atom = Chr u8 | Dot

datatype piece = Single atom | Many atom | Eol

definition class_of :: "atom \<Rightarrow> u8 set" where
  "class_of a = (case a of Chr c \<Rightarrow> {c} | Dot \<Rightarrow> UNIV) - {0}"

definition atom_of :: "u8 \<Rightarrow> atom" where
  "atom_of c = (if c = 46 then Dot else Chr c)"

function pieces :: "u8 list \<Rightarrow> piece list" where
  "pieces re =
     (if chr re = 0 then []
      else if chr (tl re) = 42 then Many (atom_of (chr re)) # pieces (tl (tl re))
      else if chr re = 36 \<and> chr (tl re) = 0 then [Eol]
      else Single (atom_of (chr re)) # pieces (tl re))"
  by pat_completeness auto
termination
  by (relation "measure length") (auto dest!: chr_nonempty simp: length_greater_0_conv [symmetric] simp del: length_greater_0_conv)

declare pieces.simps [simp del]

definition conc :: "u8 list set \<Rightarrow> u8 list set \<Rightarrow> u8 list set" where
  "conc A B = {u @ v | u v. u \<in> A \<and> v \<in> B}"

definition letters :: "u8 set \<Rightarrow> u8 list set" where
  "letters A = {[c] | c. c \<in> A}"

text \<open>The texts that begin with a match of the pieces; at the end of the pattern anything may follow.\<close>

fun lang :: "piece list \<Rightarrow> u8 list set" where
  "lang [] = UNIV"
| "lang (Eol # ps) = {[]}"
| "lang (Single a # ps) = conc (letters (class_of a)) (lang ps)"
| "lang (Many a # ps) = conc (lists (class_of a)) (lang ps)"

lemma conc_single: "t \<in> conc (letters A) B \<longleftrightarrow> (\<exists>c u. t = c # u \<and> c \<in> A \<and> u \<in> B)"
proof -
  have "t \<in> conc (letters A) B \<longleftrightarrow> (\<exists>u v. t = u @ v \<and> (\<exists>c. u = [c] \<and> c \<in> A) \<and> v \<in> B)" unfolding conc_def letters_def by blast
  also have "\<dots> \<longleftrightarrow> (\<exists>c u. t = [c] @ u \<and> c \<in> A \<and> u \<in> B)" by blast
  finally show ?thesis by simp
qed

lemma conc_lists: "t \<in> conc (lists A) B \<longleftrightarrow> t \<in> B \<or> (\<exists>c u. t = c # u \<and> c \<in> A \<and> u \<in> conc (lists A) B)"
proof
  assume "t \<in> conc (lists A) B"
  then obtain u v where uv: "t = u @ v" "u \<in> lists A" "v \<in> B" by (auto simp: conc_def)
  then show "t \<in> B \<or> (\<exists>c u. t = c # u \<and> c \<in> A \<and> u \<in> conc (lists A) B)"
    by (cases u) (auto simp: conc_def)
next
  assume "t \<in> B \<or> (\<exists>c u. t = c # u \<and> c \<in> A \<and> u \<in> conc (lists A) B)"
  then show "t \<in> conc (lists A) B"
  proof
    assume "t \<in> B"
    moreover have "t = [] @ t" "[] \<in> lists A" by auto
    ultimately show ?thesis unfolding conc_def by blast
  next
    assume "\<exists>c u. t = c # u \<and> c \<in> A \<and> u \<in> conc (lists A) B"
    then obtain c u v where "t = (c # u) @ v" "c # u \<in> lists A" "v \<in> B" by (auto simp: conc_def)
    then show ?thesis unfolding conc_def by blast
  qed
qed

lemma cstr_step: "cstr tx = c # u \<longleftrightarrow> chr tx = c \<and> c \<noteq> 0 \<and> cstr (tl tx) = u"
  by (cases tx) auto

lemma cstr_empty: "cstr tx = [] \<longleftrightarrow> chr tx = 0"
  by (cases tx) auto

lemma class_of_atom: "c \<in> class_of (atom_of d) \<longleftrightarrow> c \<noteq> 0 \<and> (d = 46 \<or> d = c)"
  by (auto simp: class_of_def atom_of_def)

lemma matchhere_lang:
  "matchhere re tx \<longleftrightarrow> cstr tx \<in> lang (pieces re)"
  "matchstar c re tx \<longleftrightarrow> cstr tx \<in> conc (lists (class_of (atom_of c))) (lang (pieces re))"
proof (induction re tx and c re tx rule: matchhere_matchstar.induct)
  case (1 re tx)
  consider "chr re = 0" | "chr re \<noteq> 0" "chr (tl re) = 42" | "chr re \<noteq> 0" "chr (tl re) \<noteq> 42" "chr re = 36 \<and> chr (tl re) = 0"
    | "chr re \<noteq> 0" "chr (tl re) \<noteq> 42" "\<not> (chr re = 36 \<and> chr (tl re) = 0)" by blast
  then show ?case
  proof cases
    case 4
    then show ?thesis using 1(2)
      by (auto simp: matchhere.simps [of re] pieces.simps [of re] conc_single cstr_step class_of_atom)
  qed (use 1(1) in \<open>simp_all add: matchhere.simps [of re] pieces.simps [of re] cstr_empty\<close>)
next
  case (2 c re tx)
  then show ?case
    by (subst conc_lists) (auto simp: matchstar.simps [of c re tx] cstr_step class_of_atom)
qed

lemma match_loop_lang:
  "match_loop re tx \<longleftrightarrow> cstr tx \<in> conc UNIV (lang (pieces re))"
proof -
  have c: "t \<in> conc UNIV B \<longleftrightarrow> t \<in> B \<or> (\<exists>c u. t = c # u \<and> u \<in> conc UNIV B)" for t B
    using conc_lists [of t UNIV B] by simp
  show ?thesis
  proof (induction tx)
    case Nil
    then show ?case by (subst c) (simp add: matchhere_lang)
  next
    case (Cons d tx)
    then show ?case by (subst c) (auto simp: matchhere_lang)
  qed
qed

text \<open>
  C12: the matcher of \<open>grep\<close> decides the regular language of its pattern. A pattern \<open>^r\<close> matches a tx
  iff the tx belongs to the language of \<open>r\<close>, any other pattern \<open>r\<close> iff some suffix of the tx does;
  in the language, \<open>.\<close> stands for any character, \<open>*\<close> repeats the character before it, a \<open>$\<close> at the end
  of the pattern demands the end of the tx, and without it anything may follow.
\<close>

theorem match_regular:
  "re_match re tx \<longleftrightarrow>
     cstr tx \<in> (if chr re = 94 then lang (pieces (tl re)) else conc UNIV (lang (pieces re)))"
  by (simp add: re_match_def matchhere_lang match_loop_lang)

section \<open>The lines that are printed\<close>

lemma list_update_length_add: "(xs @ ys)[length xs + i := y] = xs @ ys[i := y]"
  by (simp add: list_update_append)

lemma ustrchr_line: "10 \<notin> set l \<Longrightarrow> 0 \<notin> set l \<Longrightarrow> ustrchr (l @ 10 # t) 10 = Some (10 # t)"
  by (induction l) auto

lemma ustrchr_rest: "10 \<notin> set l \<Longrightarrow> ustrchr (l @ 0 # t) 10 = None"
  by (induction l) auto

lemma cstr_line: "0 \<notin> set l \<Longrightarrow> cstr (l @ 0 # t) = l"
  by (induction l) auto

lemma cstr_id: "0 \<notin> set l \<Longrightarrow> cstr l = l"
  by (induction l) auto

lemma re_match_cstr: "cstr t = cstr u \<Longrightarrow> re_match re t = re_match re u"
  by (simp add: re_match_def matchhere_lang match_loop_lang)

definition unlines :: "u8 list list \<Rightarrow> u8 list" where
  "unlines ls = concat (map (\<lambda>l. l @ [10]) ls)"

definition put_lines :: "'w usys \<Rightarrow> u8 list list \<Rightarrow> 'w \<Rightarrow> 'w" where
  "put_lines sys ls w = fold (\<lambda>l w. snd (uc_write sys 1 (l @ [10]) w)) ls w"

text \<open>The scan writes exactly the lines that match, in order, and stops at the incomplete last line.\<close>

lemma grep_lines_run:
  assumes "\<forall>l\<in>set ls. 10 \<notin> set l \<and> 0 \<notin> set l" "10 \<notin> set r" "length ls < n"
  shows "\<exists>done'. length done' = length don + length (unlines ls) \<and>
    grep_lines n sys pat (don @ unlines ls @ r @ 0 # junk) (length don) w =
      Inr ((length done', done' @ r @ 0 # junk), put_lines sys (filter (re_match pat) ls) w)"
  using assms
proof (induction ls arbitrary: n don w)
  case Nil
  then show ?case by (cases n) (auto simp: ustrchr_rest unlines_def put_lines_def kmonad)
next
  case (Cons l ls)
  then obtain k where n: "n = Suc k" "length ls < k" by (cases n) auto
  have l: "10 \<notin> set l" "0 \<notin> set l" using Cons.prems by auto
  let ?t = "unlines ls @ r @ 0 # junk"
  have buf: "don @ unlines (l # ls) @ r @ 0 # junk = don @ l @ 10 # ?t" by (simp add: unlines_def)
  have q: "length (don @ l @ 10 # ?t) - length (10 # ?t) = length don + length l" by simp
  have u: "(don @ l @ x # ?t)[length don + length l := y] = don @ l @ y # ?t" for x y by (simp add: list_update_append)
  have m: "re_match pat (l @ 0 # ?t) = re_match pat l"
    using l(2) by (intro re_match_cstr) (simp add: cstr_line cstr_id)
  define v where "v = put_lines sys (filter (re_match pat) [l]) w"
  define b where "b = (if re_match pat l then 10 else 0 :: u8)"
  have "grep_lines n sys pat (don @ unlines (l # ls) @ r @ 0 # junk) (length don) w = grep_lines k sys pat ((don @ l @ [b]) @ ?t) (length (don @ l @ [b])) v"
    unfolding buf n(1) by (simp add: ustrchr_line [OF l] q u m Let_def b_def v_def put_lines_def kmonad case_prod_unfold)
  moreover obtain d where "length d = length (don @ l @ [b]) + length (unlines ls)"
    "grep_lines k sys pat ((don @ l @ [b]) @ ?t) (length (don @ l @ [b])) v = Inr ((length d, d @ r @ 0 # junk), put_lines sys (filter (re_match pat) ls) v)"
    using Cons.IH [OF _ Cons.prems(2) n(2), of "don @ l @ [b]" v] Cons.prems(1) by auto
  ultimately show ?case by (intro exI [of _ d]) (auto simp: unlines_def put_lines_def v_def)
qed

text \<open>
  When the buffer holds no complete line after a read, all of it is dropped: the bytes read so far are
  not part of any line that later reads complete.
\<close>

lemma grep_drops_incomplete:
  assumes "uc_read sys fd (GREP_BUF - m - 1) w = ((int (length bs), bs), w')" "bs \<noteq> []" "length bs \<le> GREP_BUF - m - 1"
    "10 \<notin> set (take m buf @ bs)" "length buf = GREP_BUF"
  shows "\<exists>buf'. grep_loop (Suc k) sys pat fd buf m w = grep_loop k sys pat fd buf' 0 w'"
proof -
  let ?m = "m + length bs"
  have lt: "?m < length buf" using assms(2,3,5) by (cases bs) auto
  have len: "length (take m buf @ bs) = ?m" using lt by simp
  have d: "drop ?m buf = buf ! ?m # drop (Suc ?m) buf" using lt by (rule Cons_nth_drop_Suc [symmetric])
  have "(take m buf @ bs @ drop ?m buf)[?m := 0] = (take m buf @ bs) @ (drop ?m buf)[0 := 0]"
    using list_update_length_add [of "take m buf @ bs" "drop ?m buf" 0 0] len by simp
  then have b: "(take m buf @ bs @ drop ?m buf)[?m := 0] = (take m buf @ bs) @ 0 # drop (Suc ?m) buf" by (simp add: d)
  have "grep_lines (Suc GREP_BUF) sys pat ((take m buf @ bs) @ 0 # drop (Suc ?m) buf) 0 w' = Inr ((0, (take m buf @ bs) @ 0 # drop (Suc ?m) buf), w')"
    using grep_lines_run [of "[]" "take m buf @ bs" "Suc GREP_BUF" "[]" sys pat "drop (Suc ?m) buf" w'] assms(4)
    by (simp add: unlines_def put_lines_def del: grep_lines.simps)
  then show ?thesis using assms(1-3) b
    by (intro exI [of _ "(take m buf @ bs) @ 0 # drop (Suc ?m) buf"]) (simp add: kmonad Let_def del: grep_lines.simps append_assoc)
qed

end
