(* ===== verification/Shell.thy ===== *)
theory Shell
  imports User_Lib
begin

text \<open>
  The shell (\<open>sh.c\<close>): the parser of command lines, the execution of commands and the command loop. The
  parser works on the line buffer; a command refers to its words by the indices of their first
  character and of the character after the last, which \<open>nulterminate\<close> overwrites with a terminator.
  The parser's functions are computations over the position \<open>*ps\<close>. Allocation is taken to succeed.
\<close>

section \<open>Commands\<close>

definition MAXARGS :: nat where "MAXARGS = 10"

datatype cmd =
    ExecCmd "(nat \<times> nat) list"
  | RedirCmd cmd nat nat u32 int
  | PipeCmd cmd cmd
  | ListCmd cmd cmd
  | BackCmd cmd

datatype sh_err = ShPanic string | Leftovers nat | ShFuel

type_synonym 'a P = "(nat, sh_err, 'a) kcomp"

definition execcmd :: cmd where
  "execcmd = ExecCmd []"

definition redircmd :: "cmd \<Rightarrow> nat \<Rightarrow> nat \<Rightarrow> u32 \<Rightarrow> int \<Rightarrow> cmd" where
  "redircmd subcmd file efile mode fd = RedirCmd subcmd file efile mode fd"

definition pipecmd :: "cmd \<Rightarrow> cmd \<Rightarrow> cmd" where
  "pipecmd left right = PipeCmd left right"

definition listcmd :: "cmd \<Rightarrow> cmd \<Rightarrow> cmd" where
  "listcmd left right = ListCmd left right"

definition backcmd :: "cmd \<Rightarrow> cmd" where
  "backcmd subcmd = BackCmd subcmd"

lemmas cmd_constructors = execcmd_def redircmd_def pipecmd_def listcmd_def backcmd_def

text \<open>The parser keeps a pointer to the command whose arguments it collects, inside the redirections.\<close>

fun add_arg :: "nat \<times> nat \<Rightarrow> cmd \<Rightarrow> cmd" where
  "add_arg a (ExecCmd as) = ExecCmd (as @ [a])"
| "add_arg a (RedirCmd c file efile mode fd) = RedirCmd (add_arg a c) file efile mode fd"
| "add_arg a c = c"

section \<open>Tokens\<close>

definition whitespace :: "u8 list" where "whitespace = [32, 9, 13, 10, 11]"

definition symbols :: "u8 list" where "symbols = [60, 124, 62, 38, 59, 40, 41]"

definition at :: "u8 list \<Rightarrow> nat \<Rightarrow> u8" where
  "at buf s = chr (drop s buf)"

definition is_in :: "u8 list \<Rightarrow> u8 \<Rightarrow> bool" where
  "is_in cs c \<longleftrightarrow> ustrchr cs c \<noteq> None"

function skip_ws :: "u8 list \<Rightarrow> nat \<Rightarrow> nat \<Rightarrow> nat" where
  "skip_ws buf es s = (if s < es \<and> is_in whitespace (at buf s) then skip_ws buf es (s + 1) else s)"
  by pat_completeness auto
termination by (relation "measure (\<lambda>(buf, es, s). es - s)") auto

function skip_word :: "u8 list \<Rightarrow> nat \<Rightarrow> nat \<Rightarrow> nat" where
  "skip_word buf es s =
     (if s < es \<and> \<not> is_in whitespace (at buf s) \<and> \<not> is_in symbols (at buf s) then skip_word buf es (s + 1) else s)"
  by pat_completeness auto
termination by (relation "measure (\<lambda>(buf, es, s). es - s)") auto

declare skip_ws.simps [simp del] skip_word.simps [simp del]

text \<open>Answers the token with the bounds of its text and moves to the next one.\<close>

definition gettoken :: "u8 list \<Rightarrow> nat \<Rightarrow> (u8 \<times> nat \<times> nat) P" where
  "gettoken buf es = (\<lambda>ps.
     let s = skip_ws buf es ps; c = at buf s;
         (ret, e) =
           (if c = 0 then (0, s)
            else if c \<in> set [124, 40, 41, 59, 38, 60] then (c, s + 1)
            else if c = 62 then (if at buf (s + 1) = 62 then (43, s + 2) else (62, s + 1))
            else (97, skip_word buf es s)) in
     Inr ((ret, s, e), skip_ws buf es e))"

definition peek :: "u8 list \<Rightarrow> nat \<Rightarrow> u8 list \<Rightarrow> bool P" where
  "peek buf es toks = (\<lambda>ps.
     let s = skip_ws buf es ps in Inr (at buf s \<noteq> 0 \<and> is_in toks (at buf s), s))"

section \<open>The parser\<close>

fun parseredirs :: "nat \<Rightarrow> u8 list \<Rightarrow> nat \<Rightarrow> cmd \<Rightarrow> cmd P" where
  "parseredirs 0 buf es cmd = kfail ShFuel"
| "parseredirs (Suc n) buf es cmd =
     kbind (peek buf es [60, 62]) (\<lambda>more.
     if more then
       kbind (gettoken buf es) (\<lambda>(tok, _).
       kbind (gettoken buf es) (\<lambda>(w, q, eq).
       if w \<noteq> 97 then kfail (ShPanic ''missing file for redirection'')
       else parseredirs n buf es
         (if tok = 60 then redircmd cmd q eq O_RDONLY 0
          else if tok = 62 then redircmd cmd q eq (O_WRONLY OR O_CREATE) 1
          else if tok = 43 then redircmd cmd q eq (O_WRONLY OR O_CREATE) 1
          else cmd)))
     else kret cmd)"

fun parse_args :: "nat \<Rightarrow> u8 list \<Rightarrow> nat \<Rightarrow> nat \<Rightarrow> cmd \<Rightarrow> cmd P" where
  "parse_args 0 buf es argc ret = kfail ShFuel"
| "parse_args (Suc n) buf es argc ret =
     kbind (peek buf es [124, 41, 38, 59]) (\<lambda>stop.
     if stop then kret ret
     else kbind (gettoken buf es) (\<lambda>(tok, q, eq).
     if tok = 0 then kret ret
     else if tok \<noteq> 97 then kfail (ShPanic ''syntax'')
     else if argc + 1 \<ge> MAXARGS then kfail (ShPanic ''too many args'')
     else kbind (parseredirs (Suc es) buf es (add_arg (q, eq) ret)) (parse_args n buf es (argc + 1))))"

fun back_loop :: "nat \<Rightarrow> u8 list \<Rightarrow> nat \<Rightarrow> cmd \<Rightarrow> cmd P" where
  "back_loop 0 buf es cmd = kfail ShFuel"
| "back_loop (Suc n) buf es cmd =
     kbind (peek buf es [38]) (\<lambda>more.
     if more then kseq (gettoken buf es) (back_loop n buf es (backcmd cmd)) else kret cmd)"

fun parseline :: "nat \<Rightarrow> u8 list \<Rightarrow> nat \<Rightarrow> cmd P"
  and parsepipe :: "nat \<Rightarrow> u8 list \<Rightarrow> nat \<Rightarrow> cmd P"
  and parseexec :: "nat \<Rightarrow> u8 list \<Rightarrow> nat \<Rightarrow> cmd P"
  and parseblock :: "nat \<Rightarrow> u8 list \<Rightarrow> nat \<Rightarrow> cmd P" where
  "parseline 0 buf es = kfail ShFuel"
| "parseline (Suc n) buf es =
     kbind (kbind (parsepipe n buf es) (back_loop (Suc es) buf es)) (\<lambda>cmd.
     kbind (peek buf es [59]) (\<lambda>more.
     if more then
       kseq (gettoken buf es)
       (kbind (parseline n buf es) (\<lambda>right. kret (listcmd cmd right)))
     else kret cmd))"
| "parsepipe 0 buf es = kfail ShFuel"
| "parsepipe (Suc n) buf es =
     kbind (parseexec n buf es) (\<lambda>cmd.
     kbind (peek buf es [124]) (\<lambda>more.
     if more then
       kseq (gettoken buf es)
       (kbind (parsepipe n buf es) (\<lambda>right. kret (pipecmd cmd right)))
     else kret cmd))"
| "parseexec 0 buf es = kfail ShFuel"
| "parseexec (Suc n) buf es =
     kbind (peek buf es [40]) (\<lambda>block.
     if block then parseblock n buf es
     else kbind (parseredirs (Suc es) buf es execcmd) (parse_args (Suc es) buf es 0))"
| "parseblock 0 buf es = kfail ShFuel"
| "parseblock (Suc n) buf es =
     kbind (peek buf es [40]) (\<lambda>open.
     if \<not> open then kfail (ShPanic ''parseblock'')
     else kseq (gettoken buf es)
     (kbind (parseline n buf es) (\<lambda>cmd.
     kbind (peek buf es [41]) (\<lambda>close.
     if \<not> close then kfail (ShPanic ''syntax - missing )'')
     else kseq (gettoken buf es)
     (parseredirs (Suc es) buf es cmd)))))"

fun nulterminate :: "cmd \<Rightarrow> u8 list \<Rightarrow> u8 list" where
  "nulterminate (ExecCmd as) buf = fold (\<lambda>(q, eq) b. b[eq := 0]) as buf"
| "nulterminate (RedirCmd c file efile mode fd) buf = (nulterminate c buf)[efile := 0]"
| "nulterminate (PipeCmd l r) buf = nulterminate r (nulterminate l buf)"
| "nulterminate (ListCmd l r) buf = nulterminate r (nulterminate l buf)"
| "nulterminate (BackCmd c) buf = nulterminate c buf"

text \<open>Answers the command and the buffer with its words terminated.\<close>

definition parsecmd :: "u8 list \<Rightarrow> sh_err + (cmd \<times> u8 list)" where
  "parsecmd buf =
     (let es = ustrlen buf in
      case kbind (parseline (4 * es + 3) buf es) (\<lambda>cmd. kseq (peek buf es []) (kret cmd)) 0 of
        Inl e \<Rightarrow> Inl e
      | Inr (cmd, s) \<Rightarrow> if s \<noteq> es then Inl (Leftovers s) else Inr (cmd, nulterminate cmd buf))"

section \<open>Execution and the command loop\<close>

definition sh_panic :: "'w usys \<Rightarrow> u8 list \<Rightarrow> ('w, 'a) U" where
  "sh_panic sys s = kseq (uprintf sys 2 (str ''%s'' @ [10]) [ArgStr (Some s)]) uexit"

definition fork1 :: "'w usys \<Rightarrow> ('w, int) U" where
  "fork1 sys = kbind (ucall (uc_fork sys)) (\<lambda>pid. if pid = -1 then sh_panic sys (str ''fork'') else kret pid)"

definition word_at :: "u8 list \<Rightarrow> nat \<Rightarrow> u8 list" where
  "word_at buf q = cstr (drop q buf)"

text \<open>The parser always answers a command, so the null pointer and other types need no case.\<close>

fun runcmd :: "'w usys \<Rightarrow> u8 list \<Rightarrow> cmd \<Rightarrow> ('w, unit) U" where
  "runcmd sys buf (ExecCmd as) =
     (case as of
        [] \<Rightarrow> uexit
      | a # _ \<Rightarrow>
          kseq (uexec sys (word_at buf (fst a)) (map (word_at buf \<circ> fst) as))
          (kseq (uprintf sys 2 (str ''exec %s failed'' @ [10]) [ArgStr (Some (word_at buf (fst a)))])
          uexit))"
| "runcmd sys buf (RedirCmd c file efile mode fd) =
     kseq (ucall (uc_close sys fd))
     (kbind (ucall (uc_open sys (word_at buf file) mode)) (\<lambda>r.
     if r < 0 then kseq (uprintf sys 2 (str ''open %s failed'' @ [10]) [ArgStr (Some (word_at buf file))]) uexit
     else kseq (runcmd sys buf c) uexit))"
| "runcmd sys buf (ListCmd l r) =
     kbind (fork1 sys) (\<lambda>pid.
     kseq (if pid = 0 then runcmd sys buf l else kret ())
     (kseq (ucall (uc_wait sys))
     (kseq (runcmd sys buf r) uexit)))"
| "runcmd sys buf (PipeCmd l r) =
     kbind (ucall (uc_pipe sys)) (\<lambda>(res, p0, p1).
     if res < 0 then sh_panic sys (str ''pipe'')
     else kbind (fork1 sys) (\<lambda>pid.
     kseq (if pid = 0 then
             kseq (ucall (uc_close sys 1)) (kseq (ucall (uc_dup sys p1))
             (kseq (ucall (uc_close sys p0)) (kseq (ucall (uc_close sys p1)) (runcmd sys buf l))))
           else kret ())
     (kbind (fork1 sys) (\<lambda>pid.
     kseq (if pid = 0 then
             kseq (ucall (uc_close sys 0)) (kseq (ucall (uc_dup sys p0))
             (kseq (ucall (uc_close sys p0)) (kseq (ucall (uc_close sys p1)) (runcmd sys buf r))))
           else kret ())
     (kseq (ucall (uc_close sys p0)) (kseq (ucall (uc_close sys p1))
     (kseq (ucall (uc_wait sys)) (kseq (ucall (uc_wait sys)) uexit))))))))"
| "runcmd sys buf (BackCmd c) =
     kbind (fork1 sys) (\<lambda>pid.
     kseq (if pid = 0 then runcmd sys buf c else kret ())
     uexit)"

definition getcmd :: "'w usys \<Rightarrow> u8 list \<Rightarrow> nat \<Rightarrow> ('w, int \<times> u8 list) U" where
  "getcmd sys buf nbuf =
     kseq (uprintf sys 2 (str ''$ '') [])
     (case umemset buf 0 nbuf of
        None \<Rightarrow> kfail UFault
      | Some b \<Rightarrow> kbind (ugets sys b nbuf) (\<lambda>buf1. kret (if at buf1 0 = 0 then -1 else 0, buf1)))"

definition run_line :: "'w usys \<Rightarrow> u8 list \<Rightarrow> ('w, unit) U" where
  "run_line sys buf =
     (case parsecmd buf of
        Inr (cmd, buf') \<Rightarrow> runcmd sys buf' cmd
      | Inl (ShPanic s) \<Rightarrow> sh_panic sys (str s)
      | Inl (Leftovers s) \<Rightarrow>
          kseq (uprintf sys 2 (str ''leftovers: %s'' @ [10]) [ArgStr (Some (drop s buf))]) (sh_panic sys (str ''syntax''))
      | Inl ShFuel \<Rightarrow> kfail UFuel)"

fun sh_console :: "nat \<Rightarrow> 'w usys \<Rightarrow> ('w, unit) U" where
  "sh_console 0 sys = kfail UFuel"
| "sh_console (Suc k) sys =
     kbind (ucall (uc_open sys (str ''console'') O_RDWR)) (\<lambda>fd.
     if fd < 0 then kret ()
     else if fd \<ge> 3 then kseq (ucall (uc_close sys fd)) (kret ())
     else sh_console k sys)"

definition SH_BUF :: nat where "SH_BUF = 100"

fun sh_loop :: "nat \<Rightarrow> 'w usys \<Rightarrow> u8 list \<Rightarrow> ('w, unit) U" where
  "sh_loop 0 sys buf = kfail UFuel"
| "sh_loop (Suc k) sys buf =
     kbind (getcmd sys buf SH_BUF) (\<lambda>(r, buf).
     if r < 0 then uexit
     else if at buf 0 = 99 \<and> at buf 1 = 100 \<and> at buf 2 = 32 then
       let buf' = buf[ustrlen buf - 1 := 0] in
       kbind (ucall (uc_chdir sys (drop 3 buf'))) (\<lambda>c.
       kseq (if c < 0 then uprintf sys 2 (str ''cannot cd %s'' @ [10]) [ArgStr (Some (drop 3 buf'))] else kret ())
       (sh_loop k sys buf'))
     else kbind (fork1 sys) (\<lambda>pid.
       kseq (if pid = 0 then run_line sys buf else kret ())
       (kseq (ucall (uc_wait sys))
       (sh_loop k sys buf))))"

definition sh_main :: "nat \<Rightarrow> 'w usys \<Rightarrow> ('w, unit) U" where
  "sh_main k sys = kseq (sh_console k sys) (sh_loop k sys (replicate SH_BUF 0))"

end
