(* ===== verification/Shell_Props.thy ===== *)
theory Shell_Props
  imports Shell
begin

text \<open>
  The shell's parser: it ends on every line, and it reads back every command that is written in its
  syntax. Abstract commands carry their words; \<open>print_cmd\<close> writes one down with parentheses where the
  grammar needs them.
\<close>

section \<open>Reading the buffer\<close>






abbreviation isws :: "u8 \<Rightarrow> bool" where "isws c \<equiv> is_in whitespace c"



lemma is_in_sets:
  "is_in whitespace c \<longleftrightarrow> c \<in> {32, 9, 13, 10, 11}" "is_in symbols c \<longleftrightarrow> c \<in> {60, 124, 62, 38, 59, 40, 41}"
  by (simp_all add: is_in_def whitespace_def symbols_def)

lemma isws_symbol [simp]: "\<not> isws 60" "\<not> isws 124" "\<not> isws 62" "\<not> isws 38" "\<not> isws 59" "\<not> isws 40" "\<not> isws 41"
  by (simp_all add: is_in_sets)














section \<open>Abstract commands and their written form\<close>











section \<open>Redirections and arguments\<close>















section \<open>The levels of the grammar\<close>




















section \<open>The words of a parsed command\<close>













section \<open>The parser ends\<close>

definition line_at :: "u8 list \<Rightarrow> nat \<Rightarrow> bool" where
  "line_at buf es \<longleftrightarrow> at buf es = 0 \<and> (\<forall>i<es. at buf i \<noteq> 0)"

lemma line_at_strlen: "line_at buf (ustrlen buf)"
proof -
  have "line_at buf (strlen buf)"
  proof (induction buf)
    case (Cons c buf)
    then show ?case by (auto simp: line_at_def at_def less_Suc_eq_0_disj)
  qed (simp add: line_at_def at_def)
  then show ?thesis by (simp add: ustrlen_strlen)
qed

lemma skip_ws_bounds: "s \<le> es \<Longrightarrow> s \<le> skip_ws buf es s \<and> skip_ws buf es s \<le> es"
proof (induction buf es s rule: skip_ws.induct)
  case (1 buf es s)
  then show ?case by (subst (1 2) skip_ws.simps) auto
qed

lemma skip_ws_stop: "skip_ws buf es s < es \<Longrightarrow> \<not> isws (at buf (skip_ws buf es s))"
proof (induction buf es s rule: skip_ws.induct)
  case (1 buf es s)
  then show ?case by (cases "s < es \<and> isws (at buf s)") (simp_all add: skip_ws.simps [of buf es s])
qed

lemma skip_ws_again: "skip_ws buf es (skip_ws buf es s) = skip_ws buf es s"
  using skip_ws_stop [of buf es s] by (subst skip_ws.simps) auto

lemma skip_word_bounds: "s \<le> es \<Longrightarrow> s \<le> skip_word buf es s \<and> skip_word buf es s \<le> es"
proof (induction buf es s rule: skip_word.induct)
  case (1 buf es s)
  then show ?case by (subst (1 2) skip_word.simps) auto
qed

lemma gettoken_ends:
  assumes "line_at buf es" "s \<le> es"
  obtains tok q e t where "gettoken buf es s = Inr ((tok, q, e), t)" "s \<le> t" "t \<le> es" "at buf (skip_ws buf es s) \<noteq> 0 \<longrightarrow> s < t"
    "at buf (skip_ws buf es s) = 0 \<longrightarrow> tok = 0"
proof -
  let ?s = "skip_ws buf es s" let ?c = "at buf ?s"
  obtain tok q e t where g: "gettoken buf es s = Inr ((tok, q, e), t)" by (auto simp: gettoken_def Let_def case_prod_unfold)
  have b: "s \<le> ?s" "?s \<le> es" using skip_ws_bounds [OF assms(2)] by auto
  have t: "t = skip_ws buf es e" using g by (auto simp: gettoken_def Let_def split: if_splits)
  have e: "?s \<le> e \<and> e \<le> es \<and> (?c \<noteq> 0 \<longrightarrow> ?s < e)"
  proof (cases "?c = 0")
    case True
    then show ?thesis using g b by (simp add: gettoken_def Let_def)
  next
    case False
    then have lt: "?s < es" using assms(1) b(2) by (metis le_neq_implies_less line_at_def)
    have "at buf (?s + 1) = 62 \<longrightarrow> ?s + 1 < es" using assms(1) lt by (cases "?s + 1 = es") (auto simp: line_at_def)
    moreover have "?s < skip_word buf es ?s \<and> skip_word buf es ?s \<le> es" if "?c \<notin> {124, 40, 41, 59, 38, 60, 62}"
    proof -
      have "\<not> isws ?c" "\<not> is_in symbols ?c" using skip_ws_stop [OF lt] that by (auto simp: is_in_sets)
      then have "skip_word buf es ?s = skip_word buf es (?s + 1)" using lt by (subst skip_word.simps) simp
      then show ?thesis using skip_word_bounds [of "?s + 1" es buf] lt by simp
    qed
    ultimately show ?thesis using g lt False by (auto simp: gettoken_def Let_def split: if_splits)
  qed
  have "at buf ?s = 0 \<longrightarrow> tok = 0" using g by (auto simp: gettoken_def Let_def)
  then show ?thesis using that [OF g] skip_ws_bounds [of e es buf] e b unfolding t by auto
qed

text \<open>A run from a position of the line is not cut off and does not move back or past the end.\<close>

definition ends :: "nat \<Rightarrow> 'a P \<Rightarrow> nat \<Rightarrow> bool" where
  "ends es m s \<longleftrightarrow> m s \<noteq> Inl ShFuel \<and> (\<forall>x t. m s = Inr (x, t) \<longrightarrow> s \<le> t \<and> t \<le> es)"

lemma ends_bind:
  assumes "ends es m s" "\<And>x t. m s = Inr (x, t) \<Longrightarrow> s \<le> t \<Longrightarrow> t \<le> es \<Longrightarrow> ends es (f x) t"
  shows "ends es (kbind m f) s"
proof (cases "m s")
  case (Inl e)
  then show ?thesis using assms(1) by (simp add: ends_def kbind_run)
next
  case (Inr a)
  then obtain x t where a: "m s = Inr (x, t)" "s \<le> t" "t \<le> es" using assms(1) by (cases a) (auto simp: ends_def)
  then show ?thesis using assms(2) [OF a] by (auto simp: ends_def kbind_run)
qed

lemma ends_intros:
  "s \<le> es \<Longrightarrow> ends es (kret x) s" "e \<noteq> ShFuel \<Longrightarrow> ends es (kfail e) s"
  by (auto simp: ends_def kmonad)

lemma peek_ends: "s \<le> es \<Longrightarrow> ends es (peek buf es toks) s"
  using skip_ws_bounds [of s es buf] by (auto simp: ends_def peek_def Let_def)

text \<open>After a look ahead that finds a character, taking the token makes progress.\<close>

lemma ends_peek:
  assumes "line_at buf es" "s \<le> es" "\<And>t. s \<le> t \<Longrightarrow> t \<le> es \<Longrightarrow> ends es n t"
    "\<And>x t. s < t \<Longrightarrow> t \<le> es \<Longrightarrow> ends es (f x) t"
  shows "ends es (kbind (peek buf es toks) (\<lambda>b. if b then kbind (gettoken buf es) f else n)) s"
proof (rule ends_bind [OF peek_ends [OF assms(2)]])
  fix b t
  assume p: "peek buf es toks s = Inr (b, t)" "s \<le> t" "t \<le> es"
  then have t: "t = skip_ws buf es s" "b \<longrightarrow> at buf t \<noteq> 0" by (auto simp: peek_def Let_def)
  show "ends es (if b then kbind (gettoken buf es) f else n) t"
  proof (cases b)
    case True
    obtain tok q e u where g: "gettoken buf es t = Inr ((tok, q, e), u)" "t < u" "u \<le> es"
      using gettoken_ends [OF assms(1) p(3)] t True skip_ws_again [of buf es s] by metis
    have "ends es (f (tok, q, e)) u" using assms(4) g p(2) by simp
    then show ?thesis using True g by (auto simp: ends_def kbind_run)
  qed (use assms(3) p in simp)
qed

lemma kseq_bind: "kseq m k = kbind m (\<lambda>_. k)"
  by (simp add: fun_eq_iff kseq_run kbind_run)

lemma if_not_P_swap: "(if \<not> b then x else y) = (if b then y else x)"
  by simp

lemma gettoken_safe: "line_at buf es \<Longrightarrow> s \<le> es \<Longrightarrow> ends es (gettoken buf es) s"
  by (rule gettoken_ends [of buf es s]) (auto simp: ends_def)

lemma parseredirs_ends:
  assumes "line_at buf es"
  shows "s \<le> es \<Longrightarrow> es - s < n \<Longrightarrow> ends es (parseredirs n buf es cmd) s"
proof (induction n arbitrary: s cmd)
  case (Suc n)
  show ?case unfolding parseredirs.simps
  proof (rule ends_peek [OF assms Suc.prems(1)])
    fix x :: "u8 \<times> nat \<times> nat" and t
    assume t: "s < t" "t \<le> es"
    have ih: "ends es (parseredirs n buf es c) u" if "t \<le> u" "u \<le> es" for c u
      using Suc.IH [of u c] Suc.prems(2) t that by auto
    show "ends es (case x of (tok, _) \<Rightarrow> kbind (gettoken buf es) (\<lambda>(w, q, eq).
        if w \<noteq> 97 then kfail (ShPanic ''missing file for redirection'')
        else parseredirs n buf es
          (if tok = 60 then redircmd cmd q eq O_RDONLY 0
           else if tok = 62 then redircmd cmd q eq (O_WRONLY OR O_CREATE) 1
           else if tok = 43 then redircmd cmd q eq (O_WRONLY OR O_CREATE) 1
           else cmd))) t"
      unfolding case_prod_unfold
      by (intro ends_bind [OF gettoken_safe [OF assms t(2)]]) (auto simp: ih intro: ends_intros simp del: parseredirs.simps)
  qed (auto intro: ends_intros)
qed simp

lemma parse_args_ends:
  assumes "line_at buf es"
  shows "s \<le> es \<Longrightarrow> es - s < n \<Longrightarrow> ends es (parse_args n buf es argc ret) s"
proof (induction n arbitrary: s argc ret)
  case (Suc n)
  have more: "ends es (kbind (gettoken buf es) (\<lambda>(tok, q, eq).
     if tok = 0 then kret ret
     else if tok \<noteq> 97 then kfail (ShPanic ''syntax'')
     else if argc + 1 \<ge> MAXARGS then kfail (ShPanic ''too many args'')
     else kbind (parseredirs (Suc es) buf es (add_arg (q, eq) ret)) (parse_args n buf es (argc + 1)))) t" if t: "s \<le> t" "t \<le> es" for t
  proof -
    obtain tok q e u where g: "gettoken buf es t = Inr ((tok, q, e), u)" "t \<le> u" "u \<le> es" "tok \<noteq> 0 \<longrightarrow> t < u"
      using gettoken_ends [OF assms t(2)] by metis
    have "ends es (kbind (parseredirs (Suc es) buf es (add_arg (q, e) ret)) (parse_args n buf es (argc + 1))) u" if "tok \<noteq> 0"
      by (rule ends_bind [OF parseredirs_ends [OF assms g(3)]]) (use Suc g t that in \<open>auto simp del: parse_args.simps\<close>)
    then show ?thesis
      by (intro ends_bind [OF gettoken_safe [OF assms t(2)]]) (use g in \<open>auto intro: ends_intros simp del: parseredirs.simps parse_args.simps\<close>)
  qed
  show ?case unfolding parse_args.simps
    by (rule ends_bind [OF peek_ends [OF Suc.prems(1)]]) (use more in \<open>auto intro: ends_intros simp del: parseredirs.simps parse_args.simps\<close>)
qed simp

lemma back_loop_ends:
  assumes "line_at buf es"
  shows "s \<le> es \<Longrightarrow> es - s < n \<Longrightarrow> ends es (back_loop n buf es cmd) s"
proof (induction n arbitrary: s cmd)
  case (Suc n)
  show ?case unfolding back_loop.simps kseq_bind
    by (rule ends_peek [OF assms Suc.prems(1)]) (use Suc in \<open>auto intro: ends_intros simp del: back_loop.simps\<close>)
qed simp

lemma parse_ends:
  assumes "line_at buf es"
  shows "s \<le> es \<Longrightarrow>
    (4 * (es - s) + 3 \<le> n \<longrightarrow> ends es (parseline n buf es) s) \<and> (4 * (es - s) + 2 \<le> n \<longrightarrow> ends es (parsepipe n buf es) s) \<and>
    (4 * (es - s) + 1 \<le> n \<longrightarrow> ends es (parseexec n buf es) s) \<and> (4 * (es - s) \<le> n \<longrightarrow> at buf s \<noteq> 0 \<longrightarrow> ends es (parseblock n buf es) s)"
proof (induction n arbitrary: s)
  case 0
  then show ?case using assms by (auto simp: line_at_def)
next
  case (Suc n)
  have line: "ends es (parseline n buf es) t" if "s < t" "t \<le> es" "4 * (es - s) \<le> Suc n" for t using Suc.IH [of t] that by auto
  have pipe: "ends es (parsepipe n buf es) t" if "s < t" "t \<le> es" "4 * (es - s) \<le> Suc n" for t using Suc.IH [of t] that by auto
  have "ends es (parseline (Suc n) buf es) s" if n: "4 * (es - s) + 3 \<le> Suc n"
    unfolding parseline.simps kseq_bind
  proof (rule ends_bind)
    have "ends es (parsepipe n buf es) s" using Suc.IH [OF Suc.prems] n by simp
    then show "ends es (kbind (parsepipe n buf es) (back_loop (Suc es) buf es)) s"
      by (rule ends_bind) (rule back_loop_ends [OF assms], auto)
    fix cmd t
    assume t: "s \<le> t" "t \<le> es"
    show "ends es (kbind (peek buf es [59]) (\<lambda>more. if more then kbind (gettoken buf es) (\<lambda>_. kbind (parseline n buf es) (\<lambda>right. kret (listcmd cmd right))) else kret cmd)) t"
      by (rule ends_peek [OF assms t(2)]) (use line n t in \<open>auto intro!: ends_intros ends_bind simp del: parseline.simps\<close>)
  qed
  moreover have "ends es (parsepipe (Suc n) buf es) s" if n: "4 * (es - s) + 2 \<le> Suc n"
    unfolding parsepipe.simps kseq_bind
  proof (rule ends_bind)
    show "ends es (parseexec n buf es) s" using Suc.IH [OF Suc.prems] n by simp
    fix cmd t
    assume t: "s \<le> t" "t \<le> es"
    show "ends es (kbind (peek buf es [124]) (\<lambda>more. if more then kbind (gettoken buf es) (\<lambda>_. kbind (parsepipe n buf es) (\<lambda>right. kret (pipecmd cmd right))) else kret cmd)) t"
      by (rule ends_peek [OF assms t(2)]) (use pipe n t in \<open>auto intro!: ends_intros ends_bind simp del: parsepipe.simps\<close>)
  qed
  moreover have "ends es (parseexec (Suc n) buf es) s" if n: "4 * (es - s) + 1 \<le> Suc n"
    unfolding parseexec.simps
  proof (rule ends_bind [OF peek_ends [OF Suc.prems]])
    fix b t
    assume t: "peek buf es [40] s = Inr (b, t)" "s \<le> t" "t \<le> es"
    have "b \<longrightarrow> at buf t \<noteq> 0" using t(1) by (auto simp: peek_def Let_def)
    then have "b \<longrightarrow> ends es (parseblock n buf es) t" using Suc.IH [of t] n t by auto
    moreover have "ends es (kbind (parseredirs (Suc es) buf es execcmd) (parse_args (Suc es) buf es 0)) t"
      by (rule ends_bind [OF parseredirs_ends [OF assms t(3)]]) (auto intro!: parse_args_ends [OF assms] simp del: parse_args.simps)
    ultimately show "ends es (if b then parseblock n buf es else kbind (parseredirs (Suc es) buf es execcmd) (parse_args (Suc es) buf es 0)) t" by simp
  qed
  moreover have "ends es (parseblock (Suc n) buf es) s" if n: "4 * (es - s) \<le> Suc n"
    unfolding parseblock.simps kseq_bind if_not_P_swap
  proof (rule ends_peek [OF assms Suc.prems])
    fix x :: "u8 \<times> nat \<times> nat" and t
    assume t: "s < t" "t \<le> es"
    show "ends es (kbind (parseline n buf es) (\<lambda>cmd. kbind (peek buf es [41]) (\<lambda>close.
       if close then kbind (gettoken buf es) (\<lambda>_. parseredirs (Suc es) buf es cmd) else kfail (ShPanic ''syntax - missing )'')))) t"
    proof (rule ends_bind [OF line [OF t n]])
      fix cmd u
      assume u: "t \<le> u" "u \<le> es"
      show "ends es (kbind (peek buf es [41]) (\<lambda>close.
       if close then kbind (gettoken buf es) (\<lambda>_. parseredirs (Suc es) buf es cmd) else kfail (ShPanic ''syntax - missing )''))) u"
        by (rule ends_peek [OF assms u(2)]) (auto intro!: ends_intros parseredirs_ends [OF assms] simp del: parseredirs.simps)
    qed
  qed (simp add: ends_intros)
  ultimately show ?case by blast
qed

text \<open>On every line the parser ends within its bound, with a command or with an error it reports.\<close>

lemma parsecmd_ends: "parsecmd buf \<noteq> Inl ShFuel"
proof -
  let ?es = "ustrlen buf"
  have "ends ?es (parseline (4 * ?es + 3) buf ?es) 0" using parse_ends [OF line_at_strlen, of 0 buf "4 * ?es + 3"] by simp
  then have "ends ?es (kbind (parseline (4 * ?es + 3) buf ?es) (\<lambda>cmd. kseq (peek buf ?es []) (kret cmd))) 0"
    unfolding kseq_bind by (rule ends_bind) (rule ends_bind [OF peek_ends], auto intro: ends_intros)
  then show ?thesis by (auto simp: parsecmd_def ends_def Let_def split: sum.splits)
qed

end
