(* ===== verification/Mkfs.thy ===== *)
theory Mkfs
  imports Block_Alloc
begin

text \<open>
  The builder of the initial file system (\<open>mkfs.c\<close>), a program of the host. Its state is the image file
  as a map from sector numbers to blocks, the super block and the next free inode and block. Files
  of the host are parameters: for every name the pieces that successive reads return, or nothing
  if it cannot be opened. Progress messages are left out.
\<close>

section \<open>The program\<close>

record mkfs_state =
  mf_img :: "u32 \<rightharpoonup> u8 list"
  mf_sb :: superblock
  mf_freeinode :: u32
  mf_freeblock :: u32

datatype mkfs_err = Usage | Perror string | AssertFailed | MkFuel

type_synonym 'a MK = "(mkfs_state, mkfs_err, 'a) kcomp"

definition NINODES :: u32 where "NINODES = 200"

definition nbitmap :: u32 where "nbitmap = FSSIZE div (of_nat BSIZE * 8) + 1"
definition ninodeblocks :: u32 where "ninodeblocks = NINODES div IPB + 1"
definition nlog :: u32 where "nlog = of_nat LOGSIZE"

text \<open>Byte order: the bytes of the result in memory are those of the argument, lowest first.\<close>

definition xshort :: "u16 \<Rightarrow> u16" where
  "xshort x = le16 [ucast x, ucast (drop_bit 8 x)] 0"

definition xint :: "u32 \<Rightarrow> u32" where
  "xint x = le32 [ucast x, ucast (drop_bit 8 x), ucast (drop_bit 16 x), ucast (drop_bit 24 x)] 0"

definition wsect :: "u32 \<Rightarrow> u8 list \<Rightarrow> unit MK" where
  "wsect sec buf = kmod (\<lambda>s. s\<lparr>mf_img := (mf_img s)(sec \<mapsto> buf)\<rparr>)"

definition rsect :: "u32 \<Rightarrow> u8 list MK" where
  "rsect sec = kbind (kget (\<lambda>s. mf_img s sec)) (\<lambda>b. case b of None \<Rightarrow> kfail (Perror ''read'') | Some d \<Rightarrow> kret d)"

definition winode :: "u32 \<Rightarrow> dinode \<Rightarrow> unit MK" where
  "winode inum ip =
     kbind (kget mf_sb) (\<lambda>sb.
     let bn = IBLOCK inum sb in
     kbind (rsect bn) (\<lambda>buf.
     wsect bn (put_dinode buf (dslot inum) ip)))"

definition rinode :: "u32 \<Rightarrow> dinode MK" where
  "rinode inum =
     kbind (kget mf_sb) (\<lambda>sb.
     kbind (rsect (IBLOCK inum sb)) (\<lambda>buf. kret (get_dinode buf (dslot inum))))"

definition dinode0 :: dinode where
  "dinode0 = \<lparr>di_type = 0, di_major = 0, di_minor = 0, di_nlink = 0, di_size = 0, di_addrs = replicate (NDIRECT + 1) 0\<rparr>"

definition mk_ialloc :: "u16 \<Rightarrow> u32 MK" where
  "mk_ialloc type =
     kbind (kget mf_freeinode) (\<lambda>inum.
     kseq (kmod (\<lambda>s. s\<lparr>mf_freeinode := inum + 1\<rparr>))
     (kseq (winode inum (dinode0\<lparr>di_type := xshort type, di_nlink := xshort 1, di_size := xint 0\<rparr>))
     (kret inum)))"

fun mark_used :: "nat \<Rightarrow> nat \<Rightarrow> u8 list \<Rightarrow> u8 list" where
  "mark_used 0 i buf = buf"
| "mark_used (Suc n) i buf = mark_used n (i + 1) (bm_set buf i)"

definition mk_balloc :: "nat \<Rightarrow> unit MK" where
  "mk_balloc n =
     (if n < BSIZE * 8 then kbind (kget mf_sb) (\<lambda>sb. wsect (sb_bmapstart sb) (mark_used n 0 (replicate BSIZE 0)))
      else kfail AssertFailed)"

definition new_block :: "u32 MK" where
  "new_block = kbind (kget mf_freeblock) (\<lambda>b. kseq (kmod (\<lambda>s. s\<lparr>mf_freeblock := b + 1\<rparr>)) (kret b))"

text \<open>The block of index \<open>fbn\<close>, allocated if there is none; answers it with the inode.\<close>

definition iappend_block :: "dinode \<Rightarrow> nat \<Rightarrow> (u32 \<times> dinode) MK" where
  "iappend_block din fbn =
     (if fbn < NDIRECT then
        kbind (if xint (di_addrs din ! fbn) = 0
               then kbind new_block (\<lambda>b. kret (din\<lparr>di_addrs := (di_addrs din)[fbn := xint b]\<rparr>))
               else kret din) (\<lambda>din.
        kret (xint (di_addrs din ! fbn), din))
      else
        kbind (if xint (di_addrs din ! NDIRECT) = 0
               then kbind new_block (\<lambda>b. kret (din\<lparr>di_addrs := (di_addrs din)[NDIRECT := xint b]\<rparr>))
               else kret din) (\<lambda>din.
        kbind (rsect (xint (di_addrs din ! NDIRECT))) (\<lambda>indirect.
        kbind (if le32 indirect (4 * (fbn - NDIRECT)) = 0
               then kbind new_block (\<lambda>b.
                    let indirect = put32 indirect (4 * (fbn - NDIRECT)) (xint b) in
                    kseq (wsect (xint (di_addrs din ! NDIRECT)) indirect) (kret indirect))
               else kret indirect) (\<lambda>indirect.
        kret (xint (le32 indirect (4 * (fbn - NDIRECT))), din)))))"

text \<open>Every round appends at least one byte.\<close>

fun iappend_loop :: "nat \<Rightarrow> dinode \<Rightarrow> u32 \<Rightarrow> u8 list \<Rightarrow> (dinode \<times> u32) MK" where
  "iappend_loop 0 din off p = kfail MkFuel"
| "iappend_loop (Suc k) din off p =
     (if p = [] then kret (din, off)
      else let fbn = unat off div BSIZE in
      if fbn < MAXFILE then
        kbind (iappend_block din fbn) (\<lambda>(x, din).
        let n1 = min (length p) ((fbn + 1) * BSIZE - unat off) in
        kbind (rsect x) (\<lambda>buf.
        kseq (wsect x (splice buf (unat off - fbn * BSIZE) (take n1 p)))
        (iappend_loop k din (off + of_nat n1) (drop n1 p))))
      else kfail AssertFailed)"

definition iappend :: "u32 \<Rightarrow> u8 list \<Rightarrow> unit MK" where
  "iappend inum p =
     kbind (rinode inum) (\<lambda>din.
     kbind (iappend_loop (Suc (length p)) din (xint (di_size din)) p) (\<lambda>(din, off).
     winode inum (din\<lparr>di_size := xint off\<rparr>)))"

definition padded :: "u8 list \<Rightarrow> u8 list" where
  "padded nm = take DIRSIZ (cstr nm @ replicate DIRSIZ 0)"

definition mk_dirent :: "u32 \<Rightarrow> u8 list \<Rightarrow> u8 list" where
  "mk_dirent inum nm = dirent_bytes \<lparr>de_inum = xshort (ucast inum), de_name = padded nm\<rparr>"

fun append_pieces :: "u32 \<Rightarrow> u8 list list \<Rightarrow> unit MK" where
  "append_pieces inum [] = kret ()"
| "append_pieces inum (p # ps) = kseq (iappend inum p) (append_pieces inum ps)"

fun add_files :: "(u8 list \<Rightarrow> u8 list list option) \<Rightarrow> u32 \<Rightarrow> u8 list list \<Rightarrow> unit MK" where
  "add_files host rootino [] = kret ()"
| "add_files host rootino (f # fs) =
     (if 47 \<in> set (cstr f) then kfail AssertFailed
      else case host f of
        None \<Rightarrow> kfail (Perror ''open'')
      | Some ps \<Rightarrow>
          let nm = (if chr f = 95 then tl f else f) in
          kbind (mk_ialloc T_FILE) (\<lambda>inum.
          kseq (iappend rootino (mk_dirent inum nm))
          (kseq (append_pieces inum ps)
          (add_files host rootino fs))))"

fun zero_sectors :: "nat \<Rightarrow> u32 \<Rightarrow> unit MK" where
  "zero_sectors 0 i = kret ()"
| "zero_sectors (Suc n) i = kseq (wsect i (replicate BSIZE 0)) (zero_sectors n (i + 1))"

definition nmeta :: u32 where
  "nmeta = 2 + nlog + ninodeblocks + nbitmap"

definition mkfs_sb :: superblock where
  "mkfs_sb = \<lparr>sb_size = xint FSSIZE, sb_nblocks = xint (FSSIZE - nmeta), sb_ninodes = xint NINODES, sb_nlog = xint nlog,
     sb_logstart = xint 2, sb_inodestart = xint (2 + nlog), sb_bmapstart = xint (2 + nlog + ninodeblocks)\<rparr>"

definition sb_bytes :: "superblock \<Rightarrow> u8 list" where
  "sb_bytes p = bytes32 (sb_size p) @ bytes32 (sb_nblocks p) @ bytes32 (sb_ninodes p) @ bytes32 (sb_nlog p) @
     bytes32 (sb_logstart p) @ bytes32 (sb_inodestart p) @ bytes32 (sb_bmapstart p)"

definition mkfs_state0 :: mkfs_state where
  "mkfs_state0 = \<lparr>mf_img = Map.empty, mf_sb = superblock0, mf_freeinode = 1, mf_freeblock = 0\<rparr>"

text \<open>\<open>created\<close> says whether the image file could be created.\<close>

definition mkfs_main :: "bool \<Rightarrow> (u8 list \<Rightarrow> u8 list list option) \<Rightarrow> u8 list list \<Rightarrow> unit MK" where
  "mkfs_main created host argv =
     (if length argv < 2 then kfail Usage
      else if \<not> created then kfail (Perror ''open'')
      else kseq (kmod (\<lambda>s. s\<lparr>mf_sb := mkfs_sb\<rparr>))
      (kseq (kmod (\<lambda>s. s\<lparr>mf_freeblock := nmeta\<rparr>))
      (kseq (zero_sectors (unat FSSIZE) 0)
      (kseq (wsect 1 (splice (replicate BSIZE 0) 0 (sb_bytes mkfs_sb)))
      (kbind (mk_ialloc T_DIR) (\<lambda>rootino.
      if rootino \<noteq> ROOTINO then kfail AssertFailed
      else kseq (iappend rootino (mk_dirent rootino (str ''.'')))
      (kseq (iappend rootino (mk_dirent rootino (str ''..'')))
      (kseq (add_files host rootino (drop 2 argv))
      (kbind (rinode rootino) (\<lambda>din.
      let off = xint (di_size din); off = (off div of_nat BSIZE + 1) * of_nat BSIZE in
      kseq (winode rootino (din\<lparr>di_size := xint off\<rparr>))
      (kbind (kget mf_freeblock) (\<lambda>n. mk_balloc (unat n)))))))))))))"

lemma xshort_id [simp]: "xshort x = x"
  by (rule bit_eqI) (auto simp: xshort_def le16_def bit_simps)

lemma xint_id [simp]: "xint x = x"
  by (rule bit_eqI) (auto simp: xint_def bit_le32 bit_simps)

section \<open>Inodes in their blocks\<close>

lemma le32_append: "i + 4 \<le> length xs \<Longrightarrow> le32 (xs @ ys) i = le32 xs i" "le32 (xs @ ys) (length xs + i) = le32 ys i"
  by (simp_all add: le32_def nth_append)

lemma le16_append: "i + 2 \<le> length xs \<Longrightarrow> le16 (xs @ ys) i = le16 xs i" "le16 (xs @ ys) (length xs + i) = le16 ys i"
  by (simp_all add: le16_def nth_append)

lemma le_bytes: "le32 (bytes32 w) 0 = w" "le16 (bytes16 v) 0 = v"
  using xint_id [of w] xshort_id [of v] unfolding xint_def xshort_def bytes32_def bytes16_def .

lemma le32_words: "j < length as \<Longrightarrow> le32 (concat (map bytes32 as)) (4 * j) = as ! j"
proof (induction as arbitrary: j)
  case (Cons a as)
  show ?case
  proof (cases j)
    case 0
    then show ?thesis by (simp add: le32_append(1) le_bytes)
  next
    case (Suc i)
    then show ?thesis using Cons le32_append(2) [of "bytes32 a" "concat (map bytes32 as)" "4 * i"] by simp
  qed
qed simp

lemma le_splice:
  assumes "a + length bs \<le> length d"
  shows "i + 4 \<le> length bs \<Longrightarrow> le32 (splice d a bs) (a + i) = le32 bs i" "i + 2 \<le> length bs \<Longrightarrow> le16 (splice d a bs) (a + i) = le16 bs i"
  using assms by (simp_all add: le32_def le16_def nth_splice)

lemma le_splice_other:
  assumes "a + length bs \<le> length d"
  shows "i + 4 \<le> length d \<Longrightarrow> i + 4 \<le> a \<or> a + length bs \<le> i \<Longrightarrow> le32 (splice d a bs) i = le32 d i"
    "i + 2 \<le> length d \<Longrightarrow> i + 2 \<le> a \<or> a + length bs \<le> i \<Longrightarrow> le16 (splice d a bs) i = le16 d i"
  using assms by (auto simp: le32_def le16_def nth_splice)

lemma length_dinode_bytes: "length (di_addrs di) = NDIRECT + 1 \<Longrightarrow> length (dinode_bytes di) = DINODE_SIZE"
  by (simp add: dinode_bytes_def length_concat comp_def sum_list_triv NDIRECT_def DINODE_SIZE_def)

lemma dinode_bytes_fields:
  "le16 (dinode_bytes di) 0 = di_type di" "le16 (dinode_bytes di) 2 = di_major di" "le16 (dinode_bytes di) 4 = di_minor di"
  "le16 (dinode_bytes di) 6 = di_nlink di" "le32 (dinode_bytes di) 8 = di_size di"
  "j < length (di_addrs di) \<Longrightarrow> le32 (dinode_bytes di) (12 + 4 * j) = di_addrs di ! j"
proof -
  let ?w = "concat (map bytes32 (di_addrs di))"
  note b = le_bytes [unfolded bytes16_def bytes32_def]
  show "le16 (dinode_bytes di) 0 = di_type di" "le16 (dinode_bytes di) 2 = di_major di" "le16 (dinode_bytes di) 4 = di_minor di"
    "le16 (dinode_bytes di) 6 = di_nlink di"
    using b(2) by (simp_all add: dinode_bytes_def le16_def bytes16_def nth_Cons' nth_append)
  show "le32 (dinode_bytes di) 8 = di_size di"
    using b(1) by (simp add: dinode_bytes_def le32_def bytes16_def bytes32_def nth_Cons' nth_append)
  let ?h = "bytes16 (di_type di) @ bytes16 (di_major di) @ bytes16 (di_minor di) @ bytes16 (di_nlink di) @ bytes32 (di_size di)"
  have "dinode_bytes di = ?h @ ?w" "length ?h = 12" by (simp_all add: dinode_bytes_def)
  then show "j < length (di_addrs di) \<Longrightarrow> le32 (dinode_bytes di) (12 + 4 * j) = di_addrs di ! j"
    using le32_append(2) [of ?h ?w "4 * j"] by (simp add: le32_words)
qed

lemma get_put_dinode:
  assumes "length d = BSIZE" "k < 8" "length (di_addrs di) = NDIRECT + 1"
  shows "get_dinode (put_dinode d k di) k = di"
proof -
  have s: "k * DINODE_SIZE + length (dinode_bytes di) \<le> length d" using assms length_dinode_bytes [OF assms(3)] by (simp add: DINODE_SIZE_def BSIZE_def)
  have l: "length (dinode_bytes di) = 64" using length_dinode_bytes [OF assms(3)] by (simp add: DINODE_SIZE_def)
  note le = le_splice [OF s]
  have "map (\<lambda>j. le32 (put_dinode d k di) (k * DINODE_SIZE + 12 + 4 * j)) [0..<NDIRECT + 1] = di_addrs di"
  proof (rule nth_equalityI)
    fix j
    assume "j < length (map (\<lambda>j. le32 (put_dinode d k di) (k * DINODE_SIZE + 12 + 4 * j)) [0..<NDIRECT + 1])"
    then have j: "j < 13" by (simp add: NDIRECT_def)
    then have "le32 (put_dinode d k di) (k * DINODE_SIZE + (12 + 4 * j)) = di_addrs di ! j"
      using le(1) [of "12 + 4 * j"] l assms(3) dinode_bytes_fields(6) [of j di] unfolding put_dinode_def by (simp add: NDIRECT_def)
    then show "map (\<lambda>j. le32 (put_dinode d k di) (k * DINODE_SIZE + 12 + 4 * j)) [0..<NDIRECT + 1] ! j = di_addrs di ! j"
      using j by (simp add: NDIRECT_def add.assoc del: upt_Suc)
  qed (simp add: assms(3))
  moreover have "le16 (put_dinode d k di) (k * DINODE_SIZE) = di_type di" "le16 (put_dinode d k di) (k * DINODE_SIZE + 2) = di_major di"
    "le16 (put_dinode d k di) (k * DINODE_SIZE + 4) = di_minor di" "le16 (put_dinode d k di) (k * DINODE_SIZE + 6) = di_nlink di"
    "le32 (put_dinode d k di) (k * DINODE_SIZE + 8) = di_size di"
    using le(2) [of 0] le(2) [of 2] le(2) [of 4] le(2) [of 6] le(1) [of 8] l unfolding put_dinode_def by (simp_all add: dinode_bytes_fields)
  ultimately show ?thesis by (simp add: get_dinode_def Let_def)
qed

lemma get_put_dinode_other:
  assumes "length d = BSIZE" "k < 8" "j < 8" "j \<noteq> k" "length (di_addrs di) = NDIRECT + 1"
  shows "get_dinode (put_dinode d k di) j = get_dinode d j"
proof -
  have l: "length (dinode_bytes di) = 64" using length_dinode_bytes [OF assms(5)] by (simp add: DINODE_SIZE_def)
  have s: "k * DINODE_SIZE + length (dinode_bytes di) \<le> length d" using assms l by (simp add: DINODE_SIZE_def BSIZE_def)
  have o: "j * 64 + 64 \<le> k * 64 \<or> k * 64 + 64 \<le> j * 64" using assms(4) by (cases "j < k") auto
  have "le32 (put_dinode d k di) (j * DINODE_SIZE + i) = le32 d (j * DINODE_SIZE + i)" if "i + 4 \<le> 64" for i
    using le_splice_other(1) [OF s, of "j * DINODE_SIZE + i"] l o that assms(1,3) unfolding put_dinode_def by (auto simp: DINODE_SIZE_def BSIZE_def)
  moreover have "le16 (put_dinode d k di) (j * DINODE_SIZE + i) = le16 d (j * DINODE_SIZE + i)" if "i + 2 \<le> 64" for i
    using le_splice_other(2) [OF s, of "j * DINODE_SIZE + i"] l o that assms(1,3) unfolding put_dinode_def by (auto simp: DINODE_SIZE_def BSIZE_def)
  moreover from calculation(2) [of 0] have "le16 (put_dinode d k di) (j * DINODE_SIZE) = le16 d (j * DINODE_SIZE)" by simp
  moreover from calculation(2) [of 2] have "le16 (put_dinode d k di) (Suc (Suc (j * DINODE_SIZE))) = le16 d (Suc (Suc (j * DINODE_SIZE)))" by simp
  ultimately show ?thesis by (auto simp: get_dinode_def Let_def NDIRECT_def add.assoc)
qed

end
