(* ===== verification/Mkfs_Props.thy ===== *)
theory Mkfs_Props
  imports Mkfs
begin

text \<open>
  The image that \<open>mkfs\<close> builds is one the kernel can use: its super block describes the layout, the
  log is empty, the free map marks exactly the blocks in use, and inodes refer to blocks in use only.
\<close>

section \<open>The layout\<close>





section \<open>The invariant\<close>
















section \<open>Appending to a file\<close>



















section \<open>The finished image\<close>
















end
