(* ===== verification/Spec2Isabelle.thy ===== *)
theory Spec2Isabelle
  imports Sleep_Wakeup Pipe_Props Arg_Props Crash_Safety Clock_Sim Boot_Loader User_Programs User_Malloc Grep Shell_Props Mkfs_Props
begin

text \<open>
  \<^bold>\<open>A verification of the xv6 kernel with memory encryption.\<close>

  \<^bold>\<open>The program.\<close> The repository holds an xv6 kernel for 32-bit x86 (\<open>src/src/*.c\<close>) in which the user
  pages of a process are kept encrypted (every byte complemented) unless they are in the working
  set of the process. A page that is encrypted has \<open>PTE_E\<close> set and \<open>PTE_P\<close> cleared; an access to it
  faults, \<open>trap\<close> calls \<open>mdecrypt\<close>, which decrypts the page and enters it in the clock queue of the
  process (\<open>cq_enset\<close>), evicting and encrypting (\<open>mencrypt\<close>) the page under the clock hand when the
  queue of \<open>CLOCKSIZE\<close> entries is full. Around this, the kernel is xv6: spin locks, a page allocator,
  two-level page tables, processes and a round-robin scheduler with \<open>sleep\<close> and \<open>wakeup\<close>, sleeping
  locks, a buffer cache over a disk, a redo log, inodes, directories and path names, open files and
  pipes, program loading, system calls, traps, and the drivers of disk, console, keyboard, serial
  port and interrupt controllers. Beside the kernel there are a boot loader (\<open>bootmain.c\<close>), a program
  that builds the initial disk image (\<open>mkfs.c\<close>), user programs with their library (\<open>sh.c\<close>, \<open>grep.c\<close>, \<open>ulib.c\<close>
  and others) and a simulator of the clock queue (\<open>src/clock.c\<close>).

  \<^bold>\<open>The state.\<close> \<open>Kernel_State\<close> has one record \<open>kstate\<close> with a field for every global of the kernel:
  memory as a map from 32-bit addresses to bytes, the processors, the process table, the spin
  locks, the file system tables, the devices. Machine integers are words of their width. A kernel
  routine is a function from the state to an error or a result and a new state (the monad of
  \<open>Xv6_Prelude\<close>); \<open>panic\<close>, a page fault, a null dereference, an index out of bounds and a spin on a
  lock that is never released are errors of the type \<open>kerr\<close>, so that every early exit of the code is
  a branch of the model. Page tables are in memory, as words that the code and the processor
  (\<open>mmu_access\<close>) read and write. What a device answers is a function of the whole history of device
  accesses, so that a driver is proved for every device. \<open>swtch\<close> to another thread continues with the
  next state of the list \<open>resumes\<close>, an arbitrary sequence of states in which the thread may be
  resumed; a loop around \<open>sleep\<close> runs once per element, which bounds it.

  \<^bold>\<open>The theories.\<close>
  \<^item> \<open>Xv6_Prelude\<close>: the monad, words in memory, general lemmas. \<open>Mmu\<close>: \<open>mmu.h\<close>, \<open>memlayout.h\<close>, \<open>param.h\<close>.
    \<open>Fs_Types\<close>: the structures of \<open>fs.h\<close>, \<open>file.h\<close>, \<open>buf.h\<close>, \<open>stat.h\<close>. \<open>Kernel_State\<close>: \<open>proc.h\<close> and the state.
  \<^item> \<open>Spinlock\<close>: \<open>spinlock.c\<close> and \<open>mycpu\<close>, \<open>myproc\<close> of \<open>proc.c\<close>; the lock as an interleaving step relation
    (\<open>lock_step\<close>) with mutual exclusion. \<open>Kstring\<close>, \<open>Cstring\<close>: \<open>string.c\<close>. \<open>Kalloc\<close>: \<open>kalloc.c\<close>.
  \<^item> \<open>Pagetable\<close>, \<open>Vm\<close>: \<open>vm.c\<close> without encryption and the access to user memory with page faults.
    \<open>Address_Space\<close>: what an edit of one page does to the others. \<open>Mencrypt\<close>: \<open>mencrypt\<close>, \<open>mdecrypt\<close> and the
    clock queue of \<open>vm.c\<close>. \<open>Working_Set\<close>: their effect on the whole address space and the invariant
    \<open>cq_inv\<close>. \<open>Encryption_Props\<close>: the properties of encryption and of the clock, with a concrete machine.
    \<open>Kernel_Loops\<close>: no loop of these parts runs out of its bound.
  \<^item> \<open>Proc\<close>: \<open>proc.c\<close> but for the life cycle; \<open>Proc_Life\<close>: \<open>fork\<close>, \<open>exit\<close>, \<open>userinit\<close> and \<open>exec.c\<close>.
    \<open>Atomic\<close>: critical sections as atomic updates. \<open>Proc_Props\<close>: \<open>wakeup\<close>, \<open>sleep\<close>, the scheduler and
    \<open>allocproc\<close>. \<open>Sleep_Wakeup\<close>: \<open>sleep\<close> and \<open>wakeup\<close> on two processors as a step relation.
  \<^item> \<open>Sleeplock\<close>, \<open>Bio\<close>, \<open>Log\<close>, \<open>Inode\<close>, \<open>Fs\<close>, \<open>File_Pipe\<close>: \<open>sleeplock.c\<close>, \<open>memide.c\<close> and \<open>bio.c\<close>, \<open>log.c\<close>, \<open>fs.c\<close>,
    \<open>file.c\<close> and \<open>pipe.c\<close>.
  \<^item> \<open>Devices\<close>, \<open>Console\<close>: \<open>lapic.c\<close>, \<open>ioapic.c\<close>, \<open>picirq.c\<close>, \<open>mp.c\<close>, \<open>uart.c\<close>, \<open>console.c\<close>, \<open>kbd.c\<close>.
  \<^item> \<open>Syscall\<close>: \<open>syscall.c\<close>, \<open>sysproc.c\<close>, \<open>sysfile.c\<close>, \<open>trap.c\<close>.
  \<^item> \<open>User_Access\<close>, \<open>Locked_Access\<close>: the user memory of a process as a plain byte map, which the
    encrypted memory with its page faults refines. \<open>Pipe_Props\<close>: pipes as bounded queues.
    \<open>Arg_Props\<close>: system call arguments.
  \<^item> \<open>Buffer_Ring\<close>, \<open>Buffer_Cache\<close>: the linked ring of buffers and the cache as a view of the disk, with the
    invariant \<open>bc_inv\<close>. \<open>Log_Runs\<close>: the disk writes of \<open>commit\<close> and of recovery. \<open>Transactions\<close>: the blocks a
    transaction has recorded. \<open>Block_Alloc\<close>: \<open>balloc\<close> and \<open>bfree\<close> on the free map. \<open>Crash_Safety\<close>: crashes at any
    write of a commit or of a recovery (the inductive set \<open>crash_disk\<close>) and the recovery at the next boot.
  \<^item> \<open>Ide\<close>: the programmed-I/O disk driver \<open>ide.c\<close> with its request queue. \<open>Boot\<close>: \<open>main.c\<close>, \<open>panic\<close> and \<open>lapicid\<close>.
    \<open>Boot_Loader\<close>: \<open>bootmain.c\<close> and what it loads.
  \<^item> \<open>Clock_Sim\<close>: \<open>src/clock.c\<close>, whose queue implements the second-chance policy on the pages in clock order.
  \<^item> \<open>User_Lib\<close>: \<open>ulib.c\<close> and \<open>printf.c\<close>; a user program is a computation over the state of the system, which
    it reaches through a record of system calls. \<open>User_Programs\<close>: the small programs. \<open>User_Malloc\<close>:
    \<open>umalloc.c\<close> with first fit. \<open>Grep\<close>: \<open>grep.c\<close>, whose matcher decides the regular language of its pattern.
    \<open>Shell\<close>: \<open>sh.c\<close>; \<open>Shell_Props\<close>: the parser ends on every line and reads back what is written in its syntax.
  \<^item> \<open>Mkfs\<close>: \<open>mkfs.c\<close>; \<open>Mkfs_Props\<close>: the images it builds are consistent in the eyes of the kernel's own
    decoding of super block, free map and inodes.

  \<^bold>\<open>Bounds.\<close> A loop over pages has the fuel 1048577, one more than the pages of a 32-bit address
  space; the clock scan \<open>CLOCKSIZE + 1\<close>, because a page passed once has lost its reference bit; a walk
  of the buffer ring \<open>NBUF + 1\<close>; a loop around \<open>sleep\<close> one more than the states left to resume in.
  \<open>Kernel_Loops\<close> proves for the memory code that the fuel is enough. The scan of the simulator's clock
  has one round more than the queue has slots; the shell's parser has four steps for every character
  of the line, the depth of its grammar, and both are proved to be enough. How often a device is
  polled, how long the scheduler and \<open>init\<close> run and how often a program reads are parameters.

  \<^bold>\<open>Not modelled.\<close> The assembly files: what they hand over (saved registers, the thread resumed by
  \<open>swtch\<close>, the image of \<open>initcode\<close>) is a parameter or part of the state. The test programs \<open>usertests.c\<close> and
  \<open>tester1.c\<close> to \<open>tester5.c\<close>, which only call the system and compare answers. Diagnostic messages of the
  trap handler and of \<open>mkfs\<close>. In the shell, a failure of \<open>malloc\<close>.
\<close>

end
